(* ===== verification/Prelude.thy ===== *)
theory Prelude
  imports Main "HOL-Library.Word"
begin

text \<open>
  Shared vocabulary of the development: bytes and C strings, the fixed-width words the program
  uses, the hexadecimal and big-endian codecs that several stores share, and the generic facts on
  words and lists that carry the component proofs.

  A C character buffer is a list of bytes.  Reading it at an index past its end gives the
  terminating NUL, so a list without a NUL is a terminated C string, and a list as long as the
  array it stands for is an array with no terminator.  A pointer that the code compares with NULL
  is an option value.
\<close>

unbundle bit_operations_syntax

named_theorems mask_simps \<open>bit masks and shifts on words read as arithmetic on their values\<close>
named_theorems codec \<open>length and round-trip facts of the byte and text codecs\<close>

type_synonym byte = "8 word"
type_synonym bytes = "8 word list"
type_synonym u32 = "32 word"
type_synonym u64 = "64 word"

section \<open>C strings\<close>

definition str :: "string \<Rightarrow> bytes" where
  "str s = map of_char s"

definition char_at :: "bytes \<Rightarrow> nat \<Rightarrow> byte" where
  "char_at s i = (if i < length s then s ! i else 0)"

definition cstr :: "bytes \<Rightarrow> bytes" where
  "cstr s = takeWhile (\<lambda>c. c \<noteq> 0) s"

definition strlen :: "bytes \<Rightarrow> nat" where
  "strlen s = length (cstr s)"

definition terminated :: "bytes \<Rightarrow> bool" where
  "terminated s \<longleftrightarrow> 0 \<notin> set s"

text \<open>The scan \<open>for (i = 0; i < capacity; ++i) if (!text[i]) return i; return capacity;\<close>.\<close>

fun scan_nul :: "bytes \<Rightarrow> nat \<Rightarrow> nat" where
  "scan_nul s 0 = 0"
| "scan_nul [] (Suc n) = 0"
| "scan_nul (c # s) (Suc n) = (if c = 0 then 0 else Suc (scan_nul s n))"

lemma str_simps [simp]:
  "str [] = []"
  "str (c # s) = of_char c # str s"
  by (simp_all add: str_def)

lemma length_str [simp]: "length (str s) = length s"
  by (simp add: str_def)

lemma cstr_terminated [simp]: "terminated s \<Longrightarrow> cstr s = s"
  by (auto simp: cstr_def terminated_def takeWhile_eq_all_conv)

lemma terminated_cstr [simp]: "terminated (cstr s)"
  by (auto simp: cstr_def terminated_def dest: set_takeWhileD)

lemma strlen_terminated [simp]: "terminated s \<Longrightarrow> strlen s = length s"
  by (simp add: strlen_def)

lemma terminated_simps [simp]:
  "terminated []"
  "terminated (c # s) \<longleftrightarrow> c \<noteq> 0 \<and> terminated s"
  "terminated (s @ t) \<longleftrightarrow> terminated s \<and> terminated t"
  by (auto simp: terminated_def)

lemma scan_nul_le: "scan_nul s n \<le> n"
  by (induction s n rule: scan_nul.induct) auto

lemma scan_nul_eq: "scan_nul s n = min n (strlen s)"
  by (induction s n rule: scan_nul.induct) (auto simp: strlen_def cstr_def)

lemma scan_nul_terminated: "terminated s \<Longrightarrow> scan_nul s n = min n (length s)"
  by (simp add: scan_nul_eq)

lemma take_strlen: "take (strlen s) s = cstr s"
  by (simp add: strlen_def cstr_def takeWhile_eq_take [symmetric])

lemma char_at_simps [simp]:
  "char_at [] i = 0"
  "char_at (c # s) 0 = c"
  "char_at (c # s) (Suc i) = char_at s i"
  by (simp_all add: char_at_def)

text \<open>A number in decimal digits, as \<open>snprintf\<close> writes it.\<close>

fun decimal_text :: "nat \<Rightarrow> bytes" where
  "decimal_text n = (if n < 10 then [word_of_nat (48 + n)] else decimal_text (n div 10) @ [word_of_nat (48 + n mod 10)])"

declare decimal_text.simps [simp del]

section \<open>Words\<close>

lemma and_high_bits: "(x :: 'a::len word) AND NOT (mask n) = push_bit n (drop_bit n x)"
  by (rule bit_word_eqI) (auto simp: bit_simps)

lemma unat_and_mask: "unat ((x :: 'a::len word) AND mask n) = unat x mod 2 ^ n"
  by (simp only: unsigned_take_bit_eq take_bit_eq_mod [symmetric] take_bit_eq_mask [symmetric])

lemma unat_drop_bit: "unat (drop_bit n (x :: 'a::len word)) = unat x div 2 ^ n"
  by (rule bit_eqI) (auto simp: bit_simps drop_bit_eq_div [symmetric])

lemma unat_and_high: "unat ((x :: 'a::len word) AND NOT (mask n)) = unat x div 2 ^ n * 2 ^ n"
proof -
  have "unat x div 2 ^ n * 2 ^ n \<le> unat x" by (metis div_times_less_eq_dividend)
  also have "\<dots> < 2 ^ LENGTH('a)" by (rule unsigned_less)
  finally have "take_bit LENGTH('a) (unat x div 2 ^ n * 2 ^ n) = unat x div 2 ^ n * 2 ^ n"
    by (simp add: take_bit_nat_eq_self)
  then show ?thesis
    unfolding and_high_bits unsigned_push_bit_eq unat_drop_bit by (simp add: push_bit_eq_mult)
qed

lemma byte_and_high:
  fixes c :: byte
  shows "unat (c AND 0xc0) = unat c div 64 * 64"
    and "unat (c AND 0xe0) = unat c div 32 * 32"
    and "unat (c AND 0xf0) = unat c div 16 * 16"
    and "unat (c AND 0xf8) = unat c div 8 * 8"
proof -
  have m: "NOT (mask 6) = (0xc0 :: byte)" "NOT (mask 5) = (0xe0 :: byte)"
    "NOT (mask 4) = (0xf0 :: byte)" "NOT (mask 3) = (0xf8 :: byte)"
    by (simp_all add: mask_eq_exp_minus_1)
  show "unat (c AND 0xc0) = unat c div 64 * 64" using unat_and_high [of c 6, unfolded m] by simp
  show "unat (c AND 0xe0) = unat c div 32 * 32" using unat_and_high [of c 5, unfolded m] by simp
  show "unat (c AND 0xf0) = unat c div 16 * 16" using unat_and_high [of c 4, unfolded m] by simp
  show "unat (c AND 0xf8) = unat c div 8 * 8" using unat_and_high [of c 3, unfolded m] by simp
qed

lemma byte_and_low:
  fixes c :: byte
  shows "unat (c AND 0x3f) = unat c mod 64"
    and "unat (c AND 0x1f) = unat c mod 32"
    and "unat (c AND 0x0f) = unat c mod 16"
    and "unat (c AND 0x07) = unat c mod 8"
  using unat_and_mask [of c 6] unat_and_mask [of c 5] unat_and_mask [of c 4] unat_and_mask [of c 3]
  by (simp_all add: mask_eq_exp_minus_1)

lemma top_bits_10: "(c :: byte) AND 0xc0 = 0x80 \<longleftrightarrow> unat c div 64 = 2"
  by (simp add: word_unat_eq_iff byte_and_high)
lemma byte_less [simp]: "unat (c :: byte) < 256"
  using unsigned_less [of c] by simp

lemma unat_ucast_byte [simp]: "unat (ucast (b :: byte) :: u32) = unat b"
  by (simp add: unsigned_ucast_eq take_bit_nat_eq_self less_trans [OF byte_less])

lemma xor_right_cancel: "(a :: 'a::len word) XOR k = b XOR k \<longleftrightarrow> a = b"
  by (metis xor.assoc xor_self_eq xor.right_neutral)

lemma xor_left_cancel: "k XOR (a :: 'a::len word) = k XOR b \<longleftrightarrow> a = b"
  by (simp add: xor.commute [of k] xor_right_cancel)

lemma unat_ucast_byte_u64 [simp]: "unat (ucast (b :: byte) :: u64) = unat b"
  by (simp add: unsigned_ucast_eq take_bit_nat_eq_self less_trans [OF byte_less])

lemma ucast_byte_inj: "(ucast (a :: byte) :: u64) = ucast b \<longleftrightarrow> a = b"
  by (metis unat_ucast_byte_u64 word_unat_eq_iff)

lemma unat_or_disjoint: 
  fixes v w :: "'a::len word"
  assumes "unat v < 2 ^ (LENGTH('a) - n)" "unat w < 2 ^ n" "n < LENGTH('a)"
  shows "unat (push_bit n v OR w) = unat v * 2 ^ n + unat w"
proof -
  have "push_bit n v AND w = 0"
  proof (rule bit_eqI)
    fix i
    have "w = take_bit n w" using assms(2) 
      by (metis take_bit_nat_eq_self unsigned_take_bit_eq word_unat_eq_iff)
    then have "bit w i \<Longrightarrow> i < n" by (metis bit_take_bit_iff)
    then show "bit (push_bit n v AND w) i = bit 0 i" by (auto simp: bit_simps)
  qed
  then have "push_bit n v OR w = push_bit n v + w" by (simp add: disjunctive_add_eq_or)
  moreover have "unat (push_bit n v) = unat v * 2 ^ n"
  proof -
    have "unat v * 2 ^ n < 2 ^ (LENGTH('a) - n) * 2 ^ n" using assms(1) by simp
    also have "\<dots> = 2 ^ LENGTH('a)" using assms(3) by (simp flip: power_add)
    finally have "take_bit LENGTH('a) (unat v * 2 ^ n) = unat v * 2 ^ n"
      by (simp add: take_bit_nat_eq_self)
    then show ?thesis unfolding unsigned_push_bit_eq by (simp add: push_bit_eq_mult)
  qed
  moreover have "unat v * 2 ^ n + unat w < 2 ^ LENGTH('a)" 
  proof -
    have "Suc (unat v) * 2 ^ n \<le> 2 ^ (LENGTH('a) - n) * 2 ^ n" using assms(1) by (intro mult_right_mono) auto
    also have "\<dots> = 2 ^ LENGTH('a)" using assms(3) by (simp flip: power_add)
    finally show ?thesis using assms(2) by simp
  qed
  ultimately show ?thesis by (simp add: unat_plus_if')
qed

section \<open>Hexadecimal digits\<close>
definition hex_digit :: "nat \<Rightarrow> byte" where
  "hex_digit n = char_at (str ''0123456789abcdef'') n"
definition hex_value :: "byte \<Rightarrow> nat option" where
  "hex_value c =
     (if of_char CHR ''0'' \<le> c \<and> c \<le> of_char CHR ''9'' then Some (unat c - 48)
      else if of_char CHR ''a'' \<le> c \<and> c \<le> of_char CHR ''f'' then Some (unat c - 97 + 10)
      else None)"
definition lower_hex :: "byte \<Rightarrow> bool" where
  "lower_hex c \<longleftrightarrow> (of_char CHR ''0'' \<le> c \<and> c \<le> of_char CHR ''9'') \<or> (of_char CHR ''a'' \<le> c \<and> c \<le> of_char CHR ''f'')"

lemma nibble_cases: "n < 16 \<Longrightarrow> n \<in> {0, 1, 2, 3, 4, 5, 6, 7, 8, 9, 10, 11, 12, 13, 14, 15 :: nat}"
  by (simp only: insert_iff empty_iff) arith

lemma lower_hex_digit [codec]: "n < 16 \<Longrightarrow> lower_hex (hex_digit n)"
  by (drule nibble_cases) (auto simp: lower_hex_def hex_digit_def char_at_def)
lemma hex_value_digit [codec]: "n < 16 \<Longrightarrow> hex_value (hex_digit n) = Some n"
  by (drule nibble_cases) (auto simp: hex_value_def hex_digit_def char_at_def)
lemma hex_value_lower: "hex_value c \<noteq> None \<longleftrightarrow> lower_hex c"
  by (auto simp: hex_value_def lower_hex_def)

section \<open>Big-endian 32-bit integers\<close>
definition load_be32 :: "bytes \<Rightarrow> u32" where
  "load_be32 p = push_bit 24 (ucast (char_at p 0)) OR push_bit 16 (ucast (char_at p 1)) OR
     push_bit 8 (ucast (char_at p 2)) OR ucast (char_at p 3)"
definition store_be32 :: "u32 \<Rightarrow> bytes" where
  "store_be32 v = [ucast (drop_bit 24 v), ucast (drop_bit 16 v), ucast (drop_bit 8 v), ucast v]"

lemma length_store_be32 [simp]: "length (store_be32 v) = 4"
  by (simp add: store_be32_def)

lemma load_store_be32 [codec]: "load_be32 (store_be32 v @ rest) = v"
proof -
  have "load_be32 (store_be32 v @ rest) = push_bit 24 (ucast (ucast (drop_bit 24 v) :: byte)) OR
     push_bit 16 (ucast (ucast (drop_bit 16 v) :: byte)) OR push_bit 8 (ucast (ucast (drop_bit 8 v) :: byte)) OR ucast (ucast v :: byte)"
    by (simp add: load_be32_def store_be32_def char_at_def)
  also have "\<dots> = v"
  proof (rule bit_eqI)
    fix i :: nat
    consider "i < 8" | "8 \<le> i" "i < 16" | "16 \<le> i" "i < 24" | "24 \<le> i" by linarith
    then show "bit ((push_bit 24 (ucast (ucast (drop_bit 24 v) :: byte)) OR
        push_bit 16 (ucast (ucast (drop_bit 16 v) :: byte)) OR
        push_bit 8 (ucast (ucast (drop_bit 8 v) :: byte)) OR ucast (ucast v :: byte)) :: u32) i =
        bit v i"
      by cases (auto simp: bit_simps dest: bit_imp_le_length)
  qed
  finally show ?thesis .
qed

lemma ucast_load_be32:
  fixes a b c d :: byte
  defines "w \<equiv> push_bit 24 (ucast a) OR push_bit 16 (ucast b) OR push_bit 8 (ucast c) OR ucast d :: u32"
  shows "ucast (drop_bit 24 w) = a" "ucast (drop_bit 16 w) = b" "ucast (drop_bit 8 w) = c" "ucast w = d"
  unfolding w_def by (rule bit_word_eqI; auto simp: bit_simps dest: bit_imp_le_length)+

lemma be32_split: "4 \<le> length p \<Longrightarrow> \<exists>a b c d rest. p = a # b # c # d # rest"
  by (auto simp: Suc_le_length_iff numeral_eq_Suc)

lemma load_be32_Cons:
  "load_be32 (a # b # c # d # rest) =
     push_bit 24 (ucast a) OR push_bit 16 (ucast b) OR push_bit 8 (ucast c) OR ucast d"
  by (simp add: load_be32_def char_at_def)

lemma store_load_be32 [codec]:
  assumes "4 \<le> length p"
  shows "store_be32 (load_be32 p) = take 4 p"
proof -
  obtain a b c d rest where p: "p = a # b # c # d # rest" using be32_split [OF assms] by blast
  have "store_be32 (load_be32 p) = [a, b, c, d]"
    unfolding p load_be32_Cons store_be32_def by (simp only: ucast_load_be32)
  also have "\<dots> = take 4 p" by (simp add: p)
  finally show ?thesis .
qed

lemma load_be32_append: "4 \<le> length p \<Longrightarrow> load_be32 (p @ q) = load_be32 p"
  by (drule be32_split) (auto simp: load_be32_Cons)

lemma store_be32_inj: "store_be32 v = store_be32 w \<longleftrightarrow> v = w"
  by (metis load_store_be32)

end
