(* ===== verification/Text_Input.thy ===== *)
theory Text_Input
  imports Prelude "HOL-Library.Signed_Division"
begin

text \<open>
  The text field and on-screen keyboard of the account setup, src/ui/account_text_input.c.

  The field edits a caller's character array in place, so the array is part of the state: a list of
  all its bytes, moved by \<open>memmove\<close>.  The flags the code only tests are booleans.  A NULL pointer is
  \<open>None\<close>.
\<close>

section \<open>Types\<close>

datatype cn_account_text_result =
  CN_ACCOUNT_TEXT_UNCHANGED | CN_ACCOUNT_TEXT_CHANGED | CN_ACCOUNT_TEXT_FULL | CN_ACCOUNT_TEXT_INVALID
  | CN_ACCOUNT_TEXT_DONE

record cn_account_text_input =
  text_bytes :: "bytes option"
  text_capacity :: nat
  text_length :: nat
  cursor :: nat
  cursor_enabled :: bool
  symbols :: bool
  shifted :: bool
  selection :: int

datatype cn_account_text_key_kind =
  CN_ACCOUNT_TEXT_KEY_INVALID | CN_ACCOUNT_TEXT_KEY_CHARACTER | CN_ACCOUNT_TEXT_KEY_SHIFT
  | CN_ACCOUNT_TEXT_KEY_SYMBOLS | CN_ACCOUNT_TEXT_KEY_BACKSPACE | CN_ACCOUNT_TEXT_KEY_CURSOR_LEFT
  | CN_ACCOUNT_TEXT_KEY_CURSOR_RIGHT | CN_ACCOUNT_TEXT_KEY_DONE

record cn_account_text_key =
  kind :: cn_account_text_key_kind
  character :: byte
  label :: "bytes option"

definition key_rows :: int where "key_rows = 5"
definition key_columns :: int where "key_columns = 10"
definition selection_stride :: int where "selection_stride = 16"

definition lower_rows :: "bytes list" where
  "lower_rows = [str ''1234567890'', str ''qwertyuiop'', str ''asdfghjkl'']"

definition upper_rows :: "bytes list" where
  "upper_rows = [str ''1234567890'', str ''QWERTYUIOP'', str ''ASDFGHJKL'']"

definition symbol_rows :: "bytes list" where
  "symbol_rows = [str ''1234567890'', str ''+-=^_@#$%&'', str ''!?:;'' @ [39] @ str ''\"()*'' @ [96]]"

definition memmove :: "nat \<Rightarrow> nat \<Rightarrow> nat \<Rightarrow> bytes \<Rightarrow> bytes" where
  "memmove to from' n buffer = take to buffer @ take n (drop from' buffer) @ drop (to + n) buffer"

section \<open>The field\<close>

definition cn_account_text_init :: "cn_account_text_input option \<Rightarrow> bytes option \<Rightarrow> nat \<Rightarrow> cn_account_text_input option" where
  "cn_account_text_init in' bytes' capacity = map_option (\<lambda>_.
     \<lparr>text_bytes = (case bytes' of None \<Rightarrow> None | Some b \<Rightarrow> Some (if capacity \<noteq> 0 then b[0 := 0] else b)),
      text_capacity = capacity, text_length = 0, cursor = 0, cursor_enabled = True, symbols = False,
      shifted = False, selection = 0\<rparr>) in'"

definition cn_account_text_set_cursor_enabled ::
  "cn_account_text_input option \<Rightarrow> int \<Rightarrow> cn_account_text_input option" where
  "cn_account_text_set_cursor_enabled in' enabled = map_option (\<lambda>i.
     let i = i\<lparr>cursor_enabled := enabled \<noteq> 0\<rparr>
     in if cursor_enabled i then i else i\<lparr>cursor := text_length i\<rparr>) in'"

definition cn_account_text_append ::
  "cn_account_text_input option \<Rightarrow> byte \<Rightarrow> cn_account_text_result \<times> cn_account_text_input option" where
  "cn_account_text_append in' byte' = (case in' of None \<Rightarrow> (CN_ACCOUNT_TEXT_INVALID, None)
     | Some i \<Rightarrow>
     if text_bytes i = None \<or> text_capacity i = 0 \<or> byte' < 0x20 \<or> byte' > 0x7e
     then (CN_ACCOUNT_TEXT_INVALID, Some i)
     else let i = (if \<not> cursor_enabled i then i\<lparr>cursor := text_length i\<rparr> else i) in
     if cursor i > text_length i then (CN_ACCOUNT_TEXT_INVALID, Some i)
     else if text_length i + 1 \<ge> text_capacity i then (CN_ACCOUNT_TEXT_FULL, Some i)
     else let moved = memmove (cursor i + 1) (cursor i) (text_length i - cursor i + 1) (the (text_bytes i))
     in (CN_ACCOUNT_TEXT_CHANGED, Some (i\<lparr>text_bytes := Some (moved[cursor i := byte']), cursor := cursor i + 1,
          text_length := text_length i + 1\<rparr>)))"

definition cn_account_text_erase ::
  "cn_account_text_input option \<Rightarrow> cn_account_text_result \<times> cn_account_text_input option" where
  "cn_account_text_erase in' = (case in' of None \<Rightarrow> (CN_ACCOUNT_TEXT_INVALID, None)
     | Some i \<Rightarrow>
     if text_bytes i = None \<or> cursor i > text_length i then (CN_ACCOUNT_TEXT_INVALID, Some i)
     else let i = (if \<not> cursor_enabled i then i\<lparr>cursor := text_length i\<rparr> else i) in
     if cursor i = 0 then (CN_ACCOUNT_TEXT_UNCHANGED, Some i)
     else let moved = memmove (cursor i - 1) (cursor i) (text_length i - cursor i + 1) (the (text_bytes i))
     in (CN_ACCOUNT_TEXT_CHANGED, Some (i\<lparr>text_bytes := Some moved, cursor := cursor i - 1,
          text_length := text_length i - 1\<rparr>)))"

definition cn_account_text_set_cursor ::
  "cn_account_text_input option \<Rightarrow> nat \<Rightarrow> int \<times> cn_account_text_input option" where
  "cn_account_text_set_cursor in' position = (case in' of None \<Rightarrow> (0, None)
     | Some i \<Rightarrow>
     if \<not> cursor_enabled i \<or> position > text_length i then (0, Some i)
     else if cursor i = position then (0, Some i)
     else (1, Some (i\<lparr>cursor := position\<rparr>)))"

definition cn_account_text_move_cursor ::
  "cn_account_text_input option \<Rightarrow> int \<Rightarrow> int \<times> cn_account_text_input option" where
  "cn_account_text_move_cursor in' step = (case in' of None \<Rightarrow> (0, None)
     | Some i \<Rightarrow>
     if \<not> cursor_enabled i \<or> step = 0 then (0, Some i)
     else if step < 0 then
       (if cursor i = 0 then (0, Some i) else (1, Some (i\<lparr>cursor := cursor i - 1\<rparr>)))
     else if cursor i \<ge> text_length i then (0, Some i)
     else (1, Some (i\<lparr>cursor := cursor i + 1\<rparr>)))"

definition cn_account_text_toggle_shift :: "cn_account_text_input option \<Rightarrow> cn_account_text_input option" where
  "cn_account_text_toggle_shift in' = map_option (\<lambda>i. i\<lparr>shifted := \<not> shifted i\<rparr>) in'"

definition cn_account_text_toggle_symbols :: "cn_account_text_input option \<Rightarrow> cn_account_text_input option" where
  "cn_account_text_toggle_symbols in' = map_option (\<lambda>i. i\<lparr>symbols := \<not> symbols i, shifted := False\<rparr>) in'"

definition cn_account_text_window_start :: "cn_account_text_input option \<Rightarrow> nat \<Rightarrow> nat" where
  "cn_account_text_window_start in' visible = (case in' of None \<Rightarrow> 0
     | Some i \<Rightarrow>
     if text_length i \<le> visible then 0
     else let start = (if cursor i > visible then cursor i - visible else 0)
     in if start + visible > text_length i then text_length i - visible else start)"

section \<open>The keyboard\<close>

definition blank_key :: cn_account_text_key where
  "blank_key = \<lparr>kind = CN_ACCOUNT_TEXT_KEY_INVALID, character = 0, label = None\<rparr>"

definition character_key :: "cn_account_text_key \<Rightarrow> byte \<Rightarrow> cn_account_text_key" where
  "character_key key c = key\<lparr>kind := CN_ACCOUNT_TEXT_KEY_CHARACTER, character := c,
     label := (if c = 0x20 then Some (str ''SPACE'') else None)\<rparr>"

definition control_key :: "cn_account_text_key_kind \<Rightarrow> bytes \<Rightarrow> cn_account_text_key" where
  "control_key k l = blank_key\<lparr>kind := k, label := Some l\<rparr>"

text \<open>The key at a place: \<open>None\<close> is the answer 0.  The output pointer of the code is never NULL here.\<close>

definition cn_account_text_key_at :: "cn_account_text_input option \<Rightarrow> int \<Rightarrow> int \<Rightarrow> cn_account_text_key option" where
  "cn_account_text_key_at in' row column = (case in' of None \<Rightarrow> None
     | Some i \<Rightarrow>
     if row < 0 \<or> row \<ge> key_rows \<or> column < 0 \<or> column \<ge> key_columns then None
     else if row < 3 then
       (let row_chars = (if symbols i then symbol_rows ! nat row
          else if shifted i then upper_rows ! nat row else lower_rows ! nat row)
        in if nat column \<ge> length row_chars then None
           else Some (character_key blank_key (row_chars ! nat column)))
     else if \<not> symbols i \<and> row = 3 then
       (if column = 0 then Some (control_key CN_ACCOUNT_TEXT_KEY_SHIFT (str ''SHIFT''))
        else if column \<ge> 1 \<and> column \<le> 7 then
          (let c = str ''zxcvbnm'' ! nat (column - 1)
           in Some (character_key blank_key (if shifted i then c - of_char CHR ''a'' + of_char CHR ''A'' else c)))
        else if column = 8 then Some (control_key CN_ACCOUNT_TEXT_KEY_BACKSPACE (str ''DEL''))
        else None)
     else if symbols i \<and> row = 3 then
       (if column \<ge> 0 \<and> column \<le> 8 then
          Some (character_key blank_key ((str ''[]{}<>'' @ [92] @ str ''|~'') ! nat column))
        else if column = 9 then Some (control_key CN_ACCOUNT_TEXT_KEY_BACKSPACE (str ''DEL''))
        else None)
     else if row = 4 then
       (if column = 0 then
          Some (control_key CN_ACCOUNT_TEXT_KEY_SYMBOLS (if symbols i then str ''ABC'' else str ''#+=''))
        else if column = 1 then Some (character_key blank_key (of_char CHR ''/''))
        else if column = 2 \<and> cursor_enabled i then
          Some (control_key CN_ACCOUNT_TEXT_KEY_CURSOR_LEFT [0xe2, 0x86, 0x90])
        else if column = 3 then Some (character_key blank_key 0x20)
        else if column = 4 \<and> cursor_enabled i then
          Some (control_key CN_ACCOUNT_TEXT_KEY_CURSOR_RIGHT [0xe2, 0x86, 0x92])
        else if column = 5 then
          Some (character_key blank_key (if symbols i then of_char CHR '','' else of_char CHR ''.''))
        else if column = 6 then Some (control_key CN_ACCOUNT_TEXT_KEY_DONE (str ''DONE''))
        else None)
     else None)"

definition cn_account_text_selection :: "cn_account_text_input option \<Rightarrow> int" where
  "cn_account_text_selection in' = (case in' of None \<Rightarrow> -1 | Some i \<Rightarrow> selection i)"

definition cn_account_text_select ::
  "cn_account_text_input option \<Rightarrow> int \<Rightarrow> int \<Rightarrow> int \<times> cn_account_text_input option" where
  "cn_account_text_select in' row column = (case in' of None \<Rightarrow> (-1, None)
     | Some i \<Rightarrow>
     if cn_account_text_key_at in' row column = None then (-1, in')
     else let i = i\<lparr>selection := row * selection_stride + column\<rparr> in (selection i, Some i))"

text \<open>The search of the next key, at most once around, with C division.\<close>

fun move_loop :: "nat \<Rightarrow> int \<Rightarrow> cn_account_text_input \<Rightarrow> cn_account_text_input" where
  "move_loop 0 step i = i"
| "move_loop (Suc tries) step i =
     (let total = key_rows * selection_stride;
          i = i\<lparr>selection := (selection i + (if step > 0 then 1 else total - 1)) smod total\<rparr>;
          row = selection i sdiv selection_stride;
          col = selection i smod selection_stride
      in if cn_account_text_key_at (Some i) row col \<noteq> None then i else move_loop tries step i)"

definition cn_account_text_move :: "cn_account_text_input option \<Rightarrow> int \<Rightarrow> int \<times> cn_account_text_input option" where
  "cn_account_text_move in' step = (case in' of None \<Rightarrow> (-1, None)
     | Some i \<Rightarrow>
     if step = 0 then (selection i, Some i)
     else let i = move_loop (nat (key_rows * selection_stride)) step i in (selection i, Some i))"

definition letter :: "byte \<Rightarrow> bool" where
  "letter c \<longleftrightarrow> (of_char CHR ''a'' \<le> c \<and> c \<le> of_char CHR ''z'') \<or> (of_char CHR ''A'' \<le> c \<and> c \<le> of_char CHR ''Z'')"

definition cn_account_text_activate ::
  "cn_account_text_input option \<Rightarrow> cn_account_text_result \<times> cn_account_text_input option" where
  "cn_account_text_activate in' = (case in' of None \<Rightarrow> (CN_ACCOUNT_TEXT_INVALID, None)
     | Some i \<Rightarrow>
     if selection i < 0 \<or> selection i \<ge> key_rows * selection_stride then (CN_ACCOUNT_TEXT_INVALID, in')
     else (case cn_account_text_key_at in' (selection i sdiv selection_stride) (selection i smod selection_stride) of
       None \<Rightarrow> (CN_ACCOUNT_TEXT_UNCHANGED, in')
     | Some key \<Rightarrow>
         (case kind key of
            CN_ACCOUNT_TEXT_KEY_CHARACTER \<Rightarrow>
              (case cn_account_text_append in' (character key) of
                 (result, in') \<Rightarrow>
                   if result = CN_ACCOUNT_TEXT_CHANGED \<and> shifted (the in') \<and> letter (character key)
                   then (result, Some ((the in')\<lparr>shifted := False\<rparr>)) else (result, in'))
          | CN_ACCOUNT_TEXT_KEY_SHIFT \<Rightarrow> (CN_ACCOUNT_TEXT_CHANGED, cn_account_text_toggle_shift in')
          | CN_ACCOUNT_TEXT_KEY_SYMBOLS \<Rightarrow> (CN_ACCOUNT_TEXT_CHANGED, cn_account_text_toggle_symbols in')
          | CN_ACCOUNT_TEXT_KEY_BACKSPACE \<Rightarrow> cn_account_text_erase in'
          | CN_ACCOUNT_TEXT_KEY_CURSOR_LEFT \<Rightarrow>
              (case cn_account_text_move_cursor in' (-1) of (moved, in') \<Rightarrow>
                 (if moved \<noteq> 0 then CN_ACCOUNT_TEXT_CHANGED else CN_ACCOUNT_TEXT_UNCHANGED, in'))
          | CN_ACCOUNT_TEXT_KEY_CURSOR_RIGHT \<Rightarrow>
              (case cn_account_text_move_cursor in' 1 of (moved, in') \<Rightarrow>
                 (if moved \<noteq> 0 then CN_ACCOUNT_TEXT_CHANGED else CN_ACCOUNT_TEXT_UNCHANGED, in'))
          | CN_ACCOUNT_TEXT_KEY_DONE \<Rightarrow> (CN_ACCOUNT_TEXT_DONE, in')
          | CN_ACCOUNT_TEXT_KEY_INVALID \<Rightarrow> (CN_ACCOUNT_TEXT_UNCHANGED, in'))))"


section \<open>The invariant\<close>

text \<open>What is in the field, and that it stands terminated inside its array with the cursor in it.\<close>

definition content :: "cn_account_text_input \<Rightarrow> bytes" where
  "content i = take (text_length i) (the (text_bytes i))"

definition printable :: "byte \<Rightarrow> bool" where
  "printable c \<longleftrightarrow> 0x20 \<le> c \<and> c \<le> 0x7e"

definition editor_ok :: "cn_account_text_input \<Rightarrow> bool" where
  "editor_ok i \<longleftrightarrow> (\<exists>b. text_bytes i = Some b \<and> length b = text_capacity i \<and> b ! text_length i = 0) \<and>
     text_length i < text_capacity i \<and> cursor i \<le> text_length i \<and> list_all printable (content i) \<and>
     (cursor_enabled i \<or> cursor i = text_length i) \<and> 0 \<le> selection i \<and> selection i < 80"

lemma insert_move:
  fixes c :: byte
  assumes "length b = n" "k \<le> l" "l + 1 < n" "b ! l = 0"
  defines "m \<equiv> (memmove (k + 1) k (l - k + 1) b)[k := c]"
  shows "length m = n" and "m ! (l + 1) = 0" and "take (l + 1) m = take k b @ c # drop k (take l b)"
proof -
  have m: "m = take k b @ c # take (l - k) (drop k b) @ 0 # drop (l + 2) b"
  proof -
    have "take (l - k + 1) (drop k b) = take (l - k) (drop k b) @ [0]"
      using assms(1-4) by (simp add: take_Suc_conv_app_nth)
    moreover have "take (k + 1) b = take k b @ [b ! k]" using assms(1-3) by (simp add: take_Suc_conv_app_nth)
    ultimately show ?thesis using assms(1-3) by (simp add: m_def memmove_def list_update_append)
  qed
  have len: "length (take k b @ c # take (l - k) (drop k b)) = l + 1" using assms(1-3) by simp
  show "length m = n" using assms(1-3) by (simp add: m)
  define front where "front = take k b @ c # take (l - k) (drop k b)"
  have m': "m = front @ 0 # drop (l + 2) b" "length front = l + 1" using len by (simp_all add: m front_def)
  show "m ! (l + 1) = 0" by (simp add: m'(1) nth_append m'(2))
  have "take (l + 1) m = front" by (simp add: m'(1) m'(2))
  then have "take (l + 1) m = take k b @ c # take (l - k) (drop k b)" by (simp add: front_def)
  then show "take (l + 1) m = take k b @ c # drop k (take l b)" by (simp add: drop_take)
qed

lemma delete_move:
  assumes "length b = n" "0 < k" "k \<le> l" "l < n" "b ! l = 0"
  defines "m \<equiv> memmove (k - 1) k (l - k + 1) b"
  shows "length m = n" and "m ! (l - 1) = 0" and "take (l - 1) m = take (k - 1) b @ drop k (take l b)"
proof -
  have "take (l - k + 1) (drop k b) = take (l - k) (drop k b) @ [0]"
    using assms(1-5) by (simp add: take_Suc_conv_app_nth)
  then have m': "m = (take (k - 1) b @ take (l - k) (drop k b)) @ 0 # drop l b"
    using assms(1-4) by (simp add: m_def memmove_def)
  show "length m = n" using assms(1-4) by (simp add: m')
  define front where "front = take (k - 1) b @ take (l - k) (drop k b)"
  have f: "m = front @ 0 # drop l b" "length front = l - 1" using assms(1-4) by (simp_all add: m' front_def)
  show "m ! (l - 1) = 0" by (simp add: f(1) nth_append f(2))
  have "take (l - 1) m = front" by (simp add: f(1) f(2))
  then have "take (l - 1) m = take (k - 1) b @ take (l - k) (drop k b)" by (simp add: front_def)
  then show "take (l - 1) m = take (k - 1) b @ drop k (take l b)" by (simp add: drop_take)
qed

text \<open>Typing and erasing, as edits of the text around the cursor.\<close>

lemma append_effect:
  assumes "editor_ok i" "printable c" "text_length i + 1 < text_capacity i"
  shows "\<exists>i'. cn_account_text_append (Some i) c = (CN_ACCOUNT_TEXT_CHANGED, Some i') \<and> editor_ok i' \<and>
    content i' = take (cursor i) (content i) @ c # drop (cursor i) (content i) \<and> cursor i' = cursor i + 1 \<and>
    cursor_enabled i' = cursor_enabled i \<and> symbols i' = symbols i \<and> shifted i' = shifted i \<and>
    text_capacity i' = text_capacity i \<and> text_length i' = text_length i + 1 \<and> selection i' = selection i"
proof -
  obtain b where b: "text_bytes i = Some b" "length b = text_capacity i" "b ! text_length i = 0"
    using assms(1) by (auto simp: editor_ok_def)
  have c: "cursor i \<le> text_length i" "text_length i < text_capacity i" "cursor_enabled i \<or> cursor i = text_length i"
    "list_all printable (take (text_length i) b)" "0 \<le> selection i" "selection i < 80"
    using assms(1) b(1) by (auto simp: editor_ok_def content_def)
  have n: "(if \<not> cursor_enabled i then i\<lparr>cursor := text_length i\<rparr> else i) = i" using c(3) by (cases i) auto
  note m = insert_move [OF b(2) c(1) assms(3) b(3), of c]
  have tk: "take (cursor i) b = take (cursor i) (take (text_length i) b)" using c(1) by (simp add: min_def)
  have p: "list_all printable (take (cursor i) b)" "list_all printable (drop (cursor i) (take (text_length i) b))"
    using c(4) set_take_subset_set_take [OF c(1), of b] by (auto simp: list_all_iff dest: in_set_dropD)
  show ?thesis
    using assms(2,3) b c m p n
    by (simp add: cn_account_text_append_def Let_def editor_ok_def content_def printable_def tk [symmetric] not_le [symmetric])
qed

lemma erase_effect:
  assumes "editor_ok i" "0 < cursor i"
  shows "\<exists>i'. cn_account_text_erase (Some i) = (CN_ACCOUNT_TEXT_CHANGED, Some i') \<and> editor_ok i' \<and>
    content i' = take (cursor i - 1) (content i) @ drop (cursor i) (content i) \<and> cursor i' = cursor i - 1 \<and>
    cursor_enabled i' = cursor_enabled i \<and> symbols i' = symbols i \<and> shifted i' = shifted i \<and>
    text_capacity i' = text_capacity i \<and> text_length i' = text_length i - 1 \<and> selection i' = selection i"
proof -
  obtain b where b: "text_bytes i = Some b" "length b = text_capacity i" "b ! text_length i = 0"
    using assms(1) by (auto simp: editor_ok_def)
  have c: "cursor i \<le> text_length i" "text_length i < text_capacity i" "cursor_enabled i \<or> cursor i = text_length i"
    "list_all printable (take (text_length i) b)" "0 \<le> selection i" "selection i < 80"
    using assms(1) b(1) by (auto simp: editor_ok_def content_def)
  have n: "(if \<not> cursor_enabled i then i\<lparr>cursor := text_length i\<rparr> else i) = i" using c(3) by (cases i) auto
  note m = delete_move [OF b(2) assms(2) c(1,2) b(3)]
  have tk: "take (cursor i - 1) b = take (cursor i - 1) (take (text_length i) b)"
    using c(1) by (simp add: min_absorb1)
  have le: "cursor i - 1 \<le> text_length i" using c(1) by simp
  have p: "list_all printable (take (cursor i - 1) b)" "list_all printable (drop (cursor i) (take (text_length i) b))"
    using c(4) set_take_subset_set_take [OF le, of b] by (auto simp: list_all_iff dest: in_set_dropD)
  show ?thesis
    using assms(2) b c m p n
    by (auto simp: cn_account_text_erase_def Let_def editor_ok_def content_def tk [symmetric])
qed


text \<open>What the calls answer when there is no room, no character before the cursor, or a bad byte.\<close>

lemma append_refused:
  assumes "editor_ok i" "\<not> (printable c \<and> text_length i + 1 < text_capacity i)"
  shows "cn_account_text_append (Some i) c =
    (if printable c then CN_ACCOUNT_TEXT_FULL else CN_ACCOUNT_TEXT_INVALID, Some i)"
proof -
  have "(if \<not> cursor_enabled i then i\<lparr>cursor := text_length i\<rparr> else i) = i"
    using assms(1) by (cases i) (auto simp: editor_ok_def)
  then show ?thesis
    using assms by (auto simp: cn_account_text_append_def editor_ok_def printable_def Let_def not_less)
qed

lemma erase_refused: "editor_ok i \<Longrightarrow> cursor i = 0 \<Longrightarrow> cn_account_text_erase (Some i) = (CN_ACCOUNT_TEXT_UNCHANGED, Some i)"
proof -
  assume ok: "editor_ok i" and z: "cursor i = 0"
  have "(if \<not> cursor_enabled i then i\<lparr>cursor := text_length i\<rparr> else i) = i"
    using ok by (cases i) (auto simp: editor_ok_def)
  then show ?thesis using ok z by (auto simp: cn_account_text_erase_def editor_ok_def Let_def)
qed

lemma append_ok: "editor_ok i \<Longrightarrow> \<exists>r i'. cn_account_text_append (Some i) c = (r, Some i') \<and> editor_ok i'"
  using append_effect [of i c] append_refused [of i c] by blast

lemma erase_ok: "editor_ok i \<Longrightarrow> \<exists>r i'. cn_account_text_erase (Some i) = (r, Some i') \<and> editor_ok i'"
  using erase_effect [of i] erase_refused [of i] by blast

section \<open>The keyboard layout\<close>

lemma row_cases: "0 \<le> row \<Longrightarrow> row < 3 \<Longrightarrow> nat row \<in> {0, 1, 2}"
  by auto

lemma rows_printable:
  "r \<in> {0, 1, 2} \<Longrightarrow> k < length (lower_rows ! r) \<Longrightarrow> printable (lower_rows ! r ! k)"
  "r \<in> {0, 1, 2} \<Longrightarrow> k < length (upper_rows ! r) \<Longrightarrow> printable (upper_rows ! r ! k)"
  "r \<in> {0, 1, 2} \<Longrightarrow> k < length (symbol_rows ! r) \<Longrightarrow> printable (symbol_rows ! r ! k)"
proof -
  have "list_all (list_all printable) lower_rows" "list_all (list_all printable) upper_rows"
    "list_all (list_all printable) symbol_rows" "length lower_rows = 3" "length upper_rows = 3" "length symbol_rows = 3"
    by (simp_all add: lower_rows_def upper_rows_def symbol_rows_def printable_def)
  then show "r \<in> {0, 1, 2} \<Longrightarrow> k < length (lower_rows ! r) \<Longrightarrow> printable (lower_rows ! r ! k)"
    "r \<in> {0, 1, 2} \<Longrightarrow> k < length (upper_rows ! r) \<Longrightarrow> printable (upper_rows ! r ! k)"
    "r \<in> {0, 1, 2} \<Longrightarrow> k < length (symbol_rows ! r) \<Longrightarrow> printable (symbol_rows ! r ! k)"
    by (auto simp: list_all_length)
qed

lemma row_three_printable:
  "1 \<le> column \<Longrightarrow> column \<le> 7 \<Longrightarrow> printable (str ''zxcvbnm'' ! nat (column - 1)) \<and>
     printable (str ''zxcvbnm'' ! nat (column - 1) - of_char CHR ''a'' + of_char CHR ''A'')"
  "0 \<le> column \<Longrightarrow> column \<le> 8 \<Longrightarrow> printable ((str ''[]{}<>'' @ [92] @ str ''|~'') ! nat column)"
proof -
  have "list_all (\<lambda>c. printable c \<and> printable (c - of_char CHR ''a'' + of_char CHR ''A'')) (str ''zxcvbnm'')"
    "list_all printable (str ''[]{}<>'' @ [92] @ str ''|~'')" by (simp_all add: printable_def)
  then show "1 \<le> column \<Longrightarrow> column \<le> 7 \<Longrightarrow> printable (str ''zxcvbnm'' ! nat (column - 1)) \<and>
     printable (str ''zxcvbnm'' ! nat (column - 1) - of_char CHR ''a'' + of_char CHR ''A'')"
    "0 \<le> column \<Longrightarrow> column \<le> 8 \<Longrightarrow> printable ((str ''[]{}<>'' @ [92] @ str ''|~'') ! nat column)"
    by (simp_all only: list_all_length) auto
qed

lemma key_at_character:
  "cn_account_text_key_at (Some i) row column = Some key \<Longrightarrow> kind key = CN_ACCOUNT_TEXT_KEY_CHARACTER \<Longrightarrow>
     printable (character key)"
  using row_three_printable rows_printable [OF row_cases]
  by (auto simp: cn_account_text_key_at_def Let_def character_key_def control_key_def blank_key_def not_le
      printable_def split: if_splits)

lemma key_at_layout: "cn_account_text_key_at (Some (i\<lparr>selection := n\<rparr>)) row column = cn_account_text_key_at (Some i) row column"
  by (simp add: cn_account_text_key_at_def)


text \<open>The first key of the keyboard is always there, so a search over the whole keyboard finds a key.\<close>

lemma first_key: "cn_account_text_key_at (Some i) 0 0 \<noteq> None"
  by (simp add: cn_account_text_key_at_def key_rows_def key_columns_def symbol_rows_def upper_rows_def lower_rows_def Let_def)

definition key_shown :: "cn_account_text_input \<Rightarrow> int \<Rightarrow> bool" where
  "key_shown i n \<longleftrightarrow> cn_account_text_key_at (Some i) (n div 16) (n mod 16) \<noteq> None"

definition walk :: "int \<Rightarrow> int" where
  "walk step = (if step > 0 then 1 else 79)"

lemma smod_80: "0 \<le> n \<Longrightarrow> n smod (80 :: int) = n mod 80"
  by (auto simp: signed_modulo_int_def sgn_if)

lemma sdiv_16: "0 \<le> n \<Longrightarrow> n sdiv (16 :: int) = n div 16" "0 \<le> n \<Longrightarrow> n smod (16 :: int) = n mod 16"
  by (auto simp: signed_modulo_int_def signed_divide_int_def sgn_if)

lemma move_loop_Suc:
  assumes "0 \<le> selection i"
  shows "move_loop (Suc n) step i =
    (let j = i\<lparr>selection := (selection i + walk step) mod 80\<rparr> in if key_shown i (selection j) then j else move_loop n step j)"
proof -
  define k where "k = (selection i + walk step) mod 80"
  have "0 \<le> selection i + walk step" using assms by (simp add: walk_def)
  then have e: "(selection i + walk step) smod 80 = k" by (simp add: smod_80 k_def)
  have c: "(5 :: int) * 16 = 80" "(if step > 0 then 1 else (80 :: int) - 1) = walk step" by (simp_all add: walk_def)
  have k: "0 \<le> k" by (simp add: k_def)
  show ?thesis
    by (simp only: move_loop.simps Let_def key_rows_def selection_stride_def c)
      (simp add: e sdiv_16 [OF k] key_shown_def key_at_layout k_def [symmetric])
qed

lemma move_loop_spec:
  assumes "0 \<le> selection i"
  shows "\<exists>k \<le> n. move_loop n step i = i\<lparr>selection := (if k = 0 then selection i else (selection i + walk step * int k) mod 80)\<rparr> \<and>
     (k = 0 \<longrightarrow> n = 0) \<and> (\<forall>j. 0 < j \<and> j < k \<longrightarrow> \<not> key_shown i ((selection i + walk step * int j) mod 80)) \<and>
     (k < n \<longrightarrow> key_shown i ((selection i + walk step * int k) mod 80))"
  using assms
proof (induction n arbitrary: i)
  case 0
  then show ?case by (intro exI [of _ 0]) simp
next
  case (Suc n)
  define i1 where "i1 = i\<lparr>selection := (selection i + walk step) mod 80\<rparr>"
  have loop: "move_loop (Suc n) step i = (if key_shown i (selection i1) then i1 else move_loop n step i1)"
    using move_loop_Suc [OF Suc.prems] by (simp add: i1_def Let_def)
  have s1: "selection i1 = (selection i + walk step) mod 80" "0 \<le> selection i1" by (simp_all add: i1_def)
  have sh: "key_shown i1 m = key_shown i m" for m by (simp add: key_shown_def i1_def key_at_layout)
  have next_pos: "(selection i1 + walk step * int j) mod 80 = (selection i + walk step * int (Suc j)) mod 80" for j
  proof -
    have "(selection i1 + walk step * int j) mod 80 = (selection i + walk step + walk step * int j) mod 80"
      unfolding s1(1) by (rule mod_add_left_eq)
    then show ?thesis by (simp add: algebra_simps)
  qed
  show ?case
  proof (cases "key_shown i (selection i1)")
    case True
    then show ?thesis using loop s1(1) by (intro exI [of _ 1]) (auto simp: i1_def)
  next
    case False
    obtain k where k: "k \<le> n" "move_loop n step i1 =
        i1\<lparr>selection := (if k = 0 then selection i1 else (selection i1 + walk step * int k) mod 80)\<rparr>"
      "k = 0 \<longrightarrow> n = 0" "\<forall>j. 0 < j \<and> j < k \<longrightarrow> \<not> key_shown i1 ((selection i1 + walk step * int j) mod 80)"
      "k < n \<longrightarrow> key_shown i1 ((selection i1 + walk step * int k) mod 80)"
      using Suc.IH [OF s1(2)] by blast
    have res: "move_loop (Suc n) step i = i\<lparr>selection := (selection i + walk step * int (Suc k)) mod 80\<rparr>"
    proof (cases "k = 0")
      case True
      then show ?thesis using k(2) loop False by (simp add: i1_def)
    next
      case k0: False
      then show ?thesis using k(2) loop False unfolding next_pos by (simp add: i1_def)
    qed
    have hidden: "\<not> key_shown i ((selection i + walk step * int j) mod 80)" if "0 < j" "j < Suc k" for j
    proof (cases j)
      case (Suc j')
      then show ?thesis
        using k(4) False s1(1) that(2) sh next_pos [of j'] by (cases "j' = 0") auto
    qed (use that in simp)
    have shown: "key_shown i ((selection i + walk step * int (Suc k)) mod 80)" if "Suc k < Suc n"
      using k(5) that sh next_pos [of k] by simp
    show ?thesis using k(1) res hidden shown by (intro exI [of _ "Suc k"]) auto
  qed
qed

lemma forward_to_zero: "\<exists>k. 0 < k \<and> k \<le> 80 \<and> (s + int k) mod 80 = 0"
proof -
  define k where "k = nat (80 - s mod 80)"
  have k: "int k = 80 - s mod 80" "0 < k" using pos_mod_bound [of 80 s] by (simp_all add: k_def)
  then have "s + int k = s div 80 * 80 + 80" using div_mult_mod_eq [of s 80] by linarith
  then have "(s + int k) mod 80 = 0" by simp
  moreover have "k \<le> 80" using k(1) pos_mod_sign [of 80 s] by simp
  ultimately show ?thesis using k(2) by (intro exI [of _ k]) simp
qed

lemma backward_to_zero: "\<exists>k. 0 < k \<and> k \<le> 80 \<and> (s + 79 * int k) mod 80 = 0"
proof -
  define k where "k = (if s mod 80 = 0 then 80 else nat (s mod 80))"
  have "s + 79 * int k = s - int k + 80 * int k" by simp
  then have "(s + 79 * int k) mod 80 = (s - int k) mod 80" by (simp only: mod_mult_self2)
  moreover have "(s - int k) mod 80 = 0"
  proof (cases "s mod 80 = 0")
    case True
    then show ?thesis using minus_mod_self2 [of s 80] by (simp add: k_def)
  next
    case False
    then have "int k = s mod 80" using pos_mod_sign [of 80 s] by (simp add: k_def)
    then have "s - int k = s div 80 * 80" using div_mult_mod_eq [of s 80] by linarith
    then show ?thesis by simp
  qed
  ultimately show ?thesis using pos_mod_bound [of 80 s] pos_mod_sign [of 80 s]
    by (intro exI [of _ k]) (auto simp: k_def)
qed

lemma walk_reaches_zero: "\<exists>k. 0 < k \<and> k \<le> 80 \<and> (s + walk step * int k) mod 80 = 0"
  unfolding walk_def by (cases "step > 0") (simp_all only: if_True if_False mult_1 forward_to_zero backward_to_zero)

lemma key_shown_zero: "key_shown i 0"
  using first_key by (simp add: key_shown_def)

text \<open>The search ends at the first shown key after the selection, in the direction of the step.\<close>

lemma move_loop_finds:
  assumes "0 \<le> selection i" and z: "0 < z" "z \<le> n" "(selection i + walk step * int z) mod 80 = 0"
  shows "\<exists>k. 0 < k \<and> k \<le> n \<and> move_loop n step i = i\<lparr>selection := (selection i + walk step * int k) mod 80\<rparr> \<and>
    key_shown i ((selection i + walk step * int k) mod 80) \<and>
    (\<forall>j. 0 < j \<and> j < k \<longrightarrow> \<not> key_shown i ((selection i + walk step * int j) mod 80))"
proof -
  obtain k where k: "k \<le> n" "move_loop n step i =
      i\<lparr>selection := (if k = 0 then selection i else (selection i + walk step * int k) mod 80)\<rparr>"
    "k = 0 \<longrightarrow> n = 0" "\<forall>j. 0 < j \<and> j < k \<longrightarrow> \<not> key_shown i ((selection i + walk step * int j) mod 80)"
    "k < n \<longrightarrow> key_shown i ((selection i + walk step * int k) mod 80)"
    using move_loop_spec [OF assms(1), of n step] by blast
  have "\<not> z < k"
  proof
    assume "z < k"
    then have "\<not> key_shown i ((selection i + walk step * int z) mod 80)" using k(4) z(1) by simp
    then show False using key_shown_zero by (simp add: z(3))
  qed
  then have shown: "key_shown i ((selection i + walk step * int k) mod 80)"
  proof (cases "k < n")
    case False
    then have "z = k" using k(1) z(2) \<open>\<not> z < k\<close> by simp
    then show ?thesis using z(3) key_shown_zero by simp
  qed (use k(5) in simp)
  have "0 < k" using k(3) z by auto
  then show ?thesis using k(1,2,4) shown by (intro exI [of _ k]) simp
qed


section \<open>Sequences of edits\<close>

text \<open>Everything a user of the field can do to it.\<close>

datatype text_event = Type byte | Erase | Place nat | Step int | Cursor_Mode int | Shift | Symbols
  | Choose int int | Walk int | Activate

fun text_step :: "text_event \<Rightarrow> cn_account_text_input option \<Rightarrow> cn_account_text_input option" where
  "text_step (Type c) i = snd (cn_account_text_append i c)"
| "text_step Erase i = snd (cn_account_text_erase i)"
| "text_step (Place n) i = snd (cn_account_text_set_cursor i n)"
| "text_step (Step d) i = snd (cn_account_text_move_cursor i d)"
| "text_step (Cursor_Mode e) i = cn_account_text_set_cursor_enabled i e"
| "text_step Shift i = cn_account_text_toggle_shift i"
| "text_step Symbols i = cn_account_text_toggle_symbols i"
| "text_step (Choose row column) i = snd (cn_account_text_select i row column)"
| "text_step (Walk d) i = snd (cn_account_text_move i d)"
| "text_step Activate i = snd (cn_account_text_activate i)"

lemma editor_ok_frame:
  "editor_ok i \<Longrightarrow> editor_ok (i\<lparr>shifted := b\<rparr>)" "editor_ok i \<Longrightarrow> editor_ok (i\<lparr>symbols := c, shifted := b\<rparr>)"
  "editor_ok i \<Longrightarrow> 0 \<le> n \<Longrightarrow> n < 80 \<Longrightarrow> editor_ok (i\<lparr>selection := n\<rparr>)"
  by (simp_all add: editor_ok_def content_def)

lemma cursor_ok:
  assumes "editor_ok i"
  shows "\<exists>i'. text_step (Place n) (Some i) = Some i' \<and> editor_ok i'"
    and "\<exists>i'. text_step (Step d) (Some i) = Some i' \<and> editor_ok i'"
    and "\<exists>i'. text_step (Cursor_Mode e) (Some i) = Some i' \<and> editor_ok i'"
  using assms
  by (auto simp: cn_account_text_set_cursor_def cn_account_text_move_cursor_def
      cn_account_text_set_cursor_enabled_def Let_def editor_ok_def content_def)

lemma move_finds:
  assumes "editor_ok i" "step \<noteq> 0"
  shows "\<exists>k. 0 < k \<and> k \<le> 80 \<and> cn_account_text_move (Some i) step =
      ((selection i + walk step * int k) mod 80, Some (i\<lparr>selection := (selection i + walk step * int k) mod 80\<rparr>)) \<and>
    key_shown i ((selection i + walk step * int k) mod 80) \<and>
    (\<forall>j. 0 < j \<and> j < k \<longrightarrow> \<not> key_shown i ((selection i + walk step * int j) mod 80))"
proof -
  have s: "0 \<le> selection i" using assms(1) by (simp add: editor_ok_def)
  obtain z where z: "0 < z" "z \<le> 80" "(selection i + walk step * int z) mod 80 = 0"
    using walk_reaches_zero [of "selection i" step] by (elim exE conjE)
  have "nat (key_rows * selection_stride) = 80" by (simp add: key_rows_def selection_stride_def)
  then have m: "cn_account_text_move (Some i) step = (selection (move_loop 80 step i), Some (move_loop 80 step i))"
    using assms(2) by (simp only: cn_account_text_move_def option.case if_False Let_def)
  obtain k where "0 < k \<and> k \<le> 80 \<and> move_loop 80 step i = i\<lparr>selection := (selection i + walk step * int k) mod 80\<rparr> \<and>
    key_shown i ((selection i + walk step * int k) mod 80) \<and>
    (\<forall>j. 0 < j \<and> j < k \<longrightarrow> \<not> key_shown i ((selection i + walk step * int j) mod 80))"
    using move_loop_finds [OF s z] by (rule exE)
  then show ?thesis unfolding m by (intro exI [of _ k]) simp
qed

lemma key_at_range:
  assumes "cn_account_text_key_at (Some i) row column \<noteq> None"
  shows "0 \<le> row \<and> row < 5 \<and> 0 \<le> column \<and> column < 10"
proof (rule ccontr)
  assume "\<not> ?thesis"
  then have "row < 0 \<or> row \<ge> key_rows \<or> column < 0 \<or> column \<ge> key_columns"
    by (auto simp: key_rows_def key_columns_def)
  then have "cn_account_text_key_at (Some i) row column = None"
    by (simp only: cn_account_text_key_at_def option.case if_True)
  then show False using assms by simp
qed

lemma select_ok:
  assumes "editor_ok i"
  shows "\<exists>i'. text_step (Choose row column) (Some i) = Some i' \<and> editor_ok i'"
proof (cases "cn_account_text_key_at (Some i) row column = None")
  case False
  then have "0 \<le> row * 16 + column" "row * 16 + column < 80" using key_at_range [OF False] by linarith+
  then show ?thesis
    using False assms editor_ok_frame(3) [OF assms] by (simp add: cn_account_text_select_def Let_def selection_stride_def)
qed (use assms in \<open>simp add: cn_account_text_select_def\<close>)

lemma move_ok: "editor_ok i \<Longrightarrow> \<exists>i'. text_step (Walk d) (Some i) = Some i' \<and> editor_ok i'"
proof -
  assume ok: "editor_ok i"
  show ?thesis
  proof (cases "d = 0")
    case True
    then show ?thesis using ok by (simp add: cn_account_text_move_def)
  next
    case False
    obtain n where "0 \<le> n" "n < 80" "snd (cn_account_text_move (Some i) d) = Some (i\<lparr>selection := n\<rparr>)"
      using move_finds [OF ok False] by (elim exE conjE) (rule that, simp_all)
    then show ?thesis using editor_ok_frame(3) [OF ok] by simp
  qed
qed

definition activate_key :: "cn_account_text_key \<Rightarrow> cn_account_text_input \<Rightarrow> cn_account_text_input" where
  "activate_key key i = the (case kind key of
       CN_ACCOUNT_TEXT_KEY_CHARACTER \<Rightarrow>
         (case cn_account_text_append (Some i) (character key) of (result, i') \<Rightarrow>
            if result = CN_ACCOUNT_TEXT_CHANGED \<and> shifted (the i') \<and> letter (character key)
            then Some ((the i')\<lparr>shifted := False\<rparr>) else i')
     | CN_ACCOUNT_TEXT_KEY_SHIFT \<Rightarrow> text_step Shift (Some i)
     | CN_ACCOUNT_TEXT_KEY_SYMBOLS \<Rightarrow> text_step Symbols (Some i)
     | CN_ACCOUNT_TEXT_KEY_BACKSPACE \<Rightarrow> text_step Erase (Some i)
     | CN_ACCOUNT_TEXT_KEY_CURSOR_LEFT \<Rightarrow> text_step (Step (-1)) (Some i)
     | CN_ACCOUNT_TEXT_KEY_CURSOR_RIGHT \<Rightarrow> text_step (Step 1) (Some i)
     | _ \<Rightarrow> Some i)"

lemma text_shift_ok:
  "editor_ok i \<Longrightarrow> \<exists>i'. text_step Shift (Some i) = Some i' \<and> editor_ok i'"
  "editor_ok i \<Longrightarrow> \<exists>i'. text_step Symbols (Some i) = Some i' \<and> editor_ok i'"
  by (simp_all add: cn_account_text_toggle_shift_def cn_account_text_toggle_symbols_def editor_ok_frame)

lemma erase_step_ok: "editor_ok i \<Longrightarrow> \<exists>i'. text_step Erase (Some i) = Some i' \<and> editor_ok i'"
  using erase_ok [of i] by auto

lemma activate_key_ok:
  assumes "editor_ok i"
  shows "editor_ok (activate_key key i)"
proof (cases "kind key")
  case CN_ACCOUNT_TEXT_KEY_CHARACTER
  obtain r i' where a: "cn_account_text_append (Some i) (character key) = (r, Some i')" "editor_ok i'"
    using append_ok [OF assms] by blast
  show ?thesis using a editor_ok_frame(1) [OF a(2)] CN_ACCOUNT_TEXT_KEY_CHARACTER by (simp add: activate_key_def)
next
  case CN_ACCOUNT_TEXT_KEY_SHIFT
  then show ?thesis using text_shift_ok(1) [OF assms] by (auto simp: activate_key_def simp del: text_step.simps)
next
  case CN_ACCOUNT_TEXT_KEY_SYMBOLS
  then show ?thesis using text_shift_ok(2) [OF assms] by (auto simp: activate_key_def simp del: text_step.simps)
next
  case CN_ACCOUNT_TEXT_KEY_BACKSPACE
  then show ?thesis using erase_step_ok [OF assms] by (auto simp: activate_key_def simp del: text_step.simps)
next
  case CN_ACCOUNT_TEXT_KEY_CURSOR_LEFT
  then show ?thesis using cursor_ok(2) [OF assms, of "-1"] by (auto simp: activate_key_def simp del: text_step.simps)
next
  case CN_ACCOUNT_TEXT_KEY_CURSOR_RIGHT
  then show ?thesis using cursor_ok(2) [OF assms, of 1] by (auto simp: activate_key_def simp del: text_step.simps)
qed (use assms in \<open>simp_all add: activate_key_def\<close>)

lemma some_snd_append: "\<exists>r x. cn_account_text_append (Some i) c = (r, Some x)"
  "\<exists>x. snd (cn_account_text_erase (Some i)) = Some x" "\<exists>x. snd (cn_account_text_move_cursor (Some i) d) = Some x"
  by (auto simp: cn_account_text_append_def cn_account_text_erase_def cn_account_text_move_cursor_def Let_def)

lemma activate_shape:
  "text_step Activate (Some i) = Some i \<or> (\<exists>key. text_step Activate (Some i) = Some (activate_key key i))"
proof (cases "selection i < 0 \<or> selection i \<ge> key_rows * selection_stride")
  case False
  show ?thesis
  proof (cases "cn_account_text_key_at (Some i) (selection i sdiv selection_stride) (selection i smod selection_stride)")
    case (Some key)
    obtain r x where "cn_account_text_append (Some i) (character key) = (r, Some x)" using some_snd_append(1) by blast
    then have "text_step Activate (Some i) = Some (activate_key key i)"
      using False Some some_snd_append(2,3) [of i]
      by (cases "kind key")
        (auto simp: cn_account_text_activate_def activate_key_def cn_account_text_toggle_shift_def
          cn_account_text_toggle_symbols_def split: prod.splits if_splits)
    then show ?thesis by blast
  qed (use False in \<open>simp add: cn_account_text_activate_def\<close>)
qed (simp add: cn_account_text_activate_def)

lemma activate_ok: "editor_ok i \<Longrightarrow> \<exists>i'. text_step Activate (Some i) = Some i' \<and> editor_ok i'"
  using activate_shape [of i] activate_key_ok [of i] by auto

lemma text_step_ok: "editor_ok i \<Longrightarrow> \<exists>i'. text_step e (Some i) = Some i' \<and> editor_ok i'"
proof (cases e)
  case (Type c)
  then show "editor_ok i \<Longrightarrow> ?thesis" using append_ok [of i c] by auto
next
  case Erase
  then show "editor_ok i \<Longrightarrow> ?thesis" using erase_ok [of i] by auto
qed (auto simp: cn_account_text_toggle_shift_def cn_account_text_toggle_symbols_def intro: editor_ok_frame
  simp del: text_step.simps(3-5,8-10) intro!: cursor_ok select_ok move_ok activate_ok)

lemma text_run_ok: "editor_ok i \<Longrightarrow> \<exists>i'. fold text_step es (Some i) = Some i' \<and> editor_ok i'"
proof (induction es arbitrary: i)
  case (Cons e es)
  then show ?case using text_step_ok [of i e] by auto
qed simp


section \<open>Properties\<close>

lemma init_ok:
  "length b = capacity \<Longrightarrow> 0 < capacity \<Longrightarrow>
     \<exists>i. cn_account_text_init (Some i0) (Some b) capacity = Some i \<and> editor_ok i"
  by (simp add: cn_account_text_init_def editor_ok_def content_def)

text \<open>C15. Whatever the user does to a field that was initialised with an array, typing, erasing, moving,
  switching layouts and pressing keys in any order, the text stays printable and terminated inside the
  array, the cursor stays within the text and the selection within the keyboard.\<close>

theorem text_field_stays_well_formed:
  assumes "length b = capacity" "0 < capacity"
  shows "\<exists>i. fold text_step events (cn_account_text_init (Some i0) (Some b) capacity) = Some i \<and> editor_ok i"
  using init_ok [OF assms, of i0] text_run_ok by auto

theorem text_field_stays_well_formed_witness:
  "\<exists>i. fold text_step [Type 0x61, Step (-1), Activate, Erase, Walk 1, Type 0x80]
     (cn_account_text_init (Some undefined) (Some [7, 7, 7]) 3) = Some i \<and> editor_ok i"
  by (rule text_field_stays_well_formed) simp_all

text \<open>The abstract field: the text before the cursor and the text after it.\<close>

definition view :: "cn_account_text_input \<Rightarrow> bytes \<times> bytes" where
  "view i = (take (cursor i) (content i), drop (cursor i) (content i))"

definition type_spec :: "nat \<Rightarrow> byte \<Rightarrow> bytes \<times> bytes \<Rightarrow> cn_account_text_result \<times> bytes \<times> bytes" where
  "type_spec capacity c f = (case f of (l, r) \<Rightarrow>
     if \<not> printable c then (CN_ACCOUNT_TEXT_INVALID, l, r)
     else if length l + length r + 1 < capacity then (CN_ACCOUNT_TEXT_CHANGED, l @ [c], r)
     else (CN_ACCOUNT_TEXT_FULL, l, r))"

definition erase_spec :: "bytes \<times> bytes \<Rightarrow> cn_account_text_result \<times> bytes \<times> bytes" where
  "erase_spec f = (case f of (l, r) \<Rightarrow>
     (if l = [] then CN_ACCOUNT_TEXT_UNCHANGED else CN_ACCOUNT_TEXT_CHANGED, butlast l, r))"

definition abstractly :: "cn_account_text_result \<times> cn_account_text_input option \<Rightarrow> cn_account_text_result \<times> bytes \<times> bytes" where
  "abstractly x = (fst x, view (the (snd x)))"

lemma view_length: "editor_ok i \<Longrightarrow> length (content i) = text_length i \<and> cursor i \<le> length (content i)"
  by (auto simp: editor_ok_def content_def)

text \<open>C16. The array routines implement the abstract field: typing puts the byte at the end of the text
  before the cursor unless it is not printable or the array is full, erasing takes the last byte of that
  text away, and the answers agree.\<close>

theorem text_field_refines_zipper:
  assumes "editor_ok i"
  shows "abstractly (cn_account_text_append (Some i) c) = type_spec (text_capacity i) c (view i) \<and>
    abstractly (cn_account_text_erase (Some i)) = erase_spec (view i)"
proof
  note l = view_length [OF assms]
  show "abstractly (cn_account_text_append (Some i) c) = type_spec (text_capacity i) c (view i)"
  proof (cases "printable c \<and> text_length i + 1 < text_capacity i")
    case True
    then show ?thesis
      using append_effect [OF assms, of c] l by (auto simp: abstractly_def type_spec_def view_def)
  next
    case False
    then show ?thesis
      using append_refused [OF assms, of c] l by (auto simp: abstractly_def type_spec_def view_def)
  qed
  show "abstractly (cn_account_text_erase (Some i)) = erase_spec (view i)"
  proof (cases "cursor i = 0")
    case True
    then show ?thesis using erase_refused [OF assms] by (simp add: abstractly_def erase_spec_def view_def)
  next
    case False
    then have "butlast (take (cursor i) (content i)) = take (cursor i - 1) (content i)"
      using l by (simp add: butlast_take)
    then show ?thesis
      using erase_effect [OF assms] l False by (auto simp: abstractly_def erase_spec_def view_def min_def)
  qed
qed

theorem text_field_refines_zipper_witness:
  "\<exists>i. abstractly (cn_account_text_append (Some i) 0x61) = (CN_ACCOUNT_TEXT_CHANGED, [0x61], [])"
proof -
  obtain i where i: "cn_account_text_init (Some undefined) (Some [7, 7, 7]) 3 = Some i" "editor_ok i"
    using init_ok [of "[7, 7, 7]" 3 undefined] by auto
  then have "view i = ([], [])" "text_capacity i = 3"
    by (auto simp: cn_account_text_init_def view_def content_def)
  then show ?thesis
    using text_field_refines_zipper [OF i(2), of "0x61"]
    by (intro exI [of _ i]) (simp add: type_spec_def printable_def)
qed

text \<open>C17. Moving the selection ends at the first key that is shown, in the direction of the step and
  within one round, and never at a place with no key.\<close>

theorem text_selection_moves_to_next_key:
  assumes "editor_ok i" "step \<noteq> 0"
  shows "\<exists>k. 0 < k \<and> k \<le> 80 \<and> cn_account_text_move (Some i) step =
      ((selection i + walk step * int k) mod 80, Some (i\<lparr>selection := (selection i + walk step * int k) mod 80\<rparr>)) \<and>
    key_shown i ((selection i + walk step * int k) mod 80) \<and>
    (\<forall>j. 0 < j \<and> j < k \<longrightarrow> \<not> key_shown i ((selection i + walk step * int j) mod 80))"
  by (rule move_finds [OF assms])

theorem text_selection_moves_to_next_key_witness:
  "\<exists>i n. cn_account_text_move (Some i) 1 = (n, Some (i\<lparr>selection := n\<rparr>)) \<and> key_shown i n"
proof -
  obtain i where ok: "editor_ok i" using init_ok [of "[7, 7, 7]" 3 undefined] by auto
  have "(1 :: int) \<noteq> 0" by simp
  from text_selection_moves_to_next_key [OF ok this] show ?thesis by (elim exE conjE) (intro exI conjI)
qed

text \<open>The part of the text that a narrow field shows starts so that it never runs past the end of the
  text and always has the cursor in it.\<close>

theorem text_window_shows_cursor:
  assumes "editor_ok i"
  shows "cn_account_text_window_start (Some i) visible \<le> cursor i \<and>
    cursor i \<le> cn_account_text_window_start (Some i) visible + visible \<and>
    cn_account_text_window_start (Some i) visible + min visible (text_length i) \<le> text_length i"
  using assms by (auto simp: cn_account_text_window_start_def editor_ok_def Let_def)

theorem text_window_shows_cursor_witness:
  "\<exists>i. cn_account_text_window_start (Some i) 2 \<le> cursor i"
proof -
  obtain i where "editor_ok i" using init_ok [of "[7, 7, 7]" 3 undefined] by auto
  from text_window_shows_cursor [OF this, of 2] show ?thesis by blast
qed

end
