(* ===== verification/Md5.thy ===== *)
theory Md5
  imports Prelude
begin

text \<open>
  The MD5 primitive of src/book/md5.c, which the KOReader identities and the account key are
  built on: the context record, the block transform, and the streaming interface
  \<open>cn_md5_init\<close>, \<open>cn_md5_update\<close>, \<open>cn_md5_final\<close> with its 64-byte buffer.

  The reference is the one-shot digest \<open>md5_reference\<close>: pad the message, cut it into blocks, fold
  the transform.  The streaming interface computes it however the message is cut into updates.
\<close>

section \<open>The context and the block transform\<close>

record cn_md5_context =
  md5_state :: "u32 \<times> u32 \<times> u32 \<times> u32"
  byte_count :: u64
  md5_buffer :: bytes
  buffer_length :: nat

definition rotate_left :: "u32 \<Rightarrow> nat \<Rightarrow> u32" where
  "rotate_left value shift = push_bit shift value OR drop_bit (32 - shift) value"

definition read_u32le :: "bytes \<Rightarrow> u32" where
  "read_u32le p = ucast (p ! 0) OR push_bit 8 (ucast (p ! 1)) OR
     push_bit 16 (ucast (p ! 2)) OR push_bit 24 (ucast (p ! 3))"

definition write_u32le :: "u32 \<Rightarrow> bytes" where
  "write_u32le value =
     [ucast value, ucast (drop_bit 8 value), ucast (drop_bit 16 value), ucast (drop_bit 24 value)]"

definition md5_constants :: "u32 list" where
  "md5_constants = [
     0xd76aa478, 0xe8c7b756, 0x242070db, 0xc1bdceee, 0xf57c0faf, 0x4787c62a, 0xa8304613, 0xfd469501,
     0x698098d8, 0x8b44f7af, 0xffff5bb1, 0x895cd7be, 0x6b901122, 0xfd987193, 0xa679438e, 0x49b40821,
     0xf61e2562, 0xc040b340, 0x265e5a51, 0xe9b6c7aa, 0xd62f105d, 0x02441453, 0xd8a1e681, 0xe7d3fbc8,
     0x21e1cde6, 0xc33707d6, 0xf4d50d87, 0x455a14ed, 0xa9e3e905, 0xfcefa3f8, 0x676f02d9, 0x8d2a4c8a,
     0xfffa3942, 0x8771f681, 0x6d9d6122, 0xfde5380c, 0xa4beea44, 0x4bdecfa9, 0xf6bb4b60, 0xbebfbc70,
     0x289b7ec6, 0xeaa127fa, 0xd4ef3085, 0x04881d05, 0xd9d4d039, 0xe6db99e5, 0x1fa27cf8, 0xc4ac5665,
     0xf4292244, 0x432aff97, 0xab9423a7, 0xfc93a039, 0x655b59c3, 0x8f0ccc92, 0xffeff47d, 0x85845dd1,
     0x6fa87e4f, 0xfe2ce6e0, 0xa3014314, 0x4e0811a1, 0xf7537e82, 0xbd3af235, 0x2ad7d2bb, 0xeb86d391]"

definition md5_shifts :: "nat list" where
  "md5_shifts = [
     7, 12, 17, 22, 7, 12, 17, 22, 7, 12, 17, 22, 7, 12, 17, 22,
     5, 9, 14, 20, 5, 9, 14, 20, 5, 9, 14, 20, 5, 9, 14, 20,
     4, 11, 16, 23, 4, 11, 16, 23, 4, 11, 16, 23, 4, 11, 16, 23,
     6, 10, 15, 21, 6, 10, 15, 21, 6, 10, 15, 21, 6, 10, 15, 21]"

text \<open>One turn of the loop over \<open>i\<close>: the round function, the word it adds, the rotation.\<close>

fun md5_step :: "u32 list \<Rightarrow> u32 \<times> u32 \<times> u32 \<times> u32 \<Rightarrow> nat \<Rightarrow> u32 \<times> u32 \<times> u32 \<times> u32" where
  "md5_step words (a, b, c, d) i =
     (let (function', word') =
        (if i < 16 then ((b AND c) OR (NOT b AND d), i)
         else if i < 32 then ((d AND b) OR (NOT d AND c), (5 * i + 1) mod 16)
         else if i < 48 then (b XOR c XOR d, (3 * i + 5) mod 16)
         else (c XOR (b OR NOT d), (7 * i) mod 16))
      in (d, b + rotate_left (a + function' + md5_constants ! i + words ! word') (md5_shifts ! i), b, c))"

definition md5_words :: "bytes \<Rightarrow> u32 list" where
  "md5_words block = map (\<lambda>i. read_u32le (drop (i * 4) block)) [0..<16]"

definition md5_add :: "u32 \<times> u32 \<times> u32 \<times> u32 \<Rightarrow> u32 \<times> u32 \<times> u32 \<times> u32 \<Rightarrow> u32 \<times> u32 \<times> u32 \<times> u32" where
  "md5_add s t = (case (s, t) of ((a, b, c, d), (a', b', c', d')) \<Rightarrow> (a + a', b + b', c + c', d + d'))"

definition md5_compress :: "u32 \<times> u32 \<times> u32 \<times> u32 \<Rightarrow> bytes \<Rightarrow> u32 \<times> u32 \<times> u32 \<times> u32" where
  "md5_compress s block = md5_add s (foldl (md5_step (md5_words block)) s [0..<64])"

definition transform :: "cn_md5_context \<Rightarrow> bytes \<Rightarrow> cn_md5_context" where
  "transform context block = context\<lparr>md5_state := md5_compress (md5_state context) block\<rparr>"

section \<open>The streaming interface\<close>

text \<open>\<open>memcpy\<close> into a buffer at an offset.\<close>

definition blit :: "bytes \<Rightarrow> nat \<Rightarrow> bytes \<Rightarrow> bytes" where
  "blit buf offset data = take offset buf @ data @ drop (offset + length data) buf"

definition md5_seed :: "u32 \<times> u32 \<times> u32 \<times> u32" where
  "md5_seed = (0x67452301, 0xefcdab89, 0x98badcfe, 0x10325476)"

definition cn_md5_init :: "cn_md5_context \<Rightarrow> cn_md5_context" where
  "cn_md5_init context = context\<lparr>md5_state := md5_seed, byte_count := 0, buffer_length := 0\<rparr>"

function md5_whole_blocks :: "cn_md5_context \<Rightarrow> bytes \<Rightarrow> cn_md5_context \<times> bytes" where
  "md5_whole_blocks context data =
     (if length data \<ge> 64 then md5_whole_blocks (transform context (take 64 data)) (drop 64 data)
      else (context, data))"
  by pat_completeness auto
termination by (relation "measure (\<lambda>(_, data). length data)") auto

declare md5_whole_blocks.simps [simp del]

definition md5_fill :: "cn_md5_context \<Rightarrow> bytes \<Rightarrow> cn_md5_context \<times> bytes" where
  "md5_fill context data =
     (if buffer_length context \<noteq> 0 then
        let needed = (if 64 - buffer_length context > length data then length data
                      else 64 - buffer_length context);
            filled = context\<lparr>
              md5_buffer := blit (md5_buffer context) (buffer_length context) (take needed data),
              buffer_length := buffer_length context + needed\<rparr>
        in (if buffer_length filled = 64
            then (transform filled (md5_buffer filled))\<lparr>buffer_length := 0\<rparr>
            else filled, drop needed data)
      else (context, data))"

definition cn_md5_update :: "cn_md5_context \<Rightarrow> bytes \<Rightarrow> cn_md5_context" where
  "cn_md5_update context data =
     (let counted = context\<lparr>byte_count := byte_count context + of_nat (length data)\<rparr>;
          (filled, data') = md5_fill counted data;
          (blocked, rest) = md5_whole_blocks filled data'
      in if length rest \<noteq> 0
         then blocked\<lparr>md5_buffer := blit (md5_buffer blocked) 0 rest, buffer_length := length rest\<rparr>
         else blocked)"

definition md5_padding :: bytes where
  "md5_padding = 0x80 # replicate 63 0"

definition le64 :: "u64 \<Rightarrow> bytes" where
  "le64 n = map (\<lambda>i. ucast (drop_bit (i * 8) n)) [0..<8]"

definition md5_digest :: "u32 \<times> u32 \<times> u32 \<times> u32 \<Rightarrow> bytes" where
  "md5_digest s = (case s of (a, b, c, d) \<Rightarrow>
     write_u32le a @ write_u32le b @ write_u32le c @ write_u32le d)"

definition cn_md5_final :: "cn_md5_context \<Rightarrow> cn_md5_context \<times> bytes" where
  "cn_md5_final context =
     (let length_bytes = le64 (byte_count context * 8);
          padding_length = (if buffer_length context < 56 then 56 - buffer_length context
                            else 120 - buffer_length context);
          padded = cn_md5_update context (take padding_length md5_padding);
          done' = cn_md5_update padded length_bytes
      in (done', md5_digest (md5_state done')))"

section \<open>The one-shot reference\<close>

function md5_blocks :: "bytes \<Rightarrow> bytes list" where
  "md5_blocks m = (if length m \<ge> 64 then take 64 m # md5_blocks (drop 64 m) else [])"
  by pat_completeness auto
termination by (relation "measure length") auto

declare md5_blocks.simps [simp del]

definition pad_length :: "nat \<Rightarrow> nat" where
  "pad_length n = (if n mod 64 < 56 then 56 - n mod 64 else 120 - n mod 64)"

definition md5_reference :: "bytes \<Rightarrow> bytes" where
  "md5_reference m = md5_digest (foldl md5_compress md5_seed
     (md5_blocks (m @ take (pad_length (length m)) md5_padding @ le64 (of_nat (length m) * 8))))"

lemma md5_blocks_append:
  "64 dvd length m \<Longrightarrow> md5_blocks (m @ n) = md5_blocks m @ md5_blocks n"
proof (induction m rule: md5_blocks.induct)
  case (1 m)
  show ?case
  proof (cases "length m \<ge> 64")
    case True
    then have "64 dvd length (drop 64 m)" using "1.prems" by (simp add: dvd_diff_nat)
    then show ?thesis
      using True "1.IH" by (subst (1 2) md5_blocks.simps) simp
  next
    case False
    with "1.prems" have "m = []" by (auto dest: dvd_imp_le)
    then show ?thesis by (simp add: md5_blocks.simps [of "[]"])
  qed
qed

lemma md5_blocks_short: "length m < 64 \<Longrightarrow> md5_blocks m = []"
  by (subst md5_blocks.simps) simp

lemma dvd_whole_blocks: "64 dvd length (take (length m div 64 * 64) m)"
proof -
  have "length m div 64 * 64 \<le> length m" by (rule div_times_less_eq_dividend)
  then have "length (take (length m div 64 * 64) m) = length m div 64 * 64"
    by (simp only: length_take min_absorb2)
  then show ?thesis by (simp only: dvd_triv_right)
qed

lemma md5_blocks_split: "md5_blocks m = md5_blocks (take (length m div 64 * 64) m)"
proof -
  have "md5_blocks (take (length m div 64 * 64) m @ drop (length m div 64 * 64) m) =
      md5_blocks (take (length m div 64 * 64) m) @ md5_blocks (drop (length m div 64 * 64) m)"
    by (rule md5_blocks_append) (rule dvd_whole_blocks)
  moreover have "length m - length m div 64 * 64 < 64"
    by (simp add: minus_div_mult_eq_mod)
  ultimately show ?thesis by (simp add: md5_blocks_short)
qed

lemma md5_whole_blocks_eq:
  "md5_whole_blocks c m =
     (c\<lparr>md5_state := foldl md5_compress (md5_state c) (md5_blocks m)\<rparr>, drop (length m div 64 * 64) m)"
proof (induction c m rule: md5_whole_blocks.induct)
  case (1 c m)
  show ?case
  proof (cases "length m \<ge> 64")
    case True
    then have "length m div 64 * 64 = 64 + (length m - 64) div 64 * 64"
      by (metis add.commute div_if leD mult_Suc mult.commute zero_neq_numeral)
    then show ?thesis
      using True "1.IH"
      by (subst md5_whole_blocks.simps, subst md5_blocks.simps) (simp add: transform_def add.commute)
  next
    case False
    then show ?thesis by (subst md5_whole_blocks.simps) (simp add: md5_blocks_short)
  qed
qed

text \<open>What a context holds of a message: the state after its whole blocks, the rest in the buffer.\<close>

definition holds :: "cn_md5_context \<Rightarrow> bytes \<Rightarrow> bool" where
  "holds c m \<longleftrightarrow> (\<exists>front rest. m = front @ rest \<and> 64 dvd length front \<and> length rest < 64 \<and>
     length (md5_buffer c) = 64 \<and> buffer_length c = length rest \<and>
     take (length rest) (md5_buffer c) = rest \<and>
     md5_state c = foldl md5_compress md5_seed (md5_blocks front))"

lemma holdsI:
  "m = front @ rest \<Longrightarrow> 64 dvd length front \<Longrightarrow> length rest < 64 \<Longrightarrow>
     length (md5_buffer c) = 64 \<Longrightarrow> buffer_length c = length rest \<Longrightarrow>
     take (length rest) (md5_buffer c) = rest \<Longrightarrow>
     md5_state c = foldl md5_compress md5_seed (md5_blocks front) \<Longrightarrow> holds c m"
  unfolding holds_def by blast

lemma length_blit: "off + length d \<le> length b \<Longrightarrow> length (blit b off d) = length b"
  by (simp add: blit_def)

lemma take_blit: "off + length d \<le> length b \<Longrightarrow> take (off + length d) (blit b off d) = take off b @ d"
  by (simp add: blit_def)

lemma holds_fill:
  assumes "holds c m" "md5_fill c d = (c', d')"
  shows "\<exists>k. d' = drop k d \<and> holds c' (m @ take k d) \<and> (d' = [] \<or> buffer_length c' = 0)
    \<and> byte_count c' = byte_count c"
proof -
  obtain front rest where h: "m = front @ rest" "64 dvd length front" "length rest < 64"
    "length (md5_buffer c) = 64" "buffer_length c = length rest" "take (length rest) (md5_buffer c) = rest"
    "md5_state c = foldl md5_compress md5_seed (md5_blocks front)"
    using assms(1) unfolding holds_def by blast
  show ?thesis
  proof (cases "rest = []")
    case True
    with h assms show ?thesis by (intro exI [of _ 0]) (auto simp: md5_fill_def)
  next
    case False
    define k where "k = (if 64 - length rest > length d then length d else 64 - length rest)"
    have k: "k \<le> length d" "length rest + k \<le> 64" using h(3) by (auto simp: k_def)
    define b where "b = blit (md5_buffer c) (length rest) (take k d)"
    have lk: "length (take k d) = k" using k by simp
    have b: "length b = 64" "take (length rest + k) b = rest @ take k d"
      using length_blit [of "length rest" "take k d" "md5_buffer c"]
        take_blit [of "length rest" "take k d" "md5_buffer c"] k h by (simp_all only: lk b_def)
    have fill: "md5_fill c d = (let f = c\<lparr>md5_buffer := b, buffer_length := length rest + k\<rparr>
      in (if length rest + k = 64 then (transform f b)\<lparr>buffer_length := 0\<rparr> else f, drop k d))"
      using False h by (auto simp: md5_fill_def Let_def k_def b_def)
    show ?thesis
    proof (cases "length rest + k = 64")
      case True
      with b have "b = rest @ take k d" by (metis take_all order_refl)
      moreover have "md5_blocks b = [b]"
        using b(1) by (subst md5_blocks.simps) (simp add: md5_blocks_short)
      ultimately have "holds c' (m @ take k d)"
        using assms(2) fill True h(1,2,4,7) b(1) md5_blocks_append [OF h(2), of b]
        by (intro holdsI [of _ "front @ b" "[]"]) (auto simp: transform_def Let_def)
      then show ?thesis using assms(2) fill True by (auto simp: transform_def)
    next
      case False
      then have "k = length d" using k by (auto simp: k_def split: if_splits)
      moreover have "holds c' (m @ take k d)"
        using assms(2) fill False h b k
        by (intro holdsI [of _ front "rest @ take k d"]) (auto simp: Let_def)
      ultimately show ?thesis using assms(2) fill False by auto
    qed
  qed
qed

lemma holds_update:
  assumes "holds c m"
  shows "holds (cn_md5_update c d) (m @ d)"
    and "byte_count (cn_md5_update c d) = byte_count c + of_nat (length d)"
proof -
  define cc where "cc = c\<lparr>byte_count := byte_count c + of_nat (length d)\<rparr>"
  obtain f d' where fill: "md5_fill cc d = (f, d')" by fastforce
  have "holds cc m" using assms by (auto simp: holds_def cc_def)
  from holds_fill [OF this fill] obtain k where
    k: "d' = drop k d" "holds f (m @ take k d)" "d' = [] \<or> buffer_length f = 0" "byte_count f = byte_count cc"
    by blast
  define r where "r = drop (length d' div 64 * 64) d'"
  have r: "length r < 64" "length r = length d' mod 64" by (simp_all add: r_def minus_div_mult_eq_mod)
  define g where "g = f\<lparr>md5_state := foldl md5_compress (md5_state f) (md5_blocks d')\<rparr>"
  have upd: "cn_md5_update c d =
      (if length r \<noteq> 0 then g\<lparr>md5_buffer := blit (md5_buffer g) 0 r, buffer_length := length r\<rparr> else g)"
    using fill by (simp add: cn_md5_update_def Let_def cc_def md5_whole_blocks_eq r_def g_def)
  then show "byte_count (cn_md5_update c d) = byte_count c + of_nat (length d)"
    using k(4) by (simp add: g_def cc_def)
  have md: "m @ d = (m @ take k d) @ d'" using k(1) by simp
  show "holds (cn_md5_update c d) (m @ d)"
  proof (cases "d' = []")
    case True
    then have "r = []" "md5_blocks d' = []" by (simp_all add: r_def md5_blocks_short)
    then show ?thesis using k(2) True upd md by (simp add: g_def)
  next
    case False
    with k(3) have "buffer_length f = 0" by simp
    with k(2) have f: "64 dvd length (m @ take k d)" "length (md5_buffer f) = 64"
      "md5_state f = foldl md5_compress md5_seed (md5_blocks (m @ take k d))"
      by (auto simp: holds_def)
    define w where "w = take (length d' div 64 * 64) d'"
    have w: "d' = w @ r" "64 dvd length w" "md5_blocks d' = md5_blocks w"
      by (simp add: w_def r_def, unfold w_def, rule dvd_whole_blocks, rule md5_blocks_split)
    have front: "64 dvd length ((m @ take k d) @ w)" using f(1) w(2) by (simp only: length_append) (rule dvd_add)
    have state: "md5_state g = foldl md5_compress md5_seed (md5_blocks ((m @ take k d) @ w))"
      using f(3) w(3) by (simp add: g_def md5_blocks_append [OF f(1)] del: append_assoc)
    have "holds (cn_md5_update c d) (((m @ take k d) @ w) @ r)"
    proof (cases "r = []")
      case True
      then show ?thesis
        using upd front state f(2) \<open>buffer_length f = 0\<close>
        by (intro holdsI [of _ "(m @ take k d) @ w" "[]"]) (simp_all add: g_def)
    next
      case False
      then show ?thesis
        using upd front state f(2) r(1)
        by (intro holdsI [of _ "(m @ take k d) @ w" r])
          (simp_all add: g_def length_blit take_blit [where off = 0, simplified])
    qed
    then show ?thesis using md w(1) by simp
  qed
qed

section \<open>The streaming interface against the reference\<close>

lemma length_md5_padding: "length md5_padding = 64"
  by (simp add: md5_padding_def)

lemma length_le64 [simp]: "length (le64 n) = 8"
  by (simp add: le64_def)

lemma pad_length_dvd: "64 dvd n + (pad_length n + 8)"
proof -
  have "n + (pad_length n + 8) = 64 * (n div 64 + (if n mod 64 < 56 then 1 else 2))"
  proof -
    define q r where "q = n div 64" and "r = n mod 64"
    have "n = 64 * q + r" "r < 64" unfolding q_def r_def by simp_all
    then show ?thesis unfolding pad_length_def q_def [symmetric] r_def [symmetric] by simp
  qed
  then show ?thesis by (metis dvd_triv_left)
qed

lemma holds_dvd:
  assumes "holds c m" "64 dvd length m"
  shows "md5_state c = foldl md5_compress md5_seed (md5_blocks m)"
proof -
  obtain front rest where h: "m = front @ rest" "64 dvd length front" "length rest < 64"
    "md5_state c = foldl md5_compress md5_seed (md5_blocks front)"
    using assms(1) unfolding holds_def by blast
  then have "64 dvd length rest" using assms(2) by (simp add: dvd_add_right_iff)
  then have "rest = []" using h(3) by (auto dest: dvd_imp_le)
  with h show ?thesis by simp
qed

lemma md5_final_holds:
  assumes "holds c m" "byte_count c = of_nat (length m)"
  shows "snd (cn_md5_final c) = md5_reference m"
proof -
  have bl: "buffer_length c = length m mod 64"
    using assms(1) by (auto simp: holds_def mod_0_imp_dvd mod_add_eq dvd_eq_mod_eq_0)
  define pad where "pad = take (pad_length (length m)) md5_padding"
  have pad: "pad = take (if buffer_length c < 56 then 56 - buffer_length c else 120 - buffer_length c) md5_padding"
    by (simp add: pad_def pad_length_def bl)
  define last where "last = le64 (byte_count c * 8)"
  define f where "f = cn_md5_update (cn_md5_update c pad) last"
  have fin: "snd (cn_md5_final c) = md5_digest (md5_state f)"
    by (simp add: cn_md5_final_def Let_def f_def last_def pad)
  have h: "holds f ((m @ pad) @ last)"
    unfolding f_def by (intro holds_update assms)
  have "length pad = pad_length (length m)"
    by (simp add: pad_def length_md5_padding pad_length_def)
  then have "64 dvd length ((m @ pad) @ last)"
    using pad_length_dvd [of "length m"] by (simp add: last_def add.assoc)
  then have "md5_state f = foldl md5_compress md5_seed (md5_blocks ((m @ pad) @ last))"
    using h holds_dvd by blast
  then show ?thesis
    by (simp add: fin md5_reference_def pad_def last_def assms(2))
qed

lemma md5_init_holds: "length (md5_buffer c) = 64 \<Longrightarrow> holds (cn_md5_init c) []"
  by (intro holdsI [of _ "[]" "[]"]) (simp_all add: cn_md5_init_def md5_blocks_short)

lemma holds_updates:
  "holds c m \<Longrightarrow> holds (foldl cn_md5_update c chunks) (m @ concat chunks) \<and>
     byte_count (foldl cn_md5_update c chunks) = byte_count c + of_nat (length (concat chunks))"
proof (induction chunks arbitrary: c m)
  case (Cons d chunks)
  from holds_update [OF Cons.prems, of d] Cons.IH [of "cn_md5_update c d" "m @ d"]
  show ?case by (simp add: algebra_simps)
qed simp

lemma md5_streaming:
  assumes "length (md5_buffer c) = 64"
  shows "snd (cn_md5_final (foldl cn_md5_update (cn_md5_init c) chunks)) = md5_reference (concat chunks)"
  using holds_updates [OF md5_init_holds [OF assms], of chunks]
  by (intro md5_final_holds) (auto simp: cn_md5_init_def)

lemma length_md5_digest [simp]: "length (md5_digest s) = 16"
  by (cases s) (simp add: md5_digest_def write_u32le_def)

end
