(* ===== verification/Koreader_Identity.thy ===== *)
theory Koreader_Identity
  imports Md5
begin

text \<open>
  The document identities of KOReader, src/book/koreader_identity.c: the MD5 of twelve samples of
  the book (\<open>cn_book_identity_koreader_binary\<close>) or of its base name
  (\<open>cn_book_identity_koreader_filename\<close>), kept as 32 hexadecimal characters.

  The stdio calls work on a \<open>stdio_file\<close>: its bytes, and which of its seeks, reads and its close
  fail.  \<open>fopen\<close> is the argument \<open>files\<close>, which gives no file for a path that cannot be opened.
\<close>

datatype cn_koreader_identity_result =
  CN_KOREADER_IDENTITY_OK | CN_KOREADER_IDENTITY_INVALID | CN_KOREADER_IDENTITY_IO_ERROR

definition koreader_path_max_bytes :: nat where "koreader_path_max_bytes = 4096"
definition document_id_bytes :: nat where "document_id_bytes = 33"
definition sample_bytes :: nat where "sample_bytes = 1024"

definition sample_offsets :: "nat list" where
  "sample_offsets = [0, 1024, 4096, 16384, 65536, 262144, 1048576, 4194304, 16777216, 67108864,
     268435456, 1073741824]"

record stdio_file =
  contents :: bytes
  seek_fails :: "nat \<Rightarrow> bool"
  read_fails :: "nat \<Rightarrow> bool"
  close_fails :: bool

definition bounded_length :: "bytes option \<Rightarrow> nat option" where
  "bounded_length text' = (case text' of None \<Rightarrow> None
     | Some s \<Rightarrow> (let n = scan_nul s (koreader_path_max_bytes + 1)
                 in if n \<le> koreader_path_max_bytes then Some n else None))"

definition digest_to_text :: "bytes \<Rightarrow> bytes" where
  "digest_to_text digest =
     concat (map (\<lambda>b. [hex_digit (unat (drop_bit 4 b)), hex_digit (unat (b AND 0x0f))]) digest) @ [0]"

definition fresh_md5 :: cn_md5_context where
  "fresh_md5 = \<lparr>md5_state = (0, 0, 0, 0), byte_count = 0, md5_buffer = replicate 64 0, buffer_length = 0\<rparr>"

definition md5_text :: "bytes \<Rightarrow> bytes" where
  "md5_text data = digest_to_text (snd (cn_md5_final (cn_md5_update (cn_md5_init fresh_md5) data)))"

definition cn_koreader_document_id_init :: "bytes option \<Rightarrow> bytes option" where
  "cn_koreader_document_id_init identity = map_option (\<lambda>_. replicate document_id_bytes 0) identity"

text \<open>The sampling loop: \<open>None\<close> is the early return with \<open>IO_ERROR\<close>.\<close>

fun sample_loop :: "stdio_file \<Rightarrow> nat list \<Rightarrow> cn_md5_context \<Rightarrow> cn_md5_context option" where
  "sample_loop file [] context = Some context"
| "sample_loop file (offset # offsets) context =
     (if seek_fails file offset then None
      else let sample = take sample_bytes (drop offset (contents file)) in
        if read_fails file offset then None
        else if length sample = 0 then Some context
        else sample_loop file offsets (cn_md5_update context sample))"

definition cn_book_identity_koreader_binary ::
  "(bytes \<Rightarrow> stdio_file option) \<Rightarrow> bytes option \<Rightarrow> bytes option \<Rightarrow> cn_koreader_identity_result \<times> bytes option" where
  "cn_book_identity_koreader_binary files path identity = (case identity of
     None \<Rightarrow> (CN_KOREADER_IDENTITY_INVALID, None)
   | Some _ \<Rightarrow>
       let identity = cn_koreader_document_id_init identity in
       if bounded_length path = None \<or> bounded_length path = Some 0
       then (CN_KOREADER_IDENTITY_INVALID, identity)
       else case files (cstr (the path)) of
         None \<Rightarrow> (CN_KOREADER_IDENTITY_IO_ERROR, identity)
       | Some file \<Rightarrow>
           (case sample_loop file sample_offsets (cn_md5_init fresh_md5) of
              None \<Rightarrow> (CN_KOREADER_IDENTITY_IO_ERROR, identity)
            | Some context \<Rightarrow>
                if close_fails file then (CN_KOREADER_IDENTITY_IO_ERROR, identity)
                else (CN_KOREADER_IDENTITY_OK, Some (digest_to_text (snd (cn_md5_final context))))))"

text \<open>\<open>strrchr(path, '/')\<close>: the text after the last slash.\<close>

definition base_name :: "bytes \<Rightarrow> bytes" where
  "base_name path = rev (takeWhile (\<lambda>c. c \<noteq> of_char CHR ''/'') (rev path))"

definition cn_book_identity_koreader_filename ::
  "bytes option \<Rightarrow> bytes option \<Rightarrow> cn_koreader_identity_result \<times> bytes option" where
  "cn_book_identity_koreader_filename path identity = (case identity of
     None \<Rightarrow> (CN_KOREADER_IDENTITY_INVALID, None)
   | Some _ \<Rightarrow>
       let identity = cn_koreader_document_id_init identity in
       case bounded_length path of
         None \<Rightarrow> (CN_KOREADER_IDENTITY_INVALID, identity)
       | Some path_length \<Rightarrow>
           (CN_KOREADER_IDENTITY_OK, Some (md5_text (base_name (take path_length (the path))))))"

definition cn_koreader_document_id_text :: "bytes option \<Rightarrow> bytes option" where
  "cn_koreader_document_id_text identity = (case identity of None \<Rightarrow> None
     | Some hex \<Rightarrow>
         if char_at hex 32 \<noteq> 0 then None
         else if \<not> (\<forall>i \<in> {0..<32}. lower_hex (char_at hex i)) then None
         else Some hex)"

section \<open>Digest text\<close>

lemma byte_nibbles: "unat (drop_bit 4 (b :: byte)) < 16" "unat ((b :: byte) AND 0x0f) < 16"
  by (simp_all add: unat_drop_bit byte_and_low div_less_iff_less_mult)

lemma length_digest_to_text: "length (digest_to_text d) = 2 * length d + 1"
  by (induction d) (simp_all add: digest_to_text_def)

lemma digest_to_text_hex:
  "\<exists>hex. digest_to_text d = hex @ [0] \<and> length hex = 2 * length d \<and> list_all lower_hex hex"
proof -
  let ?f = "\<lambda>b :: byte. [hex_digit (unat (drop_bit 4 b)), hex_digit (unat (b AND 0x0f))]"
  have "length (concat (map ?f d)) = 2 * length d" by (induction d) simp_all
  moreover have "list_all lower_hex (concat (map ?f d))"
    by (auto simp: list_all_iff byte_nibbles lower_hex_digit)
  ultimately show ?thesis unfolding digest_to_text_def by blast
qed

lemma document_id_text_hex:
  "length hex = 32 \<Longrightarrow> list_all lower_hex hex \<Longrightarrow> cn_koreader_document_id_text (Some (hex @ [0])) = Some (hex @ [0])"
  by (auto simp: cn_koreader_document_id_text_def char_at_def nth_append list_all_length)

lemma document_id_text_digest:
  "length d = 16 \<Longrightarrow> cn_koreader_document_id_text (Some (digest_to_text d)) = Some (digest_to_text d)"
  using digest_to_text_hex [of d] document_id_text_hex by auto

lemma document_id_text_blank: "cn_koreader_document_id_text (Some (replicate document_id_bytes 0)) = None"
proof -
  have "\<not> lower_hex (char_at (replicate document_id_bytes 0) 0)"
    by (simp add: char_at_def document_id_bytes_def lower_hex_def)
  then show ?thesis unfolding cn_koreader_document_id_text_def by auto
qed

text \<open>The hexadecimal text determines the digest.\<close>

lemma byte_from_nibbles:
  "unat (drop_bit 4 a) = unat (drop_bit 4 b) \<Longrightarrow> unat (a AND 0x0f) = unat (b AND 0x0f) \<Longrightarrow> a = (b :: byte)"
proof -
  assume h: "unat (drop_bit 4 a) = unat (drop_bit 4 b)" and l: "unat (a AND 0x0f) = unat (b AND 0x0f)"
  have parts: "unat x = unat (drop_bit 4 x) * 16 + unat (x AND 0x0f)" for x :: byte
    by (simp add: unat_drop_bit byte_and_low)
  have "unat a = unat b" using parts [of a] parts [of b] h l by metis
  then show "a = b" by (simp only: word_unat_eq_iff)
qed

lemma digest_to_text_inj: "digest_to_text d = digest_to_text e \<longleftrightarrow> d = e"
proof (induction d arbitrary: e)
  case Nil
  show ?case by (cases e) (simp_all add: digest_to_text_def)
next
  case (Cons a d)
  show ?case
  proof (cases e)
    case (Cons b e')
    have "hex_digit m = hex_digit n \<longleftrightarrow> m = n" if "m < 16" "n < 16" for m n
      using that hex_value_digit by (metis option.inject)
    then show ?thesis
      using Cons.IH [of e'] Cons byte_from_nibbles [of a b]
      by (auto simp: digest_to_text_def byte_nibbles)
  qed (simp add: digest_to_text_def)
qed

section \<open>The sampled digest\<close>

fun samples :: "bytes \<Rightarrow> nat list \<Rightarrow> bytes list" where
  "samples book [] = []"
| "samples book (offset # offsets) =
     (let sample = take sample_bytes (drop offset book)
      in if sample = [] then [] else sample # samples book offsets)"

lemma sample_loop_updates:
  "sample_loop file offsets c = Some c' \<Longrightarrow> c' = foldl cn_md5_update c (samples (contents file) offsets)"
  by (induction offsets arbitrary: c) (auto simp: Let_def split: if_splits)

lemma sample_loop_succeeds:
  "\<forall>x. \<not> seek_fails file x \<and> \<not> read_fails file x \<Longrightarrow>
     sample_loop file offsets c = Some (foldl cn_md5_update c (samples (contents file) offsets))"
  by (induction offsets arbitrary: c) (auto simp: Let_def)

lemma md5_fresh_stream:
  "snd (cn_md5_final (foldl cn_md5_update (cn_md5_init fresh_md5) chunks)) = md5_reference (concat chunks)"
  by (rule md5_streaming) (simp add: fresh_md5_def)

lemma md5_text_reference: "md5_text d = digest_to_text (md5_reference d)"
  using md5_fresh_stream [of "[d]"] by (simp add: md5_text_def)

lemma length_md5_reference [simp]: "length (md5_reference d) = 16"
  by (simp add: md5_reference_def)

lemma bounded_length_eq:
  "bounded_length (Some s) = (if strlen s \<le> koreader_path_max_bytes then Some (strlen s) else None)"
  by (auto simp: bounded_length_def scan_nul_eq Let_def)

section \<open>Properties\<close>

text \<open>C8. The binary identity: when it is made it is the MD5, in hexadecimal, of the samples of the
  book up to the first empty one; whatever read, seek or close fails, the identity stays blank and
  \<open>cn_koreader_document_id_text\<close> gives NULL.  On a file with no failing call it is made.\<close>

theorem koreader_binary_identity:
  "case cn_book_identity_koreader_binary files path (Some old) of (result, identity) \<Rightarrow>
     (if result = CN_KOREADER_IDENTITY_OK
      then (\<exists>file. files (cstr (the path)) = Some file \<and>
        identity = Some (digest_to_text (md5_reference (concat (samples (contents file) sample_offsets))))) \<and>
        cn_koreader_document_id_text identity = identity
      else cn_koreader_document_id_text identity = None) \<and>
     (result = CN_KOREADER_IDENTITY_INVALID \<longleftrightarrow>
        \<not> (path \<noteq> None \<and> 1 \<le> strlen (the path) \<and> strlen (the path) \<le> koreader_path_max_bytes)) \<and>
     (result = CN_KOREADER_IDENTITY_OK \<longleftrightarrow>
        path \<noteq> None \<and> 1 \<le> strlen (the path) \<and> strlen (the path) \<le> koreader_path_max_bytes \<and>
        (\<exists>file. files (cstr (the path)) = Some file \<and> \<not> close_fails file \<and>
           sample_loop file sample_offsets (cn_md5_init fresh_md5) \<noteq> None))"
proof (cases path)
  case None
  then show ?thesis
    by (simp add: cn_book_identity_koreader_binary_def bounded_length_def cn_koreader_document_id_init_def
        document_id_text_blank)
next
  case (Some p)
  show ?thesis
  proof (cases "sample_loop (the (files (cstr p))) sample_offsets (cn_md5_init fresh_md5)")
    case None
    then show ?thesis
      by (auto simp: Some cn_book_identity_koreader_binary_def bounded_length_eq Let_def
          cn_koreader_document_id_init_def document_id_text_blank split: option.splits)
  next
    case (Some c)
    note c = sample_loop_updates [OF Some]
    show ?thesis
      using Some \<open>path = Some p\<close> c
      by (auto simp: cn_book_identity_koreader_binary_def bounded_length_eq Let_def md5_fresh_stream
          cn_koreader_document_id_init_def document_id_text_blank document_id_text_digest split: option.splits)
  qed
qed

text \<open>The filename identity is the MD5, in hexadecimal, of what follows the last slash, so a book
  keeps it when its directory changes.\<close>

theorem koreader_filename_identity:
  "cn_book_identity_koreader_filename (Some path) (Some old) =
     (if strlen path \<le> koreader_path_max_bytes
      then (CN_KOREADER_IDENTITY_OK, Some (digest_to_text (md5_reference (base_name (cstr path)))))
      else (CN_KOREADER_IDENTITY_INVALID, Some (replicate document_id_bytes 0))) \<and>
   base_name (dir @ of_char CHR ''/'' # base_name path) = base_name path"
proof
  have "\<forall>c \<in> set (rev (base_name path)). c \<noteq> of_char CHR ''/''"
    by (auto simp: base_name_def dest: set_takeWhileD)
  then have "takeWhile (\<lambda>c. c \<noteq> of_char CHR ''/'') (rev (base_name path) @ of_char CHR ''/'' # rev dir) =
      rev (base_name path)"
    by (subst takeWhile_append) simp
  then show "base_name (dir @ of_char CHR ''/'' # base_name path) = base_name path"
    by (subst base_name_def) simp
qed (simp add: cn_book_identity_koreader_filename_def bounded_length_eq md5_text_reference take_strlen
    cn_koreader_document_id_init_def Let_def)

text \<open>C7. However a message is cut into updates, the streaming MD5 gives the digest of the whole.\<close>

theorem md5_streaming_is_one_shot:
  assumes "length (md5_buffer context) = 64"
  shows "snd (cn_md5_final (foldl cn_md5_update (cn_md5_init context) chunks)) = md5_reference (concat chunks)"
  using assms by (rule md5_streaming)

theorem md5_streaming_witness:
  "snd (cn_md5_final (foldl cn_md5_update (cn_md5_init fresh_md5) [str ''mess'', [], str ''age''])) =
     md5_reference (str ''message'')"
  using md5_streaming_is_one_shot [of fresh_md5 "[str ''mess'', [], str ''age'']"]
  by (simp add: fresh_md5_def)

end
