(* ===== verification/Posix.thy ===== *)
theory Posix
  imports Prelude
begin

text \<open>
  The operating system as the stores use it: the calls of unistd.h, fcntl.h and sys/stat.h with the
  behaviour POSIX documents, on an explicit state.

  A file system maps path names to inodes.  Paths are opaque names; what the kernel would answer
  about their components (permissions, a missing parent) comes from the schedule \<open>faults\<close>, a list
  from which every call takes one entry: \<open>Fail e\<close> makes the call fail with \<open>e\<close> and no effect,
  \<open>Short n\<close> limits the bytes a read or write transfers, \<open>Normal\<close> lets it run.  After the end of the
  list every call runs.  An allocation takes an entry too and fails on \<open>Fail\<close>.

  A regular file carries a flag that tells whether its bytes have reached the disk (\<open>fsync\<close>), and
  \<open>history\<close> keeps the file system after every call, so that what another process or a crash could
  see at any moment is part of the state.
\<close>

datatype errno = ENOENT | ENOTDIR | ELOOP | EACCES | EPERM | EROFS | ENOSPC | EDQUOT | ENAMETOOLONG
  | EINTR | EEXIST | EISDIR | EIO | EBADF | EOTHER nat

datatype node = Regular bytes bool | Directory | Link bytes | Special

datatype fault = Normal | Fail errno | Short nat

record filesystem =
  names :: "bytes \<Rightarrow> nat option"
  inodes :: "nat \<Rightarrow> node"

record os =
  fs :: filesystem
  fds :: "nat \<Rightarrow> (nat \<times> nat) option"
  next_inode :: nat
  next_fd :: nat
  pid :: bytes
  faults :: "fault list"
  history :: "filesystem list"

record stat =
  st_node :: node
  st_ino :: nat
  st_size :: nat

type_synonym 'a answer = "(errno + 'a) \<times> os"

section \<open>Calls\<close>

definition next_fault :: "os \<Rightarrow> fault" where
  "next_fault s = (case faults s of [] \<Rightarrow> Normal | f # _ \<Rightarrow> f)"

text \<open>Every call ends by consuming its fault and recording the file system it leaves.\<close>

definition leave :: "os \<Rightarrow> os" where
  "leave s = s\<lparr>faults := tl (faults s), history := fs s # history s\<rparr>"

definition call :: "os \<Rightarrow> (nat option \<Rightarrow> (errno + 'a) \<times> os) \<Rightarrow> 'a answer" where
  "call s run = (case next_fault s of
     Fail e \<Rightarrow> (Inl e, leave s)
   | Normal \<Rightarrow> (case run None of (r, s') \<Rightarrow> (r, leave s'))
   | Short n \<Rightarrow> (case run (Some n) of (r, s') \<Rightarrow> (r, leave s')))"

definition make_stat :: "filesystem \<Rightarrow> nat \<Rightarrow> stat" where
  "make_stat f i = \<lparr>st_node = inodes f i, st_ino = i,
     st_size = (case inodes f i of Regular d _ \<Rightarrow> length d | _ \<Rightarrow> 0)\<rparr>"

fun resolve :: "nat \<Rightarrow> filesystem \<Rightarrow> bytes \<Rightarrow> errno + nat" where
  "resolve 0 f path = Inl ELOOP"
| "resolve (Suc n) f path = (case names f path of None \<Rightarrow> Inl ENOENT
     | Some i \<Rightarrow> (case inodes f i of Link target \<Rightarrow> resolve n f target | _ \<Rightarrow> Inr i))"

definition link_limit :: nat where "link_limit = 8"

definition sys_lstat :: "bytes \<Rightarrow> os \<Rightarrow> stat answer" where
  "sys_lstat path s = call s (\<lambda>_. (case names (fs s) path of
     None \<Rightarrow> Inl ENOENT | Some i \<Rightarrow> Inr (make_stat (fs s) i), s))"

definition sys_stat :: "bytes \<Rightarrow> os \<Rightarrow> stat answer" where
  "sys_stat path s = call s (\<lambda>_. (case resolve link_limit (fs s) path of
     Inl e \<Rightarrow> Inl e | Inr i \<Rightarrow> Inr (make_stat (fs s) i), s))"

definition sys_fstat :: "nat \<Rightarrow> os \<Rightarrow> stat answer" where
  "sys_fstat fd s = call s (\<lambda>_. (case fds s fd of
     None \<Rightarrow> Inl EBADF | Some (i, _) \<Rightarrow> Inr (make_stat (fs s) i), s))"

definition allocate_fd :: "nat \<Rightarrow> os \<Rightarrow> (errno + nat) \<times> os" where
  "allocate_fd i s = (Inr (next_fd s), s\<lparr>fds := (fds s)(next_fd s \<mapsto> (i, 0)), next_fd := Suc (next_fd s)\<rparr>)"

text \<open>\<open>open\<close> for reading; the flags are whether it follows a link and whether it wants a directory.\<close>

definition sys_open_read :: "bool \<Rightarrow> bool \<Rightarrow> bytes \<Rightarrow> os \<Rightarrow> nat answer" where
  "sys_open_read nofollow directory path s = call s (\<lambda>_.
     case (if nofollow
           then (case names (fs s) path of None \<Rightarrow> Inl ENOENT
             | Some i \<Rightarrow> (case inodes (fs s) i of Link _ \<Rightarrow> Inl ELOOP | _ \<Rightarrow> Inr i))
           else resolve link_limit (fs s) path) of
       Inl e \<Rightarrow> (Inl e, s)
     | Inr i \<Rightarrow> if directory \<and> inodes (fs s) i \<noteq> Directory then (Inl ENOTDIR, s) else allocate_fd i s)"

text \<open>\<open>open\<close> with \<open>O_WRONLY | O_CREAT | O_EXCL\<close>: the name must be free.\<close>

definition sys_create :: "bytes \<Rightarrow> os \<Rightarrow> nat answer" where
  "sys_create path s = call s (\<lambda>_. case names (fs s) path of
       Some _ \<Rightarrow> (Inl EEXIST, s)
     | None \<Rightarrow> allocate_fd (next_inode s) (s\<lparr>
         fs := \<lparr>names = (names (fs s))(path \<mapsto> next_inode s),
                inodes = (inodes (fs s))(next_inode s := Regular [] False)\<rparr>,
         next_inode := Suc (next_inode s)\<rparr>))"

definition sys_read :: "nat \<Rightarrow> nat \<Rightarrow> os \<Rightarrow> bytes answer" where
  "sys_read fd count s = call s (\<lambda>short. case fds s fd of
       None \<Rightarrow> (Inl EBADF, s)
     | Some (i, offset) \<Rightarrow>
         (case inodes (fs s) i of
            Regular d _ \<Rightarrow>
              let limit = (case short of None \<Rightarrow> count | Some n \<Rightarrow> min count (max 1 n));
                  got = take limit (drop offset d)
              in (Inr got, s\<lparr>fds := (fds s)(fd \<mapsto> (i, offset + length got))\<rparr>)
          | _ \<Rightarrow> (Inl EISDIR, s)))"

definition sys_write :: "nat \<Rightarrow> bytes \<Rightarrow> os \<Rightarrow> nat answer" where
  "sys_write fd bs s = call s (\<lambda>short. case fds s fd of
       None \<Rightarrow> (Inl EBADF, s)
     | Some (i, offset) \<Rightarrow>
         (case inodes (fs s) i of
            Regular d _ \<Rightarrow>
              let put = take (case short of None \<Rightarrow> length bs | Some n \<Rightarrow> n) bs
              in (Inr (length put), s\<lparr>
                   fs := (fs s)\<lparr>inodes := (inodes (fs s))(i :=
                     Regular (take offset d @ put @ drop (offset + length put) d) False)\<rparr>,
                   fds := (fds s)(fd \<mapsto> (i, offset + length put))\<rparr>)
          | _ \<Rightarrow> (Inl EBADF, s)))"

definition sys_fsync :: "nat \<Rightarrow> os \<Rightarrow> unit answer" where
  "sys_fsync fd s = call s (\<lambda>_. case fds s fd of
       None \<Rightarrow> (Inl EBADF, s)
     | Some (i, _) \<Rightarrow>
         (case inodes (fs s) i of
            Regular d _ \<Rightarrow> (Inr (), s\<lparr>fs := (fs s)\<lparr>inodes := (inodes (fs s))(i := Regular d True)\<rparr>\<rparr>)
          | _ \<Rightarrow> (Inr (), s)))"

text \<open>A failing \<open>close\<close> has closed the descriptor all the same.\<close>

definition sys_close :: "nat \<Rightarrow> os \<Rightarrow> unit answer" where
  "sys_close fd s = (case next_fault s of
       Fail e \<Rightarrow> (Inl e, leave (s\<lparr>fds := (fds s)(fd := None)\<rparr>))
     | _ \<Rightarrow> (case fds s fd of None \<Rightarrow> (Inl EBADF, leave s)
         | Some _ \<Rightarrow> (Inr (), leave (s\<lparr>fds := (fds s)(fd := None)\<rparr>))))"

definition sys_unlink :: "bytes \<Rightarrow> os \<Rightarrow> unit answer" where
  "sys_unlink path s = call s (\<lambda>_. case names (fs s) path of
       None \<Rightarrow> (Inl ENOENT, s)
     | Some i \<Rightarrow> if inodes (fs s) i = Directory then (Inl EISDIR, s)
         else (Inr (), s\<lparr>fs := (fs s)\<lparr>names := (names (fs s))(path := None)\<rparr>\<rparr>))"

definition sys_rename :: "bytes \<Rightarrow> bytes \<Rightarrow> os \<Rightarrow> unit answer" where
  "sys_rename from' to s = call s (\<lambda>_. case names (fs s) from' of
       None \<Rightarrow> (Inl ENOENT, s)
     | Some i \<Rightarrow>
         if (case names (fs s) to of None \<Rightarrow> False | Some j \<Rightarrow> inodes (fs s) j = Directory) then (Inl EISDIR, s)
         else (Inr (), s\<lparr>fs := (fs s)\<lparr>names := (names (fs s))(from' := None, to \<mapsto> i)\<rparr>\<rparr>))"

definition sys_mkdir :: "bytes \<Rightarrow> os \<Rightarrow> unit answer" where
  "sys_mkdir path s = call s (\<lambda>_. case names (fs s) path of
       Some _ \<Rightarrow> (Inl EEXIST, s)
     | None \<Rightarrow> (Inr (), s\<lparr>
         fs := \<lparr>names = (names (fs s))(path \<mapsto> next_inode s),
                inodes = (inodes (fs s))(next_inode s := Directory)\<rparr>,
         next_inode := Suc (next_inode s)\<rparr>))"

text \<open>\<open>malloc\<close> and \<open>calloc\<close>: whether memory was obtained.\<close>

definition sys_malloc :: "os \<Rightarrow> bool \<times> os" where
  "sys_malloc s = (case next_fault s of Fail _ \<Rightarrow> (False, leave s) | _ \<Rightarrow> (True, leave s))"

section \<open>What a path holds\<close>

definition file_at :: "filesystem \<Rightarrow> bytes \<Rightarrow> (bytes \<times> bool) option" where
  "file_at f path = (case names f path of None \<Rightarrow> None
     | Some i \<Rightarrow> (case inodes f i of Regular d synced \<Rightarrow> Some (d, synced) | _ \<Rightarrow> None))"

definition below :: "nat \<Rightarrow> (nat \<times> nat) option \<Rightarrow> bool" where
  "below n entry = (case entry of None \<Rightarrow> True | Some (i, _) \<Rightarrow> i < n)"

lemma below_simps [simp]: "below n None" "below n (Some (i, off)) \<longleftrightarrow> i < n"
  by (simp_all add: below_def)

lemma below_Suc [simp]: "below n entry \<Longrightarrow> below (Suc n) entry"
  by (auto simp: below_def split: option.splits)

text \<open>The bookkeeping the calls keep: inode numbers and descriptors are fresh when they are given out.\<close>

definition wf_os :: "os \<Rightarrow> bool" where
  "wf_os s \<longleftrightarrow> (\<forall>path i. names (fs s) path = Some i \<longrightarrow> i < next_inode s) \<and>
     (\<forall>fd. below (next_inode s) (fds s fd)) \<and>
     (\<forall>fd \<ge> next_fd s. fds s fd = None) \<and>
     (\<forall>p q i. names (fs s) p = Some i \<longrightarrow> names (fs s) q = Some i \<longrightarrow> p = q)"

text \<open>Every file system since \<open>s\<close> satisfies \<open>P\<close>.\<close>

definition always :: "(filesystem \<Rightarrow> bool) \<Rightarrow> os \<Rightarrow> os \<Rightarrow> bool" where
  "always P s s' \<longleftrightarrow> (\<exists>new. history s' = new @ history s \<and> list_all P new)"

text \<open>
  An inode may reach the disk on its own, so keeping a file means keeping its kind and bytes; a file
  that has been synced stays synced.
\<close>

definition settles :: "node \<Rightarrow> node \<Rightarrow> bool" where
  "settles a b \<longleftrightarrow> b = a \<or> (\<exists>d. a = Regular d False \<and> b = Regular d True)"

lemma settles_refl [simp, intro]: "settles a a"
  by (simp add: settles_def)

lemma settles_trans: "settles a b \<Longrightarrow> settles b c \<Longrightarrow> settles a c"
  by (auto simp: settles_def)

lemma settles_synced: "settles (Regular d b) (Regular d True)"
  by (cases b) (simp_all add: settles_def)

definition same_at :: "bytes \<Rightarrow> filesystem \<Rightarrow> filesystem \<Rightarrow> bool" where
  "same_at path f g \<longleftrightarrow> names g path = names f path \<and>
     (\<forall>i. names f path = Some i \<longrightarrow> settles (inodes f i) (inodes g i))"

definition bytes_at :: "filesystem \<Rightarrow> bytes \<Rightarrow> bytes option" where
  "bytes_at f path = map_option fst (file_at f path)"

lemma same_at_refl [simp, intro]: "same_at path f f"
  by (simp add: same_at_def)

lemma same_at_trans: "same_at path f g \<Longrightarrow> same_at path g h \<Longrightarrow> same_at path f h"
  by (auto simp: same_at_def intro: settles_trans)

lemma same_at_bytes: "same_at path f g \<Longrightarrow> bytes_at g path = bytes_at f path"
  by (auto simp: same_at_def bytes_at_def file_at_def settles_def split: option.splits node.splits)

lemma same_at_synced: "same_at path f g \<Longrightarrow> file_at f path = Some (d, True) \<Longrightarrow> file_at g path = Some (d, True)"
  by (auto simp: same_at_def file_at_def settles_def split: option.splits node.splits)

text \<open>
  The scratch name \<open>tmp\<close> is the only name whose file has changed since \<open>s0\<close>, now or at any moment
  in between.
\<close>

definition outside :: "bytes \<Rightarrow> os \<Rightarrow> os \<Rightarrow> bool" where
  "outside tmp s0 s \<longleftrightarrow> wf_os s \<and> (\<forall>q. q \<noteq> tmp \<longrightarrow> same_at q (fs s0) (fs s)) \<and>
     always (\<lambda>f. \<forall>q. q \<noteq> tmp \<longrightarrow> same_at q (fs s0) f) s0 s"

text \<open>One call that changes at most the file called \<open>tmp\<close>.\<close>

definition touches :: "bytes \<Rightarrow> os \<Rightarrow> os \<Rightarrow> bool" where
  "touches tmp s s' \<longleftrightarrow> wf_os s' \<and> history s' = fs s' # history s \<and> (\<forall>q. q \<noteq> tmp \<longrightarrow> same_at q (fs s) (fs s'))"

lemma outside_refl: "wf_os s \<Longrightarrow> outside tmp s s"
  by (simp add: outside_def always_def)

lemma outside_wf: "outside tmp s0 s \<Longrightarrow> wf_os s"
  by (simp add: outside_def)

lemma outside_touches: "outside tmp s0 s \<Longrightarrow> touches tmp s s' \<Longrightarrow> outside tmp s0 s'"
  unfolding outside_def touches_def always_def
  by (auto intro: same_at_trans) (metis append_Cons list.pred_inject(2) same_at_trans)

text \<open>A descriptor that is writing \<open>tmp\<close> and stands at its end, after the bytes \<open>d\<close>.\<close>

definition writing :: "bytes \<Rightarrow> nat \<Rightarrow> bytes \<Rightarrow> os \<Rightarrow> bool" where
  "writing tmp fd d s \<longleftrightarrow> (\<exists>i b. fds s fd = Some (i, length d) \<and> names (fs s) tmp = Some i \<and>
     inodes (fs s) i = Regular d b)"

lemma call_cases:
  assumes "call s run = (r, s')"
  obtains (fail) e where "r = Inl e" "s' = leave s"
    | (run) short s'' where "run short = (r, s'')" "s' = leave s''"
  using assms by (auto simp: call_def split: fault.splits prod.splits)

lemma leave_simps [simp]:
  "fs (leave s) = fs s" "fds (leave s) = fds s" "next_inode (leave s) = next_inode s"
  "next_fd (leave s) = next_fd s" "pid (leave s) = pid s" "history (leave s) = fs s # history s"
  "faults (leave s) = tl (faults s)"
  by (simp_all add: leave_def)

lemma wf_leave [simp]: "wf_os (leave s) = wf_os s"
  by (simp add: wf_os_def)

lemma touches_leave: "wf_os s \<Longrightarrow> touches tmp s (leave s)"
  by (simp add: touches_def)

lemma wf_inodes [simp]: "wf_os (s\<lparr>fs := (fs s)\<lparr>inodes := f\<rparr>\<rparr>) = wf_os s"
  by (simp add: wf_os_def)

lemma wf_fresh: "wf_os s \<Longrightarrow> names (fs s) q \<noteq> Some (next_inode s)"
  by (auto simp: wf_os_def)

lemma wf_advance:
  assumes "wf_os s" "fds s fd = Some (i, m)"
  shows "wf_os (s\<lparr>fs := (fs s)\<lparr>inodes := f\<rparr>, fds := (fds s)(fd \<mapsto> (i, n))\<rparr>)"
proof -
  have "below (next_inode s) (fds s fd)" using assms(1) by (simp add: wf_os_def)
  then have "i < next_inode s" using assms(2) by simp
  moreover have "\<not> next_fd s \<le> fd" using assms by (auto simp: wf_os_def)
  ultimately show ?thesis using assms(1) by (auto simp: wf_os_def)
qed

lemma sys_unlink_spec:
  assumes "sys_unlink tmp s = (r, s')" "wf_os s"
  shows "touches tmp s s'" and "fds s' = fds s" and "next_fd s' = next_fd s" and "pid s' = pid s"
    and "r = Inr () \<Longrightarrow> names (fs s') tmp = None"
proof -
  from assms(1)[unfolded sys_unlink_def] show "touches tmp s s'"
    using assms(2) by (cases rule: call_cases)
      (auto simp: touches_def wf_os_def same_at_def split: option.splits if_splits)
qed (use assms(1) [unfolded sys_unlink_def] in
      \<open>cases rule: call_cases; auto split: option.splits if_splits\<close>)+

lemma sys_create_spec:
  assumes "sys_create tmp s = (r, s')" "wf_os s"
  shows "touches tmp s s'" and "pid s' = pid s"
    and "r = Inl e \<Longrightarrow> fds s' = fds s"
    and "r = Inr fd \<Longrightarrow> writing tmp fd [] s' \<and> (fds s')(fd := None) = fds s"
proof -
  from assms(1)[unfolded sys_create_def] show "touches tmp s s'"
  proof (cases rule: call_cases)
    case (run short s'')
    then show ?thesis
      using assms(2) wf_fresh [OF assms(2)]
      by (auto simp: touches_def wf_os_def same_at_def allocate_fd_def split: option.splits if_splits
          intro!: less_SucI)
  qed (use assms(2) in \<open>simp add: touches_leave\<close>)
  from assms(1)[unfolded sys_create_def] show "r = Inr fd \<Longrightarrow> writing tmp fd [] s' \<and> (fds s')(fd := None) = fds s"
    using assms(2)
    by (cases rule: call_cases)
      (auto simp: writing_def allocate_fd_def wf_os_def fun_eq_iff split: option.splits)
qed (use assms(1) [unfolded sys_create_def] in
      \<open>cases rule: call_cases; auto simp: allocate_fd_def split: option.splits if_splits\<close>)+

lemma writing_unique: "writing tmp fd d s \<Longrightarrow> wf_os s \<Longrightarrow> fds s fd = Some (i, n) \<Longrightarrow> names (fs s) q = Some i \<Longrightarrow> q = tmp"
  by (auto simp: writing_def wf_os_def)

lemma sys_write_spec:
  assumes "sys_write fd bs s = (r, s')" "wf_os s" "writing tmp fd d s"
  shows "touches tmp s s'" and "pid s' = pid s" and "(fds s')(fd := None) = (fds s)(fd := None)"
    and "r = Inl e \<Longrightarrow> writing tmp fd d s'"
    and "r = Inr n \<Longrightarrow> n \<le> length bs \<and> writing tmp fd (d @ take n bs) s'"
proof -
  obtain i b where w: "fds s fd = Some (i, length d)" "names (fs s) tmp = Some i" "inodes (fs s) i = Regular d b"
    using assms(3) by (auto simp: writing_def)
  have u: "q = tmp" if "names (fs s) q = Some i" for q
    using writing_unique [OF assms(3,2) w(1) that] .
  have short: "take (length (take k bs)) bs = take k bs" "length (take k bs) \<le> length bs" for k
    by (simp_all add: min_def)
  define after where "after n = leave (s\<lparr>
      fs := (fs s)\<lparr>inodes := (inodes (fs s))(i := Regular (d @ take n bs) False)\<rparr>,
      fds := (fds s)(fd \<mapsto> (i, length d + n))\<rparr>)" for n
  have "(\<exists>e. r = Inl e \<and> s' = leave s) \<or> (\<exists>n \<le> length bs. r = Inr n \<and> s' = after n)"
    using assms(1)[unfolded sys_write_def]
  proof (cases rule: call_cases)
    case (run k s'')
    define put where "put = take (case k of None \<Rightarrow> length bs | Some n \<Rightarrow> n) bs"
    have "r = Inr (length put)" "s' = after (length put)" "length put \<le> length bs"
      using run w short unfolding put_def after_def by (auto simp: Let_def)
    then show ?thesis by blast
  qed auto
  moreover have "touches tmp s (after n)" "pid (after n) = pid s" "(fds (after n))(fd := None) = (fds s)(fd := None)" for n
    using wf_advance [OF assms(2) w(1)] u by (auto simp: touches_def same_at_def after_def)
  moreover have "writing tmp fd (d @ take n bs) (after n)" if "n \<le> length bs" for n
    using w that by (auto simp: writing_def after_def)
  moreover have "touches tmp s (leave s)" "writing tmp fd d (leave s)"
    using assms(2,3) by (simp_all add: touches_leave writing_def)
  ultimately show "touches tmp s s'" "pid s' = pid s" "(fds s')(fd := None) = (fds s)(fd := None)"
    "r = Inl e \<Longrightarrow> writing tmp fd d s'" "r = Inr n \<Longrightarrow> n \<le> length bs \<and> writing tmp fd (d @ take n bs) s'"
    by auto
qed

lemma sys_fsync_spec:
  assumes "sys_fsync fd s = (r, s')" "wf_os s" "writing tmp fd d s"
  shows "touches tmp s s'" and "pid s' = pid s" and "fds s' = fds s"
    and "r = Inr () \<Longrightarrow> file_at (fs s') tmp = Some (d, True)"
proof -
  obtain i b where w: "fds s fd = Some (i, length d)" "names (fs s) tmp = Some i" "inodes (fs s) i = Regular d b"
    using assms(3) by (auto simp: writing_def)
  have u: "q = tmp" if "names (fs s) q = Some i" for q
    using writing_unique [OF assms(3,2) w(1) that] .
  from assms(1)[unfolded sys_fsync_def] show "touches tmp s s'"
    using assms(2) w u
    by (cases rule: call_cases) (auto simp: touches_def wf_os_def same_at_def Let_def)
  from assms(1)[unfolded sys_fsync_def] show "pid s' = pid s" "fds s' = fds s"
    "r = Inr () \<Longrightarrow> file_at (fs s') tmp = Some (d, True)"
    using w by (cases rule: call_cases; auto simp: file_at_def)+
qed

lemma sys_close_spec:
  assumes "sys_close fd s = (r, s')" "wf_os s"
  shows "fs s' = fs s" and "pid s' = pid s" and "fds s' = (fds s)(fd := None)"
    and "touches tmp s s'" and "next_inode s' = next_inode s"
proof -
  have shape: "s' = leave (s\<lparr>fds := (fds s)(fd := None)\<rparr>) \<or> s' = leave s \<and> fds s fd = None"
    using assms(1) by (auto simp: sys_close_def split: fault.splits option.splits)
  then show "fs s' = fs s" "pid s' = pid s" "fds s' = (fds s)(fd := None)" "next_inode s' = next_inode s" by auto
  show "touches tmp s s'" using shape assms(2) by (auto simp: touches_def wf_os_def)
qed

lemma sys_rename_spec:
  assumes "sys_rename tmp path s = (r, s')" "wf_os s" "tmp \<noteq> path"
  shows "fds s' = fds s" and "pid s' = pid s" and "wf_os s'" and "history s' = fs s' # history s"
    and "r = Inl e \<Longrightarrow> fs s' = fs s"
    and "r = Inr () \<Longrightarrow> file_at (fs s') path = file_at (fs s) tmp \<and> file_at (fs s') tmp = None \<and>
       (\<forall>q. q \<noteq> tmp \<and> q \<noteq> path \<longrightarrow> same_at q (fs s) (fs s'))"
proof -
  from assms(1)[unfolded sys_rename_def] show
    "r = Inr () \<Longrightarrow> file_at (fs s') path = file_at (fs s) tmp \<and> file_at (fs s') tmp = None \<and>
       (\<forall>q. q \<noteq> tmp \<and> q \<noteq> path \<longrightarrow> same_at q (fs s) (fs s'))"
    using assms(3) by (cases rule: call_cases) (auto simp: file_at_def same_at_def split: option.splits if_splits)
  from assms(1)[unfolded sys_rename_def] show "wf_os s'"
    using assms(2) by (cases rule: call_cases) (auto simp: wf_os_def split: option.splits if_splits)
  from assms(1)[unfolded sys_rename_def] show "fds s' = fds s" "pid s' = pid s"
      "history s' = fs s' # history s" "r = Inl e \<Longrightarrow> fs s' = fs s"
    by (cases rule: call_cases; auto split: option.splits if_splits)+
qed

text \<open>Calls that change no file.\<close>

definition quiet :: "os \<Rightarrow> os \<Rightarrow> bool" where
  "quiet s s' \<longleftrightarrow> fs s' = fs s \<and> fds s' = fds s \<and> pid s' = pid s \<and> history s' = fs s # history s \<and>
     wf_os s' = wf_os s"

lemma quiet_touches: "quiet s s' \<Longrightarrow> wf_os s \<Longrightarrow> touches tmp s s'"
  by (simp add: quiet_def touches_def)

lemma quiet_leave [simp]: "quiet s (leave s)"
  by (simp add: quiet_def)

lemma sys_lstat_quiet: "sys_lstat path s = (r, s') \<Longrightarrow> quiet s s'"
  by (auto simp: sys_lstat_def call_def split: fault.splits option.splits)

lemma sys_stat_quiet: "sys_stat path s = (r, s') \<Longrightarrow> quiet s s'"
  by (auto simp: sys_stat_def call_def split: fault.splits)

lemma sys_fstat_quiet: "sys_fstat fd s = (r, s') \<Longrightarrow> quiet s s'"
  by (auto simp: sys_fstat_def call_def split: fault.splits option.splits)

lemma sys_malloc_quiet: "sys_malloc s = (ok, s') \<Longrightarrow> quiet s s'"
  by (auto simp: sys_malloc_def split: fault.splits)

lemma resolve_in_use: "resolve n f path = Inr i \<Longrightarrow> \<exists>p. names f p = Some i"
  by (induction n f path rule: resolve.induct) (auto split: option.splits node.splits)

lemma sys_open_read_spec:
  assumes "sys_open_read nf dir path s = (r, s')" "wf_os s"
  shows "touches tmp s s'" and "fs s' = fs s" and "pid s' = pid s"
    and "r = Inl e \<Longrightarrow> fds s' = fds s"
    and "r = Inr fd \<Longrightarrow> (fds s')(fd := None) = fds s"
proof -
  have fresh: "fds s (next_fd s) = None" using assms(2) by (simp add: wf_os_def)
  have used: "i < next_inode s" if "names (fs s) p = Some i" for i p
    using assms(2) that by (auto simp: wf_os_def)
  define pick where "pick = (if nf
           then (case names (fs s) path of None \<Rightarrow> Inl ENOENT
             | Some i \<Rightarrow> (case inodes (fs s) i of Link _ \<Rightarrow> Inl ELOOP | _ \<Rightarrow> Inr i))
           else resolve link_limit (fs s) path)"
  have i: "i < next_inode s" if "pick = Inr i" for i
    using that used resolve_in_use by (fastforce simp: pick_def split: if_splits option.splits node.splits)
  have "(\<exists>e. r = Inl e \<and> s' = leave s) \<or> (\<exists>i. pick = Inr i \<and> r = Inr (next_fd s) \<and>
      s' = leave (s\<lparr>fds := (fds s)(next_fd s \<mapsto> (i, 0)), next_fd := Suc (next_fd s)\<rparr>))"
    using assms(1) unfolding sys_open_read_def pick_def [symmetric]
    by (cases rule: call_cases) (auto simp: allocate_fd_def split: sum.splits if_splits)
  then show "touches tmp s s'" "fs s' = fs s" "pid s' = pid s" "r = Inl e \<Longrightarrow> fds s' = fds s"
    "r = Inr fd \<Longrightarrow> (fds s')(fd := None) = fds s"
    using assms(2) fresh i by (auto simp: touches_def wf_os_def fun_eq_iff)
qed

lemma sys_fsync_frame:
  assumes "sys_fsync fd s = (r, s')" "wf_os s"
  shows "wf_os s'" and "history s' = fs s' # history s" and "fds s' = fds s" and "pid s' = pid s"
    and "same_at q (fs s) (fs s')"
proof -
  from assms(1)[unfolded sys_fsync_def] have
    "s' = leave s \<or> (\<exists>i d b. inodes (fs s) i = Regular d b \<and>
       s' = leave (s\<lparr>fs := (fs s)\<lparr>inodes := (inodes (fs s))(i := Regular d True)\<rparr>\<rparr>))"
    by (cases rule: call_cases) (fastforce split: option.splits node.splits)+
  then show "wf_os s'" "history s' = fs s' # history s" "fds s' = fds s" "pid s' = pid s"
      "same_at q (fs s) (fs s')"
    using assms(2) by (auto simp: same_at_def settles_synced)
qed

section \<open>Interrupted calls\<close>

lemma call_interrupted:
  "call s run = (Inl EINTR, s') \<Longrightarrow> (\<And>k s''. run k \<noteq> (Inl EINTR, s'')) \<Longrightarrow> length (faults s') < length (faults s)"
  by (auto simp: call_def next_fault_def split: fault.splits list.splits prod.splits)

lemma sys_read_interrupted: "sys_read fd n s = (Inl EINTR, s') \<Longrightarrow> length (faults s') < length (faults s)"
  unfolding sys_read_def
  by (erule call_interrupted) (auto simp: Let_def split: option.splits node.splits)

lemma sys_read_faults: "sys_read fd n s = (r, s') \<Longrightarrow> faults s' = tl (faults s)"
  by (auto simp: sys_read_def call_def Let_def split: fault.splits option.splits node.splits prod.splits)

lemma sys_write_interrupted: "sys_write fd bs s = (Inl EINTR, s') \<Longrightarrow> length (faults s') < length (faults s)"
  unfolding sys_write_def
  by (erule call_interrupted) (auto simp: Let_def split: option.splits node.splits)

lemma sys_write_faults: "sys_write fd bs s = (r, s') \<Longrightarrow> faults s' = tl (faults s)"
  by (auto simp: sys_write_def call_def Let_def split: fault.splits option.splits node.splits prod.splits)

text \<open>Measures of the read and write loops.\<close>

lemma sys_read_progress:
  "sys_read fd n s = (Inl EINTR, s') \<Longrightarrow> length (faults s') < length (faults s)"
  "sys_read fd n s = (Inr got, s') \<Longrightarrow> length (faults s') \<le> length (faults s)"
  by (auto dest: sys_read_interrupted sys_read_faults)

lemma sys_write_progress:
  "sys_write fd bs s = (Inl EINTR, s') \<Longrightarrow> length (faults s') < length (faults s)"
  "sys_write fd bs s = (Inr n, s') \<Longrightarrow> length (faults s') \<le> length (faults s)"
  by (auto dest: sys_write_interrupted sys_write_faults)

lemma read_measure:
  "b \<noteq> [] \<Longrightarrow> length d < n \<Longrightarrow> x \<le> y \<Longrightarrow> x + (n - (length d + length b)) < y + n - length d"
  by (cases b) auto

lemma write_measure: "d \<noteq> [] \<Longrightarrow> 0 < k \<Longrightarrow> x \<le> y \<Longrightarrow> x + (length d - k) < y + length d"
  by (cases d) auto

section \<open>Replacing a file\<close>

text \<open>
  What a store promises while it replaces the file at \<open>path\<close>: every other file stays as it was, and
  \<open>path\<close> holds either the bytes it held before or the complete new ones, already on disk.
\<close>

definition old_or_new :: "bytes \<Rightarrow> bytes \<Rightarrow> bytes \<Rightarrow> filesystem \<Rightarrow> filesystem \<Rightarrow> bool" where
  "old_or_new tmp path d f0 f \<longleftrightarrow> (\<forall>q. q \<noteq> tmp \<and> q \<noteq> path \<longrightarrow> same_at q f0 f) \<and>
     (bytes_at f path = bytes_at f0 path \<or> file_at f path = Some (d, True))"

definition replacing :: "bytes \<Rightarrow> bytes \<Rightarrow> bytes \<Rightarrow> os \<Rightarrow> os \<Rightarrow> bool" where
  "replacing tmp path d s0 s \<longleftrightarrow> wf_os s \<and> old_or_new tmp path d (fs s0) (fs s) \<and>
     always (old_or_new tmp path d (fs s0)) s0 s"

definition committed :: "bytes \<Rightarrow> bytes \<Rightarrow> bytes \<Rightarrow> os \<Rightarrow> os \<Rightarrow> bool" where
  "committed tmp path d s0 s \<longleftrightarrow> replacing tmp path d s0 s \<and> fds s = fds s0 \<and> pid s = pid s0 \<and>
     file_at (fs s) path = Some (d, True)"

lemma old_or_new_outside:
  "\<forall>q. q \<noteq> tmp \<longrightarrow> same_at q f0 f \<Longrightarrow> tmp \<noteq> path \<Longrightarrow> old_or_new tmp path d f0 f"
  by (simp add: old_or_new_def same_at_bytes)

lemma outside_replacing: "outside tmp s0 s \<Longrightarrow> tmp \<noteq> path \<Longrightarrow> replacing tmp path d s0 s"
  unfolding outside_def replacing_def always_def
  by (auto intro: old_or_new_outside elim!: list.pred_mono_strong)

lemma replacing_step:
  assumes "replacing tmp path d s0 s" "wf_os s'" "history s' = fs s' # history s"
    and "old_or_new tmp path d (fs s0) (fs s')"
  shows "replacing tmp path d s0 s'"
  using assms by (auto simp: replacing_def always_def)

lemma committed_frame:
  assumes "committed tmp path d s0 s" "wf_os s'" "history s' = fs s' # history s"
    and "\<And>q. same_at q (fs s) (fs s')"
  shows "replacing tmp path d s0 s'" and "file_at (fs s') path = Some (d, True)"
proof -
  show f: "file_at (fs s') path = Some (d, True)"
    using assms(1) same_at_synced [OF assms(4)] by (auto simp: committed_def)
  show "replacing tmp path d s0 s'"
  proof (rule replacing_step [OF _ assms(2,3)])
    show "replacing tmp path d s0 s" using assms(1) by (simp add: committed_def)
    then have "\<forall>q. q \<noteq> tmp \<and> q \<noteq> path \<longrightarrow> same_at q (fs s0) (fs s')"
      using assms(4) same_at_trans unfolding replacing_def old_or_new_def by blast
    then show "old_or_new tmp path d (fs s0) (fs s')" using f by (simp add: old_or_new_def)
  qed
qed

text \<open>
  The stages of a replacement that began in \<open>s0\<close>: nothing open, the scratch file created and empty,
  written, synced, synced and closed, and renamed over the old file.  Each call of the protocol leads
  from one stage to the next; a call that fails leads to a stage from which giving up is safe.
\<close>

definition idle :: "bytes \<Rightarrow> os \<Rightarrow> os \<Rightarrow> bool" where
  "idle tmp s0 s \<longleftrightarrow> outside tmp s0 s \<and> fds s = fds s0 \<and> pid s = pid s0"

definition opened :: "bytes \<Rightarrow> nat \<Rightarrow> os \<Rightarrow> os \<Rightarrow> bool" where
  "opened tmp fd s0 s \<longleftrightarrow> outside tmp s0 s \<and> (fds s)(fd := None) = fds s0 \<and> pid s = pid s0"

definition filled :: "bytes \<Rightarrow> nat \<Rightarrow> bytes \<Rightarrow> os \<Rightarrow> os \<Rightarrow> bool" where
  "filled tmp fd d s0 s \<longleftrightarrow> opened tmp fd s0 s \<and> writing tmp fd d s"

definition flushed :: "bytes \<Rightarrow> nat \<Rightarrow> bytes \<Rightarrow> os \<Rightarrow> os \<Rightarrow> bool" where
  "flushed tmp fd d s0 s \<longleftrightarrow> opened tmp fd s0 s \<and> file_at (fs s) tmp = Some (d, True)"

definition ready :: "bytes \<Rightarrow> bytes \<Rightarrow> os \<Rightarrow> os \<Rightarrow> bool" where
  "ready tmp d s0 s \<longleftrightarrow> idle tmp s0 s \<and> file_at (fs s) tmp = Some (d, True)"

lemma idle_start: "wf_os s \<Longrightarrow> idle tmp s s"
  by (simp add: idle_def outside_refl)

lemma idle_wf: "idle tmp s0 s \<Longrightarrow> wf_os s"
  and opened_wf: "opened tmp fd s0 s \<Longrightarrow> wf_os s"
  by (auto simp: idle_def opened_def dest: outside_wf)

lemma idle_quiet: "idle tmp s0 s \<Longrightarrow> quiet s s' \<Longrightarrow> idle tmp s0 s'"
  using outside_touches [of tmp s0 s s'] quiet_touches [of s s' tmp] outside_wf [of tmp s0 s]
  by (auto simp: idle_def quiet_def)

lemma opened_quiet: "opened tmp fd s0 s \<Longrightarrow> quiet s s' \<Longrightarrow> opened tmp fd s0 s'"
  using outside_touches [of tmp s0 s s'] quiet_touches [of s s' tmp] outside_wf [of tmp s0 s]
  by (auto simp: opened_def quiet_def)

lemma idle_unlink: "idle tmp s0 s \<Longrightarrow> sys_unlink tmp s = (r, s') \<Longrightarrow> idle tmp s0 s'"
  using sys_unlink_spec [of tmp s r s'] outside_touches [of tmp s0 s s'] outside_wf [of tmp s0 s] by (auto simp: idle_def)

lemma idle_create_failed: "idle tmp s0 s \<Longrightarrow> sys_create tmp s = (Inl e, s') \<Longrightarrow> idle tmp s0 s'"
  using sys_create_spec [of tmp s "Inl e" s'] outside_touches [of tmp s0 s s'] outside_wf [of tmp s0 s] by (auto simp: idle_def)

lemma idle_create: "idle tmp s0 s \<Longrightarrow> sys_create tmp s = (Inr fd, s') \<Longrightarrow> filled tmp fd [] s0 s'"
  using sys_create_spec [of tmp s "Inr fd" s'] outside_touches [of tmp s0 s s']
    outside_wf [of tmp s0 s]
  by (auto simp: idle_def filled_def opened_def)

lemma filled_opened: "filled tmp fd d s0 s \<Longrightarrow> opened tmp fd s0 s"
  and flushed_opened: "flushed tmp fd d s0 s \<Longrightarrow> opened tmp fd s0 s"
  and ready_idle: "ready tmp d s0 s \<Longrightarrow> idle tmp s0 s"
  by (simp_all add: filled_def flushed_def ready_def)

lemma filled_fsync_failed: "filled tmp fd d s0 s \<Longrightarrow> sys_fsync fd s = (Inl e, s') \<Longrightarrow> opened tmp fd s0 s'"
  and filled_fsync: "filled tmp fd d s0 s \<Longrightarrow> sys_fsync fd s = (Inr u, s') \<Longrightarrow> flushed tmp fd d s0 s'"
  using sys_fsync_spec [of fd s _ s' tmp d] outside_touches [of tmp s0 s s'] outside_wf [of tmp s0 s]
  by (auto simp: filled_def flushed_def opened_def)

lemma opened_close: "opened tmp fd s0 s \<Longrightarrow> sys_close fd s = (r, s') \<Longrightarrow> idle tmp s0 s'"
  using sys_close_spec [of fd s r s'] outside_touches [of tmp s0 s s'] outside_wf [of tmp s0 s]
  by (auto simp: opened_def idle_def)

lemma flushed_close: "flushed tmp fd d s0 s \<Longrightarrow> sys_close fd s = (r, s') \<Longrightarrow> ready tmp d s0 s'"
  using opened_close [of tmp fd s0 s r s'] sys_close_spec(1) [of fd s r s'] outside_wf [of tmp s0 s]
  by (auto simp: flushed_def ready_def opened_def)

lemma ready_rename_failed:
  "ready tmp d s0 s \<Longrightarrow> sys_rename tmp path s = (Inl e, s') \<Longrightarrow> tmp \<noteq> path \<Longrightarrow> idle tmp s0 s'"
  using sys_rename_spec [of tmp path s "Inl e" s'] outside_touches [of tmp s0 s s'] outside_wf [of tmp s0 s]
  by (auto simp: ready_def idle_def touches_def)

lemma ready_rename:
  assumes "ready tmp d s0 s" "sys_rename tmp path s = (Inr u, s')" "tmp \<noteq> path"
  shows "committed tmp path d s0 s'"
proof -
  have o: "outside tmp s0 s" "fds s = fds s0" "file_at (fs s) tmp = Some (d, True)"
    using assms(1) by (simp_all add: ready_def idle_def)
  note r = sys_rename_spec [OF assms(2) outside_wf [OF o(1)] assms(3)]
  have stored: "file_at (fs s') path = Some (d, True)" using r(6) o(3) by simp
  have "same_at q (fs s0) (fs s)" if "q \<noteq> tmp" for q using o(1) that by (simp add: outside_def)
  then have "old_or_new tmp path d (fs s0) (fs s')"
    using r(6) stored by (auto simp: old_or_new_def intro: same_at_trans)
  then have "replacing tmp path d s0 s'"
    using replacing_step [OF outside_replacing [OF o(1) assms(3)] r(3,4)] by simp
  then show ?thesis using stored r(1,2) o(2) assms(1) by (simp add: committed_def ready_def idle_def)
qed

lemma opened_give_up: "opened tmp fd s0 s \<Longrightarrow> idle tmp s0 (snd (sys_close fd s))"
  using opened_close by (metis prod.collapse)

lemma idle_discard: "idle tmp s0 s \<Longrightarrow> idle tmp s0 (snd (sys_unlink tmp s))"
  using idle_unlink by (metis prod.collapse)

lemma idle_unchanged: "idle tmp s0 s \<Longrightarrow> tmp \<noteq> path \<Longrightarrow>
    replacing tmp path d s0 s \<and> fds s = fds s0 \<and> bytes_at (fs s) path = bytes_at (fs s0) path"
  using outside_replacing [of tmp s0 s path d] by (auto simp: idle_def outside_def same_at_bytes)

lemma committed_frame_all:
  assumes "committed tmp path d s0 s" "wf_os s'" "history s' = fs s' # history s" "fds s' = fds s" "pid s' = pid s"
    and "\<And>q. same_at q (fs s) (fs s')"
  shows "committed tmp path d s0 s'"
  using committed_frame [OF assms(1,2,3,6)] assms(1,4,5) by (simp add: committed_def)

lemma committed_wf: "committed tmp path d s0 s \<Longrightarrow> wf_os s"
  by (simp add: committed_def replacing_def)

text \<open>After the rename the directory is synced through a descriptor of its own.\<close>

definition committed_open :: "nat \<Rightarrow> bytes \<Rightarrow> bytes \<Rightarrow> bytes \<Rightarrow> os \<Rightarrow> os \<Rightarrow> bool" where
  "committed_open fd tmp path d s0 s \<longleftrightarrow> replacing tmp path d s0 s \<and> (fds s)(fd := None) = fds s0 \<and>
     pid s = pid s0 \<and> file_at (fs s) path = Some (d, True)"

lemma committed_open_dir_failed:
  "committed tmp path d s0 s \<Longrightarrow> sys_open_read nf dir p s = (Inl e, s') \<Longrightarrow> committed tmp path d s0 s'"
  using sys_open_read_spec [of nf dir p s "Inl e" s'] committed_wf [of tmp path d s0 s]
  by (intro committed_frame_all [of tmp path d s0 s s']) (auto simp: touches_def)

lemma committed_open_dir:
  "committed tmp path d s0 s \<Longrightarrow> sys_open_read nf dir p s = (Inr fd, s') \<Longrightarrow> committed_open fd tmp path d s0 s'"
  using sys_open_read_spec [of nf dir p s "Inr fd" s'] committed_wf [of tmp path d s0 s]
    committed_frame [of tmp path d s0 s s']
  by (auto simp: touches_def committed_open_def committed_def)

lemma committed_open_step:
  assumes "committed_open fd tmp path d s0 s" "wf_os s'" "history s' = fs s' # history s"
    and "\<And>q. same_at q (fs s) (fs s')"
  shows "replacing tmp path d s0 s' \<and> file_at (fs s') path = Some (d, True)"
proof -
  have "committed tmp path d (s0\<lparr>fds := fds s\<rparr>) s"
    using assms(1) by (simp add: committed_open_def committed_def replacing_def always_def)
  from committed_frame [OF this assms(2,3,4)] show ?thesis by (simp add: replacing_def always_def)
qed

lemma committed_fsync_dir:
  "committed_open fd tmp path d s0 s \<Longrightarrow> sys_fsync fd' s = (r, s') \<Longrightarrow> committed_open fd tmp path d s0 s'"
  using sys_fsync_frame [of fd' s r s'] committed_open_step [of fd tmp path d s0 s s']
  by (auto simp: committed_open_def replacing_def)

lemma committed_close_dir:
  "committed_open fd tmp path d s0 s \<Longrightarrow> sys_close fd s = (r, s') \<Longrightarrow> committed tmp path d s0 s'"
  using sys_close_spec [of fd s r s'] committed_open_step [of fd tmp path d s0 s s']
  by (auto simp: committed_open_def committed_def replacing_def touches_def)

lemma committed_close_dir_snd: "committed_open fd tmp path d s0 s \<Longrightarrow> committed tmp path d s0 (snd (sys_close fd s))"
  and committed_fsync_dir_snd: "committed_open fd tmp path d s0 s \<Longrightarrow> committed_open fd tmp path d s0 (snd (sys_fsync fd' s))"
  using committed_close_dir committed_fsync_dir by (metis prod.collapse)+

text \<open>What a routine that writes all of a buffer promises its callers.\<close>

locale full_writer =
  fixes write_all :: "nat \<Rightarrow> bytes \<Rightarrow> os \<Rightarrow> bool \<times> os"
  assumes write_law: "write_all fd data s = (ok, s') \<Longrightarrow> outside tmp s0 s \<Longrightarrow> writing tmp fd d s \<Longrightarrow>
      outside tmp s0 s' \<and> pid s' = pid s \<and> (fds s')(fd := None) = (fds s)(fd := None) \<and>
      (\<exists>d'. writing tmp fd d' s' \<and> (ok \<longrightarrow> d' = d @ data))"
begin

lemma write_opened:
  "filled tmp fd [] s0 s \<Longrightarrow> write_all fd data s = (ok, s') \<Longrightarrow> opened tmp fd s0 s'"
  using write_law [of fd data s ok s' tmp s0 "[]"] by (simp add: filled_def opened_def)

lemma write_filled:
  "filled tmp fd [] s0 s \<Longrightarrow> write_all fd data s = (True, s') \<Longrightarrow> filled tmp fd data s0 s'"
  using write_law [of fd data s True s' tmp s0 "[]"] by (auto simp: filled_def opened_def)

end

text \<open>
  The runs of a write loop: calls that are repeated or move some bytes, until all are written or the
  loop gives up.  Every run keeps what \<open>full_writer\<close> asks, so a loop is a full writer as soon as what
  it computes is a run.
\<close>

inductive write_run :: "nat \<Rightarrow> bytes \<Rightarrow> os \<Rightarrow> bool \<Rightarrow> os \<Rightarrow> bool" where
  run_done: "write_run fd [] s True s"
| run_again: "sys_write fd data s = (Inl e, s1) \<Longrightarrow> write_run fd data s1 ok s2 \<Longrightarrow> write_run fd data s ok s2"
| run_more: "sys_write fd data s = (Inr n, s1) \<Longrightarrow> write_run fd (drop n data) s1 ok s2 \<Longrightarrow> write_run fd data s ok s2"
| run_stop: "sys_write fd data s = (r, s1) \<Longrightarrow> write_run fd data s False s1"

lemma write_run_law:
  "write_run fd data s ok s' \<Longrightarrow> outside tmp s0 s \<Longrightarrow> writing tmp fd d s \<Longrightarrow>
     outside tmp s0 s' \<and> pid s' = pid s \<and> (fds s')(fd := None) = (fds s)(fd := None) \<and>
     (\<exists>d'. writing tmp fd d' s' \<and> (ok \<longrightarrow> d' = d @ data))"
proof (induction arbitrary: d rule: write_run.induct)
  case (run_again fd data s e s1 ok s2)
  note w = sys_write_spec [OF run_again(1) outside_wf [OF run_again(4)] run_again(5)]
  show ?case
    using run_again(3) [OF outside_touches [OF run_again(4) w(1)], of d] w(2-4) by simp
next
  case (run_more fd data s n s1 ok s2)
  note w = sys_write_spec [OF run_more(1) outside_wf [OF run_more(4)] run_more(5)]
  show ?case
    using run_more(3) [OF outside_touches [OF run_more(4) w(1)], of "d @ take n data"] w(2,3,5) by simp
next
  case (run_stop fd data s r s1)
  note w = sys_write_spec [OF run_stop(1) outside_wf [OF run_stop(2)] run_stop(3)]
  show ?case
    using outside_touches [OF run_stop(2) w(1)] w(2-5) by (cases r) auto
qed auto

text \<open>
  Stepping through a routine that follows the protocol: \<open>ends P x\<close> says that the outcome \<open>x\<close> meets
  \<open>P\<close>, and each rule takes one call off the front of the routine.
\<close>

definition ends :: "('a \<Rightarrow> bool) \<Rightarrow> 'a \<Rightarrow> bool" where
  "ends P x \<longleftrightarrow> P x"

lemma ends_if: "(c \<Longrightarrow> ends P a) \<Longrightarrow> (\<not> c \<Longrightarrow> ends P b) \<Longrightarrow> ends P (if c then a else b)"
  by simp

lemma ends_let: "(\<And>v. v = x \<Longrightarrow> ends P (k v)) \<Longrightarrow> ends P (let v = x in k v)"
  by simp

lemma ends_unlink: "idle tmp s0 s \<Longrightarrow> (\<And>r t. idle tmp s0 t \<Longrightarrow> ends P (k r t)) \<Longrightarrow>
    ends P (case sys_unlink tmp s of (r, t) \<Rightarrow> k r t)"
  using idle_unlink by (cases "sys_unlink tmp s") fastforce

lemma ends_create: "idle tmp s0 s \<Longrightarrow> (\<And>e t. idle tmp s0 t \<Longrightarrow> ends P (f e t)) \<Longrightarrow>
    (\<And>fd t. filled tmp fd [] s0 t \<Longrightarrow> ends P (g fd t)) \<Longrightarrow>
    ends P (case sys_create tmp s of (r, t) \<Rightarrow> case r of Inl e \<Rightarrow> f e t | Inr fd \<Rightarrow> g fd t)"
  using idle_create_failed idle_create by (cases "sys_create tmp s") (fastforce split: sum.splits)

lemma ends_fsync: "filled tmp fd d s0 s \<Longrightarrow> (\<And>e t. opened tmp fd s0 t \<Longrightarrow> ends P (f e t)) \<Longrightarrow>
    (\<And>u t. flushed tmp fd d s0 t \<Longrightarrow> ends P (g u t)) \<Longrightarrow>
    ends P (case sys_fsync fd s of (r, t) \<Rightarrow> case r of Inl e \<Rightarrow> f e t | Inr u \<Rightarrow> g u t)"
  using filled_fsync_failed filled_fsync by (cases "sys_fsync fd s") (fastforce split: sum.splits)

lemma ends_close: "flushed tmp fd d s0 s \<Longrightarrow> (\<And>e t. idle tmp s0 t \<Longrightarrow> ends P (f e t)) \<Longrightarrow>
    (\<And>u t. ready tmp d s0 t \<Longrightarrow> ends P (g u t)) \<Longrightarrow>
    ends P (case sys_close fd s of (r, t) \<Rightarrow> case r of Inl e \<Rightarrow> f e t | Inr u \<Rightarrow> g u t)"
  using flushed_close ready_idle by (cases "sys_close fd s") (fastforce split: sum.splits)

lemma ends_rename: "ready tmp d s0 s \<Longrightarrow> tmp \<noteq> path \<Longrightarrow> (\<And>e t. idle tmp s0 t \<Longrightarrow> ends P (f e t)) \<Longrightarrow>
    (\<And>u t. committed tmp path d s0 t \<Longrightarrow> ends P (g u t)) \<Longrightarrow>
    ends P (case sys_rename tmp path s of (r, t) \<Rightarrow> case r of Inl e \<Rightarrow> f e t | Inr u \<Rightarrow> g u t)"
  using ready_rename ready_rename_failed by (cases "sys_rename tmp path s") (fastforce split: sum.splits)

lemma ends_open_dir: "committed tmp path d s0 s \<Longrightarrow> (\<And>e t. committed tmp path d s0 t \<Longrightarrow> ends P (f e t)) \<Longrightarrow>
    (\<And>fd t. committed_open fd tmp path d s0 t \<Longrightarrow> ends P (g fd t)) \<Longrightarrow>
    ends P (case sys_open_read nf dir p s of (r, t) \<Rightarrow> case r of Inl e \<Rightarrow> f e t | Inr fd \<Rightarrow> g fd t)"
  using committed_open_dir_failed committed_open_dir
  by (cases "sys_open_read nf dir p s") (fastforce split: sum.splits)

lemma ends_fsync_dir: "committed_open fd tmp path d s0 s \<Longrightarrow>
    (\<And>e t. committed_open fd tmp path d s0 t \<Longrightarrow> ends P (f e t)) \<Longrightarrow>
    (\<And>u t. committed_open fd tmp path d s0 t \<Longrightarrow> ends P (g u t)) \<Longrightarrow>
    ends P (case sys_fsync fd s of (r, t) \<Rightarrow> case r of Inl e \<Rightarrow> f e t | Inr u \<Rightarrow> g u t)"
  using committed_fsync_dir by (cases "sys_fsync fd s") (fastforce split: sum.splits)

lemma ends_close_dir: "committed_open fd tmp path d s0 s \<Longrightarrow> (\<And>e t. committed tmp path d s0 t \<Longrightarrow> ends P (f e t)) \<Longrightarrow>
    (\<And>u t. committed tmp path d s0 t \<Longrightarrow> ends P (g u t)) \<Longrightarrow>
    ends P (case sys_close fd s of (r, t) \<Rightarrow> case r of Inl e \<Rightarrow> f e t | Inr u \<Rightarrow> g u t)"
  using committed_close_dir by (cases "sys_close fd s") (fastforce split: sum.splits)

lemmas ends_steps = ends_if ends_unlink ends_create ends_fsync ends_close ends_rename ends_open_dir
  ends_fsync_dir ends_close_dir

lemmas give_up = opened_give_up idle_discard committed_close_dir_snd committed_fsync_dir_snd filled_opened
  flushed_opened ready_idle

text \<open>Reading changes no file and gives every descriptor back.\<close>

definition reads :: "nat \<Rightarrow> os \<Rightarrow> os \<Rightarrow> bool" where
  "reads fd s s' \<longleftrightarrow> fs s' = fs s \<and> (fds s')(fd := None) = (fds s)(fd := None) \<and> wf_os s'"

lemma sys_read_reads: "sys_read fd n s = (r, s') \<Longrightarrow> wf_os s \<Longrightarrow> reads fd s s'"
  unfolding sys_read_def
proof (erule call_cases)
  fix short s''
  assume "wf_os s" and s': "s' = leave s''"
    and c: "(case fds s fd of None \<Rightarrow> (Inl EBADF, s)
       | Some (i, offset) \<Rightarrow> (case inodes (fs s) i of
            Regular d _ \<Rightarrow>
              let limit = (case short of None \<Rightarrow> n | Some k \<Rightarrow> min n (max 1 k)); got = take limit (drop offset d)
              in (Inr got, s\<lparr>fds := (fds s)(fd \<mapsto> (i, offset + length got))\<rparr>)
          | _ \<Rightarrow> (Inl EISDIR, s))) = (r, s'')"
  show "reads fd s s'"
  proof (cases "fds s fd")
    case (Some e)
    obtain i off where e: "e = (i, off)" by (cases e)
    have "\<exists>m. s'' = s \<or> s'' = s\<lparr>fs := (fs s)\<lparr>inodes := inodes (fs s)\<rparr>, fds := (fds s)(fd \<mapsto> (i, m))\<rparr>"
      using c Some e by (cases "inodes (fs s) i") (auto simp: Let_def)
    then show ?thesis
      using \<open>wf_os s\<close> wf_advance [OF \<open>wf_os s\<close>, where fd = fd and i = i and m = off and f = "inodes (fs s)"] Some e s'
      by (auto simp: reads_def)
  qed (use c s' \<open>wf_os s\<close> in \<open>simp add: reads_def\<close>)
qed (simp add: reads_def)

lemma reads_trans: "reads fd s s1 \<Longrightarrow> reads fd s1 s2 \<Longrightarrow> reads fd s s2"
  by (simp add: reads_def)

lemma reads_quiet: "quiet s s' \<Longrightarrow> wf_os s \<Longrightarrow> reads fd s s'"
  by (simp add: reads_def quiet_def)

lemma reads_close: "reads fd s s1 \<Longrightarrow> sys_close fd s1 = (r, s2) \<Longrightarrow>
    fs s2 = fs s \<and> fds s2 = (fds s)(fd := None) \<and> wf_os s2"
  using sys_close_spec [of fd s1 r s2] by (auto simp: reads_def touches_def)

text \<open>The stages of a routine that only reads: no descriptor of its own, or one.\<close>

definition calm :: "os \<Rightarrow> os \<Rightarrow> bool" where
  "calm s0 s \<longleftrightarrow> fs s = fs s0 \<and> fds s = fds s0 \<and> wf_os s"

definition reading :: "nat \<Rightarrow> os \<Rightarrow> os \<Rightarrow> bool" where
  "reading fd s0 s \<longleftrightarrow> fs s = fs s0 \<and> (fds s)(fd := None) = fds s0 \<and> wf_os s"

lemma calm_start: "wf_os s \<Longrightarrow> calm s s"
  by (simp add: calm_def)

lemma calm_quiet: "calm s0 s \<Longrightarrow> quiet s s' \<Longrightarrow> calm s0 s'"
  by (simp add: calm_def quiet_def)

lemma reading_quiet: "reading fd s0 s \<Longrightarrow> quiet s s' \<Longrightarrow> reading fd s0 s'"
  by (simp add: reading_def quiet_def)

lemma reading_reads: "reading fd s0 s \<Longrightarrow> reads fd s s' \<Longrightarrow> reading fd s0 s'"
  by (simp add: reading_def reads_def)

lemma ends_lstat: "calm s0 s \<Longrightarrow> (\<And>r t. calm s0 t \<Longrightarrow> ends P (k r t)) \<Longrightarrow> ends P (case sys_lstat p s of (r, t) \<Rightarrow> k r t)"
  using calm_quiet [OF _ sys_lstat_quiet] by (cases "sys_lstat p s") fastforce

lemma ends_stat: "calm s0 s \<Longrightarrow> (\<And>r t. calm s0 t \<Longrightarrow> ends P (k r t)) \<Longrightarrow> ends P (case sys_stat p s of (r, t) \<Rightarrow> k r t)"
  using calm_quiet [OF _ sys_stat_quiet] by (cases "sys_stat p s") fastforce

lemma calm_open_failed: "calm s0 s \<Longrightarrow> sys_open_read nf dir p s = (Inl e, t) \<Longrightarrow> calm s0 t"
  and calm_open: "calm s0 s \<Longrightarrow> sys_open_read nf dir p s = (Inr fd, t) \<Longrightarrow> reading fd s0 t"
  using sys_open_read_spec [of nf dir p s _ t] by (simp_all add: calm_def reading_def touches_def)

lemma ends_open_reading: "calm s0 s \<Longrightarrow> (\<And>e t. calm s0 t \<Longrightarrow> ends P (f e t)) \<Longrightarrow>
    (\<And>fd t. reading fd s0 t \<Longrightarrow> ends P (g fd t)) \<Longrightarrow>
    ends P (case sys_open_read nf dir p s of (r, t) \<Rightarrow> case r of Inl e \<Rightarrow> f e t | Inr fd \<Rightarrow> g fd t)"
  using calm_open_failed calm_open by (cases "sys_open_read nf dir p s") (fastforce split: sum.splits)

lemma ends_fstat: "reading fd s0 s \<Longrightarrow> (\<And>e t. reading fd s0 t \<Longrightarrow> ends P (f e t)) \<Longrightarrow>
    (\<And>i t. reading fd s0 t \<Longrightarrow> ends P (g i t)) \<Longrightarrow>
    ends P (case sys_fstat fd s of (r, t) \<Rightarrow> case r of Inl e \<Rightarrow> f e t | Inr i \<Rightarrow> g i t)"
  using reading_quiet [OF _ sys_fstat_quiet] by (cases "sys_fstat fd s") (fastforce split: sum.splits)

lemma reading_close: "reading fd s0 s \<Longrightarrow> sys_close fd s = (r, s') \<Longrightarrow> calm s0 s'"
  using sys_close_spec [of fd s r s'] by (auto simp: reading_def calm_def touches_def)

lemma reading_give_up: "reading fd s0 s \<Longrightarrow> calm s0 (snd (sys_close fd s))"
  using reading_close by (metis prod.collapse)

lemma ends_close_reading: "reading fd s0 s \<Longrightarrow> (\<And>e t. calm s0 t \<Longrightarrow> ends P (f e t)) \<Longrightarrow>
    (\<And>u t. calm s0 t \<Longrightarrow> ends P (g u t)) \<Longrightarrow>
    ends P (case sys_close fd s of (r, t) \<Rightarrow> case r of Inl e \<Rightarrow> f e t | Inr u \<Rightarrow> g u t)"
  using reading_close by (cases "sys_close fd s") (fastforce split: sum.splits)

section \<open>What a descriptor that reads has read\<close>

definition tracks :: "nat \<Rightarrow> nat \<Rightarrow> bytes \<Rightarrow> nat \<Rightarrow> os \<Rightarrow> bool" where
  "tracks fd i d k s \<longleftrightarrow> fds s fd = Some (i, k) \<and> (\<exists>b. inodes (fs s) i = Regular d b)"

lemma tracks_quiet: "quiet s s' \<Longrightarrow> tracks fd i d k s \<Longrightarrow> tracks fd i d k s'"
  by (simp add: quiet_def tracks_def)

lemma tracks_failed: "sys_read fd n s = (Inl e, s') \<Longrightarrow> tracks fd i d k s \<Longrightarrow> tracks fd i d k s'"
  unfolding sys_read_def by (erule call_cases) (auto simp: tracks_def Let_def)

lemma take_length_take: "take (length (take n xs)) xs = take n xs"
  by (simp add: min_def)

lemma tracks_read:
  assumes "sys_read fd n s = (Inr got, s')" "tracks fd i d k s"
  shows "take (length got) (drop k d) = got" and "tracks fd i d (k + length got) s'"
    and "got = [] \<Longrightarrow> 0 < n \<Longrightarrow> length d \<le> k"
proof -
  have "\<exists>l. got = take l (drop k d) \<and> (0 < n \<longrightarrow> 0 < l) \<and> tracks fd i d (k + length got) s'"
    using assms unfolding sys_read_def
    by (auto elim!: call_cases simp: tracks_def Let_def split: option.splits)
      (metis less_or_eq_imp_le max.cobounded1 min_less_iff_conj zero_less_Suc max.strict_coboundedI1)+
  then show "take (length got) (drop k d) = got" "tracks fd i d (k + length got) s'"
    "got = [] \<Longrightarrow> 0 < n \<Longrightarrow> length d \<le> k"
    by (auto simp: take_length_take simp del: length_take)
qed

lemma tracks_open:
  assumes "sys_open_read True dir path s = (Inr fd, s')"
  obtains i where "names (fs s) path = Some i" "fds s' fd = Some (i, 0)" "fs s' = fs s"
  using assms unfolding sys_open_read_def
  by (auto elim!: call_cases simp: allocate_fd_def split: option.splits node.splits if_splits)

section \<open>A schedule with no faults\<close>

lemma call_clean: "faults s = [] \<Longrightarrow> call s run = (case run None of (r, s') \<Rightarrow> (r, leave s'))"
  by (simp add: call_def next_fault_def)

lemma malloc_clean: "faults s = [] \<Longrightarrow> sys_malloc s = (True, leave s)"
  by (simp add: sys_malloc_def next_fault_def)

lemma close_clean:
  "faults s = [] \<Longrightarrow> fds s fd = Some x \<Longrightarrow> sys_close fd s = (Inr (), leave (s\<lparr>fds := (fds s)(fd := None)\<rparr>))"
  by (simp add: sys_close_def next_fault_def)

lemma file_at_resolve:
  "file_at f path = Some (d, b) \<Longrightarrow> \<exists>i. names f path = Some i \<and> inodes f i = Regular d b \<and> resolve link_limit f path = Inr i"
  by (auto simp: file_at_def link_limit_def eval_nat_numeral split: option.splits node.splits)

lemma fsync_clean: "faults s = [] \<Longrightarrow> writing tmp fd d s \<Longrightarrow> \<exists>s'. sys_fsync fd s = (Inr (), s') \<and> faults s' = []"
  by (auto simp: sys_fsync_def call_clean writing_def)

definition no_directory :: "filesystem \<Rightarrow> bytes \<Rightarrow> bool" where
  "no_directory f path \<longleftrightarrow> (case names f path of None \<Rightarrow> True | Some i \<Rightarrow> inodes f i \<noteq> Directory)"

lemma same_at_no_directory: "same_at path f g \<Longrightarrow> no_directory f path \<Longrightarrow> no_directory g path"
  by (auto simp: same_at_def no_directory_def settles_def split: option.splits)


definition directory_at :: "filesystem \<Rightarrow> bytes \<Rightarrow> bool" where
  "directory_at f path \<longleftrightarrow> (case names f path of None \<Rightarrow> False | Some i \<Rightarrow> inodes f i = Directory)"

lemma same_at_directory: "same_at path f g \<Longrightarrow> directory_at f path \<Longrightarrow> directory_at g path"
  by (auto simp: same_at_def directory_at_def settles_def split: option.splits)

lemma close_faults: "faults s = [] \<Longrightarrow> faults (snd (sys_close fd s)) = []"
  by (simp add: sys_close_def next_fault_def split: option.splits)

lemma fsync_faults: "faults s = [] \<Longrightarrow> faults (snd (sys_fsync fd s)) = []"
  by (auto simp: sys_fsync_def call_clean split: option.splits node.splits)

lemma open_faults: "faults s = [] \<Longrightarrow> faults (snd (sys_open_read nf d p s)) = []"
  by (auto simp: sys_open_read_def call_clean allocate_fd_def split: option.splits node.splits sum.splits prod.splits)

text \<open>A full writer that writes everything when no call fails.\<close>

locale clean_writer = full_writer +
  assumes write_clean: "faults s = [] \<Longrightarrow> writing tmp fd d s \<Longrightarrow> \<exists>s'. write_all fd data s = (True, s') \<and> faults s' = []"
begin

lemma replace_steps:
  assumes "faults s = []" "wf_os s" "tmp \<noteq> path" "no_directory (fs s) tmp" "no_directory (fs s) path"
  obtains r1 s1 fd s2 s3 s4 s5 s6 where "sys_unlink tmp s = (r1, s1)" "r1 = Inr () \<or> r1 = Inl ENOENT"
    "sys_create tmp s1 = (Inr fd, s2)" "write_all fd data s2 = (True, s3)" "sys_fsync fd s3 = (Inr (), s4)"
    "sys_close fd s4 = (Inr (), s5)" "sys_rename tmp path s5 = (Inr (), s6)" "faults s6 = []"
    "committed tmp path data s s6"
proof -
  obtain r1 s1 where u: "sys_unlink tmp s = (r1, s1)" by fastforce
  have i1: "idle tmp s s1" using idle_unlink [OF idle_start [OF assms(2)] u] .
  have r1: "r1 = Inr () \<or> r1 = Inl ENOENT" "faults s1 = []" "names (fs s1) tmp = None"
    using u assms(1,4) by (auto simp: sys_unlink_def call_clean no_directory_def split: option.splits if_splits)
  obtain fd s2 where c: "sys_create tmp s1 = (Inr fd, s2)" "faults s2 = []"
    using r1 by (auto simp: sys_create_def call_clean allocate_fd_def)
  have i2: "filled tmp fd [] s s2" using idle_create [OF i1 c(1)] .
  obtain s3 where w: "write_all fd data s2 = (True, s3)" "faults s3 = []"
    using write_clean [OF c(2), of tmp fd "[]" data] i2 by (auto simp: filled_def)
  have i3: "filled tmp fd data s s3" using write_filled [OF i2 w(1)] .
  obtain s4 where y: "sys_fsync fd s3 = (Inr (), s4)" "faults s4 = []"
    using fsync_clean [OF w(2), of tmp fd data] i3 by (auto simp: filled_def)
  have i4: "flushed tmp fd data s s4" using filled_fsync [OF i3 y(1)] .
  have "fds s4 fd \<noteq> None"
    using sys_fsync_spec(3) [OF y(1) opened_wf [OF filled_opened [OF i3]], of tmp data] i3
    by (auto simp: filled_def writing_def)
  then obtain s5 where cl: "sys_close fd s4 = (Inr (), s5)" "faults s5 = []"
    using close_clean [OF y(2), of fd] y(2) by fastforce
  have i5: "ready tmp data s s5" using flushed_close [OF i4 cl(1)] .
  then have "file_at (fs s5) tmp \<noteq> None" "no_directory (fs s5) path"
    using assms(3,5) same_at_no_directory [of path "fs s" "fs s5"]
    by (auto simp: ready_def idle_def outside_def)
  then obtain s6 where rn: "sys_rename tmp path s5 = (Inr (), s6)" "faults s6 = []"
    using cl(2) by (auto simp: sys_rename_def call_clean file_at_def no_directory_def split: option.splits)
  show ?thesis
    using that [OF u r1(1) c(1) w(1) y(1) cl(1) rn ready_rename [OF i5 rn(1) assms(3)]] .
qed

end

section \<open>Sample disks\<close>

text \<open>The disks of the witnesses: an empty one, and one with a single directory.\<close>

definition empty_disk :: "fault list \<Rightarrow> os" where
  "empty_disk schedule = \<lparr>fs = \<lparr>names = \<lambda>_. None, inodes = \<lambda>_. Special\<rparr>, fds = \<lambda>_. None, next_inode = 0,
     next_fd = 3, pid = str ''42'', faults = schedule, history = []\<rparr>"

definition directory_disk :: "bytes \<Rightarrow> fault list \<Rightarrow> os" where
  "directory_disk path schedule = \<lparr>fs = \<lparr>names = [path \<mapsto> 0], inodes = \<lambda>_. Directory\<rparr>, fds = \<lambda>_. None,
     next_inode = 1, next_fd = 3, pid = str ''42'', faults = schedule, history = []\<rparr>"

lemma empty_disk_facts [simp]: "wf_os (empty_disk schedule)" "faults (empty_disk schedule) = schedule"
  "no_directory (fs (empty_disk schedule)) path" "bytes_at (fs (empty_disk schedule)) path = None"
  by (simp_all add: empty_disk_def wf_os_def no_directory_def bytes_at_def file_at_def)

lemma directory_disk_facts [simp]: "wf_os (directory_disk path schedule)" "faults (directory_disk path schedule) = schedule"
  "directory_at (fs (directory_disk path schedule)) path" "pid (directory_disk path schedule) = str ''42''"
  "names (fs (directory_disk path schedule)) q = (if q = path then Some 0 else None)"
  by (auto simp: directory_disk_def wf_os_def directory_at_def)

end
