(* ===== verification/Crc32.thy ===== *)
theory Crc32
  imports Prelude
begin

text \<open>
  The CRC-32 that guards every record the program writes: the progress records
  (\<open>progress_crc32\<close>), the settings file (\<open>settings_crc32\<close>), the credentials file and the
  device identity file (\<open>crc32\<close>).  The four C functions have the same text, so one loop models
  them; each keeps its own name where its store uses it.

  The lemmas show that the shift register loses no information: a round is injective in the
  register, so a change confined to one byte always changes the checksum.
\<close>

section \<open>The register\<close>

definition crc_bit :: "u32 \<Rightarrow> u32" where
  "crc_bit crc = drop_bit 1 crc XOR (0xedb88320 AND - (crc AND 1))"

definition crc_byte :: "u32 \<Rightarrow> byte \<Rightarrow> u32" where
  "crc_byte crc b = (crc_bit ^^ 8) (crc XOR ucast b)"

fun crc_loop :: "u32 \<Rightarrow> bytes \<Rightarrow> u32" where
  "crc_loop crc [] = crc"
| "crc_loop crc (b # data) = crc_loop (crc_byte crc b) data"

definition crc32 :: "bytes \<Rightarrow> u32" where
  "crc32 data = NOT (crc_loop 0xffffffff data)"

text \<open>The eight rounds spelled out, for evaluation on concrete bytes.\<close>

lemma crc_byte_rounds:
  "crc_byte crc b = crc_bit (crc_bit (crc_bit (crc_bit (crc_bit (crc_bit (crc_bit (crc_bit
     (crc XOR ucast b))))))))"
  by (simp add: crc_byte_def eval_nat_numeral)

lemmas crc_eval = crc32_def crc_byte_rounds crc_bit_def

lemma crc32_check_value: "crc32 (str ''123456789'') = 0xcbf43926"
  by (simp add: crc_eval)

section \<open>No information is lost\<close>

lemma crc_bit_alt:
  "crc_bit crc = (if odd crc then drop_bit 1 crc XOR 0xedb88320 else drop_bit 1 crc)"
  by (cases "odd crc")
    (simp_all add: crc_bit_def and_one_eq odd_iff_mod_2_eq_one even_iff_mod_2_eq_zero)

text \<open>The top bit of the polynomial is set, so the top bit of the result is the bit shifted out.\<close>

lemma crc_bit_top: "bit (crc_bit crc) 31 \<longleftrightarrow> odd crc"
proof -
  have "\<not> bit crc 32" using bit_imp_le_length [of crc 32] by auto
  then show ?thesis by (simp add: crc_bit_alt bit_simps)
qed

lemma crc_bit_inj: "crc_bit x = crc_bit y \<Longrightarrow> x = y"
proof -
  assume eq: "crc_bit x = crc_bit y"
  then have par: "odd x = odd y" using crc_bit_top by metis
  have shift: "drop_bit 1 x = drop_bit 1 y"
  proof (cases "odd x")
    case True
    with par eq show ?thesis unfolding crc_bit_alt by (metis xor_right_cancel)
  next
    case False
    with par eq show ?thesis unfolding crc_bit_alt by metis
  qed
  show "x = y"
  proof (rule bit_eqI)
    fix i
    show "bit x i = bit y i"
    proof (cases i)
      case 0
      with par show ?thesis by (simp add: bit_0)
    next
      case (Suc n)
      have "bit (drop_bit 1 x) n = bit (drop_bit 1 y) n" using shift by (rule arg_cong)
      with Suc show ?thesis by (simp add: bit_drop_bit_eq)
    qed
  qed
qed

lemma funpow_crc_bit_inj: "(crc_bit ^^ n) x = (crc_bit ^^ n) y \<Longrightarrow> x = y"
  by (induction n arbitrary: x y) (auto dest: crc_bit_inj)

lemma crc_byte_inj_register: "crc_byte x b = crc_byte y b \<longleftrightarrow> x = y"
  by (auto simp: crc_byte_def xor_right_cancel dest: funpow_crc_bit_inj)

lemma crc_byte_inj_byte: "crc_byte x a = crc_byte x b \<longleftrightarrow> a = b"
proof
  assume "crc_byte x a = crc_byte x b"
  then have "(ucast a :: u32) = ucast b"
    by (auto simp: crc_byte_def xor_left_cancel dest!: funpow_crc_bit_inj)
  then have "unat (ucast a :: u32) = unat (ucast b :: u32)" by simp
  then show "a = b" by (simp only: unat_ucast_byte word_unat_eq_iff)
qed simp

lemma crc_loop_append: "crc_loop crc (xs @ ys) = crc_loop (crc_loop crc xs) ys"
  by (induction crc xs rule: crc_loop.induct) auto

lemma crc_loop_inj: "crc_loop x data = crc_loop y data \<longleftrightarrow> x = y"
  by (induction data arbitrary: x y) (auto simp: crc_byte_inj_register)

lemma crc32_detects_byte_change:
  "a \<noteq> b \<Longrightarrow> crc32 (xs @ a # ys) \<noteq> crc32 (xs @ b # ys)"
  by (simp add: crc32_def crc_loop_append crc_loop_inj crc_byte_inj_byte)

section \<open>Records that end in their checksum\<close>

text \<open>
  Every store ends its record with the checksum of what comes before, in an encoding of fixed length.
  No two such records differ in exactly one byte.
\<close>

locale crc_trailer =
  fixes trailer :: "u32 \<Rightarrow> bytes" and width :: nat
  assumes trailer_length: "length (trailer v) = width"
    and trailer_inj: "trailer v = trailer w \<Longrightarrow> v = w"
begin

lemma split_record:
  "h @ t = xs @ c # ys \<Longrightarrow> length h = length xs + Suc k \<Longrightarrow> h = xs @ c # take k ys \<and> t = drop k ys"
  using append_eq_conv_conj [of h t "xs @ c # ys"] by simp

lemma one_byte_apart:
  assumes h: "h @ trailer (crc32 h) = xs @ a # ys" and h': "h' @ trailer (crc32 h') = xs @ b # ys"
  shows "a = b"
proof -
  have "length h + width = length h' + width"
    using arg_cong [OF h, of length] arg_cong [OF h', of length] by (simp add: trailer_length)
  then have len: "length h = length h'" by simp
  show ?thesis
  proof (cases "length xs < length h")
    case True
    then obtain k where k: "length h = length xs + Suc k" by (auto dest: less_imp_Suc_add)
    note s = split_record [OF h k] split_record [OF h' k [unfolded len]]
    then have "crc32 h = crc32 h'" by (metis trailer_inj)
    then show ?thesis using s crc32_detects_byte_change [of a b xs "take k ys"] by auto
  next
    case False
    have "take (length h) (xs @ a # ys) = take (length h) (xs @ b # ys)" using False by simp
    then have "h = h'" using h h' len by (metis append_eq_conv_conj)
    then have "xs @ a # ys = xs @ b # ys" using h h' by metis
    then show ?thesis by simp
  qed
qed

end

end
