(* ===== verification/Utf8.thy ===== *)
theory Utf8
  imports Prelude
begin

text \<open>
  The UTF-8 validators of the program.  Three of them are written differently:
  \<open>utf8_valid\<close> of progress_store.c restricts the range of the second byte, \<open>utf8_valid\<close> of
  kosync.c decodes each code point and compares it with the shortest form, and
  \<open>utf8_device_name_valid\<close> of settings_store.c recognises lead bytes by their mask and also
  refuses control characters.  \<open>cn_sync_valid_device_id_internal\<close> of sync_controller.c checks
  length, control bytes and encoding in one scan over a terminated string.

  Each is a list function here.  The locale \<open>utf8_validator\<close> states what they share, a scan that
  takes one code point at a time, and is interpreted on all of them; so they are compared with
  each other and with the encoder of kosync.c (\<open>append_codepoint\<close>).
\<close>

section \<open>The encoder\<close>

text \<open>\<open>append_codepoint\<close> of kosync.c without its buffer: the bytes of one code point.\<close>

definition encodable :: "u32 \<Rightarrow> bool" where
  "encodable value \<longleftrightarrow> \<not> (value = 0 \<or> value > 0x10ffff \<or> (value \<ge> 0xd800 \<and> value \<le> 0xdfff))"

definition utf8_encode :: "u32 \<Rightarrow> bytes" where
  "utf8_encode value =
     (if value < 0x80 then [ucast value]
      else if value < 0x800 then
        [ucast (0xc0 OR drop_bit 6 value), ucast (0x80 OR (value AND 0x3f))]
      else if value < 0x10000 then
        [ucast (0xe0 OR drop_bit 12 value), ucast (0x80 OR (drop_bit 6 value AND 0x3f)),
         ucast (0x80 OR (value AND 0x3f))]
      else
        [ucast (0xf0 OR drop_bit 18 value), ucast (0x80 OR (drop_bit 12 value AND 0x3f)),
         ucast (0x80 OR (drop_bit 6 value AND 0x3f)), ucast (0x80 OR (value AND 0x3f))])"

section \<open>The validators\<close>

text \<open>The continuation loop shared by the decoding validators.\<close>

fun utf8_tail :: "nat \<Rightarrow> u32 \<Rightarrow> bytes \<Rightarrow> (u32 \<times> bytes) option" where
  "utf8_tail 0 value text = Some (value, text)"
| "utf8_tail (Suc remaining) value [] = None"
| "utf8_tail (Suc remaining) value (b # text) =
     (if b AND 0xc0 \<noteq> 0x80 then None
      else utf8_tail remaining (push_bit 6 value OR ucast (b AND 0x3f)) text)"

lemma utf8_tail_length: "utf8_tail n v bs = Some (v', rest) \<Longrightarrow> length bs = n + length rest"
  by (induction n v bs rule: utf8_tail.induct) (auto split: if_splits)

text \<open>\<open>utf8_valid\<close> of kosync.c: lead byte, value bits, smallest value of that length.\<close>

definition kosync_lead :: "byte \<Rightarrow> (u32 \<times> u32 \<times> nat) option" where
  "kosync_lead c =
     (if c \<ge> 0xc2 \<and> c \<le> 0xdf then Some (ucast (c AND 0x1f), 0x80, 1)
      else if c \<ge> 0xe0 \<and> c \<le> 0xef then Some (ucast (c AND 0x0f), 0x800, 2)
      else if c \<ge> 0xf0 \<and> c \<le> 0xf4 then Some (ucast (c AND 0x07), 0x10000, 3)
      else None)"

definition codepoint_refused :: "u32 \<Rightarrow> u32 \<Rightarrow> bool" where
  "codepoint_refused value minimum \<longleftrightarrow>
     value < minimum \<or> value > 0x10ffff \<or> (value \<ge> 0xd800 \<and> value \<le> 0xdfff)"

function kosync_utf8_valid :: "bytes \<Rightarrow> bool" where
  "kosync_utf8_valid [] = True"
| "kosync_utf8_valid (c # text) =
     (if c < 0x80 then (if c = 0 then False else kosync_utf8_valid text)
      else case kosync_lead c of
        None \<Rightarrow> False
      | Some (value, minimum, remaining) \<Rightarrow>
          if remaining > length text then False
          else case utf8_tail remaining value text of
            None \<Rightarrow> False
          | Some (value, rest) \<Rightarrow>
              if codepoint_refused value minimum then False else kosync_utf8_valid rest)"
  by pat_completeness auto
termination
  by (relation "measure length") (auto dest!: utf8_tail_length)

text \<open>\<open>utf8_valid\<close> of progress_store.c: number of continuation bytes, range of the second byte.\<close>

definition progress_lead :: "byte \<Rightarrow> (nat \<times> byte \<times> byte) option" where
  "progress_lead c =
     (if c \<ge> 0xc2 \<and> c \<le> 0xdf then Some (1, 0x80, 0xbf)
      else if c \<ge> 0xe0 \<and> c \<le> 0xef then
        Some (2, if c = 0xe0 then 0xa0 else 0x80, if c \<noteq> 0xe0 \<and> c = 0xed then 0x9f else 0xbf)
      else if c \<ge> 0xf0 \<and> c \<le> 0xf4 then
        Some (3, if c = 0xf0 then 0x90 else 0x80, if c \<noteq> 0xf0 \<and> c = 0xf4 then 0x8f else 0xbf)
      else None)"

function progress_utf8_valid :: "bytes \<Rightarrow> bool" where
  "progress_utf8_valid [] = True"
| "progress_utf8_valid (c # text) =
     (if c = 0 then False
      else if c \<le> 0x7f then progress_utf8_valid text
      else case progress_lead c of
        None \<Rightarrow> False
      | Some (continuation, min_second, max_second) \<Rightarrow>
          if continuation > length text \<or> text ! 0 < min_second \<or> text ! 0 > max_second then False
          else if list_all (\<lambda>b. 0x80 \<le> b \<and> b \<le> 0xbf) (take (continuation - 1) (tl text))
          then progress_utf8_valid (drop continuation text)
          else False)"
  by pat_completeness auto
termination
  by (relation "measure length") auto

text \<open>\<open>utf8_device_name_valid\<close> of settings_store.c.\<close>

definition settings_lead :: "byte \<Rightarrow> (u32 \<times> u32 \<times> nat) option" where
  "settings_lead first =
     (if first < 0x80 then Some (ucast first, 0, 0)
      else if first AND 0xe0 = 0xc0 then Some (ucast (first AND 0x1f), 0x80, 1)
      else if first AND 0xf0 = 0xe0 then Some (ucast (first AND 0x0f), 0x800, 2)
      else if first AND 0xf8 = 0xf0 then Some (ucast (first AND 0x07), 0x10000, 3)
      else None)"

function utf8_device_name_valid :: "bytes \<Rightarrow> bool" where
  "utf8_device_name_valid [] = True"
| "utf8_device_name_valid (first # text) =
     (case settings_lead first of
        None \<Rightarrow> False
      | Some (codepoint, minimum, remaining) \<Rightarrow>
          if remaining > length text then False
          else case utf8_tail remaining codepoint text of
            None \<Rightarrow> False
          | Some (codepoint, rest) \<Rightarrow>
              if codepoint_refused codepoint minimum \<or>
                 codepoint < 0x20 \<or> (codepoint \<ge> 0x7f \<and> codepoint \<le> 0x9f)
              then False else utf8_device_name_valid rest)"
  by pat_completeness auto
termination
  by (relation "measure length") (auto dest!: utf8_tail_length)

text \<open>
  \<open>cn_sync_valid_device_id_internal\<close> of sync_controller.c.  The argument \<open>i\<close> is the number of
  bytes read; the text ends at its NUL.
\<close>

fun device_id_tail :: "nat \<Rightarrow> nat \<Rightarrow> u32 \<Rightarrow> bytes \<Rightarrow> (u32 \<times> nat \<times> bytes) option" where
  "device_id_tail 0 i value text = Some (value, i, text)"
| "device_id_tail (Suc remaining) i value text =
     (if i \<ge> 255 \<or> char_at text 0 = 0 then None
      else if hd text AND 0xc0 \<noteq> 0x80 then None
      else device_id_tail remaining (i + 1) (push_bit 6 value OR ucast (hd text AND 0x3f)) (tl text))"

lemma device_id_tail_length:
  "device_id_tail n i v bs = Some (v', i', rest) \<Longrightarrow> length rest \<le> length bs"
  by (induction n i v bs rule: device_id_tail.induct) (auto split: if_splits)

function device_id_scan :: "nat \<Rightarrow> bytes \<Rightarrow> bool" where
  "device_id_scan i [] = (i \<noteq> 0)"
| "device_id_scan i (ch # text) =
     (if ch = 0 then i \<noteq> 0
      else if i + 1 > 255 \<or> ch < 0x20 \<or> ch = 0x7f then False
      else if ch < 0x80 then device_id_scan (i + 1) text
      else case kosync_lead ch of
        None \<Rightarrow> False
      | Some (value, minimum, remaining) \<Rightarrow>
          (case device_id_tail remaining (i + 1) value text of
            None \<Rightarrow> False
          | Some (value, j, rest) \<Rightarrow>
              if codepoint_refused value minimum then False else device_id_scan j rest))"
  by pat_completeness auto
termination
  by (relation "measure (\<lambda>(i, text). length text)") (auto dest!: device_id_tail_length)

definition cn_sync_valid_device_id_internal :: "bytes option \<Rightarrow> bool" where
  "cn_sync_valid_device_id_internal text =
     (case text of None \<Rightarrow> False | Some s \<Rightarrow> device_id_scan 0 s)"

declare kosync_utf8_valid.simps(2) [simp del] progress_utf8_valid.simps(2) [simp del]
  utf8_device_name_valid.simps(2) [simp del] device_id_scan.simps(2) [simp del]

section \<open>Reference: one code point at a time\<close>

definition scalar :: "nat \<Rightarrow> bool" where
  "scalar cp \<longleftrightarrow> cp < 0xd800 \<or> (0xe000 \<le> cp \<and> cp \<le> 0x10ffff)"

fun nat_tail :: "nat \<Rightarrow> nat \<Rightarrow> bytes \<Rightarrow> (nat \<times> bytes) option" where
  "nat_tail 0 v bs = Some (v, bs)"
| "nat_tail (Suc n) v [] = None"
| "nat_tail (Suc n) v (b # bs) =
     (if unat b div 64 = 2 then nat_tail n (v * 64 + unat b mod 64) bs else None)"

definition shortest :: "nat \<Rightarrow> (nat \<times> bytes) option \<Rightarrow> (nat \<times> bytes) option" where
  "shortest m r = (case r of None \<Rightarrow> None
     | Some (v, rest) \<Rightarrow> if m \<le> v \<and> scalar v then Some (v, rest) else None)"

fun utf8_next :: "bytes \<Rightarrow> (nat \<times> bytes) option" where
  "utf8_next [] = None"
| "utf8_next (b # bs) =
     (if unat b < 0x80 then Some (unat b, bs)
      else if unat b div 32 = 6 then shortest 0x80 (nat_tail 1 (unat b mod 32) bs)
      else if unat b div 16 = 14 then shortest 0x800 (nat_tail 2 (unat b mod 16) bs)
      else if unat b div 8 = 30 then shortest 0x10000 (nat_tail 3 (unat b mod 8) bs)
      else None)"

lemma nat_tail_length: "nat_tail n v bs = Some (v', rest) \<Longrightarrow> length bs = n + length rest"
  by (induction n v bs rule: nat_tail.induct) (auto split: if_splits)

lemma nat_tail_too_short: "length bs < n \<Longrightarrow> nat_tail n v bs = None"
  by (induction n v bs rule: nat_tail.induct) auto

lemma nat_tail_bound:
  "nat_tail n v bs = Some (v', rest) \<Longrightarrow> v * 64 ^ n \<le> v' \<and> v' < (v + 1) * 64 ^ n"
proof (induction n v bs rule: nat_tail.induct)
  case (3 n v b bs)
  then have ih: "(v * 64 + unat b mod 64) * 64 ^ n \<le> v'" "v' < (v * 64 + unat b mod 64 + 1) * 64 ^ n"
    by (auto split: if_splits)
  have "v * 64 ^ Suc n \<le> (v * 64 + unat b mod 64) * 64 ^ n" by (simp add: algebra_simps)
  moreover have "(v * 64 + unat b mod 64 + 1) * 64 ^ n \<le> (v * 64 + 64) * 64 ^ n"
    by (intro mult_right_mono) (auto intro: Suc_leI)
  moreover have "(v * 64 + 64) * 64 ^ n = (v + 1) * 64 ^ Suc n" by (simp add: algebra_simps)
  ultimately show ?case using ih by linarith
qed auto

lemma utf8_next_length: "utf8_next bs = Some (cp, rest) \<Longrightarrow> length rest < length bs"
  by (cases bs)
    (auto simp: shortest_def split: if_splits option.splits dest!: nat_tail_length
      simp del: nat_tail.simps)

function utf8_decode :: "bytes \<Rightarrow> nat list option" where
  "utf8_decode [] = Some []"
| "utf8_decode (c # text) =
     (case utf8_next (c # text) of
        None \<Rightarrow> None
      | Some (cp, rest) \<Rightarrow> map_option ((#) cp) (utf8_decode rest))"
  by pat_completeness auto
termination
  by (relation "measure length") (auto dest: utf8_next_length simp del: utf8_next.simps)

declare utf8_next.simps(2) [simp del] utf8_decode.simps(2) [simp del]

text \<open>What every validator of the program is: a scan that admits some of the code points.\<close>

locale utf8_validator =
  fixes valid :: "bytes \<Rightarrow> bool"
    and admits :: "nat \<Rightarrow> bool"
  assumes valid_nil: "valid []"
      and valid_step: "valid (c # text) \<longleftrightarrow>
      (\<exists>cp rest. utf8_next (c # text) = Some (cp, rest) \<and> admits cp \<and> valid rest)"
begin

lemma valid_decode: "valid bs \<longleftrightarrow> (\<exists>cps. utf8_decode bs = Some cps \<and> list_all admits cps)"
proof (induction bs rule: utf8_decode.induct)
  case 1
  show ?case by (simp add: valid_nil)
next
  case (2 c bs)
  show ?case
  proof (cases "utf8_next (c # bs)")
    case None
    then show ?thesis by (simp add: valid_step utf8_decode.simps(2))
  next
    case (Some r)
    obtain cp rest where r: "r = (cp, rest)" by fastforce
    have "valid rest \<longleftrightarrow> (\<exists>cps. utf8_decode rest = Some cps \<and> list_all admits cps)"
      using "2.IH" Some r by simp
    then show ?thesis using Some r by (auto simp: valid_step utf8_decode.simps(2))
  qed
qed

end

section \<open>The word-level loops against the reference\<close>

lemma utf8_tail_nat:
  "unat v < 2 ^ (32 - 6 * n) \<Longrightarrow> n \<le> 3 \<Longrightarrow>
     map_option (map_prod unat id) (utf8_tail n v bs) = nat_tail n (unat v) bs"
proof (induction n v bs rule: utf8_tail.induct)
  case (3 n v b bs)
  have "(2 :: nat) ^ (32 - 6 * Suc n) \<le> 2 ^ 26" by (rule power_increasing) auto
  with "3.prems" have small: "unat v < 2 ^ (32 - 6)" by simp
  then have sum: "unat (push_bit 6 v OR ucast (b AND 0x3f)) = unat v * 64 + unat b mod 64"
    using unat_or_disjoint [of v 6 "ucast (b AND 0x3f)"] by (simp add: byte_and_low)
  have "unat v * 64 + unat b mod 64 < 2 ^ (32 - 6 * n)"
  proof -
    have "(unat v + 1) * 64 \<le> 2 ^ (32 - 6 * Suc n) * 64" using "3.prems" by simp
    also have "\<dots> = 2 ^ (32 - 6 * Suc n + 6)" by (simp add: power_add)
    also have "32 - 6 * Suc n + 6 = 32 - 6 * n" using "3.prems" by simp
    finally have "(unat v + 1) * 64 \<le> 2 ^ (32 - 6 * n)" .
    moreover have "unat b mod 64 < 64" by simp
    ultimately show ?thesis by (simp add: algebra_simps)
  qed
  then show ?case using "3.IH" "3.prems" sum by (simp add: top_bits_10)
qed auto

lemma codepoint_refused_iff: "codepoint_refused v m \<longleftrightarrow> \<not> (unat m \<le> unat v \<and> scalar (unat v))"
  unfolding codepoint_refused_def scalar_def word_less_nat_alt word_le_nat_alt by auto

lemma decode_step:
  assumes "n \<le> 3" "unat v < 64"
  shows "(if n > length bs then False
      else case utf8_tail n v bs of None \<Rightarrow> False
        | Some (w, rest) \<Rightarrow> if codepoint_refused w m \<or> bad (unat w) then False else P rest) \<longleftrightarrow>
    (\<exists>cp rest. shortest (unat m) (nat_tail n (unat v) bs) = Some (cp, rest) \<and> \<not> bad cp \<and> P rest)"
proof -
  have "(2 :: nat) ^ 6 \<le> 2 ^ (32 - 6 * n)" using assms by (intro power_increasing) auto
  then have "map_option (map_prod unat id) (utf8_tail n v bs) = nat_tail n (unat v) bs"
    using assms by (intro utf8_tail_nat) auto
  then show ?thesis
    using nat_tail_too_short [of bs n "unat v"]
    by (cases "utf8_tail n v bs")
      (auto simp: shortest_def codepoint_refused_iff split: if_splits option.splits)
qed

text \<open>Lead bytes that can only start an overlong form or a value past the last code point.\<close>

lemma lead_c0_c1: "v \<le> 1 \<Longrightarrow> shortest 0x80 (nat_tail 1 v bs) = None"
proof (cases "nat_tail 1 v bs")
  case (Some r)
  assume "v \<le> 1"
  obtain w rest where r: "r = (w, rest)" by fastforce
  with Some have "w < (v + 1) * 64 ^ 1" using nat_tail_bound by blast
  also have "\<dots> \<le> 2 * 64 ^ 1" using \<open>v \<le> 1\<close> by simp
  finally show ?thesis using Some r by (simp add: shortest_def)
qed (simp add: shortest_def)

lemma lead_f5_f7: "5 \<le> v \<Longrightarrow> shortest m (nat_tail 3 v bs) = None"
proof (cases "nat_tail 3 v bs")
  case (Some r)
  assume "5 \<le> v"
  obtain w rest where r: "r = (w, rest)" by fastforce
  have "5 * 64 ^ 3 \<le> v * 64 ^ 3" using \<open>5 \<le> v\<close> by simp
  also have "\<dots> \<le> w" using Some r nat_tail_bound by blast
  finally show ?thesis using Some r by (simp add: shortest_def scalar_def)
qed (simp add: shortest_def)

text \<open>Byte comparisons read as arithmetic on byte values.\<close>

lemmas byte_order = word_le_nat_alt word_less_nat_alt word_unat_eq_iff

lemma div_class: "0 < d \<Longrightarrow> (x :: nat) div d = q \<longleftrightarrow> q * d \<le> x \<and> x < q * d + d"
  by (metis add.commute div_nat_eqI dividend_less_div_times div_times_less_eq_dividend
      mult.commute mult_Suc)

lemma byte_classes:
  fixes x :: nat
  shows "x div 32 = 6 \<longleftrightarrow> 0xc0 \<le> x \<and> x \<le> 0xdf"
    and "x div 16 = 14 \<longleftrightarrow> 0xe0 \<le> x \<and> x \<le> 0xef"
    and "x div 8 = 30 \<longleftrightarrow> 0xf0 \<le> x \<and> x \<le> 0xf7"
    and "x div 64 = 2 \<longleftrightarrow> 0x80 \<le> x \<and> x \<le> 0xbf"
  by (auto simp: div_class)

lemma low_bits_small: "x mod 32 < (64 :: nat)" "x mod 16 < (64 :: nat)" "x mod 8 < (64 :: nat)"
  by (rule less_trans [OF mod_less_divisor]; simp)+

lemma settings_lead_masks:
  fixes c :: byte
  shows "c AND 0xe0 = 0xc0 \<longleftrightarrow> unat c div 32 = 6"
    and "c AND 0xf0 = 0xe0 \<longleftrightarrow> unat c div 16 = 14"
    and "c AND 0xf8 = 0xf0 \<longleftrightarrow> unat c div 8 = 30"
  by (simp_all add: word_unat_eq_iff byte_and_high)

lemma kosync_step:
  "kosync_utf8_valid (c # bs) \<longleftrightarrow>
     (\<exists>cp rest. utf8_next (c # bs) = Some (cp, rest) \<and> cp \<noteq> 0 \<and> kosync_utf8_valid rest)"
proof -
  let ?S = "\<lambda>m n v. \<exists>cp rest. shortest m (nat_tail n v bs) = Some (cp, rest) \<and> kosync_utf8_valid rest"
  have step: "kosync_utf8_valid (c # bs) \<longleftrightarrow> ?S (unat m) n (unat v)"
    if "kosync_lead c = Some (v, m, n)" "n \<le> 3" "unat v < 64" "\<not> c < 0x80" for v m n
    using decode_step [of n v bs m "\<lambda>_. False" kosync_utf8_valid] that
    by (cases "utf8_tail n v bs") (auto simp: kosync_utf8_valid.simps(2) split: if_splits)
  have nonzero: "cp \<noteq> 0" if "shortest m r = Some (cp, rest)" "0 < m" for m r cp rest
    using that by (auto simp: shortest_def split: option.splits prod.splits if_splits)
  consider "unat c < 0x80" | "unat c div 32 = 6" "unat c < 0xc2" | "unat c div 32 = 6" "0xc2 \<le> unat c"
    | "unat c div 16 = 14" | "unat c div 8 = 30" "unat c \<le> 0xf4" | "unat c div 8 = 30" "0xf4 < unat c"
    | "0x80 \<le> unat c" "unat c < 0xc0" | "0xf8 \<le> unat c"
    unfolding byte_classes by linarith
  then show ?thesis
  proof cases
    case 1
    then show ?thesis
      by (auto simp: kosync_utf8_valid.simps(2) utf8_next.simps(2) byte_order)
  next
    case 2
    then have "unat c mod 32 \<le> 1" using div_mult_mod_eq [of "unat c" 32] by linarith
    then have "shortest 0x80 (nat_tail 1 (unat c mod 32) bs) = None" by (rule lead_c0_c1)
    with 2 show ?thesis
      by (auto simp: kosync_utf8_valid.simps(2) utf8_next.simps(2) kosync_lead_def byte_order byte_classes)
  next
    case 3
    then have "kosync_lead c = Some (ucast (c AND 0x1f), 0x80, 1)"
      by (auto simp: kosync_lead_def byte_order byte_classes)
    from step [OF this] 3 show ?thesis
      by (auto simp: utf8_next.simps(2) byte_and_low byte_order byte_classes dest: nonzero [OF _ zero_less_numeral])
  next
    case 4
    then have "kosync_lead c = Some (ucast (c AND 0x0f), 0x800, 2)"
      by (auto simp: kosync_lead_def byte_order byte_classes)
    from step [OF this] 4 show ?thesis
      by (auto simp: utf8_next.simps(2) byte_and_low byte_order byte_classes dest: nonzero [OF _ zero_less_numeral])
  next
    case 5
    then have "kosync_lead c = Some (ucast (c AND 0x07), 0x10000, 3)"
      by (auto simp: kosync_lead_def byte_order byte_classes)
    from step [OF this] 5 show ?thesis
      by (auto simp: utf8_next.simps(2) byte_and_low byte_order byte_classes dest: nonzero [OF _ zero_less_numeral])
  next
    case 6
    then have "5 \<le> unat c mod 8" using div_mult_mod_eq [of "unat c" 8] by linarith
    then have "shortest 0x10000 (nat_tail 3 (unat c mod 8) bs) = None" by (rule lead_f5_f7)
    with 6 show ?thesis
      by (auto simp: kosync_utf8_valid.simps(2) utf8_next.simps(2) kosync_lead_def byte_order byte_classes)
  qed (auto simp: kosync_utf8_valid.simps(2) utf8_next.simps(2) kosync_lead_def byte_order byte_classes)
qed

lemma settings_step:
  "utf8_device_name_valid (c # bs) \<longleftrightarrow>
     (\<exists>cp rest. utf8_next (c # bs) = Some (cp, rest) \<and> (0x20 \<le> cp \<and> \<not> (0x7f \<le> cp \<and> cp \<le> 0x9f)) \<and>
        utf8_device_name_valid rest)"
proof -
  let ?bad = "\<lambda>cp :: nat. cp < 0x20 \<or> (0x7f \<le> cp \<and> cp \<le> 0x9f)"
  have step: "utf8_device_name_valid (c # bs) \<longleftrightarrow>
      (\<exists>cp rest. shortest (unat m) (nat_tail n (unat v) bs) = Some (cp, rest) \<and> \<not> ?bad cp \<and>
        utf8_device_name_valid rest)"
    if "settings_lead c = Some (v, m, n)" "n \<le> 3" "unat v < 64" for v m n
    using decode_step [of n v bs m ?bad utf8_device_name_valid] that
    by (cases "utf8_tail n v bs")
      (auto simp: utf8_device_name_valid.simps(2) byte_order split: if_splits)
  consider "unat c < 0x80" | "unat c div 32 = 6" | "unat c div 16 = 14" | "unat c div 8 = 30"
    | "0x80 \<le> unat c" "unat c < 0xc0" | "0xf8 \<le> unat c"
    unfolding byte_classes by linarith
  then show ?thesis
  proof cases
    case 1
    then have "settings_lead c = Some (ucast c, 0, 0)"
      by (simp add: settings_lead_def byte_order)
    then show ?thesis using 1
      by (auto simp: utf8_device_name_valid.simps(2) utf8_next.simps(2) codepoint_refused_iff
          scalar_def byte_order)
  next
    case 2
    then have "settings_lead c = Some (ucast (c AND 0x1f), 0x80, 1)"
      by (auto simp: settings_lead_def settings_lead_masks byte_classes word_less_nat_alt)
    from step [OF this] 2 show ?thesis
      by (simp add: utf8_next.simps(2) byte_and_low byte_classes low_bits_small not_less)
  next
    case 3
    then have "settings_lead c = Some (ucast (c AND 0x0f), 0x800, 2)"
      by (auto simp: settings_lead_def settings_lead_masks byte_classes word_less_nat_alt)
    from step [OF this] 3 show ?thesis
      by (simp add: utf8_next.simps(2) byte_and_low byte_classes low_bits_small not_less)
  next
    case 4
    then have "settings_lead c = Some (ucast (c AND 0x07), 0x10000, 3)"
      by (auto simp: settings_lead_def settings_lead_masks byte_classes word_less_nat_alt)
    from step [OF this] 4 show ?thesis
      by (simp add: utf8_next.simps(2) byte_and_low byte_classes low_bits_small not_less)
  qed (auto simp: utf8_device_name_valid.simps(2) utf8_next.simps(2) settings_lead_def
      settings_lead_masks byte_classes word_less_nat_alt)
qed

interpretation kosync_scan: utf8_validator kosync_utf8_valid "\<lambda>cp. cp \<noteq> 0"
  by unfold_locales (simp, rule kosync_step)

interpretation settings_scan: utf8_validator utf8_device_name_valid
  "\<lambda>cp. 0x20 \<le> cp \<and> \<not> (0x7f \<le> cp \<and> cp \<le> 0x9f)"
  by unfold_locales (simp, rule settings_step)

section \<open>The range-checking validator\<close>

lemma low_bits:
  fixes x :: nat
  shows "0xc0 \<le> x \<Longrightarrow> x \<le> 0xdf \<Longrightarrow> x mod 32 = x - 0xc0"
    and "0xe0 \<le> x \<Longrightarrow> x \<le> 0xef \<Longrightarrow> x mod 16 = x - 0xe0"
    and "0xf0 \<le> x \<Longrightarrow> x \<le> 0xf7 \<Longrightarrow> x mod 8 = x - 0xf0"
    and "0x80 \<le> x \<Longrightarrow> x \<le> 0xbf \<Longrightarrow> x mod 64 = x - 0x80"
  using byte_classes [of x]
  by (simp_all flip: minus_div_mult_eq_mod)

text \<open>The range of the second byte is exactly the shortest-form and surrogate check.\<close>

lemma second_byte_2:
  fixes x y :: nat
  assumes "0xc2 \<le> x" "x \<le> 0xdf" "0x80 \<le> y" "y \<le> 0xbf"
  shows "0x80 \<le> x mod 32 * 64 + y mod 64 \<and> scalar (x mod 32 * 64 + y mod 64)"
  using assms by (auto simp: low_bits scalar_def)

lemma second_byte_3:
  fixes x y z :: nat
  assumes "0xe0 \<le> x" "x \<le> 0xef" "0x80 \<le> y" "y \<le> 0xbf" "0x80 \<le> z" "z \<le> 0xbf"
    and "v = (x mod 16 * 64 + y mod 64) * 64 + z mod 64"
  shows "0x800 \<le> v \<and> scalar v \<longleftrightarrow>
     (x = 0xe0 \<longrightarrow> 0xa0 \<le> y) \<and> (x = 0xed \<longrightarrow> y \<le> 0x9f)"
proof -
  define r where "r = z - 0x80"
  define b where "b = y - 0x80"
  have v: "v = (x - 0xe0) * 4096 + b * 64 + r"
    using assms by (simp add: low_bits algebra_simps r_def b_def)
  have r: "r < 64" "b < 64" and y: "y = b + 0x80" using assms by (auto simp: r_def b_def)
  consider "x = 0xe0" | "0xe1 \<le> x" "x \<le> 0xec" | "x = 0xed" | "0xee \<le> x" "x \<le> 0xef"
    using assms by linarith
  then show ?thesis
  proof cases
    case 1
    then show ?thesis using r unfolding v y scalar_def by simp linarith
  next
    case 2
    then have "4096 \<le> v" "v < 0xd000" using r unfolding v by linarith+
    with 2 show ?thesis unfolding scalar_def by simp
  next
    case 3
    then show ?thesis using r unfolding v y scalar_def by simp linarith
  next
    case 4
    then have "0xe000 \<le> v" "v < 0x10000" using r unfolding v by linarith+
    with 4 show ?thesis unfolding scalar_def by simp
  qed
qed

lemma second_byte_4:
  fixes x y z w :: nat
  assumes "0xf0 \<le> x" "x \<le> 0xf4" "0x80 \<le> y" "y \<le> 0xbf" "0x80 \<le> z" "z \<le> 0xbf" "0x80 \<le> w" "w \<le> 0xbf"
    and "v = ((x mod 8 * 64 + y mod 64) * 64 + z mod 64) * 64 + w mod 64"
  shows "0x10000 \<le> v \<and> scalar v \<longleftrightarrow>
     (x = 0xf0 \<longrightarrow> 0x90 \<le> y) \<and> (x = 0xf4 \<longrightarrow> y \<le> 0x8f)"
proof -
  define r where "r = (z - 0x80) * 64 + (w - 0x80)"
  define b where "b = y - 0x80"
  have v: "v = (x - 0xf0) * 262144 + b * 4096 + r"
    using assms by (simp add: low_bits algebra_simps r_def b_def)
  have r: "r < 4096" "b < 64" and y: "y = b + 0x80" using assms by (auto simp: r_def b_def)
  consider "x = 0xf0" | "0xf1 \<le> x" "x \<le> 0xf3" | "x = 0xf4" using assms by linarith
  then show ?thesis
  proof cases
    case 1
    then show ?thesis using r unfolding v y scalar_def by simp linarith
  next
    case 2
    then have "262144 \<le> v" "v < 4 * 262144" using r unfolding v by linarith+
    with 2 show ?thesis unfolding scalar_def by simp
  next
    case 3
    then show ?thesis using r unfolding v y scalar_def by simp linarith
  qed
qed

text \<open>One code point of two, three and four bytes, read by the range checks.\<close>

definition cont :: "byte \<Rightarrow> bool" where
  "cont b \<longleftrightarrow> 0x80 \<le> unat b \<and> unat b \<le> 0xbf"

lemma nat_tail_cont:
  "nat_tail (Suc n) v (b # bs) = (if cont b then nat_tail n (v * 64 + unat b mod 64) bs else None)"
  by (simp add: cont_def byte_classes)

lemma shortest_Some:
  "shortest m (Some (v, rest)) = (if m \<le> v \<and> scalar v then Some (v, rest) else None)"
  by (simp add: shortest_def)

lemma progress_step_2:
  assumes "0xc2 \<le> unat c" "unat c \<le> 0xdf"
  shows "progress_utf8_valid (c # bs) \<longleftrightarrow>
     (\<exists>cp rest. shortest 0x80 (nat_tail 1 (unat c mod 32) bs) = Some (cp, rest) \<and> progress_utf8_valid rest)"
proof -
  have lead: "\<not> c \<le> 0x7f" "c \<noteq> 0" "progress_lead c = Some (1, 0x80, 0xbf)"
    using assms by (auto simp: progress_lead_def byte_order)
  show ?thesis
  proof (cases bs)
    case (Cons b rest)
    then show ?thesis using lead second_byte_2 [OF assms, of "unat b"]
      by (auto simp: progress_utf8_valid.simps(2) nat_tail_cont shortest_Some shortest_def cont_def byte_order
          simp del: nat_tail.simps(3))
  qed (use lead in \<open>simp add: progress_utf8_valid.simps(2) shortest_def\<close>)
qed

lemma progress_step_3:
  assumes "0xe0 \<le> unat c" "unat c \<le> 0xef"
  shows "progress_utf8_valid (c # bs) \<longleftrightarrow>
     (\<exists>cp rest. shortest 0x800 (nat_tail 2 (unat c mod 16) bs) = Some (cp, rest) \<and> progress_utf8_valid rest)"
proof -
  have lead: "\<not> c \<le> 0x7f" "c \<noteq> 0"
    "progress_lead c = Some (2, if c = 0xe0 then 0xa0 else 0x80, if c = 0xed then 0x9f else 0xbf)"
    using assms by (auto simp: progress_lead_def byte_order)
  show ?thesis
  proof (cases "length bs < 2")
    case False
    then obtain b d rest where bs: "bs = b # d # rest" by (cases bs rule: remdups_adj.cases) auto
    have second: "(b < (if c = 0xe0 then 0xa0 else 0x80) \<or> (if c = 0xed then 0x9f else 0xbf) < b) \<longleftrightarrow>
        \<not> (cont b \<and> (unat c = 0xe0 \<longrightarrow> 0xa0 \<le> unat b) \<and> (unat c = 0xed \<longrightarrow> unat b \<le> 0x9f))"
      by (auto simp: cont_def byte_order)
    have third: "(0x80 \<le> d \<and> d \<le> 0xbf) = cont d" by (simp add: cont_def byte_order)
    show ?thesis
      using second_byte_3 [OF assms _ _ _ _ refl, of "unat b" "unat d"] lead second third
      by (auto simp: bs progress_utf8_valid.simps(2) nat_tail_cont shortest_Some shortest_def cont_def
          numeral_2_eq_2 simp del: nat_tail.simps(3))
  qed (use lead nat_tail_too_short in \<open>simp add: progress_utf8_valid.simps(2) shortest_def\<close>)
qed

lemma progress_step_4:
  assumes "0xf0 \<le> unat c" "unat c \<le> 0xf4"
  shows "progress_utf8_valid (c # bs) \<longleftrightarrow>
     (\<exists>cp rest. shortest 0x10000 (nat_tail 3 (unat c mod 8) bs) = Some (cp, rest) \<and> progress_utf8_valid rest)"
proof -
  have lead: "\<not> c \<le> 0x7f" "c \<noteq> 0"
    "progress_lead c = Some (3, if c = 0xf0 then 0x90 else 0x80, if c = 0xf4 then 0x8f else 0xbf)"
    using assms by (auto simp: progress_lead_def byte_order)
  show ?thesis
  proof (cases "length bs < 3")
    case False
    then obtain b bs' where bs': "bs = b # bs'" "\<not> length bs' < 2" by (cases bs) auto
    then obtain d e rest where "bs' = d # e # rest" by (cases bs' rule: remdups_adj.cases) auto
    with bs' have bs: "bs = b # d # e # rest" by simp
    have second: "(b < (if c = 0xf0 then 0x90 else 0x80) \<or> (if c = 0xf4 then 0x8f else 0xbf) < b) \<longleftrightarrow>
        \<not> (cont b \<and> (unat c = 0xf0 \<longrightarrow> 0x90 \<le> unat b) \<and> (unat c = 0xf4 \<longrightarrow> unat b \<le> 0x8f))"
      by (auto simp: cont_def byte_order)
    have others: "(0x80 \<le> x \<and> x \<le> 0xbf) = cont x" for x by (simp add: cont_def byte_order)
    show ?thesis
      using second_byte_4 [OF assms _ _ _ _ _ _ refl, of "unat b" "unat d" "unat e"] lead second others
      by (auto simp: bs progress_utf8_valid.simps(2) nat_tail_cont shortest_Some shortest_def cont_def
          numeral_3_eq_3 simp del: nat_tail.simps(3))
  qed (use lead nat_tail_too_short in \<open>simp add: progress_utf8_valid.simps(2) shortest_def\<close>)
qed

lemma shortest_positive: "0 < m \<Longrightarrow> shortest m r = Some (cp, rest) \<Longrightarrow> cp \<noteq> 0"
  by (auto simp: shortest_def split: option.splits prod.splits if_splits)

lemma progress_step:
  "progress_utf8_valid (c # bs) \<longleftrightarrow>
     (\<exists>cp rest. utf8_next (c # bs) = Some (cp, rest) \<and> cp \<noteq> 0 \<and> progress_utf8_valid rest)"
proof -
  note pos = shortest_positive [OF zero_less_numeral]
  consider "unat c < 0x80" | "unat c div 32 = 6" "unat c < 0xc2" | "unat c div 32 = 6" "0xc2 \<le> unat c"
    | "unat c div 16 = 14" | "unat c div 8 = 30" "unat c \<le> 0xf4" | "unat c div 8 = 30" "0xf4 < unat c"
    | "0x80 \<le> unat c" "unat c < 0xc0" | "0xf8 \<le> unat c"
    unfolding byte_classes by linarith
  then show ?thesis
  proof cases
    case 1
    then show ?thesis
      by (auto simp: progress_utf8_valid.simps(2) utf8_next.simps(2) byte_order)
  next
    case 2
    then have "unat c mod 32 \<le> 1" using div_mult_mod_eq [of "unat c" 32] by linarith
    then have "shortest 0x80 (nat_tail 1 (unat c mod 32) bs) = None" by (rule lead_c0_c1)
    with 2 show ?thesis
      by (auto simp: progress_utf8_valid.simps(2) utf8_next.simps(2) progress_lead_def byte_order byte_classes)
  next
    case 3
    then show ?thesis
      using progress_step_2 [of c bs] pos [of _ "nat_tail 1 (unat c mod 32) bs"]
      by (simp add: utf8_next.simps(2) byte_classes) blast
  next
    case 4
    then show ?thesis
      using progress_step_3 [of c bs] pos [of _ "nat_tail 2 (unat c mod 16) bs"]
      by (simp add: utf8_next.simps(2) byte_classes) blast
  next
    case 5
    then show ?thesis
      using progress_step_4 [of c bs] pos [of _ "nat_tail 3 (unat c mod 8) bs"]
      by (simp add: utf8_next.simps(2) byte_classes) blast
  next
    case 6
    then have "5 \<le> unat c mod 8" using div_mult_mod_eq [of "unat c" 8] by linarith
    then have "shortest 0x10000 (nat_tail 3 (unat c mod 8) bs) = None" by (rule lead_f5_f7)
    with 6 show ?thesis
      by (auto simp: progress_utf8_valid.simps(2) utf8_next.simps(2) progress_lead_def byte_order byte_classes)
  qed (auto simp: progress_utf8_valid.simps(2) utf8_next.simps(2) progress_lead_def byte_order byte_classes)
qed

interpretation progress_scan: utf8_validator progress_utf8_valid "\<lambda>cp. cp \<noteq> 0"
  by unfold_locales (simp, rule progress_step)

section \<open>The encoder against the reference\<close>

lemma unat_ucast_u32: "unat (v :: u32) < 256 \<Longrightarrow> unat (ucast v :: byte) = unat v"
  by (simp add: unsigned_ucast_eq take_bit_nat_eq_self)

lemma unat_lead_byte:
  fixes w :: u32
  shows "unat w < 32 \<Longrightarrow> unat (ucast (0xc0 OR w) :: byte) = 0xc0 + unat w"
    and "unat w < 16 \<Longrightarrow> unat (ucast (0xe0 OR w) :: byte) = 0xe0 + unat w"
    and "unat w < 8 \<Longrightarrow> unat (ucast (0xf0 OR w) :: byte) = 0xf0 + unat w"
  using unat_or_disjoint [of "6 :: u32" 5 w] unat_or_disjoint [of "14 :: u32" 4 w]
    unat_or_disjoint [of "30 :: u32" 3 w]
  by (simp_all add: unat_ucast_u32)

lemma unat_and_low6: "unat ((w :: u32) AND 0x3f) = unat w mod 64"
  using unat_and_mask [of w 6] by (simp add: mask_eq_exp_minus_1)

lemma unat_tail_byte:
  "unat (ucast (0x80 OR (w AND 0x3f) :: u32) :: byte) = 0x80 + unat w mod 64"
  using unat_or_disjoint [of "2 :: u32" 6 "w AND 0x3f"]
  by (simp add: unat_ucast_u32 unat_and_low6)

lemma cont_tail: "cont (ucast (0x80 OR (w AND 0x3f) :: u32))"
  using mod_less_divisor [of 64 "unat w"] by (simp add: cont_def unat_tail_byte)

text \<open>The reference reads back a lead byte followed by continuation bytes.\<close>

lemma utf8_next_lead:
  assumes "unat c = 0xc0 + k \<and> k < 32 \<and> n = 1 \<and> m = 0x80 \<or>
     unat c = 0xe0 + k \<and> k < 16 \<and> n = 2 \<and> m = 0x800 \<or>
     unat c = 0xf0 + k \<and> k < 8 \<and> n = 3 \<and> m = 0x10000"
  shows "utf8_next (c # bs) = shortest m (nat_tail n k bs)"
  using assms by (elim disjE conjE) (simp_all add: utf8_next.simps(2) byte_classes low_bits del: nat_tail.simps(3))

lemma tail_value:
  "nat_tail (Suc n) k (ucast (0x80 OR (w AND 0x3f) :: u32) # bs) = nat_tail n (k * 64 + unat w mod 64) bs"
  using low_bits(4) [of "0x80 + unat w mod 64"] cont_tail [of w]
  by (simp add: nat_tail_cont cont_def unat_tail_byte del: nat_tail.simps(3))

lemma div_64_again: "(x :: nat) div 64 div 64 = x div 4096" "x div 4096 div 64 = x div 262144"
  using div_mult2_eq [of x 64 64] div_mult2_eq [of x 4096 64] by simp_all

lemma join_64: "(x :: nat) div 64 * 64 + x mod 64 = x" "x div 4096 * 64 + x div 64 mod 64 = x div 64"
  "x div 262144 * 64 + x div 4096 mod 64 = x div 4096"
  using div_mult_mod_eq [of x 64] div_mult_mod_eq [of "x div 64" 64] div_mult_mod_eq [of "x div 4096" 64]
  by (simp_all add: div_64_again)

lemma unat_drops: "unat (drop_bit 6 (w :: u32)) = unat w div 64"
  "unat (drop_bit 12 (w :: u32)) = unat w div 4096" "unat (drop_bit 18 (w :: u32)) = unat w div 262144"
  by (simp_all add: unat_drop_bit)

lemma tail_values:
  "nat_tail 1 (unat w div 64) (ucast (0x80 OR (w AND 0x3f) :: u32) # bs) = Some (unat w, bs)"
  "nat_tail 2 (unat w div 4096)
     (ucast (0x80 OR (drop_bit 6 w AND 0x3f) :: u32) # ucast (0x80 OR (w AND 0x3f) :: u32) # bs) = Some (unat w, bs)"
  "nat_tail 3 (unat w div 262144) (ucast (0x80 OR (drop_bit 12 w AND 0x3f) :: u32) #
     ucast (0x80 OR (drop_bit 6 w AND 0x3f) :: u32) # ucast (0x80 OR (w AND 0x3f) :: u32) # bs) = Some (unat w, bs)"
  unfolding One_nat_def numeral_2_eq_2 numeral_3_eq_3 tail_value
  by (simp_all only: unat_drops join_64 nat_tail.simps(1))

lemma utf8_next_encode:
  assumes "scalar (unat v)"
  shows "utf8_next (utf8_encode v @ bs) = Some (unat v, bs)"
proof -
  have bound: "unat v < 0x110000" using assms by (auto simp: scalar_def)
  note simps = unat_drops tail_values shortest_Some
  consider "unat v < 0x80" | "0x80 \<le> unat v" "unat v < 0x800" | "0x800 \<le> unat v" "unat v < 0x10000"
    | "0x10000 \<le> unat v" by linarith
  then show ?thesis
  proof cases
    case 1
    then show ?thesis by (simp add: utf8_encode_def utf8_next.simps(2) byte_order unat_ucast_u32)
  next
    case 2
    then have k: "unat (drop_bit 6 v) < 32" by (simp add: unat_drop_bit)
    from 2 have e: "utf8_encode v = [ucast (0xc0 OR drop_bit 6 v), ucast (0x80 OR (v AND 0x3f))]"
      by (simp add: utf8_encode_def word_less_nat_alt)
    show ?thesis
      unfolding e append_Cons append_Nil
      by (subst utf8_next_lead [where k = "unat (drop_bit 6 v)" and n = 1 and m = "0x80"])
        (use 2 k assms unat_lead_byte(1) [OF k] in
          \<open>auto simp: simps simp del: nat_tail.simps One_nat_def\<close>)
  next
    case 3
    then have k: "unat (drop_bit 12 v) < 16" by (simp add: unat_drop_bit)
    from 3 have e: "utf8_encode v = [ucast (0xe0 OR drop_bit 12 v),
        ucast (0x80 OR (drop_bit 6 v AND 0x3f)), ucast (0x80 OR (v AND 0x3f))]"
      by (simp add: utf8_encode_def word_less_nat_alt)
    show ?thesis
      unfolding e append_Cons append_Nil
      by (subst utf8_next_lead [where k = "unat (drop_bit 12 v)" and n = 2 and m = "0x800"])
        (use 3 k assms unat_lead_byte(2) [OF k] in
          \<open>auto simp: simps simp del: nat_tail.simps\<close>)
  next
    case 4
    then have k: "unat (drop_bit 18 v) < 8" using bound by (simp add: unat_drop_bit)
    from 4 have e: "utf8_encode v = [ucast (0xf0 OR drop_bit 18 v), ucast (0x80 OR (drop_bit 12 v AND 0x3f)),
        ucast (0x80 OR (drop_bit 6 v AND 0x3f)), ucast (0x80 OR (v AND 0x3f))]"
      by (simp add: utf8_encode_def word_less_nat_alt)
    show ?thesis
      unfolding e append_Cons append_Nil
      by (subst utf8_next_lead [where k = "unat (drop_bit 18 v)" and n = 3 and m = "0x10000"])
        (use 4 k assms unat_lead_byte(3) [OF k] in
          \<open>auto simp: simps simp del: nat_tail.simps\<close>)
  qed
qed

section \<open>What the validators accept\<close>

lemma digit_64_inj:
  fixes v v' r r' :: nat
  assumes "v * 64 + r = v' * 64 + r'" "r < 64" "r' < 64"
  shows "v = v' \<and> r = r'"
proof -
  have "(v * 64 + r) div 64 = v" "(v * 64 + r) mod 64 = r" "(v' * 64 + r') div 64 = v'" "(v' * 64 + r') mod 64 = r'"
    using assms(2,3) by simp_all
  then show ?thesis using assms(1) by metis
qed

lemma nat_tail_inj:
  "nat_tail n v bs = Some (w, rest) \<Longrightarrow> nat_tail n v' bs' = Some (w, rest) \<Longrightarrow> v = v' \<and> bs = bs'"
proof (induction n v bs arbitrary: v' bs' rule: nat_tail.induct)
  case (3 n v b bs)
  then obtain b' t where bs': "bs' = b' # t" by (cases bs') auto
  have c: "unat b div 64 = 2" "nat_tail n (v * 64 + unat b mod 64) bs = Some (w, rest)"
    using "3.prems"(1) by (simp_all split: if_splits)
  have c': "unat b' div 64 = 2" "nat_tail n (v' * 64 + unat b' mod 64) t = Some (w, rest)"
    using "3.prems"(2) unfolding bs' by (simp_all split: if_splits)
  have "v * 64 + unat b mod 64 = v' * 64 + unat b' mod 64" and t: "bs = t"
    using "3.IH" [OF c(1) c(2) c'(2)] by blast+
  then have v: "v = v' \<and> unat b mod 64 = unat b' mod 64" by (intro digit_64_inj) simp_all
  then have "unat b = unat b'"
    using c c' div_mult_mod_eq [of "unat b" 64] div_mult_mod_eq [of "unat b'" 64] by simp
  then show ?case using v t bs' by (simp add: word_unat_eq_iff)
qed auto

lemma shortest_eq_Some:
  "shortest m r = Some (cp, rest) \<longleftrightarrow> r = Some (cp, rest) \<and> m \<le> cp \<and> scalar cp"
  by (auto simp: shortest_def split: option.splits)

lemma utf8_next_scalar: "utf8_next bs = Some (cp, rest) \<Longrightarrow> scalar cp"
  by (cases bs) (auto simp: utf8_next.simps(2) shortest_def scalar_def split: if_splits option.splits
      simp del: nat_tail.simps)

text \<open>The value decides which lead byte was read.\<close>

lemma utf8_next_cases:
  assumes "utf8_next (c # t) = Some (cp, rest)"
  shows "cp < 0x80 \<Longrightarrow> unat c = cp \<and> rest = t"
    and "0x80 \<le> cp \<Longrightarrow> cp < 0x800 \<Longrightarrow> unat c div 32 = 6 \<and> nat_tail 1 (unat c mod 32) t = Some (cp, rest)"
    and "0x800 \<le> cp \<Longrightarrow> cp < 0x10000 \<Longrightarrow> unat c div 16 = 14 \<and> nat_tail 2 (unat c mod 16) t = Some (cp, rest)"
    and "0x10000 \<le> cp \<Longrightarrow> unat c div 8 = 30 \<and> nat_tail 3 (unat c mod 8) t = Some (cp, rest)"
proof -
  have up1: "cp < 0x800" if "nat_tail 1 (unat c mod 32) t = Some (cp, rest)"
  proof -
    have "(unat c mod 32 + 1) * 64 ^ 1 \<le> 32 * 64 ^ 1" by (intro mult_right_mono) (auto intro: Suc_leI)
    with nat_tail_bound [OF that] show ?thesis by simp
  qed
  have up2: "cp < 0x10000" if "nat_tail 2 (unat c mod 16) t = Some (cp, rest)"
  proof -
    have "(unat c mod 16 + 1) * 64 ^ 2 \<le> 16 * 64 ^ 2" by (intro mult_right_mono) (auto intro: Suc_leI)
    with nat_tail_bound [OF that] show ?thesis by simp
  qed
  consider "cp < 0x80" "unat c = cp" "rest = t"
    | "0x80 \<le> cp" "unat c div 32 = 6" "nat_tail 1 (unat c mod 32) t = Some (cp, rest)"
    | "0x800 \<le> cp" "unat c div 16 = 14" "nat_tail 2 (unat c mod 16) t = Some (cp, rest)"
    | "0x10000 \<le> cp" "unat c div 8 = 30" "nat_tail 3 (unat c mod 8) t = Some (cp, rest)"
    using assms unfolding utf8_next.simps(2)
    by (simp only: shortest_eq_Some split: if_splits) auto
  note this up1 up2
  then show "cp < 0x80 \<Longrightarrow> unat c = cp \<and> rest = t"
    and "0x80 \<le> cp \<Longrightarrow> cp < 0x800 \<Longrightarrow> unat c div 32 = 6 \<and> nat_tail 1 (unat c mod 32) t = Some (cp, rest)"
    and "0x800 \<le> cp \<Longrightarrow> cp < 0x10000 \<Longrightarrow> unat c div 16 = 14 \<and> nat_tail 2 (unat c mod 16) t = Some (cp, rest)"
    and "0x10000 \<le> cp \<Longrightarrow> unat c div 8 = 30 \<and> nat_tail 3 (unat c mod 8) t = Some (cp, rest)"
    by (force simp del: nat_tail.simps One_nat_def)+
qed

lemma utf8_next_inj:
  assumes "utf8_next bs = Some (cp, rest)" "utf8_next bs' = Some (cp, rest)"
  shows "bs = bs'"
proof -
  obtain c t where bs: "bs = c # t" using assms by (cases bs) auto
  obtain c' t' where bs': "bs' = c' # t'" using assms by (cases bs') auto
  have lead: "c = c'" if "unat c div d = unat c' div d" "unat c mod d = unat c' mod d" for d
    using that by (metis div_mult_mod_eq word_unat_eq_iff)
  note l = utf8_next_cases [OF assms(1) [unfolded bs]]
  note r = utf8_next_cases [OF assms(2) [unfolded bs']]
  consider "cp < 0x80" | "0x80 \<le> cp" "cp < 0x800" | "0x800 \<le> cp" "cp < 0x10000" | "0x10000 \<le> cp"
    by linarith
  then show ?thesis
  proof cases
    case 1
    then show ?thesis using l(1) r(1) by (simp add: bs bs' word_unat_eq_iff)
  next
    case 2
    with l(2) r(2) have "unat c mod 32 = unat c' mod 32 \<and> t = t'" by (metis nat_tail_inj)
    moreover have "unat c div 32 = unat c' div 32" using l(2) r(2) 2 by metis
    ultimately show ?thesis using lead [of 32] by (simp add: bs bs')
  next
    case 3
    with l(3) r(3) have "unat c mod 16 = unat c' mod 16 \<and> t = t'" by (metis nat_tail_inj)
    moreover have "unat c div 16 = unat c' div 16" using l(3) r(3) 3 by metis
    ultimately show ?thesis using lead [of 16] by (simp add: bs bs')
  next
    case 4
    with l(4) r(4) have "unat c mod 8 = unat c' mod 8 \<and> t = t'" by (metis nat_tail_inj)
    moreover have "unat c div 8 = unat c' div 8" using l(4) r(4) 4 by metis
    ultimately show ?thesis using lead [of 8] by (simp add: bs bs')
  qed
qed

text \<open>Reading one code point is reading its encoding.\<close>

lemma unat_of_scalar: "scalar cp \<Longrightarrow> unat (of_nat cp :: u32) = cp"
  by (simp only: unat_of_nat) (auto simp: take_bit_nat_eq_self_iff scalar_def)

lemma utf8_next_iff:
  "utf8_next bs = Some (cp, rest) \<longleftrightarrow> scalar cp \<and> bs = utf8_encode (of_nat cp) @ rest"
  using utf8_next_encode [of "of_nat cp" rest] unat_of_scalar utf8_next_scalar utf8_next_inj by metis

lemma utf8_decode_iff:
  "utf8_decode bs = Some cps \<longleftrightarrow>
     list_all scalar cps \<and> bs = concat (map (\<lambda>cp. utf8_encode (of_nat cp)) cps)"
proof (induction bs arbitrary: cps rule: utf8_decode.induct)
  case 1
  have "utf8_encode v \<noteq> []" for v by (simp add: utf8_encode_def)
  then show ?case by (cases cps) auto
next
  case (2 c bs)
  show ?case
  proof (cases cps)
    case Nil
    then show ?thesis by (simp add: utf8_decode.simps(2) split: option.splits)
  next
    case (Cons cp cps')
    have "utf8_decode (c # bs) = Some cps \<longleftrightarrow>
        (\<exists>rest. utf8_next (c # bs) = Some (cp, rest) \<and> utf8_decode rest = Some cps')"
      by (auto simp: utf8_decode.simps(2) Cons split: option.splits prod.splits)
    also have "\<dots> \<longleftrightarrow> (\<exists>rest. utf8_next (c # bs) = Some (cp, rest) \<and> list_all scalar cps' \<and>
        rest = concat (map (\<lambda>cp. utf8_encode (of_nat cp)) cps'))"
      using "2.IH" by fastforce
    finally show ?thesis by (auto simp: utf8_next_iff Cons)
  qed
qed

lemma encodable_iff: "encodable v \<longleftrightarrow> v \<noteq> 0 \<and> scalar (unat v)"
  unfolding encodable_def scalar_def byte_order by auto

lemma scalars_as_words:
  "(\<exists>cps. list_all scalar cps \<and> bs = concat (map (\<lambda>cp. utf8_encode (of_nat cp)) cps) \<and> list_all P cps) \<longleftrightarrow>
   (\<exists>vs. list_all (\<lambda>v. scalar (unat v) \<and> P (unat v)) vs \<and> bs = concat (map utf8_encode vs))"
  (is "?L \<longleftrightarrow> ?R")
proof
  assume ?L
  then obtain cps where c: "list_all scalar cps" "bs = concat (map (\<lambda>cp. utf8_encode (of_nat cp)) cps)"
    "list_all P cps" by blast
  then show ?R
    by (intro exI [of _ "map of_nat cps"]) (auto simp: list_all_iff unat_of_scalar o_def)
next
  assume ?R
  then obtain vs where v: "list_all (\<lambda>v. scalar (unat v) \<and> P (unat v)) vs" "bs = concat (map utf8_encode vs)"
    by blast
  then show ?L by (intro exI [of _ "map unat vs"]) (auto simp: list_all_iff o_def)
qed

lemma kosync_accepts:
  "kosync_utf8_valid bs \<longleftrightarrow> (\<exists>vs. list_all encodable vs \<and> bs = concat (map utf8_encode vs))"
proof -
  have "kosync_utf8_valid bs \<longleftrightarrow>
      (\<exists>vs. list_all (\<lambda>v. scalar (unat v) \<and> unat v \<noteq> 0) vs \<and> bs = concat (map utf8_encode vs))"
    unfolding kosync_scan.valid_decode utf8_decode_iff
    using scalars_as_words [of bs "\<lambda>cp. cp \<noteq> 0"] by auto
  moreover have "(\<lambda>v. scalar (unat v) \<and> unat v \<noteq> 0) = encodable"
    by (auto simp: encodable_iff unat_eq_0)
  ultimately show ?thesis by simp
qed

lemma settings_accepts:
  "utf8_device_name_valid bs \<longleftrightarrow>
     (\<exists>vs. list_all (\<lambda>v. encodable v \<and> 0x20 \<le> v \<and> \<not> (0x7f \<le> v \<and> v \<le> 0x9f)) vs \<and>
        bs = concat (map utf8_encode vs))"
proof -
  have "(\<lambda>v. scalar (unat v) \<and> 0x20 \<le> unat v \<and> \<not> (0x7f \<le> unat v \<and> unat v \<le> 0x9f)) =
      (\<lambda>v :: u32. encodable v \<and> 0x20 \<le> v \<and> \<not> (0x7f \<le> v \<and> v \<le> 0x9f))"
    by (auto simp: encodable_iff word_le_nat_alt)
  then show ?thesis
    unfolding settings_scan.valid_decode utf8_decode_iff
    using scalars_as_words [of bs "\<lambda>cp. 0x20 \<le> cp \<and> \<not> (0x7f \<le> cp \<and> cp \<le> 0x9f)"] by auto
qed

lemma settings_kosync_valid: "utf8_device_name_valid bs \<Longrightarrow> kosync_utf8_valid bs"
  unfolding settings_accepts kosync_accepts by (auto simp: list_all_iff)

text \<open>The two validators of stored and transmitted text are the same function.\<close>

lemma progress_kosync_valid: "progress_utf8_valid bs \<longleftrightarrow> kosync_utf8_valid bs"
  unfolding progress_scan.valid_decode kosync_scan.valid_decode ..

lemma utf8_tail_cont:
  "utf8_tail n v bs = Some (w, rest) \<Longrightarrow> \<exists>ts. bs = ts @ rest \<and> length ts = n \<and> list_all cont ts"
proof (induction n v bs rule: utf8_tail.induct)
  case (3 n v b bs)
  then have m: "b AND 0xc0 = 0x80" and t: "utf8_tail n (push_bit 6 v OR ucast (b AND 0x3f)) bs = Some (w, rest)"
    by (auto split: if_splits)
  then have c: "cont b" by (simp add: cont_def top_bits_10 byte_classes)
  obtain ts where "bs = ts @ rest" "length ts = n" "list_all cont ts"
    using "3.IH" m t by auto
  with c show ?case by (intro exI [of _ "b # ts"]) auto
qed auto

lemma cont_terminated: "list_all cont ts \<Longrightarrow> terminated ts"
  by (auto simp: list_all_iff terminated_def cont_def)

lemma kosync_valid_terminated: "kosync_utf8_valid bs \<Longrightarrow> terminated bs"
proof (induction bs rule: kosync_utf8_valid.induct)
  case (2 c bs)
  show ?case
  proof (cases "c < 0x80")
    case True
    then show ?thesis using 2 by (auto simp: kosync_utf8_valid.simps(2) split: if_splits)
  next
    case False
    then obtain v m n w rest where l: "kosync_lead c = Some (v, m, n)" "n \<le> length bs"
      "utf8_tail n v bs = Some (w, rest)" "\<not> codepoint_refused w m" "kosync_utf8_valid rest"
      using "2.prems" by (auto simp: kosync_utf8_valid.simps(2) split: if_splits option.splits)
    then have "terminated rest" using "2.IH"(2) False by auto
    moreover have "c \<noteq> 0" using False by auto
    ultimately show ?thesis using utf8_tail_cont [OF l(3)] cont_terminated by auto
  qed
qed simp

section \<open>The device identifier preflight\<close>

lemma device_id_tail_utf8:
  "terminated bs \<Longrightarrow> device_id_tail n i v bs =
     (if i + n \<le> 255 \<or> n = 0 then map_option (\<lambda>(w, rest). (w, i + n, rest)) (utf8_tail n v bs) else None)"
proof (induction n i v bs rule: device_id_tail.induct)
  case (2 n i v bs)
  then show ?case by (cases bs) auto
qed auto

lemma utf8_tail_terminated: "utf8_tail n v bs = Some (w, rest) \<Longrightarrow> terminated bs \<Longrightarrow> terminated rest"
  by (induction n v bs rule: utf8_tail.induct) (auto split: if_splits)

definition printable :: "byte \<Rightarrow> bool" where
  "printable b \<longleftrightarrow> 0x20 \<le> b \<and> b \<noteq> 0x7f"

lemma cont_printable: "cont b \<Longrightarrow> printable b"
  by (auto simp: cont_def printable_def byte_order)

lemma device_id_scan_iff:
  "terminated bs \<Longrightarrow> i \<le> 255 \<Longrightarrow> device_id_scan i bs \<longleftrightarrow>
     kosync_utf8_valid bs \<and> list_all printable bs \<and> i + length bs \<le> 255 \<and> (i \<noteq> 0 \<or> bs \<noteq> [])"
proof (induction i bs rule: device_id_scan.induct)
  case (2 i ch bs)
  then have ch: "ch \<noteq> 0" and tb: "terminated bs" by auto
  show ?case
  proof (cases "ch < 0x80")
    case True
    then show ?thesis
      using 2 ch by (auto simp: device_id_scan.simps(2) kosync_utf8_valid.simps(2) printable_def not_less)
  next
    case False
    have pr: "printable ch" using False by (auto simp: printable_def not_less byte_order)
    show ?thesis
    proof (cases "kosync_lead ch")
      case None
      with False ch show ?thesis by (simp add: device_id_scan.simps(2) kosync_utf8_valid.simps(2))
    next
      case (Some l)
      obtain v m n where l: "l = (v, m, n)" by (cases l) auto
      have n: "n \<noteq> 0" using Some l by (auto simp: kosync_lead_def split: if_splits)
      show ?thesis
      proof (cases "utf8_tail n v bs")
        case None
        with False ch Some l tb show ?thesis
          by (simp add: device_id_scan.simps(2) kosync_utf8_valid.simps(2) device_id_tail_utf8)
      next
        case (Some r)
        obtain w rest where r: "r = (w, rest)" by (cases r)
        obtain ts where ts: "bs = ts @ rest" "length ts = n" "list_all cont ts"
          using utf8_tail_cont Some r by blast
        have "list_all printable ts" using ts cont_printable by (auto simp: list_all_iff)
        moreover have "device_id_tail n (i + 1) v bs =
            (if i + 1 + n \<le> 255 then Some (w, i + 1 + n, rest) else None)"
          using tb n Some r by (simp add: device_id_tail_utf8)
        moreover have "device_id_scan (i + 1 + n) rest \<longleftrightarrow>
            kosync_utf8_valid rest \<and> list_all printable rest \<and> i + 1 + n + length rest \<le> 255"
          if "i + 1 + n \<le> 255" "\<not> codepoint_refused w m"
        proof -
          have "\<not> (i + 1 > 255 \<or> ch < 0x20 \<or> ch = 0x7f)"
            using that False by (auto simp: not_less byte_order)
          moreover have "device_id_tail n (i + 1) v bs = Some (w, i + 1 + n, rest)"
            using tb n Some r that by (simp add: device_id_tail_utf8)
          ultimately show ?thesis
            using "2.IH"(2) ch False \<open>kosync_lead ch = Some l\<close> l that ts tb by simp
        qed
        ultimately show ?thesis
          using False ch Some \<open>kosync_lead ch = Some l\<close> l r ts pr pr [unfolded printable_def]
          by (auto simp: device_id_scan.simps(2) kosync_utf8_valid.simps(2))
      qed
    qed
  qed
qed simp

text \<open>A C string ends at its first NUL, so only \<open>cstr\<close> of the argument matters.\<close>

lemma cstr_Cons: "cstr (c # s) = (if c = 0 then [] else c # cstr s)"
  by (simp add: cstr_def)

lemma device_id_tail_cstr:
  "device_id_tail n i v (cstr bs) = map_option (map_prod id (map_prod id cstr)) (device_id_tail n i v bs)"
proof (induction n i v bs rule: device_id_tail.induct)
  case (2 n i v bs)
  then show ?case by (cases bs) (auto simp: cstr_Cons)
qed simp

lemma device_id_scan_cstr: "device_id_scan i (cstr bs) = device_id_scan i bs"
proof (induction i bs rule: device_id_scan.induct)
  case (2 i ch bs)
  then show ?case
    by (auto simp: device_id_scan.simps(2) cstr_Cons device_id_tail_cstr split: option.splits)
qed (simp add: cstr_def)

lemma device_id_preflight:
  "cn_sync_valid_device_id_internal (Some s) \<longleftrightarrow>
     1 \<le> strlen s \<and> strlen s \<le> 255 \<and> list_all printable (cstr s) \<and> kosync_utf8_valid (cstr s)"
proof -
  have "cn_sync_valid_device_id_internal (Some s) \<longleftrightarrow> device_id_scan 0 (cstr s)"
    by (simp add: cn_sync_valid_device_id_internal_def device_id_scan_cstr)
  then show ?thesis by (auto simp: device_id_scan_iff strlen_def Suc_le_eq)
qed

text \<open>The bytes of an encoding are at least \<open>0x80\<close>, or the code point itself.\<close>

lemma utf8_encode_bytes:
  assumes "b \<in> set (utf8_encode v)" "scalar (unat v)"
  shows "0x80 \<le> unat b \<or> unat b = unat v"
proof -
  have bound: "unat v < 0x110000" using assms(2) by (auto simp: scalar_def)
  have tail: "0x80 \<le> unat (ucast (0x80 OR (w AND 0x3f) :: u32) :: byte)" for w by (simp add: unat_tail_byte)
  consider "unat v < 0x80" | "0x80 \<le> unat v" "unat v < 0x800" | "0x800 \<le> unat v" "unat v < 0x10000"
    | "0x10000 \<le> unat v" by linarith
  then show ?thesis
  proof cases
    case 1
    then show ?thesis using assms(1) by (simp add: utf8_encode_def word_less_nat_alt unat_ucast_u32)
  next
    case 2
    then have "unat (drop_bit 6 v) < 32" by (simp add: unat_drop_bit)
    with 2 assms(1) tail unat_lead_byte(1) [of "drop_bit 6 v"] show ?thesis
      by (auto simp: utf8_encode_def word_less_nat_alt)
  next
    case 3
    then have "unat (drop_bit 12 v) < 16" by (simp add: unat_drop_bit)
    with 3 assms(1) tail unat_lead_byte(2) [of "drop_bit 12 v"] show ?thesis
      by (auto simp: utf8_encode_def word_less_nat_alt)
  next
    case 4
    then have "unat (drop_bit 18 v) < 8" using bound by (simp add: unat_drop_bit)
    with 4 assms(1) tail unat_lead_byte(3) [of "drop_bit 18 v"] show ?thesis
      by (auto simp: utf8_encode_def word_less_nat_alt)
  qed
qed

lemma device_name_bytes:
  assumes "utf8_device_name_valid bs" "b \<in> set bs"
  shows "0x20 \<le> b \<and> b \<noteq> 0x7f"
proof -
  from assms obtain vs v where "list_all (\<lambda>v. encodable v \<and> 0x20 \<le> v \<and> \<not> (0x7f \<le> v \<and> v \<le> 0x9f)) vs"
    "v \<in> set vs" "b \<in> set (utf8_encode v)"
    unfolding settings_accepts by auto
  then have "0x80 \<le> unat b \<or> unat b = unat v" "0x20 \<le> unat v" "unat v \<noteq> 0x7f"
    using utf8_encode_bytes [of b v] by (auto simp: list_all_iff encodable_iff byte_order)
  then show ?thesis by (auto simp: byte_order)
qed

section \<open>Properties\<close>

text \<open>C6. The range-checking validator of the progress store and the decoding validator of the
  protocol client accept the same text: exactly the encodings of code points that
  \<open>append_codepoint\<close> can produce, so neither overlong forms, nor surrogates, nor a NUL.\<close>

theorem utf8_validators_accept_encodings:
  "progress_utf8_valid bs = kosync_utf8_valid bs \<and>
   (kosync_utf8_valid bs \<longleftrightarrow> (\<exists>vs. list_all encodable vs \<and> bs = concat (map utf8_encode vs)))"
  using progress_kosync_valid kosync_accepts by blast

text \<open>The device-name validator accepts exactly the encodings of code points that are neither C0
  nor C1 control characters nor DEL.\<close>

lemma device_name_accepts_printable:
  "utf8_device_name_valid bs \<longleftrightarrow>
     (\<exists>vs. list_all (\<lambda>v. encodable v \<and> 0x20 \<le> v \<and> \<not> (0x7f \<le> v \<and> v \<le> 0x9f)) vs \<and>
        bs = concat (map utf8_encode vs))"
  by (rule settings_accepts)

text \<open>C5. The one-pass preflight of a device identifier is the conjunction of what the client checks
  in separate passes: a length of 1 to 255, no control byte, valid UTF-8.\<close>

theorem device_id_preflight_exact:
  "cn_sync_valid_device_id_internal (Some s) \<longleftrightarrow>
     1 \<le> strlen s \<and> strlen s \<le> 255 \<and> list_all (\<lambda>b. 0x20 \<le> b \<and> b \<noteq> 0x7f) (cstr s) \<and>
     kosync_utf8_valid (cstr s)"
  using device_id_preflight [of s] by (simp add: printable_def [abs_def])

end
