(* ===== verification/Book_Identity.thy ===== *)
theory Book_Identity
  imports Prelude
begin

text \<open>
  The key of a local progress record, src/progress/book_identity.c: a 25-byte token
  \<open>path-v1-\<close> followed by the sixteen hexadecimal digits of the FNV-1a hash of the path.  The
  identity is the token array; a NULL identity or path is \<open>None\<close>.

  The lemmas show when a token is made, that a made token passes \<open>identity_valid\<close>, and that the
  hash separates paths that differ in one byte.
\<close>

definition id_prefix :: bytes where
  "id_prefix = str ''path-v1-''"

definition token_bytes :: nat where "token_bytes = 25"
definition path_max_bytes :: nat where "path_max_bytes = 4096"

definition cn_book_identity_init :: "bytes option \<Rightarrow> bytes option" where
  "cn_book_identity_init identity = map_option (\<lambda>_. replicate token_bytes 0) identity"

definition identity_valid :: "bytes option \<Rightarrow> bool" where
  "identity_valid identity = (case identity of None \<Rightarrow> False
     | Some token \<Rightarrow>
         if take (length id_prefix) token \<noteq> id_prefix then False
         else if \<not> (\<forall>i \<in> {length id_prefix..<token_bytes - 1}. lower_hex (char_at token i)) then False
         else char_at token (token_bytes - 1) = 0)"

fun fnv1a :: "u64 \<Rightarrow> bytes \<Rightarrow> u64" where
  "fnv1a hash [] = hash"
| "fnv1a hash (c # path) = fnv1a ((hash XOR ucast c) * 1099511628211) path"

definition fnv_offset :: u64 where
  "fnv_offset = 14695981039346656037"

definition token_digits :: "u64 \<Rightarrow> bytes" where
  "token_digits hash = map (\<lambda>i. hex_digit (unat (drop_bit ((15 - i) * 4) hash AND 0x0f))) [0..<16]"

definition cn_book_identity_from_path :: "bytes option \<Rightarrow> bytes option \<Rightarrow> bytes option \<times> int" where
  "cn_book_identity_from_path identity path = (case identity of None \<Rightarrow> (None, -1)
     | Some _ \<Rightarrow>
         let identity = cn_book_identity_init identity in
         case path of None \<Rightarrow> (identity, -1)
         | Some path \<Rightarrow>
             let length' = scan_nul path (path_max_bytes + 1) in
             if length' = 0 \<or> length' > path_max_bytes then (identity, -1)
             else (Some (id_prefix @ token_digits (fnv1a fnv_offset (take length' path)) @ [0]), 0))"

definition cn_book_identity_token :: "bytes option \<Rightarrow> bytes option" where
  "cn_book_identity_token identity = (if identity_valid identity then identity else None)"

section \<open>Tokens\<close>

lemma nibble_less: "unat ((w :: u64) AND 0x0f) < 16"
  using unat_and_mask [of w 4] by (simp add: mask_eq_exp_minus_1)

lemma length_token_digits [simp]: "length (token_digits h) = 16"
  by (simp add: token_digits_def)

lemma token_digits_hex: "list_all lower_hex (token_digits h)"
  by (simp add: token_digits_def list_all_iff lower_hex_digit nibble_less)

lemma lower_hex_nonzero: "lower_hex c \<Longrightarrow> c \<noteq> 0"
  by (auto simp: lower_hex_def)

lemma token_digits_terminated [simp]: "terminated (token_digits h)"
  using token_digits_hex [of h] by (auto simp: terminated_def list_all_iff dest: lower_hex_nonzero)

lemma id_prefix_facts [simp]: "length id_prefix = 8" "terminated id_prefix"
  by (simp_all add: id_prefix_def)

definition token_of :: "bytes \<Rightarrow> bytes" where
  "token_of path = id_prefix @ token_digits (fnv1a fnv_offset path)"

lemma char_at_append: "char_at (a @ b) (length a + i) = char_at b i"
  by (simp add: char_at_def nth_append)

lemma identity_valid_iff:
  "identity_valid (Some t) \<longleftrightarrow> (\<exists>digits rest. t = id_prefix @ digits @ rest \<and> length digits = 16 \<and>
     list_all lower_hex digits \<and> char_at rest 0 = 0)"
  (is "?L \<longleftrightarrow> ?R")
proof
  assume ?L
  then have l: "take 8 t = id_prefix" "\<And>i. i \<in> {8..<24} \<Longrightarrow> lower_hex (char_at t i)" "char_at t 24 = 0"
    by (auto simp: identity_valid_def token_bytes_def split: if_splits)
  have len: "24 \<le> length t"
  proof (rule ccontr)
    assume "\<not> 24 \<le> length t"
    then have "lower_hex (char_at t 23)" "char_at t 23 = 0" using l(2) [of 23] by (auto simp: char_at_def)
    then show False by (simp add: lower_hex_def)
  qed
  have "t = id_prefix @ take 16 (drop 8 t) @ drop 24 t"
    using l(1) append_take_drop_id [of 8 t] append_take_drop_id [of 16 "drop 8 t"] by simp
  moreover have "list_all lower_hex (take 16 (drop 8 t))"
    using len l(2) by (auto simp: list_all_length char_at_def)
  moreover have "char_at (drop 24 t) 0 = 0"
    using l(3) len by (auto simp: char_at_def)
  ultimately show ?R using len by (intro exI [of _ "take 16 (drop 8 t)"] exI [of _ "drop 24 t"]) simp
next
  assume ?R
  then obtain digits rest where t: "t = id_prefix @ digits @ rest" and d: "length digits = 16"
    "list_all lower_hex digits" "char_at rest 0 = 0" by blast
  have r0: "rest \<noteq> [] \<longrightarrow> rest ! 0 = 0" using d(3) by (cases rest) (auto simp: char_at_def)
  have "lower_hex (char_at t i)" if "8 \<le> i" "i < 24" for i
  proof -
    have "i - 8 < 16" using that by linarith
    then show ?thesis using that d by (simp add: t char_at_def nth_append list_all_length)
  qed
  moreover have "char_at t 24 = 0" using d(1) r0 by (auto simp: t char_at_def nth_append)
  ultimately show ?L
    by (auto simp: identity_valid_def t token_bytes_def list_all_iff)
qed

lemma from_path_ok:
  "1 \<le> strlen path \<Longrightarrow> strlen path \<le> path_max_bytes \<Longrightarrow>
     cn_book_identity_from_path (Some old) (Some path) = (Some (token_of (cstr path) @ [0]), 0)"
  by (simp add: cn_book_identity_from_path_def Let_def scan_nul_eq take_strlen token_of_def)

lemma from_path_fails:
  "path = None \<or> strlen (the path) = 0 \<or> strlen (the path) > path_max_bytes \<Longrightarrow>
     cn_book_identity_from_path (Some old) path = (Some (replicate token_bytes 0), -1)"
  by (cases path) (auto simp: cn_book_identity_from_path_def Let_def scan_nul_eq cn_book_identity_init_def)

lemma token_of_valid: "identity_valid (Some (token_of path @ [0]))"
  unfolding identity_valid_iff token_of_def
  by (intro exI [of _ "token_digits (fnv1a fnv_offset path)"] exI [of _ "[0]"]) (simp add: token_digits_hex)

lemma blank_invalid: "\<not> identity_valid (Some (replicate token_bytes 0))"
proof -
  have "replicate 25 0 = (0 :: byte) # replicate 24 0" by (simp flip: replicate_Suc)
  then show ?thesis by (auto simp: identity_valid_iff token_bytes_def id_prefix_def)
qed

section \<open>The hash separates paths that differ in one byte\<close>

lemma fnv_mult_inj: "(a :: u64) * 1099511628211 = b * 1099511628211 \<longleftrightarrow> a = b"
proof
  have inv: "1099511628211 * 0xce965057aff6957b = (1 :: u64)" by simp
  assume "a * 1099511628211 = b * 1099511628211"
  then have "a * (1099511628211 * 0xce965057aff6957b) = b * (1099511628211 * 0xce965057aff6957b)"
    by (simp only: mult.assoc [symmetric])
  then show "a = b" by (simp only: inv mult_1_right)
qed simp

lemma fnv1a_inj: "fnv1a x path = fnv1a y path \<longleftrightarrow> x = y"
  by (induction path arbitrary: x y) (simp_all add: fnv_mult_inj xor_right_cancel)

lemma fnv1a_append: "fnv1a h (xs @ ys) = fnv1a (fnv1a h xs) ys"
  by (induction h xs rule: fnv1a.induct) simp_all

lemma fnv1a_byte: "a \<noteq> b \<Longrightarrow> fnv1a h (xs @ a # ys) \<noteq> fnv1a h (xs @ b # ys)"
  by (simp add: fnv1a_append fnv1a_inj fnv_mult_inj xor_left_cancel ucast_byte_inj)

lemma token_digits_inj: "token_digits x = token_digits y \<longleftrightarrow> x = y"
proof
  assume eq: "token_digits x = token_digits y"
  have dig: "unat (drop_bit ((15 - i) * 4) x AND 0x0f) = unat (drop_bit ((15 - i) * 4) y AND 0x0f)"
    if "i < 16" for i
  proof -
    have "token_digits x ! i = token_digits y ! i" using eq by simp
    then have "hex_digit (unat (drop_bit ((15 - i) * 4) x AND 0x0f)) =
        hex_digit (unat (drop_bit ((15 - i) * 4) y AND 0x0f))"
      using that by (simp add: token_digits_def)
    then show ?thesis by (metis hex_value_digit nibble_less option.inject)
  qed
  show "x = y"
  proof (rule bit_eqI)
    fix n :: nat
    show "bit x n = bit y n"
    proof (cases "n < 64")
      case True
      define i where "i = 15 - n div 4"
      have i: "i < 16" "(15 - i) * 4 + n mod 4 = n"
        using True div_mult_mod_eq [of n 4] by (auto simp: i_def)
      from dig [OF i(1)] have "drop_bit ((15 - i) * 4) x AND mask 4 = drop_bit ((15 - i) * 4) y AND mask 4"
        by (simp add: word_unat_eq_iff mask_eq_exp_minus_1)
      moreover have "bit (drop_bit ((15 - i) * 4) z AND mask 4) (n mod 4) \<longleftrightarrow> bit z n" for z :: u64
        using i(2) by (auto simp: bit_and_iff bit_drop_bit_eq bit_mask_iff add.commute)
      ultimately show ?thesis by metis
    next
      case False
      then show ?thesis by (auto dest: bit_imp_le_length)
    qed
  qed
qed simp

section \<open>When a token is made\<close>

text \<open>A token is made exactly for a path of 1 to 4096 bytes.  It is then \<open>path-v1-\<close> with
  sixteen lowercase hexadecimal digits, ended by a NUL, and \<open>cn_book_identity_token\<close> hands it out;
  in every other case the identity is blank and \<open>cn_book_identity_token\<close> gives NULL.\<close>

lemma book_identity_total:
  "case cn_book_identity_from_path (Some old) path of (identity, rc) \<Rightarrow>
     (if path \<noteq> None \<and> 1 \<le> strlen (the path) \<and> strlen (the path) \<le> path_max_bytes
      then rc = 0 \<and> cn_book_identity_token identity = identity \<and>
        (\<exists>digits. identity = Some (id_prefix @ digits @ [0]) \<and> length digits = 16 \<and> list_all lower_hex digits)
      else rc = -1 \<and> cn_book_identity_token identity = None)"
proof (cases "path \<noteq> None \<and> 1 \<le> strlen (the path) \<and> strlen (the path) \<le> path_max_bytes")
  case True
  then show ?thesis
    using from_path_ok [of "the path" old] token_of_valid [of "cstr (the path)"]
    by (auto simp: cn_book_identity_token_def token_of_def token_digits_hex)
next
  case False
  then have "path = None \<or> strlen (the path) = 0 \<or> strlen (the path) > path_max_bytes" by (cases path) auto
  from from_path_fails [OF this] False show ?thesis
    by (simp add: cn_book_identity_token_def blank_invalid)
qed

text \<open>Two paths that differ in a single byte never share a progress key.\<close>

theorem book_identity_separates_byte:
  assumes "terminated (xs @ a # ys)" "b \<noteq> 0" "a \<noteq> b" "length (xs @ a # ys) \<le> path_max_bytes"
  shows "fst (cn_book_identity_from_path (Some old) (Some (xs @ a # ys))) \<noteq>
    fst (cn_book_identity_from_path (Some old) (Some (xs @ b # ys)))"
  using assms from_path_ok [of "xs @ a # ys" old] from_path_ok [of "xs @ b # ys" old]
  by (simp add: token_of_def token_digits_inj fnv1a_byte)

theorem book_identity_separates_byte_witness:
  "fst (cn_book_identity_from_path (Some []) (Some (str ''/b/1.epub''))) \<noteq>
   fst (cn_book_identity_from_path (Some []) (Some (str ''/b/2.epub'')))"
  using book_identity_separates_byte [of "str ''/b/''" "of_char CHR ''1''" "str ''.epub''" "of_char CHR ''2''" "[]"]
  by (simp add: path_max_bytes_def)

end
