(* ===== verification/Progress_Store.thy ===== *)
theory Progress_Store
  imports Posix Crc32 Utf8 Book_Identity
begin

text \<open>
  The local progress records, src/progress/progress_store.c: one file per book identity, with a
  magic, a version, the identity token, the reader's location, the progress and a CRC-32.

  A record file is replaced through a scratch file that is written, synced, closed and renamed.
  Pointers that may be NULL are options; \<open>record\<close> and the store's directory are threaded as values,
  the file system and the descriptors as the state of theory Posix.
\<close>

section \<open>Types\<close>

datatype cn_progress_result =
  CN_PROGRESS_OK | CN_PROGRESS_MISSING | CN_PROGRESS_CORRUPT | CN_PROGRESS_UNSUPPORTED
  | CN_PROGRESS_IO_ERROR | CN_PROGRESS_INVALID | CN_PROGRESS_NO_MEMORY

record cn_reader_position =
  location :: "bytes option"
  progress_10000 :: int

record cn_progress_record =
  position :: cn_reader_position

record cn_progress_store =
  directory :: bytes

definition progress_header_bytes :: nat where "progress_header_bytes = 24"
definition progress_crc_bytes :: nat where "progress_crc_bytes = 4"
definition progress_state_dir_max_bytes :: nat where "progress_state_dir_max_bytes = 4096"
definition reader_position_max_bytes :: nat where "reader_position_max_bytes = 65536"
definition progress_format_version :: u32 where "progress_format_version = 1"
definition uint32_max :: u32 where "uint32_max = 0xffffffff"
definition size_max :: nat where "size_max = 0xffffffff"

definition progress_magic :: bytes where
  "progress_magic = str ''CNPROG'' @ [13, 10]"

definition progress_file_suffix :: bytes where
  "progress_file_suffix = str ''.progress''"

definition progress_crc32 :: "bytes \<Rightarrow> u32" where
  "progress_crc32 data = crc32 data"

section \<open>Helpers\<close>

definition progress_bounded_length :: "bytes option \<Rightarrow> nat \<Rightarrow> nat option" where
  "progress_bounded_length text' maximum = (case text' of None \<Rightarrow> None
     | Some s \<Rightarrow> let n = scan_nul s (maximum + 1) in
         if n > maximum then None else if n = 0 then None else Some n)"

definition record_path :: "cn_progress_store option \<Rightarrow> bytes option \<Rightarrow> os \<Rightarrow> bytes option \<times> os" where
  "record_path store identity s = (case (store, cn_book_identity_token identity) of
     (Some st, Some token) \<Rightarrow>
       let directory_length = strlen (directory st);
           token_length = strlen token;
           suffix_length = length progress_file_suffix;
           slash = char_at (directory st) (directory_length - 1) \<noteq> of_char CHR ''/''
       in if directory_length > size_max - token_length - suffix_length - 2 then (None, s)
          else (case sys_malloc s of (False, s) \<Rightarrow> (None, s)
            | (True, s) \<Rightarrow> (Some (cstr (directory st) @ (if slash then str ''/'' else []) @ cstr token @
                progress_file_suffix), s))
   | _ \<Rightarrow> (None, s))"

text \<open>The read and write loops; an interrupted call is repeated, so they end because every repeat
  takes an entry of the schedule and every other turn moves at least one byte.\<close>

function progress_read_all :: "nat \<Rightarrow> bytes \<Rightarrow> nat \<Rightarrow> os \<Rightarrow> bytes option \<times> os" where
  "progress_read_all fd data length' s =
     (if length data < length' then
        case sys_read fd (length' - length data) s of
          (Inl e, s') \<Rightarrow> if e = EINTR then progress_read_all fd data length' s' else (None, s')
        | (Inr got, s') \<Rightarrow> if length got = 0 then (None, s')
            else progress_read_all fd (data @ got) length' s'
      else (Some data, s))"
  by pat_completeness auto
termination
  by (relation "measure (\<lambda>(fd, data, n, s). length (faults s) + (n - length data))")
    (auto dest!: sys_read_progress [OF sym] intro: read_measure)

function progress_write_all :: "nat \<Rightarrow> bytes \<Rightarrow> os \<Rightarrow> bool \<times> os" where
  "progress_write_all fd data s =
     (if length data \<noteq> 0 then
        case sys_write fd data s of
          (Inl e, s') \<Rightarrow> if e = EINTR then progress_write_all fd data s' else (False, s')
        | (Inr count, s') \<Rightarrow> if count = 0 then (False, s')
            else progress_write_all fd (drop count data) s'
      else (True, s))"
  by pat_completeness auto
termination
  by (relation "measure (\<lambda>(fd, data, s). length (faults s) + length data)")
    (auto dest!: sys_write_progress [OF sym] intro: write_measure)

declare progress_read_all.simps [simp del] progress_write_all.simps [simp del]

section \<open>Opening and closing\<close>

definition cn_progress_record_init :: "cn_progress_record option \<Rightarrow> cn_progress_record option" where
  "cn_progress_record_init record =
     map_option (\<lambda>_. \<lparr>position = \<lparr>location = None, progress_10000 = -1\<rparr>\<rparr>) record"

definition cn_progress_record_clear :: "cn_progress_record option \<Rightarrow> cn_progress_record option" where
  "cn_progress_record_clear record =
     map_option (\<lambda>_. \<lparr>position = \<lparr>location = None, progress_10000 = -1\<rparr>\<rparr>) record"

text \<open>The argument \<open>out\<close> tells whether the pointer for the store is not NULL.\<close>

definition cn_progress_store_open ::
  "bool \<Rightarrow> bytes option \<Rightarrow> os \<Rightarrow> cn_progress_result \<times> cn_progress_store option \<times> os" where
  "cn_progress_store_open out state_directory s =
     (if \<not> out then (CN_PROGRESS_INVALID, None, s)
      else case progress_bounded_length state_directory progress_state_dir_max_bytes of
        None \<Rightarrow> (CN_PROGRESS_INVALID, None, s)
      | Some length' \<Rightarrow>
          (case sys_stat (cstr (the state_directory)) s of
             (Inl _, s) \<Rightarrow> (CN_PROGRESS_IO_ERROR, None, s)
           | (Inr st, s) \<Rightarrow>
               if st_node st \<noteq> Directory then (CN_PROGRESS_IO_ERROR, None, s)
               else (case sys_malloc s of
                 (False, s) \<Rightarrow> (CN_PROGRESS_NO_MEMORY, None, s)
               | (True, s) \<Rightarrow>
                   (case sys_malloc s of
                      (False, s) \<Rightarrow> (CN_PROGRESS_NO_MEMORY, None, s)
                    | (True, s) \<Rightarrow>
                        (CN_PROGRESS_OK, Some \<lparr>directory = take length' (the state_directory)\<rparr>, s)))))"

section \<open>Loading\<close>

text \<open>What the load does with the descriptor: the bytes of the file, or the result of the failure.\<close>

definition progress_file_max :: nat where
  "progress_file_max = progress_header_bytes + token_bytes + reader_position_max_bytes + progress_crc_bytes"

definition progress_load_bytes :: "nat \<Rightarrow> os \<Rightarrow> (cn_progress_result + bytes) \<times> os" where
  "progress_load_bytes fd s =
     (let failed = (\<lambda>result s. (Inl result, snd (sys_close fd s))) in
      case sys_fstat fd s of
        (Inl _, s) \<Rightarrow> failed CN_PROGRESS_IO_ERROR s
      | (Inr st, s) \<Rightarrow>
          if (case st_node st of Regular _ _ \<Rightarrow> False | _ \<Rightarrow> True) then failed CN_PROGRESS_IO_ERROR s
          else if st_size st < 12 \<or> st_size st > progress_file_max then failed CN_PROGRESS_CORRUPT s
          else (case sys_malloc s of
            (False, s) \<Rightarrow> failed CN_PROGRESS_NO_MEMORY s
          | (True, s) \<Rightarrow>
              (case progress_read_all fd [] (st_size st) s of
                 (None, s) \<Rightarrow> failed CN_PROGRESS_CORRUPT s
               | (Some data, s) \<Rightarrow>
                   (case sys_close fd s of
                      (Inl _, s) \<Rightarrow> (Inl CN_PROGRESS_IO_ERROR, s)
                    | (Inr _, s) \<Rightarrow> (Inr data, s)))))"

text \<open>The checks on the bytes, in the order of the code; \<open>st_size\<close> is their number.\<close>

definition progress_decode :: "bytes \<Rightarrow> bytes \<Rightarrow> cn_progress_result + (bytes \<times> u32)" where
  "progress_decode token data =
     (if take 8 data \<noteq> progress_magic then Inl CN_PROGRESS_CORRUPT
      else if load_be32 (drop 8 data) \<noteq> progress_format_version then Inl CN_PROGRESS_UNSUPPORTED
      else if length data < progress_header_bytes + progress_crc_bytes then Inl CN_PROGRESS_CORRUPT
      else
        let identity_length = unat (load_be32 (drop 12 data));
            location_length = unat (load_be32 (drop 16 data));
            progress = load_be32 (drop 20 data);
            expected = progress_header_bytes + identity_length + location_length + progress_crc_bytes;
            location = take location_length (drop (progress_header_bytes + identity_length) data)
        in
        if identity_length = 0 \<or> identity_length \<ge> token_bytes \<or> location_length = 0 \<or>
           location_length > reader_position_max_bytes then Inl CN_PROGRESS_CORRUPT
        else if expected \<noteq> length data then Inl CN_PROGRESS_CORRUPT
        else if load_be32 (drop (expected - progress_crc_bytes) data) \<noteq>
                progress_crc32 (take (expected - progress_crc_bytes) data) then Inl CN_PROGRESS_CORRUPT
        else if identity_length \<noteq> strlen token \<or>
                take identity_length (drop progress_header_bytes data) \<noteq> cstr token then Inl CN_PROGRESS_CORRUPT
        else if progress \<noteq> uint32_max \<and> progress > 10000 then Inl CN_PROGRESS_CORRUPT
        else if char_at data (progress_header_bytes + identity_length) \<noteq> of_char CHR ''/'' \<or>
                \<not> progress_utf8_valid location then Inl CN_PROGRESS_CORRUPT
        else Inr (location, progress))"

definition progress_value :: "u32 \<Rightarrow> int" where
  "progress_value progress = (if progress = uint32_max then -1 else int (unat progress))"

definition cn_progress_store_load ::
  "cn_progress_store option \<Rightarrow> bytes option \<Rightarrow> cn_progress_record option \<Rightarrow> os \<Rightarrow>
     cn_progress_result \<times> cn_progress_record option \<times> os" where
  "cn_progress_store_load store identity record s =
     (if store = None \<or> cn_book_identity_token identity = None \<or> record = None
      then (CN_PROGRESS_INVALID, record, s)
      else case record_path store identity s of
        (None, s) \<Rightarrow> (CN_PROGRESS_NO_MEMORY, record, s)
      | (Some path, s) \<Rightarrow>
          (case sys_open_read False False path s of
             (Inl e, s) \<Rightarrow> (if e = ENOENT then CN_PROGRESS_MISSING else CN_PROGRESS_IO_ERROR, record, s)
           | (Inr fd, s) \<Rightarrow>
               (case progress_load_bytes fd s of
                  (Inl result, s) \<Rightarrow> (result, record, s)
                | (Inr data, s) \<Rightarrow>
                    (case progress_decode (the (cn_book_identity_token identity)) data of
                       Inl result \<Rightarrow> (result, record, s)
                     | Inr (loc, progress) \<Rightarrow>
                         (case sys_malloc s of
                            (False, s) \<Rightarrow> (CN_PROGRESS_NO_MEMORY, record, s)
                          | (True, s) \<Rightarrow>
                              (CN_PROGRESS_OK, Some \<lparr>position = \<lparr>location = Some loc,
                                 progress_10000 = progress_value progress\<rparr>\<rparr>, s))))))"

section \<open>Saving\<close>

definition progress_position_valid :: "cn_reader_position \<Rightarrow> bool" where
  "progress_position_valid p \<longleftrightarrow> \<not>
     (progress_bounded_length (location p) reader_position_max_bytes = None \<or>
      char_at (the (location p)) 0 \<noteq> of_char CHR ''/'' \<or>
      \<not> progress_utf8_valid (cstr (the (location p))) \<or>
      progress_10000 p < -1 \<or> progress_10000 p > 10000)"

definition progress_word :: "int \<Rightarrow> u32" where
  "progress_word progress = (if progress < 0 then uint32_max else of_int progress)"

definition progress_encode :: "bytes \<Rightarrow> bytes \<Rightarrow> u32 \<Rightarrow> bytes" where
  "progress_encode token location' progress =
     (let body = progress_magic @ store_be32 progress_format_version @ store_be32 (of_nat (length token)) @
            store_be32 (of_nat (length location')) @ store_be32 progress @ token @ location'
      in body @ store_be32 (progress_crc32 body))"

definition progress_temporary :: "bytes \<Rightarrow> os \<Rightarrow> bytes" where
  "progress_temporary path s = take (strlen path + 32 - 1) (path @ str ''.tmp.'' @ pid s)"

text \<open>The end of a failed save: close what is open, remove the scratch file.\<close>

definition progress_abort :: "nat option \<Rightarrow> bytes \<Rightarrow> os \<Rightarrow> cn_progress_result \<times> os" where
  "progress_abort fd temporary s =
     (let s = (case fd of None \<Rightarrow> s | Some fd \<Rightarrow> snd (sys_close fd s))
      in (CN_PROGRESS_IO_ERROR, snd (sys_unlink temporary s)))"

definition progress_sync_directory :: "bytes \<Rightarrow> os \<Rightarrow> os" where
  "progress_sync_directory directory' s = (case sys_open_read False False directory' s of
     (Inl _, s) \<Rightarrow> s
   | (Inr fd, s) \<Rightarrow> snd (sys_close fd (snd (sys_fsync fd s))))"

definition progress_replace :: "bytes \<Rightarrow> bytes \<Rightarrow> bytes \<Rightarrow> bytes \<Rightarrow> os \<Rightarrow> cn_progress_result \<times> os" where
  "progress_replace directory' temporary path data s =
     (case sys_unlink temporary s of (r, s) \<Rightarrow>
      if r \<noteq> Inr () \<and> r \<noteq> Inl ENOENT then progress_abort None temporary s
      else case sys_create temporary s of
        (Inl _, s) \<Rightarrow> progress_abort None temporary s
      | (Inr fd, s) \<Rightarrow>
          (case progress_write_all fd data s of
             (False, s) \<Rightarrow> progress_abort (Some fd) temporary s
           | (True, s) \<Rightarrow>
               (case sys_fsync fd s of
                  (Inl _, s) \<Rightarrow> progress_abort (Some fd) temporary s
                | (Inr _, s) \<Rightarrow>
                    (case sys_close fd s of
                       (Inl _, s) \<Rightarrow> progress_abort None temporary s
                     | (Inr _, s) \<Rightarrow>
                         (case sys_rename temporary path s of
                            (Inl _, s) \<Rightarrow> progress_abort None temporary s
                          | (Inr _, s) \<Rightarrow> (CN_PROGRESS_OK, progress_sync_directory directory' s))))))"

definition cn_progress_store_save ::
  "cn_progress_store option \<Rightarrow> bytes option \<Rightarrow> cn_progress_record option \<Rightarrow> os \<Rightarrow> cn_progress_result \<times> os" where
  "cn_progress_store_save store identity record s =
     (if store = None \<or> cn_book_identity_token identity = None \<or> record = None then (CN_PROGRESS_INVALID, s)
      else let p = position (the record) in
      if \<not> progress_position_valid p then (CN_PROGRESS_INVALID, s)
      else
        let token = cstr (the (cn_book_identity_token identity));
            data = progress_encode token (cstr (the (location p))) (progress_word (progress_10000 p));
            (allocated, s) = sys_malloc s;
            (path, s) = record_path store identity s
        in case path of None \<Rightarrow> (CN_PROGRESS_NO_MEMORY, s)
          | Some path \<Rightarrow>
              if \<not> allocated then (CN_PROGRESS_NO_MEMORY, s)
              else (case sys_malloc s of
                (False, s) \<Rightarrow> (CN_PROGRESS_NO_MEMORY, s)
              | (True, s) \<Rightarrow>
                  progress_replace (directory (the store)) (progress_temporary path s) path data s))"

section \<open>The record format\<close>

lemma length_progress_magic [simp]: "length progress_magic = 8"
  by (simp add: progress_magic_def)

lemma load_be32_append4 [simp]: "load_be32 (store_be32 v @ rest) = v"
  by (rule load_store_be32)

lemma load_be32_store [simp]: "load_be32 (store_be32 v) = v"
  using load_store_be32 [of v "[]"] by simp

definition record_ok :: "bytes \<Rightarrow> bytes \<Rightarrow> u32 \<Rightarrow> bool" where
  "record_ok token loc progress \<longleftrightarrow> terminated token \<and> token \<noteq> [] \<and> length token < token_bytes \<and>
     loc \<noteq> [] \<and> length loc \<le> reader_position_max_bytes \<and> loc ! 0 = of_char CHR ''/'' \<and>
     progress_utf8_valid loc \<and> (progress = uint32_max \<or> progress \<le> 10000)"

lemma decode_encode:
  assumes "record_ok token loc progress"
  shows "progress_decode token (progress_encode token loc progress) = Inr (loc, progress)"
proof -
  have t: "unat (of_nat (length token) :: u32) = length token"
    using assms by (simp add: record_ok_def token_bytes_def unat_of_nat take_bit_nat_eq_self)
  have l: "unat (of_nat (length loc) :: u32) = length loc"
    using assms by (simp add: record_ok_def reader_position_max_bytes_def unat_of_nat take_bit_nat_eq_self)
  define body where "body = progress_magic @ store_be32 progress_format_version @ store_be32 (of_nat (length token)) @
            store_be32 (of_nat (length loc)) @ store_be32 progress @ token @ loc"
  have e: "progress_encode token loc progress = body @ store_be32 (progress_crc32 body)"
    by (simp add: progress_encode_def body_def Let_def)
  have lb: "length body = 24 + length token + length loc" by (simp add: body_def)
  have parts: "take 8 body = progress_magic" "load_be32 (drop 8 body) = progress_format_version"
    "load_be32 (drop 12 body) = of_nat (length token)" "load_be32 (drop 16 body) = of_nat (length loc)"
    "load_be32 (drop 20 body) = progress" "drop 24 body = token @ loc"
    by (simp_all add: body_def)
  have reads: "load_be32 (drop k body @ q) = load_be32 (drop k body)" if "k \<le> 20" for k q
    using that lb by (intro load_be32_append) simp
  have ok: "token \<noteq> []" "\<not> token_bytes \<le> length token" "loc \<noteq> []" "\<not> reader_position_max_bytes < length loc"
    "loc ! 0 = of_char CHR ''/''" "progress_utf8_valid loc" "progress = uint32_max \<or> \<not> 10000 < progress"
    "terminated token"
    using assms by (auto simp: record_ok_def not_less)
  have tail: "drop (24 + length token) body = loc" by (simp add: body_def)
  have at: "char_at (body @ q) (24 + length token) = loc ! 0" for q
    using assms lb by (auto simp: char_at_def nth_append body_def record_ok_def)
  show ?thesis
    using ok lb parts at tail
    by (simp add: e progress_decode_def Let_def reads t l progress_header_bytes_def progress_crc_bytes_def)
qed

lemma decode_canonical:
  assumes "progress_decode token data = Inr (loc, progress)" "terminated token"
  shows "record_ok token loc progress \<and> data = progress_encode token loc progress"
proof -
  define tl where "tl = unat (load_be32 (drop 12 data))"
  define ll where "ll = unat (load_be32 (drop 16 data))"
  from assms have d: "take 8 data = progress_magic" "load_be32 (drop 8 data) = progress_format_version"
    "28 \<le> length data" "tl \<noteq> 0" "tl < token_bytes" "ll \<noteq> 0" "ll \<le> reader_position_max_bytes"
    "24 + tl + ll + 4 = length data" 
    "load_be32 (drop (length data - 4) data) = progress_crc32 (take (length data - 4) data)"
    "tl = length token" "take tl (drop 24 data) = token" 
    "progress = load_be32 (drop 20 data)" "progress = uint32_max \<or> progress \<le> 10000"
    "char_at data (24 + tl) = of_char CHR ''/''" "progress_utf8_valid loc" "loc = take ll (drop (24 + tl) data)"
    by (auto simp: progress_decode_def Let_def tl_def ll_def progress_header_bytes_def progress_crc_bytes_def not_less
        split: if_splits)
  have size: "length data - 4 = 24 + tl + ll" using d(8) by simp
  have sl: "store_be32 (load_be32 (drop k data)) = take 4 (drop k data)" if "k \<le> 20" for k
    using that d(3) by (intro store_load_be32) simp
  have lens: "(of_nat tl :: u32) = load_be32 (drop 12 data)" "(of_nat ll :: u32) = load_be32 (drop 16 data)"
    by (simp_all add: tl_def ll_def)
  have ok: "record_ok token loc progress"
    using d assms(2) by (auto simp: record_ok_def char_at_def split: if_splits)
  have loc: "length loc = ll" using d by simp
  have body: "take (24 + tl + ll) data = progress_magic @ store_be32 progress_format_version @
      store_be32 (of_nat (length token)) @ store_be32 (of_nat (length loc)) @ store_be32 progress @ token @ loc"
  proof -
    have "take (24 + tl + ll) data = take 8 data @ take 4 (drop 8 data) @ take 4 (drop 12 data) @
        take 4 (drop 16 data) @ take 4 (drop 20 data) @ take tl (drop 24 data) @ take ll (drop (24 + tl) data)"
      using take_add [of "24 + tl" ll data] take_add [of 24 tl data] take_add [of 20 4 data]
        take_add [of 16 4 data] take_add [of 12 4 data] take_add [of 8 4 data] by simp
    then show ?thesis
      using d sl [of 8] sl [of 12] sl [of 16] sl [of 20] lens loc by simp
  qed
  have "store_be32 (load_be32 (drop (24 + tl + ll) data)) = drop (24 + tl + ll) data"
    using d(8) by (simp add: store_load_be32)
  then have "data = take (24 + tl + ll) data @ store_be32 (progress_crc32 (take (24 + tl + ll) data))"
    using d(9) unfolding size by simp
  then show ?thesis
    using ok body by (simp add: progress_encode_def Let_def)
qed

lemma encode_shape: "\<exists>h. progress_encode token loc progress = h @ store_be32 (crc32 h)"
  unfolding progress_encode_def Let_def progress_crc32_def by blast

interpretation progress_trailer: crc_trailer store_be32 4
  by unfold_locales (simp_all add: store_be32_inj)

lemma damaged_record_refused:
  assumes "progress_encode token loc progress = xs @ a # ys" "b \<noteq> a" "terminated token'"
  shows "progress_decode token' (xs @ b # ys) \<noteq> Inr (loc', progress')"
proof
  assume "progress_decode token' (xs @ b # ys) = Inr (loc', progress')"
  from decode_canonical [OF this assms(3)]
  have e': "xs @ b # ys = progress_encode token' loc' progress'" by simp
  obtain h where h: "progress_encode token loc progress = h @ store_be32 (crc32 h)" using encode_shape by blast
  obtain h' where h': "progress_encode token' loc' progress' = h' @ store_be32 (crc32 h')" using encode_shape by blast
  have "a = b" using h h' assms(1) e' by (intro progress_trailer.one_byte_apart [of h xs a ys h' b]) simp_all
  then show False using assms(2) by simp
qed

section \<open>The loops\<close>

lemma progress_write_all_runs: "progress_write_all fd data s = (ok, s') \<Longrightarrow> write_run fd data s ok s'"
proof (induction fd data s rule: progress_write_all.induct)
  case (1 fd data s)
  obtain r s1 where w: "sys_write fd data s = (r, s1)" by fastforce
  show ?case
    using "1.prems" "1.IH" w
    by (subst (asm) progress_write_all.simps)
      (auto split: if_splits sum.splits intro: write_run.intros)
qed

interpretation progress_writer: full_writer progress_write_all
  by unfold_locales (rule write_run_law [OF progress_write_all_runs])

section \<open>Replacing the record file\<close>

definition progress_outcome :: "bytes \<Rightarrow> bytes \<Rightarrow> bytes \<Rightarrow> os \<Rightarrow> cn_progress_result \<times> os \<Rightarrow> bool" where
  "progress_outcome tmp path d s0 x \<longleftrightarrow>
     (if fst x = CN_PROGRESS_OK then committed tmp path d s0 (snd x) else idle tmp s0 (snd x))"

lemma ends_progress_write_all:
  "filled tmp fd [] s0 s \<Longrightarrow> (\<And>t. opened tmp fd s0 t \<Longrightarrow> ends P (f t)) \<Longrightarrow>
    (\<And>t. filled tmp fd d s0 t \<Longrightarrow> ends P (g t)) \<Longrightarrow>
    ends P (case progress_write_all fd d s of (ok, t) \<Rightarrow> case ok of True \<Rightarrow> g t | False \<Rightarrow> f t)"
  using progress_writer.write_opened progress_writer.write_filled
  by (cases "progress_write_all fd d s") (fastforce split: bool.splits)

lemma ends_progress_abort:
  "idle tmp s0 s \<Longrightarrow> ends (progress_outcome tmp path d s0) (progress_abort None tmp s)"
  "opened tmp fd s0 s \<Longrightarrow> ends (progress_outcome tmp path d s0) (progress_abort (Some fd) tmp s)"
  by (auto simp: ends_def progress_outcome_def progress_abort_def Let_def intro: give_up)

lemma progress_sync_directory_committed:
  "committed tmp path d s0 s \<Longrightarrow> committed tmp path d s0 (progress_sync_directory dir s)"
  by (auto simp: progress_sync_directory_def split: prod.splits sum.splits
      intro: give_up committed_open_dir_failed committed_open_dir)

lemma ends_progress_ok:
  "committed tmp path d s0 s \<Longrightarrow>
     ends (progress_outcome tmp path d s0) (CN_PROGRESS_OK, progress_sync_directory dir s)"
  by (simp add: ends_def progress_outcome_def progress_sync_directory_committed)

lemma progress_replace_effect:
  assumes "idle tmp s0 s" "tmp \<noteq> path"
  shows "ends (progress_outcome tmp path data s0) (progress_replace dir tmp path data s)"
  unfolding progress_replace_def
  by (rule ends_unlink [OF assms(1)])
    (intro ends_if; (rule ends_progress_abort | assumption | rule ends_create ends_progress_write_all
      ends_fsync ends_close ends_rename ends_progress_ok assms(2))+)

definition progress_path :: "bytes \<Rightarrow> bytes \<Rightarrow> bytes" where
  "progress_path dir token =
     cstr dir @ (if char_at dir (strlen dir - 1) \<noteq> of_char CHR ''/'' then str ''/'' else []) @ cstr token @
     progress_file_suffix"

lemma progress_suffix_terminated [simp]: "terminated progress_file_suffix"
  by (simp add: progress_file_suffix_def)

lemma progress_path_terminated [simp]: "terminated (progress_path dir token)"
  by (simp add: progress_path_def)

lemma record_path_effect:
  assumes "record_path store identity s = (path, s')"
  shows "s' = s \<or> s' = leave s"
    and "path = Some p \<Longrightarrow> p = progress_path (directory (the store)) (the (cn_book_identity_token identity))"
    and "path = Some p \<Longrightarrow> strlen (directory (the store)) \<le>
      size_max - strlen (the (cn_book_identity_token identity)) - length progress_file_suffix - 2"
  using assms unfolding record_path_def progress_path_def
  by (auto simp: Let_def sys_malloc_def split: option.splits if_splits prod.splits bool.splits fault.splits)

lemma outside_leave: "outside tmp s0 s \<Longrightarrow> outside tmp s0 (leave s)"
  by (metis outside_touches touches_leave outside_wf)

lemma sys_malloc_leave: "sys_malloc s = (ok, s') \<Longrightarrow> s' = leave s"
  by (auto simp: sys_malloc_def split: fault.splits)

lemma progress_temporary_fresh: "terminated path \<Longrightarrow> progress_temporary path s \<noteq> path"
proof
  assume t: "terminated path" and "progress_temporary path s = path"
  then have "length (take (length path + 31) (path @ str ''.tmp.'' @ pid s)) = length path"
    by (simp add: progress_temporary_def)
  then show False by simp
qed

text \<open>The bytes that a save puts in the file.\<close>

definition progress_image :: "bytes option \<Rightarrow> cn_progress_record \<Rightarrow> bytes" where
  "progress_image identity record =
     progress_encode (cstr (the (cn_book_identity_token identity))) (cstr (the (location (position record))))
       (progress_word (progress_10000 (position record)))"

lemma record_path_quiet: "record_path store identity s = (p, t) \<Longrightarrow> idle tmp s0 s \<Longrightarrow> idle tmp s0 t"
  using record_path_effect(1) [of store identity s p t] idle_quiet [OF _ quiet_leave] by metis

lemma save_effect:
  assumes "wf_os s" and path: "path = progress_path (directory st) (the (cn_book_identity_token identity))"
    and tmp: "tmp = progress_temporary path s"
  shows "ends (progress_outcome tmp path (progress_image identity record) s)
    (cn_progress_store_save (Some st) identity (Some record) s)"
proof -
  obtain ok1 s1 where m1: "sys_malloc s = (ok1, s1)" by fastforce
  obtain p s2 where rp: "record_path (Some st) identity s1 = (p, s2)" by fastforce
  obtain ok3 s3 where m3: "sys_malloc s2 = (ok3, s3)" by fastforce
  have s2: "idle tmp s s2"
    using record_path_quiet [OF rp] idle_quiet [OF idle_start [OF assms(1)] sys_malloc_quiet [OF m1]] by blast
  have s3: "idle tmp s s3" using idle_quiet [OF s2 sys_malloc_quiet [OF m3]] .
  have "progress_temporary path s3 = tmp"
    using s3 tmp by (simp add: progress_temporary_def idle_def)
  moreover have "p = Some q \<Longrightarrow> q = path" for q using record_path_effect(2) [OF rp] path by simp
  moreover have fresh: "tmp \<noteq> path" using progress_temporary_fresh path tmp by simp
  ultimately show ?thesis
    using progress_replace_effect [OF s3 fresh, of "progress_image identity record" "directory st"] m1 rp m3 s2 s3
      idle_start [OF assms(1), of tmp]
    by (cases p; cases ok1; cases ok3)
      (auto simp: cn_progress_store_save_def Let_def progress_image_def progress_outcome_def ends_def)
qed

section \<open>Reading the record file\<close>

lemma progress_read_all_reads:
  "progress_read_all fd data n s = (r, s') \<Longrightarrow> wf_os s \<Longrightarrow> reads fd s s'"
proof (induction fd data n s rule: progress_read_all.induct)
  case (1 fd data n s)
  obtain a s1 where rd: "sys_read fd (n - length data) s = (a, s1)" by fastforce
  note q = sys_read_reads [OF rd "1.prems"(2)]
  show ?case
    using "1.prems" "1.IH"(1) [OF _ rd [symmetric]] "1.IH"(2) [OF _ rd [symmetric]] q rd
    by (subst (asm) progress_read_all.simps) (auto simp: reads_def split: if_splits sum.splits)
qed

lemma progress_load_bytes_frame:
  assumes "progress_load_bytes fd s = (r, s')" "wf_os s"
  shows "fs s' = fs s \<and> fds s' = (fds s)(fd := None) \<and> wf_os s'"
proof -
  obtain a s1 where f: "sys_fstat fd s = (a, s1)" by fastforce
  have r1: "reads fd s s1" using reads_quiet [OF sys_fstat_quiet [OF f] assms(2)] .
  obtain ok s2 where m: "sys_malloc s1 = (ok, s2)" by fastforce
  have r2: "reads fd s s2"
    using reads_trans [OF r1 reads_quiet [OF sys_malloc_quiet [OF m]]] r1 by (simp add: reads_def)
  have "\<exists>c t. reads fd s t \<and> sys_close fd t = (c, s')"
  proof (cases a)
    case (Inl e)
    then have "s' = snd (sys_close fd s1)" using assms(1) f by (auto simp: progress_load_bytes_def)
    then show ?thesis using r1 by (metis prod.collapse)
  next
    case (Inr st)
    obtain d s3 where rd: "progress_read_all fd [] (st_size st) s2 = (d, s3)" by fastforce
    have r3: "reads fd s s3"
      using reads_trans [OF r2 progress_read_all_reads [OF rd]] r2 by (simp add: reads_def)
    obtain c s4 where cl: "sys_close fd s3 = (c, s4)" by fastforce
    have "s' = snd (sys_close fd s1) \<or> s' = snd (sys_close fd s2) \<or> s' = snd (sys_close fd s3)"
      using assms(1) f m rd cl Inr
      by (auto simp: progress_load_bytes_def Let_def split: if_splits node.splits bool.splits option.splits sum.splits)
    then show ?thesis using r1 r2 r3 by (metis prod.collapse)
  qed
  then show ?thesis using reads_close by blast
qed

lemma load_frame:
  assumes "cn_progress_store_load (Some st) identity (Some old) s = (result, record', s')" "wf_os s"
    and "cn_book_identity_token identity = Some token"
  shows "fs s' = fs s \<and> fds s' = fds s \<and> wf_os s' \<and> (result \<noteq> CN_PROGRESS_OK \<longrightarrow> record' = Some old)"
proof -
  obtain p s1 where rp: "record_path (Some st) identity s = (p, s1)" by fastforce
  have s1: "fs s1 = fs s \<and> fds s1 = fds s \<and> wf_os s1" using record_path_effect(1) [OF rp] assms(2) by auto
  obtain a s2 where o: "sys_open_read False False (the p) s1 = (a, s2)" by fastforce
  note os = sys_open_read_spec [OF o conjunct2 [OF conjunct2 [OF s1]]]
  have w2: "wf_os s2" using os(1) by (simp add: touches_def)
  obtain b s3 where lb: "progress_load_bytes (projr a) s2 = (b, s3)" by fastforce
  note ls = progress_load_bytes_frame [OF lb w2]
  obtain ok s4 where m: "sys_malloc s3 = (ok, s4)" by fastforce
  have s4: "s4 = leave s3" using sys_malloc_leave [OF m] .
  show ?thesis
  proof (cases p)
    case None
    then show ?thesis using assms(1,3) rp s1 by (auto simp: cn_progress_store_load_def)
  next
    case path: (Some path)
    show ?thesis
    proof (cases a)
      case (Inl e)
      then show ?thesis
        using assms(1,3) rp s1 o os(2,4) w2 path by (auto simp: cn_progress_store_load_def split: if_splits)
    next
      case fd: (Inr fd)
      have "fds s3 = fds s \<and> fs s3 = fs s \<and> wf_os s3" using ls os(2,5) s1 fd by simp
      moreover have "(result \<noteq> CN_PROGRESS_OK \<longrightarrow> record' = Some old) \<and> (s' = s3 \<or> s' = s4)"
        using assms(1,3) rp path o fd lb m
        by (auto simp: cn_progress_store_load_def split: sum.splits prod.splits bool.splits)
      ultimately show ?thesis using s4 by auto
    qed
  qed
qed

text \<open>With no fault the load answers what the checks say of the file's bytes.\<close>

definition progress_judge :: "bytes \<Rightarrow> bytes \<Rightarrow> cn_progress_result + (bytes \<times> u32)" where
  "progress_judge token d =
     (if length d < 12 \<or> length d > progress_file_max then Inl CN_PROGRESS_CORRUPT else progress_decode token d)"

lemma read_all_clean:
  assumes "faults s = []" "fds s fd = Some (i, 0)" "inodes (fs s) i = Regular d b" "length d \<noteq> 0"
  shows "\<exists>s'. progress_read_all fd [] (length d) s = (Some d, s') \<and> faults s' = [] \<and>
    fds s' = (fds s)(fd \<mapsto> (i, length d))"
  using assms
  by (subst progress_read_all.simps) (simp add: sys_read_def call_clean Let_def progress_read_all.simps)

lemma load_bytes_clean:
  assumes "faults s = []" "fds s fd = Some (i, 0)" "inodes (fs s) i = Regular d b"
  shows "\<exists>s'. faults s' = [] \<and> progress_load_bytes fd s =
    ((if length d < 12 \<or> length d > progress_file_max then Inl CN_PROGRESS_CORRUPT else Inr d), s')"
proof -
  have st: "sys_fstat fd s = (Inr (make_stat (fs s) i), leave s)"
    using assms by (simp add: sys_fstat_def call_clean)
  show ?thesis
  proof (cases "length d < 12 \<or> length d > progress_file_max")
    case True
    then show ?thesis
      using assms st by (simp add: progress_load_bytes_def Let_def make_stat_def close_clean)
  next
    case False
    define s2 where "s2 = leave (leave s)"
    have s2: "faults s2 = []" "fds s2 fd = Some (i, 0)" "inodes (fs s2) i = Regular d b"
      using assms by (simp_all add: s2_def)
    have "length d \<noteq> 0" using False by auto
    from read_all_clean [OF s2 this] obtain s3 where
      r: "progress_read_all fd [] (length d) s2 = (Some d, s3)" "faults s3 = []" "fds s3 fd = Some (i, length d)"
      by auto
    show ?thesis
      using False assms st r
      by (simp add: progress_load_bytes_def Let_def make_stat_def malloc_clean s2_def [symmetric] close_clean)
  qed
qed

lemma load_clean:
  assumes "faults s = []" "cn_book_identity_token identity = Some token"
    and "file_at (fs s) (progress_path (directory st) token) = Some (d, b)"
    and "strlen (directory st) \<le> size_max - strlen token - length progress_file_suffix - 2"
  shows "\<exists>s'. cn_progress_store_load (Some st) identity (Some old) s =
    (case progress_judge (the identity) d of
       Inl result \<Rightarrow> (result, Some old, s')
     | Inr (loc, progress) \<Rightarrow> (CN_PROGRESS_OK,
         Some \<lparr>position = \<lparr>location = Some loc, progress_10000 = progress_value progress\<rparr>\<rparr>, s'))"
proof -
  have tok: "the identity = token" using assms(2) by (auto simp: cn_book_identity_token_def split: if_splits)
  define path where "path = progress_path (directory st) token"
  have rp: "record_path (Some st) identity s = (Some path, leave s)"
    using assms(1,2,4) by (simp add: record_path_def Let_def malloc_clean path_def progress_path_def not_less)
  from file_at_resolve [OF assms(3)] obtain i where
    i: "inodes (fs s) i = Regular d b" "resolve link_limit (fs s) path = Inr i" by (auto simp: path_def)
  define s2 where "s2 = snd (sys_open_read False False path (leave s))"
  have o: "sys_open_read False False path (leave s) = (Inr (next_fd s), s2)"
    and s2: "faults s2 = []" "fds s2 (next_fd s) = Some (i, 0)" "inodes (fs s2) i = Regular d b"
    using assms(1) i by (simp_all add: sys_open_read_def call_clean allocate_fd_def s2_def)
  from load_bytes_clean [OF s2] obtain s3 where l: "faults s3 = []"
    "progress_load_bytes (next_fd s) s2 =
      ((if length d < 12 \<or> length d > progress_file_max then Inl CN_PROGRESS_CORRUPT else Inr d), s3)"
    by blast
  show ?thesis
    using assms(2) rp o l tok
    by (auto simp: cn_progress_store_load_def progress_judge_def malloc_clean split: sum.splits)
qed

section \<open>A save followed by a load\<close>

lemma token_shape:
  assumes "cn_book_identity_token identity = Some token"
  shows "length (cstr token) = 24" and "terminated (cstr token)"
proof -
  from assms have "identity_valid (Some token)" by (auto simp: cn_book_identity_token_def split: if_splits)
  then obtain digits rest where t: "token = id_prefix @ digits @ rest" "length digits = 16"
    "list_all lower_hex digits" "char_at rest 0 = 0" unfolding identity_valid_iff by blast
  have dt: "terminated digits" using t(3) by (auto simp: terminated_def list_all_iff dest: lower_hex_nonzero)
  have "cstr rest = []" using t(4) by (cases rest) (auto simp: cstr_def)
  then have "cstr token = id_prefix @ digits"
    using dt id_prefix_facts(2) unfolding t(1) cstr_def
    by (simp add: takeWhile_append terminated_def)
  then show "length (cstr token) = 24" "terminated (cstr token)" using t(2) dt by auto
qed

lemma progress_decode_cstr: "progress_decode (cstr token) d = progress_decode token d"
proof -
  have "cstr (cstr token) = cstr token" "strlen (cstr token) = strlen token" by (simp_all add: strlen_def)
  then show ?thesis unfolding progress_decode_def by (simp only:)
qed

lemma progress_word_value: "-1 \<le> p \<Longrightarrow> p \<le> 10000 \<Longrightarrow> progress_value (progress_word p) = p"
  and progress_word_range: "-1 \<le> p \<Longrightarrow> p \<le> 10000 \<Longrightarrow> progress_word p = uint32_max \<or> progress_word p \<le> 10000"
proof -
  assume p: "-1 \<le> p" "p \<le> 10000"
  have "progress_value (progress_word p) = p \<and> (progress_word p = uint32_max \<or> progress_word p \<le> 10000)"
  proof (cases "p < 0")
    case True
    then show ?thesis using p by (simp add: progress_word_def progress_value_def)
  next
    case False
    then obtain n where n: "p = int n" "n \<le> 10000" using p by (metis nat_le_iff nat_int not_less zero_le_imp_eq_int of_nat_le_numeral_iff)
    have u: "unat (of_nat n :: u32) = n" using n(2) by (simp add: unat_of_nat take_bit_nat_eq_self)
    then have "(of_nat n :: u32) \<le> 10000" "(of_nat n :: u32) \<noteq> uint32_max"
      using n(2) by (auto simp: word_le_nat_alt word_unat_eq_iff uint32_max_def)
    then show ?thesis using n(1) u by (simp add: progress_word_def progress_value_def)
  qed
  then show "progress_value (progress_word p) = p" "progress_word p = uint32_max \<or> progress_word p \<le> 10000"
    by simp_all
qed

lemma position_valid_facts:
  assumes "progress_position_valid p"
  obtains loc where "location p = Some loc" "1 \<le> strlen loc" "strlen loc \<le> reader_position_max_bytes"
    "char_at loc 0 = of_char CHR ''/''" "progress_utf8_valid (cstr loc)" "-1 \<le> progress_10000 p" "progress_10000 p \<le> 10000"
  using assms
  by (cases "location p")
    (auto simp: progress_position_valid_def progress_bounded_length_def scan_nul_eq Let_def not_less split: if_splits)

lemma image_record_ok:
  assumes "cn_book_identity_token identity = Some token" "progress_position_valid (position record)"
  shows "record_ok (cstr token) (cstr (the (location (position record)))) (progress_word (progress_10000 (position record)))"
proof -
  from assms(2) obtain loc where l: "location (position record) = Some loc" "1 \<le> strlen loc"
    "strlen loc \<le> reader_position_max_bytes" "char_at loc 0 = of_char CHR ''/''" "progress_utf8_valid (cstr loc)"
    "-1 \<le> progress_10000 (position record)" "progress_10000 (position record) \<le> 10000"
    by (rule position_valid_facts)
  have "cstr loc ! 0 = of_char CHR ''/''"
    using l(2,4) by (cases loc) (auto simp: cstr_def char_at_def strlen_def split: if_splits)
  then show ?thesis
    using l token_shape [OF assms(1)] progress_word_range [OF l(6,7)]
    by (auto simp: record_ok_def token_bytes_def strlen_def)
qed

lemma image_judged:
  assumes "cn_book_identity_token identity = Some token" "progress_position_valid (position record)"
  shows "progress_judge token (progress_image identity record) =
    Inr (cstr (the (location (position record))), progress_word (progress_10000 (position record)))"
proof -
  note ok = image_record_ok [OF assms]
  have "length (progress_image identity record) = 52 + length (cstr (the (location (position record))))"
    using token_shape(1) [OF assms(1)] assms(1) by (simp add: progress_image_def progress_encode_def Let_def)
  then show ?thesis
    using decode_encode [OF ok] ok assms(1)
    by (simp add: progress_judge_def progress_decode_cstr progress_image_def record_ok_def progress_file_max_def
        progress_header_bytes_def progress_crc_bytes_def token_bytes_def)
qed

lemma save_ok_valid:
  assumes "cn_progress_store_save (Some st) identity (Some record) s = (CN_PROGRESS_OK, s')"
  obtains token where "cn_book_identity_token identity = Some token" "progress_position_valid (position record)"
    "strlen (directory st) \<le> size_max - strlen token - length progress_file_suffix - 2"
proof -
  obtain ok1 s1 where m1: "sys_malloc s = (ok1, s1)" by fastforce
  obtain p s2 where rp: "record_path (Some st) identity s1 = (p, s2)" by fastforce
  from assms obtain token where t: "cn_book_identity_token identity = Some token"
    "progress_position_valid (position record)"
    by (auto simp: cn_progress_store_save_def Let_def split: if_splits)
  moreover have "p \<noteq> None" using assms m1 rp t by (cases p) (auto simp: cn_progress_store_save_def)
  ultimately show ?thesis using record_path_effect(3) [OF rp] that by auto
qed

section \<open>A save with no faults succeeds\<close>

lemma write_all_clean:
  assumes "faults s = []" "writing tmp fd d s"
  shows "\<exists>s'. progress_write_all fd data s = (True, s') \<and> faults s' = []"
proof (cases "data = []")
  case False
  have "\<exists>s'. sys_write fd data s = (Inr (length data), s') \<and> faults s' = []"
    using assms by (auto simp: sys_write_def call_clean writing_def Let_def)
  then show ?thesis
    using False by (subst progress_write_all.simps) (auto simp: progress_write_all.simps)
qed (use assms in \<open>simp add: progress_write_all.simps\<close>)

interpretation progress_clean_writer: clean_writer progress_write_all
  by unfold_locales (rule write_all_clean)

lemma sync_directory_clean: "faults s = [] \<Longrightarrow> faults (progress_sync_directory dir s) = []"
proof -
  assume "faults s = []"
  then have o': "faults (snd (sys_open_read False False dir s)) = []" by (rule open_faults)
  obtain r s1 where s1: "sys_open_read False False dir s = (r, s1)" by fastforce
  then have "faults s1 = []" using o' by simp
  then show ?thesis using s1 close_faults fsync_faults by (cases r) (simp_all add: progress_sync_directory_def)
qed

lemma replace_clean:
  assumes "faults s = []" "wf_os s" "tmp \<noteq> path" "no_directory (fs s) tmp" "no_directory (fs s) path"
  shows "\<exists>s'. progress_replace dir tmp path data s = (CN_PROGRESS_OK, s') \<and> faults s' = []"
  by (rule progress_clean_writer.replace_steps [OF assms, of data])
    (use sync_directory_clean in \<open>auto simp: progress_replace_def\<close>)

lemma save_clean:
  assumes "faults s = []" "wf_os s" "cn_book_identity_token identity = Some token"
    and "progress_position_valid (position record)"
    and "strlen (directory st) \<le> size_max - strlen token - length progress_file_suffix - 2"
    and "no_directory (fs s) (progress_path (directory st) token)"
    and "no_directory (fs s) (progress_temporary (progress_path (directory st) token) s)"
  shows "\<exists>s'. cn_progress_store_save (Some st) identity (Some record) s = (CN_PROGRESS_OK, s') \<and> faults s' = []"
proof -
  define path where "path = progress_path (directory st) token"
  define s3 where "s3 = leave (leave (leave s))"
  have m1: "sys_malloc s = (True, leave s)" using assms(1) by (rule malloc_clean)
  have rp: "record_path (Some st) identity (leave s) = (Some path, leave (leave s))"
    using assms(1,3,5) by (simp add: record_path_def Let_def malloc_clean path_def progress_path_def not_less)
  have m3: "sys_malloc (leave (leave s)) = (True, s3)" using assms(1) by (simp add: malloc_clean s3_def)
  have t3: "progress_temporary path s3 = progress_temporary path s" by (simp add: progress_temporary_def s3_def)
  have "\<exists>s'. progress_replace (directory st) (progress_temporary path s) path (progress_image identity record) s3 =
      (CN_PROGRESS_OK, s') \<and> faults s' = []"
    using assms progress_temporary_fresh [of path s]
    by (intro replace_clean) (simp_all add: s3_def path_def)
  then show ?thesis
    using m1 rp m3 t3 assms(3,4) by (auto simp: cn_progress_store_save_def Let_def progress_image_def)
qed

lemma decode_refusal: "progress_decode token d = Inl r \<Longrightarrow> r \<noteq> CN_PROGRESS_OK"
  by (auto simp: progress_decode_def Let_def split: if_splits)

section \<open>Properties\<close>

text \<open>The concrete inputs of the witnesses: a store, a book and a record.\<close>

definition sample_store :: cn_progress_store where "sample_store = \<lparr>directory = str ''/state/progress''\<rparr>"

definition sample_identity :: "bytes option" where
  "sample_identity = Some (token_of (str ''/books/a.epub'') @ [0])"

definition sample_record :: cn_progress_record where
  "sample_record = \<lparr>position = \<lparr>location = Some (str ''/body/p[3]''), progress_10000 = 1234\<rparr>\<rparr>"

lemma sample_token: "cn_book_identity_token sample_identity = sample_identity"
  using token_of_valid by (simp add: cn_book_identity_token_def sample_identity_def)

lemma sample_valid: "progress_position_valid (position sample_record)"
  by (simp add: progress_position_valid_def sample_record_def progress_bounded_length_def scan_nul_eq Let_def
      reader_position_max_bytes_def progress_utf8_valid.simps(2) char_at_def)

lemma sample_directory: "strlen (directory sample_store) \<le>
    size_max - strlen (token_of (str ''/books/a.epub'') @ [0]) - length progress_file_suffix - 2"
  using token_shape(1) [of sample_identity "token_of (str ''/books/a.epub'') @ [0]"] sample_token
  by (simp add: sample_store_def size_max_def sample_identity_def strlen_def progress_file_suffix_def)

lemma sample_save:
  "\<exists>s'. cn_progress_store_save (Some sample_store) sample_identity (Some sample_record) (empty_disk []) =
     (CN_PROGRESS_OK, s') \<and> faults s' = []"
  using sample_token sample_valid sample_directory
  by (intro save_clean) (simp_all add: sample_identity_def)

text \<open>C1. Saving is atomic at every moment.  Whatever calls fail, are cut short or are interrupted, at
  every moment of a save the record file holds its old bytes or the complete, synced image of the
  new record, and every file but it and the scratch file is as it was.  The save answers OK exactly
  when the new image is in place, and every descriptor is given back.\<close>

theorem progress_save_is_atomic:
  assumes "wf_os s"
  shows "case cn_progress_store_save (Some st) identity (Some record) s of (result, s') \<Rightarrow>
    (let path = progress_path (directory st) (the (cn_book_identity_token identity));
         tmp = progress_temporary path s;
         image = progress_image identity record
     in wf_os s' \<and> fds s' = fds s \<and> old_or_new tmp path image (fs s) (fs s') \<and>
        always (old_or_new tmp path image (fs s)) s s' \<and>
        (if result = CN_PROGRESS_OK then file_at (fs s') path = Some (image, True)
         else bytes_at (fs s') path = bytes_at (fs s) path))"
proof -
  define path where "path = progress_path (directory st) (the (cn_book_identity_token identity))"
  define tmp where "tmp = progress_temporary path s"
  define image where "image = progress_image identity record"
  obtain result s' where save: "cn_progress_store_save (Some st) identity (Some record) s = (result, s')" by fastforce
  have fresh: "tmp \<noteq> path" unfolding tmp_def path_def by (rule progress_temporary_fresh) simp
  have out: "progress_outcome tmp path image s (result, s')"
    using save_effect [OF assms path_def tmp_def, of "record"] by (simp add: ends_def save image_def)
  have "replacing tmp path image s s' \<and> fds s' = fds s \<and>
      (if result = CN_PROGRESS_OK then file_at (fs s') path = Some (image, True)
       else bytes_at (fs s') path = bytes_at (fs s) path)"
    using out idle_unchanged [OF _ fresh] by (auto simp: progress_outcome_def committed_def)
  then show ?thesis
    unfolding path_def [symmetric] tmp_def [symmetric] image_def [symmetric] Let_def
    by (auto simp: save replacing_def)
qed

text \<open>C2. A load after a successful save, run with no fault, gives back the saved position.\<close>

theorem progress_save_load_roundtrip:
  assumes "wf_os s" "cn_progress_store_save (Some st) identity (Some record) s = (CN_PROGRESS_OK, s')" "faults s' = []"
  shows "\<exists>s''. cn_progress_store_load (Some st) identity (Some old) s' =
    (CN_PROGRESS_OK, Some \<lparr>position = \<lparr>location = Some (cstr (the (location (position record)))),
       progress_10000 = progress_10000 (position record)\<rparr>\<rparr>, s'')"
proof -
  from assms(2) obtain token where t: "cn_book_identity_token identity = Some token"
    "progress_position_valid (position record)"
    "strlen (directory st) \<le> size_max - strlen token - length progress_file_suffix - 2" by (rule save_ok_valid)
  have id: "the identity = token" using t(1) by (auto simp: cn_book_identity_token_def split: if_splits)
  have "file_at (fs s') (progress_path (directory st) token) = Some (progress_image identity record, True)"
    using save_effect [OF assms(1) refl refl, of st identity "record"] t(1) assms(2)
    by (simp add: ends_def progress_outcome_def committed_def)
  from load_clean [OF assms(3) t(1) this t(3), of old] image_judged [OF t(1,2)] show ?thesis
    using t(2) id by (auto simp: progress_word_value elim!: position_valid_facts)
qed

text \<open>C4. With room, memory and no fault, saving a valid record succeeds.\<close>

theorem progress_save_succeeds:
  assumes "faults s = []" "wf_os s" "cn_book_identity_token identity = Some token"
    and "progress_position_valid (position record)"
    and "strlen (directory st) \<le> size_max - strlen token - length progress_file_suffix - 2"
    and "no_directory (fs s) (progress_path (directory st) token)"
    and "no_directory (fs s) (progress_temporary (progress_path (directory st) token) s)"
  shows "fst (cn_progress_store_save (Some st) identity (Some record) s) = CN_PROGRESS_OK"
  using save_clean [OF assms] by auto


theorem progress_save_is_atomic_witness:
  "case cn_progress_store_save (Some sample_store) sample_identity (Some sample_record)
      (empty_disk [Normal, Normal, Normal, Fail ENOENT, Normal, Short 3, Fail EINTR, Fail ENOSPC]) of (result, s') \<Rightarrow>
    bytes_at (fs s') (progress_path (directory sample_store) (the (cn_book_identity_token sample_identity))) = None \<or>
    result = CN_PROGRESS_OK"
  using progress_save_is_atomic [of "empty_disk [Normal, Normal, Normal, Fail ENOENT, Normal, Short 3, Fail EINTR, Fail ENOSPC]"
      sample_store sample_identity sample_record]
  by (auto simp: Let_def split: prod.splits if_splits)

theorem progress_save_load_roundtrip_witness:
  "\<exists>s' s''. cn_progress_store_load (Some sample_store) sample_identity (Some sample_record) s' =
    (CN_PROGRESS_OK, Some \<lparr>position = \<lparr>location = Some (str ''/body/p[3]''), progress_10000 = 1234\<rparr>\<rparr>, s'')"
proof -
  obtain s' where "cn_progress_store_save (Some sample_store) sample_identity (Some sample_record) (empty_disk []) =
     (CN_PROGRESS_OK, s')" "faults s' = []" using sample_save by blast
  from progress_save_load_roundtrip [OF empty_disk_facts(1) this, of sample_record] show ?thesis
    by (auto simp: sample_record_def)
qed

theorem progress_save_succeeds_witness:
  "fst (cn_progress_store_save (Some sample_store) sample_identity (Some sample_record) (empty_disk [])) = CN_PROGRESS_OK"
  using sample_token sample_valid sample_directory
  by (intro progress_save_succeeds) (simp_all add: sample_identity_def)


end
