(* ===== verification/Sync_Types.thy ===== *)
theory Sync_Types
  imports Koreader_Identity Progress_Store
begin

text \<open>
  The result types that the layers of synchronisation pass to each other: netsimple.h, dnssimple.h,
  timesimple.h, kosync.h, kosync_sync.h and kosync_policy.h.

  An enumeration is a datatype with the source's constants.  Where the code checks that a stored
  enumeration value is one of its constants, the field is an \<open>enum_value\<close>: a known constant or some
  other integer.  The flags that the code compares with 0 and 1 are integers.
\<close>

datatype 'a enum_value = Known 'a | Unknown int

datatype cn_netsimple_result =
  CN_NETSIMPLE_OK | CN_NETSIMPLE_INVALID | CN_NETSIMPLE_RESOLVE_ERROR | CN_NETSIMPLE_CONNECT_REFUSED
  | CN_NETSIMPLE_NETWORK_UNREACHABLE | CN_NETSIMPLE_HOST_UNREACHABLE | CN_NETSIMPLE_CONNECT_TIMEOUT
  | CN_NETSIMPLE_CONNECT_ERROR | CN_NETSIMPLE_SEND_ERROR | CN_NETSIMPLE_RECV_ERROR
  | CN_NETSIMPLE_RECV_TIMEOUT | CN_NETSIMPLE_TRUNCATED | CN_NETSIMPLE_BAD_RESPONSE
  | CN_NETSIMPLE_SEND_TIMEOUT | CN_NETSIMPLE_TLS_ENTROPY_FAILED | CN_NETSIMPLE_TLS_INVALID_CA
  | CN_NETSIMPLE_TLS_HANDSHAKE_FAILED | CN_NETSIMPLE_TLS_HANDSHAKE_TIMEOUT
  | CN_NETSIMPLE_TLS_TRUST_FAILED | CN_NETSIMPLE_TLS_HOSTNAME_MISMATCH
  | CN_NETSIMPLE_TLS_CERT_TIME_FAILED | CN_NETSIMPLE_TLS_CERT_INVALID
  | CN_NETSIMPLE_TLS_PROTOCOL_FAILED | CN_NETSIMPLE_TLS_INTERNAL | CN_NETSIMPLE_TLS_RECV_TIMEOUT

datatype cn_dns_result =
  CN_DNS_OK | CN_DNS_INVALID | CN_DNS_INVALID_HOSTNAME | CN_DNS_ENTROPY_FAILED | CN_DNS_SOCKET_FAILED
  | CN_DNS_NETWORK_FAILED | CN_DNS_TIMEOUT | CN_DNS_PACKET_SIZE | CN_DNS_MALFORMED_RESPONSE
  | CN_DNS_TRUNCATED_RESPONSE | CN_DNS_NXDOMAIN | CN_DNS_SERVER_FAILURE | CN_DNS_NO_ADDRESS
  | CN_DNS_UNSUPPORTED_CNAME

datatype cn_time_result =
  CN_TIME_OK | CN_TIME_INVALID | CN_TIME_INTERNAL | CN_TIME_ENTROPY_FAILED | CN_TIME_SOCKET_FAILED
  | CN_TIME_SEND_FAILED | CN_TIME_TIMEOUT | CN_TIME_RECV_FAILED | CN_TIME_PEER_MISMATCH
  | CN_TIME_PACKET_SIZE | CN_TIME_VERSION | CN_TIME_MODE | CN_TIME_UNSYNCHRONIZED
  | CN_TIME_KISS_OF_DEATH | CN_TIME_STRATUM | CN_TIME_ORIGINATE_MISMATCH | CN_TIME_ZERO_RECEIVE
  | CN_TIME_ZERO_TRANSMIT | CN_TIME_TIME_RANGE | CN_TIME_CLOCK_SET_FAILED

datatype cn_kosync_result =
  CN_KOSYNC_OK | CN_KOSYNC_NOT_FOUND | CN_KOSYNC_INVALID | CN_KOSYNC_AUTH_FAILED | CN_KOSYNC_HTTP_ERROR
  | CN_KOSYNC_TRANSPORT_ERROR | CN_KOSYNC_BAD_JSON | CN_KOSYNC_BAD_PROTOCOL | CN_KOSYNC_NO_MEMORY

record cn_kosync_outcome =
  http_status :: int
  transport_result :: "cn_netsimple_result enum_value"

record cn_kosync_progress =
  document_id :: bytes
  logical_position :: "bytes option"
  scaled_progress :: int
  device :: bytes
  device_id :: bytes
  timestamp :: int
  has_timestamp :: bool

datatype cn_kosync_sync_time_policy = CN_KOSYNC_SYNC_TIME_ESTABLISH | CN_KOSYNC_SYNC_TIME_CALLER_ESTABLISHED

datatype cn_kosync_sync_status =
  CN_KOSYNC_SYNC_STATUS_OK | CN_KOSYNC_SYNC_STATUS_INVALID | CN_KOSYNC_SYNC_STATUS_IDENTITY_FAILED
  | CN_KOSYNC_SYNC_STATUS_LOCAL_FAILED | CN_KOSYNC_SYNC_STATUS_LOCAL_UNSUPPORTED
  | CN_KOSYNC_SYNC_STATUS_TRUSTED_TIME_FAILED | CN_KOSYNC_SYNC_STATUS_DNS_FAILED
  | CN_KOSYNC_SYNC_STATUS_AUTH_FAILED | CN_KOSYNC_SYNC_STATUS_HTTPS_FAILED
  | CN_KOSYNC_SYNC_STATUS_PROTOCOL_FAILED | CN_KOSYNC_SYNC_STATUS_NO_MEMORY

datatype cn_kosync_sync_decision =
  CN_KOSYNC_SYNC_DECISION_NONE | CN_KOSYNC_SYNC_NO_STATE | CN_KOSYNC_SYNC_LOCAL_SELECTED
  | CN_KOSYNC_SYNC_REMOTE_SELECTED | CN_KOSYNC_SYNC_NO_CHANGE | CN_KOSYNC_SYNC_AMBIGUOUS

record cn_kosync_sync_result =
  sync_status :: "cn_kosync_sync_status enum_value"
  decision :: "cn_kosync_sync_decision enum_value"
  local_present :: int
  remote_present :: int
  local_save_attempted :: int
  remote_put_attempted :: int
  local_saved :: int
  remote_uploaded :: int
  koreader_document_id :: bytes
  remote_progress :: cn_kosync_progress
  local_identity_ok :: bool
  identity_result :: cn_koreader_identity_result
  local_load_result :: cn_progress_result
  local_save_result :: cn_progress_result
  time_result :: "cn_time_result enum_value"
  dns_result :: "cn_dns_result enum_value"
  kosync_result :: "cn_kosync_result enum_value"
  kosync_outcome :: cn_kosync_outcome
  put_timestamp :: int
  has_put_timestamp :: bool

datatype cn_kosync_product_outcome =
  CN_KOSYNC_PRODUCT_DISABLED | CN_KOSYNC_PRODUCT_UNCHANGED | CN_KOSYNC_PRODUCT_UPLOADED
  | CN_KOSYNC_PRODUCT_IMPORTED | CN_KOSYNC_PRODUCT_NO_STATE | CN_KOSYNC_PRODUCT_CONFLICT
  | CN_KOSYNC_PRODUCT_AUTH_REQUIRED | CN_KOSYNC_PRODUCT_TRUSTED_TIME_UNAVAILABLE
  | CN_KOSYNC_PRODUCT_CONNECTIVITY_FAILURE | CN_KOSYNC_PRODUCT_SECURITY_FAILURE
  | CN_KOSYNC_PRODUCT_SERVICE_FAILURE | CN_KOSYNC_PRODUCT_LOCAL_UNSUPPORTED
  | CN_KOSYNC_PRODUCT_LOCAL_FAILURE | CN_KOSYNC_PRODUCT_CONFIGURATION_FAILURE
  | CN_KOSYNC_PRODUCT_INTERNAL_FAILURE

datatype cn_kosync_retry_policy =
  CN_KOSYNC_RETRY_NONE | CN_KOSYNC_RETRY_AUTOMATIC_LATER | CN_KOSYNC_RETRY_EXPLICIT_ACTION

datatype cn_kosync_mutation_state =
  CN_KOSYNC_MUTATION_NONE | CN_KOSYNC_MUTATION_CONFIRMED | CN_KOSYNC_MUTATION_POSSIBLE

record cn_kosync_product_result =
  outcome :: cn_kosync_product_outcome
  retry :: cn_kosync_retry_policy
  local_mutation :: cn_kosync_mutation_state
  remote_mutation :: cn_kosync_mutation_state

definition cn_kosync_progress_init :: "cn_kosync_progress option \<Rightarrow> cn_kosync_progress option" where
  "cn_kosync_progress_init progress = map_option (\<lambda>_. \<lparr>document_id = [], logical_position = None,
     scaled_progress = -1, device = [], device_id = [], timestamp = 0, has_timestamp = False\<rparr>) progress"

text \<open>Freeing the position leaves the same state as initialising.\<close>

definition cn_kosync_progress_clear :: "cn_kosync_progress option \<Rightarrow> cn_kosync_progress option" where
  "cn_kosync_progress_clear progress = cn_kosync_progress_init progress"

definition is_known :: "'a enum_value \<Rightarrow> bool" where
  "is_known v \<longleftrightarrow> (case v of Known _ \<Rightarrow> True | Unknown _ \<Rightarrow> False)"

lemma is_known_simps [simp]: "is_known (Known c)" "\<not> is_known (Unknown n)"
  by (simp_all add: is_known_def)

end
