(* ===== verification/Binary64.thy ===== *)
theory Binary64
  imports Complex_Main "HOL-Library.Log_Nat"
begin

text \<open>
  The type \<open>double\<close> of the target: a finite binary64 value is the rational it stands for, and
  \<open>binary64 v\<close> is the value nearest to \<open>v\<close>, ties to the even mantissa, with 53 bits of mantissa above
  2^-1022 and the fixed step 2^-1074 below.  Each C operation on doubles is the exact operation followed
  by \<open>binary64\<close>; infinities arise only beyond \<open>binary64_overflow\<close>, where every caller refuses the number.
\<close>

definition binary_exponent :: "rat \<Rightarrow> int" where
  "binary_exponent v = (case quotient_of v of (a, b) \<Rightarrow>
     let k = bitlen a - bitlen b in if 2 powi k \<le> v then k else k - 1)"

definition round_half_even :: "rat \<Rightarrow> int" where
  "round_half_even q =
     (let f = \<lfloor>q\<rfloor>; d = q - of_int f in if d < 1 / 2 \<or> d = 1 / 2 \<and> even f then f else f + 1)"

definition binary64_step :: "rat \<Rightarrow> rat" where
  "binary64_step v = 2 powi (max (binary_exponent \<bar>v\<bar> - 52) (- 1074))"

definition binary64 :: "rat \<Rightarrow> rat" where
  "binary64 v = (if v = 0 then 0
     else sgn v * of_int (round_half_even (\<bar>v\<bar> / binary64_step v)) * binary64_step v)"

definition binary64_overflow :: "rat \<Rightarrow> bool" where
  "binary64_overflow v \<longleftrightarrow> 2 ^ 1024 \<le> \<bar>binary64 v\<bar>"

definition binary64_tiny :: "rat \<Rightarrow> bool" where
  "binary64_tiny v \<longleftrightarrow> v \<noteq> 0 \<and> \<bar>v\<bar> < 1 / 2 ^ 1022"

lemma powi_2_pos [simp]: "0 < (2 :: rat) powi k"
  by (simp add: power_int_def)

lemma bitlen_rat: "0 < a \<Longrightarrow> 2 powi (bitlen a - 1) \<le> (of_int a :: rat) \<and> (of_int a :: rat) < 2 powi (bitlen a)"
proof -
  assume a: "0 < a"
  have b: "0 < bitlen a" using a bitlen_eq_zero_iff bitlen_nonneg by (metis le_less_linear less_le not_less)
  have i: "2 ^ nat (bitlen a - 1) \<le> a \<and> a < 2 ^ nat (bitlen a)" using bitlen_bounds[OF a] .
  have "(of_int (2 ^ nat (bitlen a - 1)) :: rat) \<le> of_int a" "(of_int a :: rat) < of_int (2 ^ nat (bitlen a))"
    using i by (simp_all only: of_int_le_iff of_int_less_iff)
  then show ?thesis using b by (simp add: power_int_def)
qed

lemma binary_exponent_bounds:
  assumes v: "0 < v"
  shows "2 powi (binary_exponent v) \<le> v" "v < 2 * 2 powi (binary_exponent v)"
proof -
  obtain a b where q: "quotient_of v = (a, b)" by (cases "quotient_of v")
  have b: "0 < b" using quotient_of_denom_pos[OF q] .
  have va: "v = of_int a / of_int b" using quotient_of_div[OF q] .
  have a: "0 < a" using v va b by (simp add: zero_less_divide_iff)
  define k where "k = bitlen a - bitlen b"
  note A = bitlen_rat[OF a] and B = bitlen_rat[OF b]
  have split: "(2 :: rat) powi (x + y) = 2 powi x * 2 powi y" for x y by (simp add: power_int_add)
  have upper: "v < 2 * 2 powi k"
  proof -
    have "v * of_int b < 2 powi bitlen a" using A va b by simp
    also have "2 powi bitlen a = (2 :: rat) * 2 powi k * 2 powi (bitlen b - 1)"
      using split[of "k + 1" "bitlen b - 1"] split[of k 1] by (simp add: k_def)
    also have "\<dots> \<le> 2 * 2 powi k * of_int b" using B by (simp add: mult_left_mono)
    finally show ?thesis using b by simp
  qed
  have lower: "2 powi (k - 1) \<le> v"
  proof -
    have "2 powi (k - 1) * of_int b \<le> (2 :: rat) powi (k - 1) * 2 powi bitlen b"
      using B by (simp add: mult_left_mono)
    also have "\<dots> = 2 powi (bitlen a - 1)" using split[of "k - 1" "bitlen b"] by (simp add: k_def algebra_simps)
    also have "\<dots> \<le> v * of_int b" using A va b by simp
    finally show ?thesis using b by simp
  qed
  have half: "2 * (2 :: rat) powi (k - 1) = 2 powi k" using split[of 1 "k - 1"] by simp
  show "2 powi (binary_exponent v) \<le> v" "v < 2 * 2 powi (binary_exponent v)"
    using upper lower half by (auto simp: binary_exponent_def q Let_def k_def[symmetric])
qed

lemma round_half_even_near: "\<bar>of_int (round_half_even q) - q\<bar> \<le> 1 / 2"
proof -
  have "of_int \<lfloor>q\<rfloor> \<le> q" "q < of_int \<lfloor>q\<rfloor> + 1" by linarith+
  then show ?thesis by (auto simp: round_half_even_def Let_def abs_le_iff)
qed

text \<open>Above 2^-1022 the relative error is at most 2^-53.\<close>

lemma binary64_relative:
  assumes v: "1 / 10 ^ 10 \<le> v"
  shows "\<bar>binary64 v - v\<bar> \<le> v / 2 ^ 53"
proof -
  have v0: "0 < v" using v by (rule less_le_trans[rotated]) simp
  note E = binary_exponent_bounds[OF v0]
  have e: "- 35 < binary_exponent v"
  proof (rule ccontr)
    assume "\<not> - 35 < binary_exponent v"
    then have "(2 :: rat) powi binary_exponent v \<le> 2 powi (- 35)" by (intro power_int_increasing) auto
    then have "v < 2 * 2 powi (- 35)" using E by linarith
    moreover have "(2 :: rat) * 2 powi (- 35) < 1 / 10 ^ 10" by (simp add: power_int_def power_divide)
    ultimately show False using v by linarith
  qed
  define step where "step = binary64_step v"
  have "2 powi binary_exponent v = (2 :: rat) powi (binary_exponent v - 52) * 2 powi 52"
    using power_int_add[of "2 :: rat" "binary_exponent v - 52" 52] by simp
  then have st: "step * 2 ^ 52 = 2 powi binary_exponent v" using v0 e
    by (simp add: step_def binary64_step_def max_def)
  have s0: "0 < step" by (simp add: step_def binary64_step_def)
  have "binary64 v - v = (of_int (round_half_even (v / step)) - v / step) * step"
    using v0 s0 by (simp add: binary64_def step_def[symmetric] algebra_simps)
  then have "\<bar>binary64 v - v\<bar> = \<bar>of_int (round_half_even (v / step)) - v / step\<bar> * step" 
    using s0 by (simp add: abs_mult)
  also have "\<dots> \<le> 1 / 2 * step" using round_half_even_near s0 by (intro mult_right_mono) auto
  also have "\<dots> = step * 2 ^ 52 / 2 ^ 53" by simp
  also have "\<dots> \<le> v / 2 ^ 53" unfolding st using E(1) by (intro divide_right_mono) auto
  finally show ?thesis .
qed

lemma binary64_zero [simp]: "binary64 0 = 0"
  by (simp add: binary64_def)

lemma binary64_one [simp]: "binary64 1 = 1"
proof -
  have "bitlen (1 :: int) = 1" by (simp add: bitlen_def floorlog_def)
  then have "binary_exponent 1 = 0" by (simp add: binary_exponent_def Let_def)
  then show ?thesis by (simp add: binary64_def binary64_step_def round_half_even_def Let_def power_int_def power_divide)
qed

lemma near_bounds: "\<bar>x - y\<bar> \<le> (d :: rat) \<Longrightarrow> y - d \<le> x \<and> x \<le> y + d"
  by (simp only: abs_le_iff) linarith

text \<open>The scaling of a fraction with four decimals: the multiplication is exact enough to floor to it.\<close>

lemma binary64_scaled:
  assumes p: "0 < p" "p \<le> (10000 :: int)"
  defines "value \<equiv> binary64 (of_int p / 10000)"
  shows "0 \<le> value" "value \<le> 1" "\<lfloor>binary64 (binary64 (value * 10000) + binary64 (1 / 10 ^ 9))\<rfloor> = p"
proof -
  define q where "q = (of_int p :: rat)"
  have q: "1 \<le> q" "q \<le> 10000" using p by (simp_all add: q_def)
  have v: "\<bar>value - q / 10000\<bar> \<le> q / 10000 / 2 ^ 53" unfolding value_def q_def[symmetric]
    by (rule binary64_relative) (use q in simp)
  note v' = near_bounds[OF v, THEN conjunct1] near_bounds[OF v, THEN conjunct2]
  show "0 \<le> value" using v' q by (auto simp: field_simps)
  show "value \<le> 1"
  proof (cases "p = 10000")
    case True then show ?thesis by (simp add: value_def)
  next
    case False
    then have "q \<le> 9999" using p by (simp add: q_def)
    then show ?thesis using v' by simp
  qed
  have m0: "1 / 10 ^ 10 \<le> value * 10000" using v' q by simp
  have "\<bar>binary64 (value * 10000) - value * 10000\<bar> \<le> value * 10000 / 2 ^ 53" by (rule binary64_relative[OF m0])
  then have m: "binary64 (value * 10000) \<ge> value * 10000 - value * 10000 / 2 ^ 53"
    "binary64 (value * 10000) \<le> value * 10000 + value * 10000 / 2 ^ 53" by (blast dest: near_bounds)+
  have "\<bar>binary64 (1 / 10 ^ 9) - 1 / 10 ^ 9\<bar> \<le> 1 / 10 ^ 9 / 2 ^ 53" by (rule binary64_relative) simp
  then have t: "binary64 (1 / 10 ^ 9) \<ge> 1 / 10 ^ 9 - 1 / 10 ^ 9 / 2 ^ 53"
    "binary64 (1 / 10 ^ 9) \<le> 1 / 10 ^ 9 + 1 / 10 ^ 9 / 2 ^ 53" by (blast dest: near_bounds)+
  define sum where "sum = binary64 (value * 10000) + binary64 (1 / 10 ^ 9)"
  have s: "q + 1 / 10 ^ 10 \<le> sum" "sum \<le> q + 1 / 2" unfolding sum_def using m t v' q by (simp_all add: field_simps)
  have s0: "1 / 10 ^ 10 \<le> sum" using s q by simp
  have "\<bar>binary64 sum - sum\<bar> \<le> sum / 2 ^ 53" by (rule binary64_relative[OF s0])
  note r = near_bounds[OF this]
  have "q \<le> binary64 sum" "binary64 sum < q + 1" using r s q by (simp_all add: field_simps)
  then show "\<lfloor>binary64 (binary64 (value * 10000) + binary64 (1 / 10 ^ 9))\<rfloor> = p"
    unfolding sum_def[symmetric] q_def by linarith
qed

lemma binary64_in_range:
  assumes p: "0 < p" "p \<le> (10000 :: int)"
  shows "\<not> binary64_overflow (of_int p / 10000)" "\<not> binary64_tiny (of_int p / 10000)"
proof -
  have "\<bar>binary64 (of_int p / 10000)\<bar> \<le> 1" using binary64_scaled[OF p] by simp
  moreover have "(1 :: rat) < 2 ^ 1024" by (rule one_less_power) simp_all
  ultimately show "\<not> binary64_overflow (of_int p / 10000)" unfolding binary64_overflow_def by linarith
  have "(1 :: rat) / 2 ^ 1022 \<le> 1 / 2 ^ 14" by (intro divide_left_mono power_increasing) auto
  also have "\<dots> \<le> of_int p / 10000" using p by (simp add: field_simps)
  finally show "\<not> binary64_tiny (of_int p / 10000)" using p by (simp add: binary64_tiny_def)
qed

lemma binary64_epsilon: "\<lfloor>binary64 (binary64 (1 / 10 ^ 9))\<rfloor> = 0"
proof -
  define e where "e = binary64 (1 / 10 ^ 9)"
  have "\<bar>e - 1 / 10 ^ 9\<bar> \<le> 1 / 10 ^ 9 / 2 ^ 53" unfolding e_def by (rule binary64_relative) simp
  note E = near_bounds[OF this]
  then have "1 / 10 ^ 10 \<le> e" by simp
  from near_bounds[OF binary64_relative[OF this]] E have "0 \<le> binary64 e" "binary64 e < 1" by simp_all
  then show ?thesis unfolding e_def[symmetric] by linarith
qed

end
