(* ===== verification/Kosync_Json.thy ===== *)
theory Kosync_Json
  imports Sync_Types Binary64
begin

text \<open>
  The JSON of the synchronisation protocol, src/sync/kosync.c: the checks of header texts and document
  identifiers, the bounded writer of progress objects and the reader of the server's objects.

  A writer is the text written so far, \<open>None\<close> once something did not fit its capacity.  A reader is what
  is left to read; every failure of the reader ends the parse, so the position after a failure is not
  kept.  Allocations come from the schedule of theory Posix.

  \<open>strtod\<close> and the arithmetic on \<open>double\<close> are those of theory Binary64.  Whether \<open>strtod\<close> sets
  \<open>errno\<close> when a number underflows is left to the implementation by the C standard; it is the parameter
  \<open>underflow_reported\<close>.
\<close>

section \<open>Bounded texts\<close>

definition kosync_position_max :: nat where "kosync_position_max = 65536"
definition kosync_device_max :: nat where "kosync_device_max = 255"
definition kosync_document_id_bytes :: nat where "kosync_document_id_bytes = 32"
definition kosync_json_max :: nat where "kosync_json_max = kosync_position_max * 6 + 4096"

definition kosync_bounded_length :: "bytes option \<Rightarrow> nat \<Rightarrow> nat" where
  "kosync_bounded_length text' maximum = (case text' of None \<Rightarrow> maximum + 1 | Some t \<Rightarrow> scan_nul t (maximum + 1))"

definition header_text_ok :: "bytes option \<Rightarrow> nat \<Rightarrow> bool \<Rightarrow> bool" where
  "header_text_ok text' maximum allow_empty =
     (let length' = kosync_bounded_length text' maximum
      in if length' > maximum \<or> (\<not> allow_empty \<and> length' = 0) then False
         else list_all (\<lambda>c. \<not> (c < 0x20 \<or> c = 0x7f)) (take length' (the text')))"

definition document_id_ok :: "bytes option \<Rightarrow> bool" where
  "document_id_ok document_id' =
     (if kosync_bounded_length document_id' kosync_document_id_bytes \<noteq> kosync_document_id_bytes then False
      else list_all lower_hex (take kosync_document_id_bytes (the document_id')))"

definition position_ok :: "bytes option \<Rightarrow> bool" where
  "position_ok position' =
     (let position_length = kosync_bounded_length position' kosync_position_max
      in \<not> (position_length = 0 \<or> position_length > kosync_position_max \<or>
            \<not> kosync_utf8_valid (take position_length (the position'))))"

text \<open>The replaced progress is freed by the caller's record being overwritten.\<close>

definition cn_kosync_progress_set ::
  "cn_kosync_progress option \<Rightarrow> bytes option \<Rightarrow> bytes option \<Rightarrow> int \<Rightarrow> bytes option \<Rightarrow> bytes option \<Rightarrow> os \<Rightarrow>
     (cn_kosync_result \<times> cn_kosync_progress option) \<times> os" where
  "cn_kosync_progress_set progress document_id' position' progress_10000' device' device_id' s =
     (if progress = None \<or> \<not> document_id_ok document_id' \<or> progress_10000' < 0 \<or> progress_10000' > 10000 \<or>
         \<not> header_text_ok device' kosync_device_max False \<or> \<not> header_text_ok device_id' kosync_device_max False
      then ((CN_KOSYNC_INVALID, progress), s)
      else if \<not> position_ok position' \<or> \<not> kosync_utf8_valid (cstr (the device')) \<or>
              \<not> kosync_utf8_valid (cstr (the device_id'))
      then ((CN_KOSYNC_INVALID, progress), s)
      else case sys_malloc s of
        (False, s) \<Rightarrow> ((CN_KOSYNC_NO_MEMORY, progress), s)
      | (True, s) \<Rightarrow> ((CN_KOSYNC_OK, Some \<lparr>document_id = cstr (the document_id'),
          logical_position = Some (cstr (the position')), scaled_progress = progress_10000',
          device = cstr (the device'), device_id = cstr (the device_id'), timestamp = 0, has_timestamp = False\<rparr>), s))"

section \<open>The writer\<close>

definition writer_bytes :: "nat \<Rightarrow> bytes \<Rightarrow> bytes \<Rightarrow> bytes option" where
  "writer_bytes cap data writer = (if length data > cap - length writer then None else Some (writer @ data))"

definition json_escape :: "byte \<Rightarrow> bytes" where
  "json_escape c =
     (if c = 34 then [92, 34] else if c = 92 then [92, 92] else if c = 8 then [92, of_char CHR ''b'']
      else if c = 12 then [92, of_char CHR ''f''] else if c = 10 then [92, of_char CHR ''n'']
      else if c = 13 then [92, of_char CHR ''r''] else if c = 9 then [92, of_char CHR ''t'']
      else if c < 0x20 then [92, of_char CHR ''u'', of_char CHR ''0'', of_char CHR ''0'',
        hex_digit (unat (drop_bit 4 c)), hex_digit (unat (c AND 15))]
      else [c])"

fun writer_chars :: "nat \<Rightarrow> bytes \<Rightarrow> bytes \<Rightarrow> bytes option" where
  "writer_chars cap [] writer = Some writer"
| "writer_chars cap (c # text') writer = (case writer_bytes cap (json_escape c) writer of
     None \<Rightarrow> None | Some writer \<Rightarrow> writer_chars cap text' writer)"

definition writer_string :: "nat \<Rightarrow> bytes \<Rightarrow> bytes \<Rightarrow> bytes option" where
  "writer_string cap text' writer =
     Option.bind (writer_bytes cap [34] writer) (\<lambda>w. Option.bind (writer_chars cap (cstr text') w) (writer_bytes cap [34]))"

definition decimal_digit :: "nat \<Rightarrow> byte" where
  "decimal_digit n = word_of_nat (48 + n mod 10)"

text \<open>\<open>snprintf\<close> with "0.%04d" of a number below 10000, and the loop that drops zeros.\<close>

definition percent_number :: "nat \<Rightarrow> bytes" where
  "percent_number p = str ''0.'' @ [decimal_digit (p div 1000), decimal_digit (p div 100), decimal_digit (p div 10), decimal_digit p]"

function strip_zeros :: "bytes \<Rightarrow> bytes" where
  "strip_zeros number = (if length number > 2 \<and> last number = of_char CHR ''0'' then strip_zeros (butlast number) else number)"
  by pat_completeness auto
termination by (relation "measure length") auto

declare strip_zeros.simps [simp del]

definition writer_percentage :: "nat \<Rightarrow> int \<Rightarrow> bytes \<Rightarrow> bytes option" where
  "writer_percentage cap progress_10000' writer =
     (if progress_10000' = 10000 then writer_bytes cap (str ''1'') writer
      else if progress_10000' = 0 then writer_bytes cap (str ''0'') writer
      else writer_bytes cap (strip_zeros (percent_number (nat progress_10000'))) writer)"

text \<open>The members of a progress object, in the order they are written.\<close>

definition serialize_members :: "nat \<Rightarrow> cn_kosync_progress \<Rightarrow> bytes option" where
  "serialize_members cap p = foldl (\<lambda>w step. Option.bind w step) (Some [])
     [writer_bytes cap (str ''{'' @ [34] @ str ''document'' @ [34] @ str '':''),
      writer_string cap (document_id p),
      writer_bytes cap (str '','' @ [34] @ str ''progress'' @ [34] @ str '':''),
      writer_string cap (the (logical_position p)),
      writer_bytes cap (str '','' @ [34] @ str ''percentage'' @ [34] @ str '':''),
      writer_percentage cap (scaled_progress p),
      writer_bytes cap (str '','' @ [34] @ str ''device'' @ [34] @ str '':''),
      writer_string cap (device p),
      writer_bytes cap (str '','' @ [34] @ str ''device_id'' @ [34] @ str '':''),
      writer_string cap (device_id p),
      writer_bytes cap (str ''}'')]"

text \<open>\<open>json\<close> tells whether the output pointers are not NULL; the answer is the text without its NUL.\<close>

definition cn_kosync_serialize_progress ::
  "cn_kosync_progress option \<Rightarrow> bool \<Rightarrow> nat \<Rightarrow> cn_kosync_result + bytes" where
  "cn_kosync_serialize_progress progress json json_cap = (case progress of None \<Rightarrow> Inl CN_KOSYNC_INVALID
     | Some p \<Rightarrow>
         if \<not> json \<or> json_cap = 0 \<or> \<not> document_id_ok (Some (document_id p)) \<or> scaled_progress p < 0 \<or>
            scaled_progress p > 10000 \<or> \<not> header_text_ok (Some (device p)) kosync_device_max False \<or>
            \<not> header_text_ok (Some (device_id p)) kosync_device_max False \<or>
            \<not> kosync_utf8_valid (cstr (device p)) \<or> \<not> kosync_utf8_valid (cstr (device_id p))
         then Inl CN_KOSYNC_INVALID
         else if \<not> position_ok (logical_position p) then Inl CN_KOSYNC_INVALID
         else case serialize_members (json_cap - 1) p of None \<Rightarrow> Inl CN_KOSYNC_INVALID | Some text' \<Rightarrow> Inr text')"

section \<open>The reader\<close>

definition json_space :: "byte \<Rightarrow> bool" where
  "json_space c \<longleftrightarrow> c = 32 \<or> c = 9 \<or> c = 13 \<or> c = 10"

definition reader_space :: "bytes \<Rightarrow> bytes" where
  "reader_space reader = dropWhile json_space reader"

definition reader_take :: "byte \<Rightarrow> bytes \<Rightarrow> bytes option" where
  "reader_take wanted reader = (case reader_space reader of
     [] \<Rightarrow> None | c # rest \<Rightarrow> if c \<noteq> wanted then None else Some rest)"

definition json_hex_value :: "byte \<Rightarrow> nat option" where
  "json_hex_value c =
     (if of_char CHR ''0'' \<le> c \<and> c \<le> of_char CHR ''9'' then Some (unat c - 48)
      else if of_char CHR ''a'' \<le> c \<and> c \<le> of_char CHR ''f'' then Some (unat c - 97 + 10)
      else if of_char CHR ''A'' \<le> c \<and> c \<le> of_char CHR ''F'' then Some (unat c - 65 + 10)
      else None)"

fun hex_digits :: "nat \<Rightarrow> u32 \<Rightarrow> bytes \<Rightarrow> (u32 \<times> bytes) option" where
  "hex_digits 0 parsed reader = Some (parsed, reader)"
| "hex_digits (Suc n) parsed [] = None"
| "hex_digits (Suc n) parsed (c # reader) = (case json_hex_value c of
     None \<Rightarrow> None | Some d \<Rightarrow> hex_digits n (push_bit 4 parsed OR of_nat d) reader)"

definition reader_hex4 :: "bytes \<Rightarrow> (u32 \<times> bytes) option" where
  "reader_hex4 reader = (if length reader < 4 then None else hex_digits 4 0 reader)"

definition append_codepoint :: "nat \<Rightarrow> bytes \<Rightarrow> u32 \<Rightarrow> bytes option" where
  "append_codepoint cap output value =
     (if \<not> encodable value then None
      else if length (utf8_encode value) \<ge> cap - length output then None
      else Some (output @ utf8_encode value))"

text \<open>The code unit after the first four digits, joined with a second one if it is a high surrogate.\<close>

definition reader_unit :: "bytes \<Rightarrow> (u32 \<times> bytes) option" where
  "reader_unit reader = (case reader_hex4 reader of None \<Rightarrow> None
     | Some (value, rest) \<Rightarrow>
         if value \<ge> 0xd800 \<and> value \<le> 0xdbff then
           (if length rest < 6 \<or> rest ! 0 \<noteq> 92 \<or> rest ! 1 \<noteq> of_char CHR ''u'' then None
            else case reader_hex4 (drop 2 rest) of None \<Rightarrow> None
            | Some (low, rest) \<Rightarrow>
                if low < 0xdc00 \<or> low > 0xdfff then None
                else Some (0x10000 + push_bit 10 (value - 0xd800) + (low - 0xdc00), rest))
         else Some (value, rest))"

definition simple_escape :: "byte \<Rightarrow> byte option" where
  "simple_escape c =
     (if c = 34 then Some 34 else if c = 92 then Some 92 else if c = of_char CHR ''/'' then Some (of_char CHR ''/'')
      else if c = of_char CHR ''b'' then Some 8 else if c = of_char CHR ''f'' then Some 12
      else if c = of_char CHR ''n'' then Some 10 else if c = of_char CHR ''r'' then Some 13
      else if c = of_char CHR ''t'' then Some 9 else None)"

definition reader_escape :: "nat \<Rightarrow> bytes \<Rightarrow> bytes \<Rightarrow> (bytes \<times> bytes) option" where
  "reader_escape cap output reader = (case reader of [] \<Rightarrow> None
     | c # rest \<Rightarrow>
         if c = of_char CHR ''u'' then
           (case reader_unit rest of None \<Rightarrow> None
            | Some (value, rest) \<Rightarrow> (case append_codepoint cap output value of
                None \<Rightarrow> None | Some output \<Rightarrow> Some (output, rest)))
         else (case simple_escape c of None \<Rightarrow> None
           | Some c \<Rightarrow> if length output + 1 \<ge> cap then None else Some (output @ [c], rest)))"

lemma hex_digits_length: "hex_digits n v r = Some (w, rest) \<Longrightarrow> length rest + n = length r"
  by (induction n v r rule: hex_digits.induct) (auto split: option.splits)

lemma reader_unit_length: "reader_unit r = Some (v, rest) \<Longrightarrow> length rest < length r"
  by (auto simp: reader_unit_def reader_hex4_def dest!: hex_digits_length split: option.splits if_splits)

lemma reader_escape_length: "reader_escape cap out r = Some (out', rest) \<Longrightarrow> length rest < length r"
  by (auto simp: reader_escape_def dest!: reader_unit_length split: list.splits if_splits option.splits)

function reader_chars :: "nat \<Rightarrow> bytes \<Rightarrow> bytes \<Rightarrow> (bytes \<times> bytes) option" where
  "reader_chars cap output [] = None"
| "reader_chars cap output (c # reader) =
     (if c = 34 then (if \<not> kosync_utf8_valid output then None else Some (output, reader))
      else if c < 0x20 \<or> c = 0 then None
      else if c = 92 then (case reader_escape cap output reader of None \<Rightarrow> None
        | Some (output, reader) \<Rightarrow> reader_chars cap output reader)
      else if length output + 1 \<ge> cap then None
      else reader_chars cap (output @ [c]) reader)"
  by pat_completeness auto
termination
  by (relation "measure (\<lambda>(cap, output, reader). length reader)") (auto dest: reader_escape_length)

definition reader_string :: "nat \<Rightarrow> bytes \<Rightarrow> (bytes \<times> bytes) option" where
  "reader_string cap reader = (if cap = 0 then None
     else case reader_take 34 reader of None \<Rightarrow> None | Some reader \<Rightarrow> reader_chars cap [] reader)"

section \<open>Numbers\<close>

definition json_digit :: "byte \<Rightarrow> bool" where
  "json_digit c \<longleftrightarrow> of_char CHR ''0'' \<le> c \<and> c \<le> of_char CHR ''9''"

definition starts :: "byte list \<Rightarrow> bytes \<Rightarrow> bool" where
  "starts cs reader \<longleftrightarrow> reader \<noteq> [] \<and> hd reader \<in> set cs"

text \<open>The parts of a number: how many bytes of the reader each takes, \<open>None\<close> where the text is refused.\<close>

definition integer_part :: "bytes \<Rightarrow> bytes option" where
  "integer_part reader =
     (if starts [of_char CHR ''0''] reader then Some (tl reader)
      else if reader \<noteq> [] \<and> of_char CHR ''1'' \<le> hd reader \<and> hd reader \<le> of_char CHR ''9''
      then Some (dropWhile json_digit (tl reader)) else None)"

definition fraction_part :: "bytes \<Rightarrow> bytes option" where
  "fraction_part reader =
     (if starts [of_char CHR ''.''] reader then
        (let r = tl reader in if r = [] \<or> \<not> json_digit (hd r) then None else Some (dropWhile json_digit r))
      else Some reader)"

definition exponent_part :: "bytes \<Rightarrow> bytes option" where
  "exponent_part reader =
     (if starts [of_char CHR ''e'', of_char CHR ''E''] reader then
        (let r = (if starts [of_char CHR ''+'', of_char CHR ''-''] (tl reader) then tl (tl reader) else tl reader)
         in if r = [] \<or> \<not> json_digit (hd r) then None else Some (dropWhile json_digit r))
      else Some reader)"

definition number_token :: "nat \<Rightarrow> bytes \<Rightarrow> (bytes \<times> bytes) option" where
  "number_token cap reader =
     (let start = reader_space reader;
          r = (if starts [of_char CHR ''-''] start then tl start else start)
      in if r = [] then None
         else case Option.bind (Option.bind (integer_part r) fraction_part) exponent_part of
           None \<Rightarrow> None
         | Some rest \<Rightarrow>
             let length' = length start - length rest
             in if length' = 0 \<or> length' \<ge> cap then None else Some (take length' start, rest))"

text \<open>The value of a number text: sign, digits, fraction and exponent.\<close>

definition digits_value :: "bytes \<Rightarrow> nat" where
  "digits_value ds = foldl (\<lambda>n d. n * 10 + (unat d - 48)) 0 ds"

definition scale_ten :: "int \<Rightarrow> rat \<Rightarrow> rat" where
  "scale_ten e v = (if e \<ge> 0 then v * 10 ^ nat e else v / 10 ^ nat (- e))"

definition exponent_value :: "bytes \<Rightarrow> int" where
  "exponent_value r =
     (if starts [of_char CHR ''e'', of_char CHR ''E''] r then
        (let r = tl r in
           if starts [of_char CHR ''-''] r then - int (digits_value (takeWhile json_digit (tl r)))
           else if starts [of_char CHR ''+''] r then int (digits_value (takeWhile json_digit (tl r)))
           else int (digits_value (takeWhile json_digit r)))
      else 0)"

definition strtod_value :: "bytes \<Rightarrow> rat" where
  "strtod_value token =
     (let negative = starts [of_char CHR ''-''] token;
          t = (if negative then tl token else token);
          whole = takeWhile json_digit t;
          r = dropWhile json_digit t;
          fraction = (if starts [of_char CHR ''.''] r then takeWhile json_digit (tl r) else []);
          r = (if starts [of_char CHR ''.''] r then dropWhile json_digit (tl r) else r);
          v = scale_ten (exponent_value r - int (length fraction)) (of_nat (digits_value (whole @ fraction)))
      in if negative then - v else v)"

definition strtod_errno :: "(rat \<Rightarrow> bool) \<Rightarrow> bytes \<Rightarrow> bool" where
  "strtod_errno underflow_reported token =
     (binary64_overflow (strtod_value token) \<or>
      binary64_tiny (strtod_value token) \<and> underflow_reported (strtod_value token))"

definition token_capacity :: nat where "token_capacity = 64"

definition reader_percentage :: "(rat \<Rightarrow> bool) \<Rightarrow> bytes \<Rightarrow> (int \<times> bytes) option" where
  "reader_percentage underflow_reported reader = (case number_token token_capacity reader of None \<Rightarrow> None
     | Some (token, rest) \<Rightarrow>
         let value = binary64 (strtod_value token)
         in if strtod_errno underflow_reported token \<or> value < 0 \<or> value > 1 then None
            else let scaled = \<lfloor>binary64 (binary64 (value * 10000) + binary64 (1 / 10 ^ 9))\<rfloor>
            in if scaled < 0 \<or> scaled > 10000 then None else Some (scaled, rest))"

definition llong_max :: int where "llong_max = 2 ^ 63 - 1"

text \<open>\<open>strtoll\<close> stops at the first byte that is no digit, and the code asks that it is the end.\<close>

definition reader_timestamp :: "bytes \<Rightarrow> (int \<times> bytes) option" where
  "reader_timestamp reader = (case number_token token_capacity reader of None \<Rightarrow> None
     | Some (token, rest) \<Rightarrow>
         let negative = starts [of_char CHR ''-''] token;
             digits = (if negative then tl token else token);
             magnitude = int (digits_value (takeWhile json_digit digits));
             value = (if negative then - magnitude else magnitude)
         in if value > llong_max \<or> value < - llong_max - 1 \<or> dropWhile json_digit digits \<noteq> [] \<or> value < 0 then None
            else Some (value, rest))"

definition reader_skip_scalar :: "(rat \<Rightarrow> bool) \<Rightarrow> bytes \<Rightarrow> os \<Rightarrow> bytes option \<times> os" where
  "reader_skip_scalar underflow_reported reader s =
     (let r = reader_space reader in
      if r = [] then (None, s)
      else if hd r = 34 then
        (case sys_malloc s of (False, s) \<Rightarrow> (None, s)
         | (True, s) \<Rightarrow> (map_option snd (reader_string (length r + 1) r), s))
      else if take 4 r = str ''null'' then (Some (drop 4 r), s)
      else if take 4 r = str ''true'' then (Some (drop 4 r), s)
      else if take 5 r = str ''false'' then (Some (drop 5 r), s)
      else (case number_token token_capacity r of None \<Rightarrow> (None, s)
        | Some (token, rest) \<Rightarrow> (if strtod_errno underflow_reported token then None else Some rest, s)))"

section \<open>Objects\<close>

datatype parsed_field =
  FIELD_DOCUMENT | FIELD_PROGRESS | FIELD_PERCENTAGE | FIELD_DEVICE | FIELD_DEVICE_ID | FIELD_TIMESTAMP

record parsed_object =
  parsed_progress :: cn_kosync_progress
  parsed_fields :: "parsed_field set"

definition blank_progress :: cn_kosync_progress where
  "blank_progress = \<lparr>document_id = [], logical_position = None, scaled_progress = - 1, device = [],
     device_id = [], timestamp = 0, has_timestamp = False\<rparr>"

definition set_once :: "parsed_object \<Rightarrow> parsed_field \<Rightarrow> parsed_object option" where
  "set_once parsed field = (if field \<in> parsed_fields parsed then None
     else Some (parsed\<lparr>parsed_fields := insert field (parsed_fields parsed)\<rparr>))"

text \<open>A member whose value is a bounded string, or a number.\<close>

definition string_member :: "parsed_field \<Rightarrow> nat \<Rightarrow> (bytes \<Rightarrow> cn_kosync_progress \<Rightarrow> cn_kosync_progress) \<Rightarrow>
    bytes \<Rightarrow> parsed_object \<Rightarrow> (bytes \<times> parsed_object) option" where
  "string_member field cap put reader parsed = (case set_once parsed field of None \<Rightarrow> None
     | Some parsed \<Rightarrow> (case reader_string cap reader of None \<Rightarrow> None
         | Some (value, rest) \<Rightarrow> Some (rest, parsed\<lparr>parsed_progress := put value (parsed_progress parsed)\<rparr>)))"

definition number_member :: "parsed_field \<Rightarrow> (bytes \<Rightarrow> (int \<times> bytes) option) \<Rightarrow>
    (int \<Rightarrow> cn_kosync_progress \<Rightarrow> cn_kosync_progress) \<Rightarrow> bytes \<Rightarrow> parsed_object \<Rightarrow>
    (bytes \<times> parsed_object) option" where
  "number_member field read_number put reader parsed = (case set_once parsed field of None \<Rightarrow> None
     | Some parsed \<Rightarrow> (case read_number reader of None \<Rightarrow> None
         | Some (value, rest) \<Rightarrow> Some (rest, parsed\<lparr>parsed_progress := put value (parsed_progress parsed)\<rparr>)))"

definition checked :: "'a option \<Rightarrow> os \<Rightarrow> (cn_kosync_result + 'a) \<times> os" where
  "checked r s = (case r of None \<Rightarrow> (Inl CN_KOSYNC_BAD_JSON, s) | Some a \<Rightarrow> (Inr a, s))"

definition position_member :: "bytes \<Rightarrow> parsed_object \<Rightarrow> os \<Rightarrow> (cn_kosync_result + bytes \<times> parsed_object) \<times> os" where
  "position_member reader parsed s = (case set_once parsed FIELD_PROGRESS of
       None \<Rightarrow> (Inl CN_KOSYNC_BAD_JSON, s)
     | Some parsed \<Rightarrow> (case sys_malloc s of
         (False, s) \<Rightarrow> (Inl CN_KOSYNC_NO_MEMORY, s)
       | (True, s) \<Rightarrow> (case reader_string (kosync_position_max + 1) reader of
           None \<Rightarrow> (Inl CN_KOSYNC_BAD_JSON, s)
         | Some (position', rest) \<Rightarrow>
             if position' = [] then (Inl CN_KOSYNC_BAD_JSON, s)
             else (Inr (rest, parsed\<lparr>parsed_progress :=
               (parsed_progress parsed)\<lparr>logical_position := Some position'\<rparr>\<rparr>), s))))"

definition parse_member :: "(rat \<Rightarrow> bool) \<Rightarrow> bytes \<Rightarrow> bytes \<Rightarrow> parsed_object \<Rightarrow> os \<Rightarrow>
    (cn_kosync_result + bytes \<times> parsed_object) \<times> os" where
  "parse_member underflow_reported key reader parsed s =
     (if key = str ''document'' then
        checked (string_member FIELD_DOCUMENT (kosync_document_id_bytes + 1) (\<lambda>v. document_id_update (\<lambda>_. v)) reader parsed) s
      else if key = str ''progress'' then position_member reader parsed s
      else if key = str ''percentage'' then
        checked (number_member FIELD_PERCENTAGE (reader_percentage underflow_reported)
          (\<lambda>v. scaled_progress_update (\<lambda>_. v)) reader parsed) s
      else if key = str ''device'' then
        checked (string_member FIELD_DEVICE (kosync_device_max + 1) (\<lambda>v. device_update (\<lambda>_. v)) reader parsed) s
      else if key = str ''device_id'' then
        checked (string_member FIELD_DEVICE_ID (kosync_device_max + 1) (\<lambda>v. device_id_update (\<lambda>_. v)) reader parsed) s
      else if key = str ''timestamp'' then
        checked (number_member FIELD_TIMESTAMP reader_timestamp
          (\<lambda>v p. p\<lparr>timestamp := v, has_timestamp := True\<rparr>) reader parsed) s
      else case reader_skip_scalar underflow_reported reader s of
        (None, s) \<Rightarrow> (Inl CN_KOSYNC_BAD_JSON, s)
      | (Some rest, s) \<Rightarrow> (Inr (rest, parsed), s))"

text \<open>The comma (but before the first member), the key and the colon.\<close>

definition member_key :: "bool \<Rightarrow> bytes \<Rightarrow> (bytes \<times> bytes) option" where
  "member_key first reader =
     Option.bind (if first then Some reader else reader_take (of_char CHR '','') reader)
       (\<lambda>r. Option.bind (reader_string 32 r)
         (\<lambda>(key, r). Option.bind (reader_take (of_char CHR '':'') r) (\<lambda>r. Some (key, r))))"

lemma reader_space_length: "length (reader_space r) \<le> length r"
  by (simp add: reader_space_def length_dropWhile_le)

lemma reader_take_length: "reader_take c r = Some rest \<Longrightarrow> length rest < length r"
  using reader_space_length[of r] by (auto simp: reader_take_def split: list.splits if_splits)

lemma reader_chars_length: "reader_chars cap out r = Some (t, rest) \<Longrightarrow> length rest < length r"
proof (induction cap out r rule: reader_chars.induct)
  case (2 cap out c r)
  show ?case
  proof (cases "reader_escape cap out r")
    case None
    then show ?thesis using "2.prems" "2.IH"(2) by (auto split: if_splits)
  next
    case (Some x)
    then obtain out' r' where e: "reader_escape cap out r = Some (out', r')" by (cases x) auto
    then show ?thesis using "2.prems" "2.IH"(1)[OF _ _ _ e refl] "2.IH"(2) reader_escape_length[OF e]
      by (auto split: if_splits)
  qed
qed simp

lemma reader_string_length: "reader_string cap r = Some (t, rest) \<Longrightarrow> length rest < length r"
  by (auto simp: reader_string_def dest!: reader_chars_length reader_take_length split: if_splits option.splits)

lemma dropWhile_length: "dropWhile P xs = ys \<Longrightarrow> length ys \<le> length xs"
  using length_dropWhile_le by auto

lemma number_token_length: "number_token cap r = Some (t, rest) \<Longrightarrow> length rest \<le> length r"
  using reader_space_length[of r]
  by (auto simp: number_token_def Let_def split: option.splits if_splits)

lemma reader_numbers_length:
  "reader_percentage u r = Some (v, rest) \<Longrightarrow> length rest \<le> length r"
  "reader_timestamp r = Some (v, rest) \<Longrightarrow> length rest \<le> length r"
  by (auto simp: reader_percentage_def reader_timestamp_def Let_def dest!: number_token_length split: option.splits if_splits)

lemma reader_skip_scalar_length: "reader_skip_scalar u r s = (Some rest, s') \<Longrightarrow> length rest \<le> length r"
  using reader_space_length[of r]
  by (auto simp: reader_skip_scalar_def Let_def dest!: number_token_length reader_string_length
      split: option.splits if_splits prod.splits bool.splits)

lemma parse_member_length: "parse_member u key r parsed s = (Inr (rest, parsed'), s') \<Longrightarrow> length rest \<le> length r"
  by (auto simp: parse_member_def checked_def string_member_def number_member_def position_member_def
      dest: reader_string_length reader_numbers_length reader_skip_scalar_length
      split: if_splits option.splits prod.splits bool.splits dest!: less_imp_le)

lemma member_key_length: "member_key first r = Some (key, rest) \<Longrightarrow> length rest < length r"
  by (auto simp: member_key_def bind_eq_Some_conv dest!: reader_take_length reader_string_length split: if_splits)

function parse_members :: "(rat \<Rightarrow> bool) \<Rightarrow> bool \<Rightarrow> bytes \<Rightarrow> parsed_object \<Rightarrow> os \<Rightarrow>
    (cn_kosync_result + parsed_object) \<times> os" where
  "parse_members underflow_reported first reader parsed s =
     (if reader = [] then (Inl CN_KOSYNC_BAD_JSON, s)
      else case member_key first reader of
        None \<Rightarrow> (Inl CN_KOSYNC_BAD_JSON, s)
      | Some (key, reader) \<Rightarrow> (case parse_member underflow_reported key reader parsed s of
          (Inl e, s) \<Rightarrow> (Inl e, s)
        | (Inr (reader, parsed), s) \<Rightarrow>
            if starts [of_char CHR ''}''] (reader_space reader) then
              (if reader_space (tl (reader_space reader)) = [] then (Inr parsed, s) else (Inl CN_KOSYNC_BAD_JSON, s))
            else parse_members underflow_reported False (reader_space reader) parsed s))"
  by pat_completeness auto
termination
  by (relation "measure (\<lambda>(u, first, reader, parsed, s). length reader)")
    (auto dest!: member_key_length parse_member_length[OF sym] intro: le_less_trans[OF reader_space_length])

declare parse_members.simps [simp del]

definition parse_object :: "(rat \<Rightarrow> bool) \<Rightarrow> bytes option \<Rightarrow> os \<Rightarrow> (cn_kosync_result + parsed_object) \<times> os" where
  "parse_object underflow_reported json s =
     (let json_len = length (the json);
          parsed = \<lparr>parsed_progress = blank_progress, parsed_fields = {}\<rparr>
      in if json = None \<or> json_len = 0 \<or> json_len > kosync_json_max then (Inl CN_KOSYNC_BAD_JSON, s)
         else case reader_take (of_char CHR ''{'') (the json) of
           None \<Rightarrow> (Inl CN_KOSYNC_BAD_JSON, s)
         | Some reader \<Rightarrow>
             if starts [of_char CHR ''}''] (reader_space reader) then
               (if reader_space (tl (reader_space reader)) = [] then (Inr parsed, s) else (Inl CN_KOSYNC_BAD_JSON, s))
             else parse_members underflow_reported True (reader_space reader) parsed s)"

text \<open>\<open>progress\<close> tells whether the output is not NULL; the answer is the record it is replaced by.\<close>

definition cn_kosync_parse_progress :: "(rat \<Rightarrow> bool) \<Rightarrow> bytes option \<Rightarrow> bool \<Rightarrow> os \<Rightarrow>
    (cn_kosync_result + cn_kosync_progress) \<times> os" where
  "cn_kosync_parse_progress underflow_reported json progress s =
     (if \<not> progress then (Inl CN_KOSYNC_INVALID, s)
      else case parse_object underflow_reported json s of
        (Inl e, s) \<Rightarrow> (Inl e, s)
      | (Inr parsed, s) \<Rightarrow>
          if parsed_fields parsed = {} then (Inl CN_KOSYNC_NOT_FOUND, s)
          else if \<not> {FIELD_DOCUMENT, FIELD_PROGRESS, FIELD_PERCENTAGE, FIELD_DEVICE} \<subseteq> parsed_fields parsed \<or>
                  \<not> document_id_ok (Some (document_id (parsed_progress parsed))) \<or>
                  char_at (device (parsed_progress parsed)) 0 = 0
          then (Inl CN_KOSYNC_BAD_PROTOCOL, s)
          else (Inr (parsed_progress parsed), s))"

section \<open>Writing and reading a string\<close>

definition json_string :: "bytes \<Rightarrow> bytes" where
  "json_string t = [34] @ concat (map json_escape t) @ [34]"

lemma kosync_valid_snoc: "kosync_utf8_valid t \<Longrightarrow> c \<in> set t \<Longrightarrow> c \<noteq> 0"
  using kosync_valid_terminated by (auto simp: terminated_def)

lemma json_hex_value_digit: "n < 16 \<Longrightarrow> json_hex_value (hex_digit n) = Some n"
  by (drule nibble_cases) (auto simp: json_hex_value_def hex_digit_def char_at_def)

lemma nibbles_of_byte:
  "push_bit 4 (of_nat (unat (drop_bit 4 (c :: byte)))) OR of_nat (unat (c AND 15)) = (ucast c :: u32)"
proof -
  have m: "(15 :: byte) = mask 4" by (simp add: mask_eq_exp_minus_1)
  have u: "of_nat (unat (x :: byte)) = (ucast x :: u32)" for x by simp
  show ?thesis unfolding u m by (rule bit_word_eqI) (auto simp: bit_simps)
qed

lemma reader_hex4_digits:
  assumes "json_hex_value a = Some 0" "json_hex_value b = Some 0" "json_hex_value c = Some x" "json_hex_value d = Some y"
  shows "reader_hex4 (a # b # c # d # rest) = Some (push_bit 4 (of_nat x) OR of_nat y, rest)"
proof -
  have "hex_digits 4 = hex_digits (Suc (Suc (Suc (Suc 0))))" by (simp add: eval_nat_numeral)
  then show ?thesis using assms by (simp add: reader_hex4_def del: push_bit_numeral)
qed

lemma append_ascii:
  assumes c: "c < 0x80" "c \<noteq> 0" and room: "length out + 1 < cap"
  shows "append_codepoint cap out (ucast c) = Some (out @ [c])"
proof -
  have "unat c < 128" "unat c \<noteq> 0" using c by (simp_all add: word_less_nat_alt unat_eq_zero)
  moreover have "ucast (ucast c :: u32) = c" by (rule bit_word_eqI) (auto simp: bit_simps)
  ultimately show ?thesis using room
    by (auto simp: append_codepoint_def encodable_def utf8_encode_def word_less_nat_alt word_le_nat_alt word_unat_eq_iff)
qed

lemma control_escape:
  assumes c: "c < 0x20" "c \<noteq> 0" and room: "length out + 1 < cap"
  shows "reader_escape cap out (of_char CHR ''u'' # of_char CHR ''0'' # of_char CHR ''0'' #
    hex_digit (unat (drop_bit 4 c)) # hex_digit (unat (c AND 15)) # rest) = Some (out @ [c], rest)"
proof -
  have u: "unat c < 32" using c by (simp add: word_less_nat_alt)
  have d: "unat (drop_bit 4 c) < 16" "unat (c AND 15) < 16"
    using u unat_and_mask[of c 4] by (simp_all add: unat_drop_bit mask_eq_exp_minus_1)
  have "reader_hex4 (of_char CHR ''0'' # of_char CHR ''0'' # hex_digit (unat (drop_bit 4 c)) #
      hex_digit (unat (c AND 15)) # rest) = Some (ucast c, rest)"
    unfolding nibbles_of_byte[symmetric]
    by (rule reader_hex4_digits[OF _ _ json_hex_value_digit[OF d(1)] json_hex_value_digit[OF d(2)]])
      (simp_all add: json_hex_value_def)
  moreover have "\<not> (0xd800 \<le> (ucast c :: u32))" using u by (simp add: word_le_nat_alt)
  moreover have "append_codepoint cap out (ucast c) = Some (out @ [c])"
    by (rule append_ascii[OF _ c(2) room]) (use u in \<open>simp add: word_less_nat_alt\<close>)
  ultimately show ?thesis by (simp add: reader_escape_def reader_unit_def)
qed

lemma reader_chars_escape:
  assumes c: "c \<noteq> 0" and room: "length out + 1 < cap"
  shows "reader_chars cap out (json_escape c @ rest) = reader_chars cap (out @ [c]) rest"
proof -
  have simple: "reader_chars cap out (92 # e # rest) = reader_chars cap (out @ [c]) rest"
    if "simple_escape e = Some c" "e \<noteq> of_char CHR ''u''" for e
    using that room by (simp add: reader_escape_def)
  consider "c < 0x20 \<and> c \<notin> {8, 12, 10, 13, 9}" | "c \<in> {34, 92, 8, 12, 10, 13, 9}" | "\<not> c < 0x20" "c \<noteq> 34" "c \<noteq> 92" by auto
  then show ?thesis
  proof cases
    case 1
    then have "json_escape c = [92, of_char CHR ''u'', of_char CHR ''0'', of_char CHR ''0'',
        hex_digit (unat (drop_bit 4 c)), hex_digit (unat (c AND 15))]" by (auto simp: json_escape_def)
    then show ?thesis using control_escape[OF _ c room] 1 by simp
  next
    case 2 then show ?thesis using simple by (auto simp: json_escape_def simple_escape_def)
  next
    case 3 
    then have "json_escape c = [c]" by (auto simp: json_escape_def word_less_nat_alt)
    then show ?thesis using 3 c room by simp
  qed
qed

lemma reader_chars_written:
  "kosync_utf8_valid (out @ t) \<Longrightarrow> length out + length t < cap \<Longrightarrow>
   reader_chars cap out (concat (map json_escape t) @ 34 # rest) = Some (out @ t, rest)"
proof (induction t arbitrary: out)
  case (Cons c t)
  have c: "c \<noteq> 0" using Cons.prems kosync_valid_snoc by fastforce
  have "reader_chars cap out (json_escape c @ concat (map json_escape t) @ 34 # rest) =
      reader_chars cap (out @ [c]) (concat (map json_escape t) @ 34 # rest)"
    by (rule reader_chars_escape[OF c]) (use Cons.prems in simp)
  then show ?case using Cons.IH[of "out @ [c]"] Cons.prems by simp
qed simp

lemma reader_string_written:
  assumes "kosync_utf8_valid t" "length t < cap"
  shows "reader_string cap (json_string t @ rest) = Some (t, rest)"
  using assms reader_chars_written[of "[]" t cap rest]
  by (auto simp: reader_string_def json_string_def reader_take_def reader_space_def json_space_def)

section \<open>Writing and reading a percentage\<close>

definition percentage_text :: "int \<Rightarrow> bytes" where
  "percentage_text p = (if p = 10000 then str ''1'' else if p = 0 then str ''0''
     else strip_zeros (percent_number (nat p)))"

lemma digits_value_snoc: "digits_value (ds @ [d]) = digits_value ds * 10 + (unat d - 48)"
  by (simp add: digits_value_def)

lemma json_digit_unat: "json_digit c \<longleftrightarrow> 48 \<le> unat c \<and> unat c \<le> 57"
  by (simp add: json_digit_def word_le_nat_alt)

lemma strip_zeros_fraction:
  assumes "list_all json_digit ds" "0 < digits_value ds"
  shows "\<exists>ds'. strip_zeros (48 # 46 # ds) = 48 # 46 # ds' \<and> ds' \<noteq> [] \<and> length ds' \<le> length ds \<and>
    list_all json_digit ds' \<and> digits_value ds' * 10 ^ (length ds - length ds') = digits_value ds"
  using assms
proof (induction ds rule: rev_induct)
  case (snoc d ds)
  show ?case
  proof (cases "d = 48")
    case True
    then have v: "0 < digits_value ds" "digits_value (ds @ [d]) = digits_value ds * 10"
      using snoc.prems by (simp_all add: digits_value_snoc)
    have strip: "strip_zeros (48 # 46 # ds @ [d]) = strip_zeros (48 # 46 # ds)"
      using True v(1) by (subst strip_zeros.simps) (auto simp: butlast_append digits_value_def)
    have "list_all json_digit ds" using snoc.prems by simp
    from snoc.IH[OF this v(1)] obtain ds' where d: "strip_zeros (48 # 46 # ds) = 48 # 46 # ds'" "ds' \<noteq> []"
      "length ds' \<le> length ds" "list_all json_digit ds'"
      "digits_value ds' * 10 ^ (length ds - length ds') = digits_value ds" by blast
    have "length (ds @ [d]) - length ds' = Suc (length ds - length ds')" using d(3) by simp
    then have "digits_value ds' * 10 ^ (length (ds @ [d]) - length ds') = digits_value (ds @ [d])"
      unfolding v(2) d(5)[symmetric] by simp
    then show ?thesis using strip d by (intro exI[of _ ds']) simp
  next
    case False
    then have "strip_zeros (48 # 46 # ds @ [d]) = 48 # 46 # ds @ [d]" by (subst strip_zeros.simps) auto
    then show ?thesis using snoc.prems by (intro exI[of _ "ds @ [d]"]) simp
  qed
qed (simp add: digits_value_def)

definition number_end :: "byte \<Rightarrow> bool" where
  "number_end c \<longleftrightarrow> c \<notin> {of_char CHR ''.'', of_char CHR ''e'', of_char CHR ''E''} \<and> \<not> json_digit c"

lemma dropWhile_digits:
  "list_all json_digit ds \<Longrightarrow> \<not> json_digit c \<Longrightarrow> dropWhile json_digit (ds @ c # rest) = c # rest"
  by (induction ds) (auto simp: list_all_iff)

lemma all_digits: "list_all json_digit ds \<Longrightarrow> takeWhile json_digit ds = ds \<and> dropWhile json_digit ds = []"
  by (induction ds) auto

lemma number_token_fraction:
  assumes ds: "list_all json_digit ds" "ds \<noteq> []" "length ds + 2 < cap" and c: "number_end c"
  shows "number_token cap (48 # 46 # ds @ c # rest) = Some (48 # 46 # ds, c # rest)"
proof -
  obtain d ds' where d: "ds = d # ds'" "json_digit d" using ds by (cases ds) auto
  have f: "fraction_part (46 # ds @ c # rest) = Some (c # rest)"
    using d ds c by (simp add: fraction_part_def starts_def number_end_def dropWhile_digits)
  have e: "exponent_part (c # rest) = Some (c # rest)" using c by (auto simp: exponent_part_def starts_def number_end_def)
  show ?thesis using f e ds
    by (simp add: number_token_def reader_space_def json_space_def starts_def integer_part_def Let_def)
qed

lemma number_token_digit:
  assumes c: "number_end c" and d: "d = of_char CHR ''0'' \<or> d = of_char CHR ''1''" and cap: "1 < cap"
  shows "number_token cap (d # c # rest) = Some ([d], c # rest)"
proof -
  have f: "fraction_part (c # rest) = Some (c # rest)" "exponent_part (c # rest) = Some (c # rest)"
    using c by (auto simp: fraction_part_def exponent_part_def starts_def number_end_def)
  have "integer_part (d # c # rest) = Some (c # rest)"
    using d c by (auto simp: integer_part_def starts_def number_end_def)
  then show ?thesis using f d cap
    by (auto simp: number_token_def reader_space_def json_space_def starts_def Let_def)
qed

lemma strtod_fraction:
  assumes "list_all json_digit ds"
  shows "strtod_value (48 # 46 # ds) = of_nat (digits_value ds) / 10 ^ length ds"
proof -
  have "digits_value (48 # ds) = digits_value ds" "digits_value [48] = 0" "digits_value [] = 0" by (simp_all add: digits_value_def)
  then show ?thesis using assms
    by (simp add: strtod_value_def starts_def Let_def json_digit_def[of 48] json_digit_def[of 46] all_digits
        exponent_value_def scale_ten_def)
qed

lemma strtod_digit: "strtod_value [48] = 0" "strtod_value [49] = 1"
  by (simp_all add: strtod_value_def starts_def Let_def json_digit_def exponent_value_def scale_ten_def digits_value_def)

lemma unat_decimal_digit: "unat (decimal_digit n) = 48 + n mod 10"
proof -
  have "n mod 10 < 10" by simp
  then have "48 + n mod 10 < 256" by linarith
  then show ?thesis by (simp add: decimal_digit_def unat_of_nat[of "48 + n mod 10", where ?'a = 8, simplified] take_bit_nat_eq_self)
qed

lemma percent_digits:
  assumes p: "p < 10000"
  defines "ds \<equiv> [decimal_digit (p div 1000), decimal_digit (p div 100), decimal_digit (p div 10), decimal_digit p]"
  shows "list_all json_digit ds" "digits_value ds = p"
proof -
  show "list_all json_digit ds" by (auto simp: ds_def json_digit_unat unat_decimal_digit)
  have e: "p div 100 = p div 10 div 10" "p div 1000 = p div 100 div 10" by (simp_all add: div_mult2_eq[symmetric])
  have q: "p div 100 * 10 + p div 10 mod 10 = p div 10" "p div 1000 * 10 + p div 100 mod 10 = p div 100"
    "p div 10 * 10 + p mod 10 = p" unfolding e by (simp_all only: div_mult_mod_eq)
  have m: "p div 1000 mod 10 = p div 1000" using p by simp
  have "digits_value ds = ((p div 1000 mod 10 * 10 + p div 100 mod 10) * 10 + p div 10 mod 10) * 10 + p mod 10"
    by (simp add: ds_def digits_value_def unat_decimal_digit)
  also have "\<dots> = p" by (simp only: m q)
  finally show "digits_value ds = p" .
qed

lemma reader_percentage_written:
  assumes p: "0 \<le> p" "p \<le> 10000" and c: "number_end c"
  shows "reader_percentage u (percentage_text p @ c # rest) = Some (p, c # rest)"
proof -
  consider "p = 0" | "p = 10000" | "0 < p" "p < 10000" using p by linarith
  then show ?thesis
  proof cases
    case 1
    have s: "strtod_value [of_char CHR ''0''] = 0" using strtod_digit by simp
    have "\<lfloor>binary64 (binary64 (1 / 10 ^ 9))\<rfloor> = 0" by (rule binary64_epsilon)
    then show ?thesis using number_token_digit[OF c, of "of_char CHR ''0''" token_capacity rest] s
      by (simp add: 1 percentage_text_def reader_percentage_def token_capacity_def strtod_errno_def binary64_overflow_def
          binary64_tiny_def Let_def)
  next
    case 2
    have s: "strtod_value [of_char CHR ''1''] = 1" using strtod_digit by simp
    show ?thesis using number_token_digit[OF c, of "of_char CHR ''1''" token_capacity rest] s
        binary64_scaled[of 10000] binary64_in_range[of 10000]
      by (simp add: 2 percentage_text_def reader_percentage_def token_capacity_def strtod_errno_def Let_def)
  next
    case 3
    define ds where "ds = [decimal_digit (nat p div 1000), decimal_digit (nat p div 100), decimal_digit (nat p div 10), decimal_digit (nat p)]"
    have n: "nat p < 10000" using 3 by simp
    note D = percent_digits[OF n, folded ds_def]
    obtain ds' where d: "strip_zeros (48 # 46 # ds) = 48 # 46 # ds'" "ds' \<noteq> []" "length ds' \<le> length ds"
      "list_all json_digit ds'" "digits_value ds' * 10 ^ (length ds - length ds') = digits_value ds"
      using strip_zeros_fraction[of ds] D 3 by auto
    have len: "length ds = 4" by (simp add: ds_def)
    have "(10 :: rat) ^ 4 = 10 ^ (4 - length ds') * 10 ^ length ds'" using d(3) len by (simp add: power_add[symmetric])
    moreover have "of_nat (digits_value ds') * 10 ^ (4 - length ds') = (of_int p :: rat)"
      using arg_cong[OF d(5), of "of_nat :: nat \<Rightarrow> rat"] D(2) 3 len by simp
    ultimately have "of_nat (digits_value ds') * 10 ^ 4 = of_int p * (10 :: rat) ^ length ds'"
      by (metis mult.assoc)
    then have v: "strtod_value (48 # 46 # ds') = of_int p / 10000"
      unfolding strtod_fraction[OF d(4)] by (simp add: field_simps)
    have t: "percentage_text p = 48 # 46 # ds'" using 3 d(1) by (simp add: percentage_text_def percent_number_def ds_def)
    have "number_token token_capacity (48 # 46 # ds' @ c # rest) = Some (48 # 46 # ds', c # rest)"
      by (rule number_token_fraction[OF d(4,2) _ c]) (use d(3) len in \<open>simp add: token_capacity_def\<close>)
    then show ?thesis using 3 binary64_scaled[of p] binary64_in_range[of p]
      by (simp add: reader_percentage_def t v strtod_errno_def Let_def)
  qed
qed

section \<open>Writing and reading a progress object\<close>

text \<open>A step of the writer that adds a given text where it fits.\<close>

definition appends :: "nat \<Rightarrow> (bytes \<Rightarrow> bytes option) \<Rightarrow> bytes \<Rightarrow> bool" where
  "appends cap step t \<longleftrightarrow>
     (\<forall>w. length w \<le> cap \<longrightarrow> step w = (if length w + length t \<le> cap then Some (w @ t) else None))"

lemma appends_bytes: "appends cap (writer_bytes cap d) d"
  by (auto simp: appends_def writer_bytes_def)

lemma appends_bind: "appends cap f t \<Longrightarrow> appends cap g u \<Longrightarrow> appends cap (\<lambda>w. Option.bind (f w) g) (t @ u)"
  by (auto simp: appends_def)

lemma appends_chars: "appends cap (writer_chars cap t) (concat (map json_escape t))"
proof (induction t)
  case (Cons c t)
  have "writer_chars cap (c # t) = (\<lambda>w. Option.bind (writer_bytes cap (json_escape c) w) (writer_chars cap t))"
    by (rule ext) (simp split: option.splits)
  then show ?case using appends_bind[OF appends_bytes Cons.IH] by simp
qed (simp add: appends_def)

lemma appends_string: "terminated t \<Longrightarrow> appends cap (writer_string cap t) (json_string t)"
  using appends_bind[OF appends_bytes appends_bind[OF appends_chars appends_bytes], of cap "[34]" t "[34]"]
  by (simp add: writer_string_def[abs_def] json_string_def)

lemma appends_percentage: "appends cap (writer_percentage cap p) (percentage_text p)"
proof -
  have "writer_percentage cap p = writer_bytes cap (percentage_text p)"
    by (rule ext) (simp add: writer_percentage_def percentage_text_def)
  then show ?thesis by (simp add: appends_bytes)
qed

lemma appends_steps:
  "list_all2 (appends cap) steps ts \<Longrightarrow> length w \<le> cap \<Longrightarrow>
   foldl Option.bind (Some w) steps = (if length (w @ concat ts) \<le> cap then Some (w @ concat ts) else None)"
proof (induction steps ts arbitrary: w rule: list_all2_induct)
  case (Cons step steps t ts)
  have none: "foldl Option.bind None xs = None" for xs :: "(bytes \<Rightarrow> bytes option) list" by (induction xs) auto
  show ?case using Cons by (auto simp: appends_def none)
qed simp

definition member_text :: "byte \<Rightarrow> string \<Rightarrow> bytes" where
  "member_text c key = [c] @ [34] @ str key @ [34] @ [of_char CHR '':'']"

definition progress_text :: "cn_kosync_progress \<Rightarrow> bytes" where
  "progress_text p = concat
     [member_text (of_char CHR ''{'') ''document'', json_string (document_id p),
      member_text (of_char CHR '','') ''progress'', json_string (the (logical_position p)),
      member_text (of_char CHR '','') ''percentage'', percentage_text (scaled_progress p),
      member_text (of_char CHR '','') ''device'', json_string (device p),
      member_text (of_char CHR '','') ''device_id'', json_string (device_id p), str ''}'']"

text \<open>What the setter accepts, and what every progress record that reaches the network satisfies.\<close>

definition progress_ok :: "cn_kosync_progress \<Rightarrow> bool" where
  "progress_ok p \<longleftrightarrow> document_id_ok (Some (document_id p)) \<and> terminated (document_id p) \<and>
     logical_position p \<noteq> None \<and> position_ok (logical_position p) \<and> terminated (the (logical_position p)) \<and>
     0 \<le> scaled_progress p \<and> scaled_progress p \<le> 10000 \<and>
     header_text_ok (Some (device p)) kosync_device_max False \<and> kosync_utf8_valid (device p) \<and>
     header_text_ok (Some (device_id p)) kosync_device_max False \<and> kosync_utf8_valid (device_id p)"

lemma serialize_members_eq:
  assumes "progress_ok p"
  shows "serialize_members cap p = (if length (progress_text p) \<le> cap then Some (progress_text p) else None)"
proof -
  have t: "terminated (document_id p)" "terminated (the (logical_position p))" "terminated (device p)" "terminated (device_id p)"
    using assms kosync_valid_terminated by (auto simp: progress_ok_def)
  show ?thesis unfolding serialize_members_def
    by (subst appends_steps[where ts = "[member_text (of_char CHR ''{'') ''document'', json_string (document_id p),
      member_text (of_char CHR '','') ''progress'', json_string (the (logical_position p)),
      member_text (of_char CHR '','') ''percentage'', percentage_text (scaled_progress p),
      member_text (of_char CHR '','') ''device'', json_string (device p),
      member_text (of_char CHR '','') ''device_id'', json_string (device_id p), str ''}'']"])
     (auto simp: progress_text_def member_text_def appends_bytes appends_string appends_percentage t)
qed

lemma json_escape_length: "length (json_escape c) \<le> 6" "\<not> c < 0x20 \<Longrightarrow> length (json_escape c) \<le> 2"
  by (auto simp: json_escape_def word_less_nat_alt)

lemma concat_length_le: "list_all (\<lambda>x. length (f x) \<le> n) xs \<Longrightarrow> length (concat (map f xs)) \<le> n * length xs"
  by (induction xs) auto

lemma json_string_length:
  "length (json_string t) \<le> 6 * length t + 2"
  "list_all (\<lambda>c. \<not> c < 0x20) t \<Longrightarrow> length (json_string t) \<le> 2 * length t + 2"
  using concat_length_le[of json_escape 6 t] concat_length_le[of json_escape 2 t]
  by (auto simp: json_string_def json_escape_length list_all_iff)

lemma percentage_text_length: "length (percentage_text p) \<le> 6"
proof -
  have "length (strip_zeros n) \<le> length n" for n
    by (induction n rule: strip_zeros.induct) (subst strip_zeros.simps, auto)
  from this[of "percent_number (nat p)"] show ?thesis by (simp add: percentage_text_def percent_number_def)
qed

lemma header_text_terminated:
  "header_text_ok (Some t) n e \<Longrightarrow> terminated t \<Longrightarrow> length t \<le> n \<and> list_all (\<lambda>c. \<not> c < 0x20) t \<and> (t = [] \<longrightarrow> e)"
  by (auto simp: header_text_ok_def kosync_bounded_length_def scan_nul_terminated Let_def min_def list_all_iff split: if_splits)

lemma document_id_terminated:
  "document_id_ok (Some t) \<Longrightarrow> terminated t \<Longrightarrow> length t = kosync_document_id_bytes \<and> list_all lower_hex t"
  by (auto simp: document_id_ok_def kosync_bounded_length_def scan_nul_terminated min_def split: if_splits)

lemma position_terminated:
  "position_ok (Some t) \<Longrightarrow> terminated t \<Longrightarrow> t \<noteq> [] \<and> length t \<le> kosync_position_max \<and> kosync_utf8_valid t"
  by (auto simp: position_ok_def kosync_bounded_length_def scan_nul_terminated Let_def min_def split: if_splits)

lemma lower_hex_ascii: "lower_hex c \<Longrightarrow> \<not> c < 0x20 \<and> c \<noteq> 0 \<and> c < 0x80"
  by (auto simp: lower_hex_def word_le_nat_alt word_less_nat_alt)

lemma ascii_utf8: "list_all (\<lambda>c. c \<noteq> 0 \<and> c < 0x80) t \<Longrightarrow> kosync_utf8_valid t"
  by (induction t) (auto simp: kosync_utf8_valid.simps)

lemma progress_ok_parts:
  assumes "progress_ok p"
  obtains q where "logical_position p = Some q" "q \<noteq> []" "length q \<le> 65536" "kosync_utf8_valid q"
    "length (document_id p) = 32" "list_all lower_hex (document_id p)" "kosync_utf8_valid (document_id p)"
    "length (device p) \<le> 255" "kosync_utf8_valid (device p)" "device p \<noteq> []" "list_all (\<lambda>c. \<not> c < 0x20) (device p)"
    "length (device_id p) \<le> 255" "kosync_utf8_valid (device_id p)" "list_all (\<lambda>c. \<not> c < 0x20) (device_id p)"
proof -
  have d: "length (document_id p) = 32" "list_all lower_hex (document_id p)"
    using assms document_id_terminated by (auto simp: progress_ok_def kosync_document_id_bytes_def)
  then have "kosync_utf8_valid (document_id p)"
    using lower_hex_ascii by (intro ascii_utf8) (auto simp: list_all_iff)
  moreover obtain q where "logical_position p = Some q" using assms by (auto simp: progress_ok_def)
  ultimately show thesis using assms d that position_terminated[of q] header_text_terminated[of "device p" kosync_device_max False]
      header_text_terminated[of "device_id p" kosync_device_max False] kosync_valid_terminated
    by (auto simp: progress_ok_def kosync_position_max_def kosync_device_max_def)
qed

lemma progress_text_length:
  assumes "progress_ok p"
  shows "length (progress_text p) \<le> kosync_json_max"
proof -
  from progress_ok_parts[OF assms] obtain q where q: "logical_position p = Some q" "length q \<le> 65536"
    "length (document_id p) = 32" "length (device p) \<le> 255" "list_all (\<lambda>c. \<not> c < 0x20) (device p)"
    "length (device_id p) \<le> 255" "list_all (\<lambda>c. \<not> c < 0x20) (device_id p)" by metis
  show ?thesis using q(1-4,6) json_string_length(1)[of q] json_string_length(1)[of "document_id p"]
      json_string_length(2)[OF q(5)] json_string_length(2)[OF q(7)] percentage_text_length[of "scaled_progress p"]
    by (simp add: progress_text_def member_text_def kosync_json_max_def kosync_position_max_def)
qed

lemma member_key_text:
  assumes "json_string (str key) = [34] @ str key @ [34]" "kosync_utf8_valid (str key)" "length key < 32"
  shows "member_key False (member_text (of_char CHR '','') key @ rest) = Some (str key, rest)"
    "member_key True (tl (member_text c key) @ rest) = Some (str key, rest)"
proof -
  have "reader_string 32 ([34] @ str key @ [34] @ r) = Some (str key, r)" for r
    using reader_string_written[OF assms(2), of 32 r] assms(1,3) by simp
  from this[of "of_char CHR '':'' # rest"] 
  show "member_key False (member_text (of_char CHR '','') key @ rest) = Some (str key, rest)"
    "member_key True (tl (member_text c key) @ rest) = Some (str key, rest)"
    by (simp_all add: member_key_def member_text_def reader_take_def reader_space_def json_space_def)
qed

lemma parse_members_next:
  assumes "member_key first r = Some (key, r1)" "parse_member u key r1 parsed s = (Inr (c # r2, parsed'), s')"
    "\<not> json_space c" "c \<noteq> of_char CHR ''}''"
  shows "parse_members u first r parsed s = parse_members u False (c # r2) parsed' s'"
proof -
  have "r \<noteq> []" using assms(1) by (auto simp: member_key_def reader_string_def reader_take_def reader_space_def split: if_splits)
  then show ?thesis using assms by (subst parse_members.simps) (simp add: reader_space_def starts_def)
qed

lemma parse_members_last:
  assumes "member_key first r = Some (key, r1)" "parse_member u key r1 parsed s = (Inr ([of_char CHR ''}''], parsed'), s')"
  shows "parse_members u first r parsed s = (Inr parsed', s')"
proof -
  have "r \<noteq> []" using assms(1) by (auto simp: member_key_def reader_string_def reader_take_def reader_space_def split: if_splits)
  then show ?thesis using assms by (subst parse_members.simps) (simp add: reader_space_def starts_def json_space_def)
qed

lemma keys_plain:
  "json_string (str ''document'') = [34] @ str ''document'' @ [34]" "kosync_utf8_valid (str ''document'')"
  "json_string (str ''progress'') = [34] @ str ''progress'' @ [34]" "kosync_utf8_valid (str ''progress'')"
  "json_string (str ''percentage'') = [34] @ str ''percentage'' @ [34]" "kosync_utf8_valid (str ''percentage'')"
  "json_string (str ''device'') = [34] @ str ''device'' @ [34]" "kosync_utf8_valid (str ''device'')"
  "json_string (str ''device_id'') = [34] @ str ''device_id'' @ [34]" "kosync_utf8_valid (str ''device_id'')"
  by (simp_all add: json_string_def json_escape_def kosync_utf8_valid.simps)

lemma parse_written:
  assumes ok: "progress_ok p" and calm: "sys_malloc s = (True, s')"
  shows "parse_object u (Some (progress_text p)) s =
    (Inr \<lparr>parsed_progress = p\<lparr>timestamp := 0, has_timestamp := False\<rparr>,
       parsed_fields = {FIELD_DOCUMENT, FIELD_PROGRESS, FIELD_PERCENTAGE, FIELD_DEVICE, FIELD_DEVICE_ID}\<rparr>, s')"
proof -
  from progress_ok_parts[OF ok] obtain q where q: "logical_position p = Some q" "q \<noteq> []" "length q \<le> 65536" "kosync_utf8_valid q"
    "length (document_id p) = 32" "kosync_utf8_valid (document_id p)"
    "length (device p) \<le> 255" "kosync_utf8_valid (device p)"
    "length (device_id p) \<le> 255" "kosync_utf8_valid (device_id p)" by metis
  have range: "0 \<le> scaled_progress p" "scaled_progress p \<le> 10000" using ok by (simp_all add: progress_ok_def)
  let ?m = "member_text (of_char CHR '','')"
  let ?final = "str ''}''"
  define r5 where "r5 = ?m ''device_id'' @ json_string (device_id p) @ ?final"
  define r4 where "r4 = ?m ''device'' @ json_string (device p) @ r5"
  define r3 where "r3 = ?m ''percentage'' @ percentage_text (scaled_progress p) @ r4"
  define r2 where "r2 = ?m ''progress'' @ json_string q @ r3"
  define r1 where "r1 = tl (member_text (of_char CHR ''{'') ''document'') @ json_string (document_id p) @ r2"
  define p0 where "p0 = \<lparr>parsed_progress = blank_progress, parsed_fields = {}\<rparr>"
  define p1 where "p1 = \<lparr>parsed_progress = blank_progress\<lparr>document_id := document_id p\<rparr>, parsed_fields = {FIELD_DOCUMENT}\<rparr>"
  define p2 where "p2 = \<lparr>parsed_progress = (parsed_progress p1)\<lparr>logical_position := Some q\<rparr>, parsed_fields = {FIELD_DOCUMENT, FIELD_PROGRESS}\<rparr>"
  define p3 where "p3 = \<lparr>parsed_progress = (parsed_progress p2)\<lparr>scaled_progress := scaled_progress p\<rparr>,
    parsed_fields = {FIELD_DOCUMENT, FIELD_PROGRESS, FIELD_PERCENTAGE}\<rparr>"
  define p4 where "p4 = \<lparr>parsed_progress = (parsed_progress p3)\<lparr>device := device p\<rparr>,
    parsed_fields = {FIELD_DOCUMENT, FIELD_PROGRESS, FIELD_PERCENTAGE, FIELD_DEVICE}\<rparr>"
  define p5 where "p5 = \<lparr>parsed_progress = (parsed_progress p4)\<lparr>device_id := device_id p\<rparr>,
    parsed_fields = {FIELD_DOCUMENT, FIELD_PROGRESS, FIELD_PERCENTAGE, FIELD_DEVICE, FIELD_DEVICE_ID}\<rparr>"
  have heads: "\<exists>t. r2 = 44 # t" "\<exists>t. r3 = 44 # t" "\<exists>t. r4 = 44 # t" "\<exists>t. r5 = 44 # t"
    by (simp_all add: r2_def r3_def r4_def r5_def member_text_def)
  have k1: "member_key True r1 = Some (str ''document'', json_string (document_id p) @ r2)"
    unfolding r1_def by (rule member_key_text(2)[OF keys_plain(1,2)]) simp
  have k2: "member_key False r2 = Some (str ''progress'', json_string q @ r3)"
    unfolding r2_def by (rule member_key_text(1)[OF keys_plain(3,4)]) simp
  have k3: "member_key False r3 = Some (str ''percentage'', percentage_text (scaled_progress p) @ r4)"
    unfolding r3_def by (rule member_key_text(1)[OF keys_plain(5,6)]) simp
  have k4: "member_key False r4 = Some (str ''device'', json_string (device p) @ r5)"
    unfolding r4_def by (rule member_key_text(1)[OF keys_plain(7,8)]) simp
  have k5: "member_key False r5 = Some (str ''device_id'', json_string (device_id p) @ ?final)"
    unfolding r5_def by (rule member_key_text(1)[OF keys_plain(9,10)]) simp
  have pct: "reader_percentage u (percentage_text (scaled_progress p) @ r4) = Some (scaled_progress p, r4)"
    using heads(3) reader_percentage_written[OF range, of 44] by (auto simp: number_end_def json_digit_def)
  have m1: "parse_member u (str ''document'') (json_string (document_id p) @ r2) p0 s = (Inr (r2, p1), s)"
    using q by (simp add: parse_member_def string_member_def set_once_def p0_def p1_def checked_def kosync_document_id_bytes_def
        reader_string_written)
  have m2: "parse_member u (str ''progress'') (json_string q @ r3) p1 s = (Inr (r3, p2), s')"
    using q calm by (simp add: parse_member_def position_member_def set_once_def p1_def p2_def kosync_position_max_def
        reader_string_written insert_commute)
  have m3: "parse_member u (str ''percentage'') (percentage_text (scaled_progress p) @ r4) p2 s' = (Inr (r4, p3), s')"
    using pct by (simp add: parse_member_def number_member_def set_once_def p2_def p3_def checked_def insert_commute)
  have m4: "parse_member u (str ''device'') (json_string (device p) @ r5) p3 s' = (Inr (r5, p4), s')"
    using q by (simp add: parse_member_def string_member_def set_once_def p3_def p4_def checked_def kosync_device_max_def
        reader_string_written insert_commute)
  have m5: "parse_member u (str ''device_id'') (json_string (device_id p) @ ?final) p4 s' = (Inr (?final, p5), s')"
    using q by (simp add: parse_member_def string_member_def set_once_def p4_def p5_def checked_def kosync_device_max_def
        reader_string_written insert_commute)
  have next': "parse_members u first r parsed t = parse_members u False r' parsed' t'"
    if "member_key first r = Some (key, x)" "parse_member u key x parsed t = (Inr (r', parsed'), t')" "\<exists>y. r' = 44 # y"
    for first r key x parsed t r' parsed' t' using that parse_members_next by (force simp: json_space_def)
  have "parse_members u True r1 p0 s = (Inr p5, s')"
    unfolding next'[OF k1 m1 heads(1)] next'[OF k2 m2 heads(2)] next'[OF k3 m3 heads(3)] next'[OF k4 m4 heads(4)]
    by (rule parse_members_last[OF k5]) (use m5 in simp)
  moreover have "progress_text p = 123 # r1"
    by (simp add: progress_text_def r1_def r2_def r3_def r4_def r5_def q(1) member_text_def)
  moreover have "\<exists>y. r1 = 34 # y" by (simp add: r1_def member_text_def)
  moreover have "parsed_progress p5 = p\<lparr>timestamp := 0, has_timestamp := False\<rparr>"
    by (simp add: p5_def p4_def p3_def p2_def p1_def q(1)[symmetric] blank_progress_def)
  ultimately show ?thesis using progress_text_length[OF ok]
    by (auto simp: parse_object_def reader_take_def reader_space_def json_space_def starts_def p0_def p5_def)
qed

section \<open>What the parser accepts\<close>

text \<open>The fields of an object that were read so far satisfy the bounds of their buffers.\<close>

definition object_ok :: "parsed_object \<Rightarrow> bool" where
  "object_ok parsed \<longleftrightarrow> (let p = parsed_progress parsed; f = parsed_fields parsed in
     kosync_utf8_valid (document_id p) \<and> length (document_id p) \<le> 32 \<and>
     kosync_utf8_valid (device p) \<and> length (device p) \<le> 255 \<and>
     kosync_utf8_valid (device_id p) \<and> length (device_id p) \<le> 255 \<and>
     (FIELD_PROGRESS \<in> f \<longrightarrow> (\<exists>q. logical_position p = Some q \<and> kosync_utf8_valid q \<and> q \<noteq> [] \<and> length q \<le> 65536)) \<and>
     (FIELD_PERCENTAGE \<in> f \<longrightarrow> 0 \<le> scaled_progress p \<and> scaled_progress p \<le> 10000) \<and>
     has_timestamp p = (FIELD_TIMESTAMP \<in> f) \<and> 0 \<le> timestamp p \<and> timestamp p \<le> llong_max \<and>
     (FIELD_TIMESTAMP \<notin> f \<longrightarrow> timestamp p = 0))"

lemma append_codepoint_length: "append_codepoint cap out v = Some out' \<Longrightarrow> length out' < cap"
  by (auto simp: append_codepoint_def split: if_splits)

lemma reader_escape_room: "reader_escape cap out r = Some (out', rest) \<Longrightarrow> length out' < cap"
  by (auto simp: reader_escape_def dest: append_codepoint_length split: list.splits if_splits option.splits)

lemma reader_chars_valid:
  "reader_chars cap out r = Some (t, rest) \<Longrightarrow> length out < cap \<Longrightarrow> kosync_utf8_valid t \<and> length t < cap"
proof (induction cap out r rule: reader_chars.induct)
  case (2 cap out c r)
  show ?case
  proof (cases "reader_escape cap out r")
    case None
    then show ?thesis using "2.prems" "2.IH"(2) by (auto split: if_splits)
  next
    case (Some x)
    then obtain out' r' where e: "reader_escape cap out r = Some (out', r')" by (cases x) auto
    then show ?thesis using "2.prems" "2.IH"(1)[OF _ _ _ e refl] "2.IH"(2) reader_escape_room[OF e]
      by (auto split: if_splits)
  qed
qed simp

lemma reader_string_valid: "reader_string cap r = Some (t, rest) \<Longrightarrow> kosync_utf8_valid t \<and> length t < cap"
  by (auto simp: reader_string_def dest!: reader_chars_valid split: if_splits option.splits)

lemma reader_percentage_range: "reader_percentage u r = Some (v, rest) \<Longrightarrow> 0 \<le> v \<and> v \<le> 10000"
  by (auto simp: reader_percentage_def Let_def split: option.splits if_splits)

lemma reader_timestamp_range: "reader_timestamp r = Some (v, rest) \<Longrightarrow> 0 \<le> v \<and> v \<le> llong_max"
  by (auto simp: reader_timestamp_def Let_def split: option.splits if_splits)

lemma string_member_Some:
  "string_member f cap put r parsed = Some (rest, parsed') \<Longrightarrow>
   \<exists>v. kosync_utf8_valid v \<and> length v < cap \<and> f \<notin> parsed_fields parsed \<and>
     parsed' = \<lparr>parsed_progress = put v (parsed_progress parsed), parsed_fields = insert f (parsed_fields parsed)\<rparr>"
  using reader_string_valid[of cap r] by (cases parsed) (auto simp: string_member_def set_once_def split: option.splits if_splits)

lemma number_member_Some:
  "number_member f rd put r parsed = Some (rest, parsed') \<Longrightarrow>
   \<exists>v. rd r = Some (v, rest) \<and> f \<notin> parsed_fields parsed \<and>
     parsed' = \<lparr>parsed_progress = put v (parsed_progress parsed), parsed_fields = insert f (parsed_fields parsed)\<rparr>"
  by (cases parsed) (auto simp: number_member_def set_once_def split: option.splits if_splits)

lemma position_member_Some:
  "position_member r parsed s = (Inr (rest, parsed'), s') \<Longrightarrow>
   \<exists>v. kosync_utf8_valid v \<and> length v \<le> 65536 \<and> v \<noteq> [] \<and>
     parsed' = \<lparr>parsed_progress = (parsed_progress parsed)\<lparr>logical_position := Some v\<rparr>,
       parsed_fields = insert FIELD_PROGRESS (parsed_fields parsed)\<rparr>"
  using reader_string_valid[of "kosync_position_max + 1" r]
  by (cases parsed) (auto simp: position_member_def set_once_def kosync_position_max_def split: option.splits if_splits prod.splits bool.splits)

lemma checked_Inr: "checked x s = (Inr y, s') \<longleftrightarrow> x = Some y \<and> s' = s"
  by (auto simp: checked_def split: option.splits)

lemma if_eqE: "(if b then x else y) = z \<Longrightarrow> (x = z \<Longrightarrow> P) \<Longrightarrow> (y = z \<Longrightarrow> P) \<Longrightarrow> P"
  by (cases b) auto

lemma parse_member_ok:
  assumes "parse_member u key r parsed s = (Inr (rest, parsed'), s')" "object_ok parsed"
  shows "object_ok parsed'"
  using assms(1) unfolding parse_member_def
proof (elim if_eqE)
  assume "checked (string_member FIELD_DOCUMENT (kosync_document_id_bytes + 1) (\<lambda>v. document_id_update (\<lambda>_. v)) r parsed) s =
    (Inr (rest, parsed'), s')"
  then show ?thesis using assms(2)
    by (auto simp: checked_Inr object_ok_def Let_def kosync_document_id_bytes_def dest!: string_member_Some)
next
  assume "position_member r parsed s = (Inr (rest, parsed'), s')"
  from position_member_Some[OF this] show ?thesis using assms(2) by (auto simp: object_ok_def Let_def)
next
  assume "checked (number_member FIELD_PERCENTAGE (reader_percentage u) (\<lambda>v. scaled_progress_update (\<lambda>_. v)) r parsed) s =
    (Inr (rest, parsed'), s')"
  then show ?thesis using assms(2)
    by (auto simp: checked_Inr object_ok_def Let_def dest!: number_member_Some reader_percentage_range)
next
  assume "checked (string_member FIELD_DEVICE (kosync_device_max + 1) (\<lambda>v. device_update (\<lambda>_. v)) r parsed) s =
    (Inr (rest, parsed'), s')"
  then show ?thesis using assms(2)
    by (auto simp: checked_Inr object_ok_def Let_def kosync_device_max_def dest!: string_member_Some)
next
  assume "checked (string_member FIELD_DEVICE_ID (kosync_device_max + 1) (\<lambda>v. device_id_update (\<lambda>_. v)) r parsed) s =
    (Inr (rest, parsed'), s')"
  then show ?thesis using assms(2)
    by (auto simp: checked_Inr object_ok_def Let_def kosync_device_max_def dest!: string_member_Some)
next
  assume "checked (number_member FIELD_TIMESTAMP reader_timestamp (\<lambda>v p. p\<lparr>timestamp := v, has_timestamp := True\<rparr>) r parsed) s =
    (Inr (rest, parsed'), s')"
  then show ?thesis using assms(2)
    by (auto simp: checked_Inr object_ok_def Let_def dest!: number_member_Some reader_timestamp_range)
next
  assume "(case reader_skip_scalar u r s of (None, s) \<Rightarrow> (Inl CN_KOSYNC_BAD_JSON, s)
      | (Some rest, s) \<Rightarrow> (Inr (rest, parsed), s)) = (Inr (rest, parsed'), s')"
  then show ?thesis using assms(2) by (auto split: prod.splits option.splits)
qed

lemma parse_members_ok: "parse_members u first r parsed s = (Inr parsed', s') \<Longrightarrow> object_ok parsed \<Longrightarrow> object_ok parsed'"
proof (induction u first r parsed s rule: parse_members.induct)
  case (1 u first r parsed s)
  from "1.prems"(1) have r: "r \<noteq> []" by (subst (asm) parse_members.simps) (auto split: if_splits)
  with "1.prems"(1) obtain key r1 where k: "member_key first r = Some (key, r1)"
    by (subst (asm) parse_members.simps) (auto split: option.splits)
  with r "1.prems"(1) obtain r2 parsed2 s2 where m: "parse_member u key r1 parsed s = (Inr (r2, parsed2), s2)"
    by (subst (asm) parse_members.simps) (auto split: prod.splits sum.splits)
  have ok: "object_ok parsed2" by (rule parse_member_ok[OF m "1.prems"(2)])
  show ?case
  proof (cases "starts [of_char CHR ''}''] (reader_space r2)")
    case True
    then show ?thesis using "1.prems"(1) r k m ok by (subst (asm) parse_members.simps) (auto split: if_splits)
  next
    case False
    have "parse_members u False (reader_space r2) parsed2 s2 = (Inr parsed', s')"
      using "1.prems"(1) r k m False by (subst (asm) parse_members.simps) simp
    then show ?thesis using "1.IH"[OF r k refl m[symmetric] refl refl False _ ok] by simp
  qed
qed

lemma parse_object_ok: "parse_object u json s = (Inr parsed, s') \<Longrightarrow> object_ok parsed"
proof -
  have init: "object_ok \<lparr>parsed_progress = blank_progress, parsed_fields = {}\<rparr>"
    by (simp add: object_ok_def blank_progress_def Let_def llong_max_def)
  assume "parse_object u json s = (Inr parsed, s')"
  then show ?thesis using init parse_members_ok[OF _ init]
    by (auto simp: parse_object_def Let_def split: if_splits option.splits)
qed

section \<open>Properties\<close>

lemma terminated_ok_cstr:
  "header_text_ok (Some (cstr t)) n e = header_text_ok (Some t) n e"
  "document_id_ok (Some (cstr t)) = document_id_ok (Some t)"
  "position_ok (Some (cstr t)) = position_ok (Some t)"
proof -
  have sc: "scan_nul (cstr t) n = scan_nul t n" for n by (simp add: scan_nul_eq strlen_def)
  have tk: "take m (cstr t) = take m t" if "m \<le> strlen t" for m
    using that by (simp add: take_strlen[symmetric] min_def)
  have le: "scan_nul t n \<le> strlen t" for n by (simp add: scan_nul_eq)
  note k = kosync_bounded_length_def sc tk[OF le]
  show "header_text_ok (Some (cstr t)) n e = header_text_ok (Some t) n e" "position_ok (Some (cstr t)) = position_ok (Some t)"
    by (simp_all add: header_text_ok_def position_ok_def k Let_def)
  have "take 32 (cstr t) = take 32 t" if "scan_nul t 33 = 32" using tk[of 32] that le[of 33] by simp
  then show "document_id_ok (Some (cstr t)) = document_id_ok (Some t)"
    by (auto simp: document_id_ok_def k kosync_document_id_bytes_def)
qed

definition progress_of :: "bytes \<Rightarrow> bytes \<Rightarrow> int \<Rightarrow> bytes \<Rightarrow> bytes \<Rightarrow> cn_kosync_progress" where
  "progress_of d q v m i = \<lparr>document_id = cstr d, logical_position = Some (cstr q), scaled_progress = v,
     device = cstr m, device_id = cstr i, timestamp = 0, has_timestamp = False\<rparr>"

text \<open>The setter of a progress record accepts exactly the values the protocol admits: a document
  identifier of 32 lower-case hexadecimal digits, a position of 1 to 65536 bytes of UTF-8, a progress of
  0 to 10000, and device names of 1 to 255 bytes of UTF-8 without control bytes.  Otherwise, and when
  memory is short, it answers an error and leaves the record as it was.\<close>

lemma progress_set_exact:
  "cn_kosync_progress_set (Some old) (Some d) (Some q) v (Some m) (Some i) s =
     (if \<not> progress_ok (progress_of d q v m i) then ((CN_KOSYNC_INVALID, Some old), s)
      else if fst (sys_malloc s) then ((CN_KOSYNC_OK, Some (progress_of d q v m i)), snd (sys_malloc s))
      else ((CN_KOSYNC_NO_MEMORY, Some old), snd (sys_malloc s)))"
  by (auto simp: cn_kosync_progress_set_def progress_ok_def progress_of_def terminated_ok_cstr split: prod.splits bool.splits)

definition sample_progress :: cn_kosync_progress where
  "sample_progress = \<lparr>document_id = replicate 32 (of_char CHR ''0''), logical_position = Some [of_char CHR ''/'', 10, 195, 169],
     scaled_progress = 4250, device = str ''Nook'', device_id = str ''cn'', timestamp = 7, has_timestamp = True\<rparr>"

lemma sample_progress_ok: "progress_ok sample_progress"
proof -
  have d: "document_id_ok (Some (replicate 32 48))"
    by (simp add: document_id_ok_def kosync_bounded_length_def kosync_document_id_bytes_def scan_nul_terminated terminated_def
        lower_hex_def list_all_iff)
  show ?thesis using d
    by (simp add: progress_ok_def sample_progress_def position_ok_def header_text_ok_def kosync_bounded_length_def
        scan_nul_terminated terminated_def kosync_position_max_def kosync_device_max_def kosync_utf8_valid.simps
        kosync_lead_def codepoint_refused_def)
qed

text \<open>C21. What is written is read back: every progress record the setter admits is serialized into a
  text that fits the protocol's buffer of 397312 bytes, and parsing that text gives the record again
  without its time stamp, every percentage of the 10001 included, through the decimal text and the
  double arithmetic of the reader.\<close>

theorem progress_survives_json:
  assumes "progress_ok p" "sys_malloc s = (True, s')"
  shows "\<exists>json. cn_kosync_serialize_progress (Some p) True (kosync_json_max + 1) = Inr json \<and>
     length json \<le> kosync_json_max \<and>
     cn_kosync_parse_progress underflow (Some json) True s = (Inr (p\<lparr>timestamp := 0, has_timestamp := False\<rparr>), s')"
proof -
  have t: "kosync_utf8_valid (cstr (device p))" "kosync_utf8_valid (cstr (device_id p))"
    using assms(1) kosync_valid_terminated by (auto simp: progress_ok_def)
  have d: "device p \<noteq> []" "terminated (device p)" "document_id_ok (Some (document_id p))" using progress_ok_parts[OF assms(1)]
    assms(1) kosync_valid_terminated by (auto simp: progress_ok_def)
  have "char_at (device p) 0 \<noteq> 0" using d by (cases "device p") auto
  then show ?thesis
    using progress_text_length[OF assms(1)] parse_written[OF assms, of underflow] t assms(1) d(3)
    by (intro exI[of _ "progress_text p"])
      (simp add: cn_kosync_serialize_progress_def serialize_members_eq cn_kosync_parse_progress_def progress_ok_def)
qed

lemma progress_survives_json_witness:
  "\<exists>json. cn_kosync_serialize_progress (Some sample_progress) True (kosync_json_max + 1) = Inr json \<and>
     length json \<le> kosync_json_max \<and>
     cn_kosync_parse_progress (\<lambda>_. True) (Some json) True (empty_disk []) =
       (Inr (sample_progress\<lparr>timestamp := 0, has_timestamp := False\<rparr>), snd (sys_malloc (empty_disk [])))"
  by (rule progress_survives_json[OF sample_progress_ok]) (simp add: sys_malloc_def next_fault_def)

text \<open>C22. Whatever bytes a server sends, a progress record the parser accepts has an identifier of 32
  hexadecimal digits, a non-empty position of at most 65536 bytes of UTF-8, a progress between 0 and
  10000, a non-empty device name and a device identifier that fit their buffers of 256 bytes, and a
  time stamp that is not negative, 0 if none was sent.\<close>

theorem parsed_progress_in_bounds:
  assumes "cn_kosync_parse_progress underflow json True s = (Inr p, s')"
  shows "length (document_id p) = 32 \<and> list_all lower_hex (document_id p) \<and>
    (\<exists>q. logical_position p = Some q \<and> kosync_utf8_valid q \<and> q \<noteq> [] \<and> length q \<le> 65536) \<and>
    0 \<le> scaled_progress p \<and> scaled_progress p \<le> 10000 \<and>
    kosync_utf8_valid (device p) \<and> device p \<noteq> [] \<and> length (device p) \<le> 255 \<and>
    kosync_utf8_valid (device_id p) \<and> length (device_id p) \<le> 255 \<and>
    0 \<le> timestamp p \<and> timestamp p < 2 ^ 63 \<and> (has_timestamp p \<or> timestamp p = 0)"
proof -
  obtain parsed where o: "parse_object underflow json s = (Inr parsed, s')" "p = parsed_progress parsed"
    "{FIELD_DOCUMENT, FIELD_PROGRESS, FIELD_PERCENTAGE, FIELD_DEVICE} \<subseteq> parsed_fields parsed"
    "document_id_ok (Some (document_id p))" "char_at (device p) 0 \<noteq> 0"
    using assms by (auto simp: cn_kosync_parse_progress_def split: prod.splits sum.splits if_splits)
  have ok: "object_ok parsed" by (rule parse_object_ok[OF o(1)])
  have "device p \<noteq> []" using o(5) by auto
  moreover have "length (document_id p) = 32 \<and> list_all lower_hex (document_id p)"
    using document_id_terminated[OF o(4)] kosync_valid_terminated ok o(2)
    by (simp add: object_ok_def Let_def kosync_document_id_bytes_def)
  ultimately show ?thesis using ok o(2,3) by (auto simp: object_ok_def Let_def llong_max_def)
qed

lemma parsed_progress_in_bounds_witness:
  "\<exists>json p s'. cn_kosync_parse_progress (\<lambda>_. True) json True (empty_disk []) = (Inr p, s') \<and>
    length (document_id p) = 32 \<and> 0 \<le> scaled_progress p \<and> scaled_progress p \<le> 10000"
proof -
  have m: "sys_malloc (empty_disk []) = (True, snd (sys_malloc (empty_disk [])))" by (simp add: sys_malloc_def next_fault_def)
  have d: "char_at (device sample_progress) 0 \<noteq> 0" by (simp add: sample_progress_def)
  have ok: "document_id_ok (Some (document_id sample_progress))" using sample_progress_ok by (simp add: progress_ok_def)
  have p: "cn_kosync_parse_progress (\<lambda>_. True) (Some (progress_text sample_progress)) True (empty_disk []) =
      (Inr (sample_progress\<lparr>timestamp := 0, has_timestamp := False\<rparr>), snd (sys_malloc (empty_disk [])))"
    using parse_written[OF sample_progress_ok m, of "\<lambda>_. True"] d ok by (simp add: cn_kosync_parse_progress_def)
  from parsed_progress_in_bounds[OF p] p show ?thesis by blast
qed

end
