(* ===== verification/Netsimple.thy ===== *)
theory Netsimple
  imports Sync_Types
begin

text \<open>
  The HTTP texts of src/net/netsimple.c: the checks of addresses, ports, hosts, paths and headers, the
  bounded builders of requests, the parser of status lines and the framing of responses.

  A pointer to a text is a \<open>bytes option\<close>, \<open>None\<close> for NULL; the text ends at its NUL byte or at the end
  of the list.
\<close>

definition netsimple_host_max :: nat where "netsimple_host_max = 255"
definition netsimple_port_max_text :: nat where "netsimple_port_max_text = 8"
definition netsimple_path_max :: nat where "netsimple_path_max = 2048"
definition netsimple_request_max :: nat where "netsimple_request_max = 4096"
definition netsimple_response_max :: nat where "netsimple_response_max = 65536"
definition netsimple_header_max :: nat where "netsimple_header_max = 8"

datatype cn_netsimple_method = CN_NETSIMPLE_METHOD_GET | CN_NETSIMPLE_METHOD_PUT

record cn_netsimple_header =
  header_name :: "bytes option"
  header_value :: "bytes option"

text \<open>\<open>headers\<close> holds the \<open>header_count\<close> headers; \<open>tls\<close> tells whether a TLS configuration is given.\<close>

record cn_netsimple_request =
  method' :: "cn_netsimple_method enum_value"
  host :: "bytes option"
  connect_host :: "bytes option"
  port :: "bytes option"
  path :: "bytes option"
  headers :: "cn_netsimple_header list option"
  header_count :: nat
  content_type :: "bytes option"
  body :: "bytes option"
  body_len :: nat
  tls :: bool

record cn_netsimple_response =
  status :: int
  header_bytes :: nat
  body_bytes :: nat
  total_bytes :: nat
  status_text :: bytes

section \<open>Addresses, ports, hosts and paths\<close>

definition decimal_byte :: "byte \<Rightarrow> bool" where
  "decimal_byte c \<longleftrightarrow> of_char CHR ''0'' \<le> c \<and> c \<le> of_char CHR ''9''"

definition decimal_value :: "byte \<Rightarrow> nat" where
  "decimal_value c = unat c - 48"

fun ipv4_loop :: "bytes \<Rightarrow> nat list \<Rightarrow> nat \<Rightarrow> bool \<Rightarrow> nat list option" where
  "ipv4_loop [] octets current started = (if length octets \<noteq> 3 \<or> \<not> started then None else Some (octets @ [current]))"
| "ipv4_loop (c # text') octets current started =
     (if decimal_byte c then
        (if current > 255 then None
         else let current = current * 10 + decimal_value c in
           if current > 255 then None else ipv4_loop text' octets current True)
      else if c = of_char CHR ''.'' \<and> length octets < 3 \<and> started then ipv4_loop text' (octets @ [current]) 0 False
      else None)"

definition cn_netsimple_parse_ipv4 :: "bytes option \<Rightarrow> nat list option" where
  "cn_netsimple_parse_ipv4 text' = (case text' of None \<Rightarrow> None | Some t \<Rightarrow> ipv4_loop (cstr t) [] 0 False)"

fun port_loop :: "bytes \<Rightarrow> int \<Rightarrow> nat \<Rightarrow> (int \<times> nat) option" where
  "port_loop [] value digits = Some (value, digits)"
| "port_loop (c # text') value digits =
     (if \<not> decimal_byte c then None
      else if digits \<ge> netsimple_port_max_text then None
      else let value = value * 10 + int (decimal_value c) in
        if value > 65535 then None else port_loop text' value (digits + 1))"

definition cn_netsimple_parse_port :: "bytes option \<Rightarrow> int option" where
  "cn_netsimple_parse_port text' = (case text' of None \<Rightarrow> None
     | Some t \<Rightarrow> (case port_loop (cstr t) 0 0 of None \<Rightarrow> None
         | Some (value, digits) \<Rightarrow> if digits = 0 \<or> value < 1 then None else Some value))"

definition host_text_ok :: "bytes option \<Rightarrow> bool" where
  "host_text_ok host' = (case host' of None \<Rightarrow> False
     | Some h \<Rightarrow> cstr h \<noteq> [] \<and> length (cstr h) \<le> netsimple_host_max \<and>
         list_all (\<lambda>c. \<not> (c \<le> 0x20 \<or> c = 0x7f \<or> c = of_char CHR ''/'' \<or> c = 92)) (cstr h))"

definition cn_netsimple_validate :: "bytes option \<Rightarrow> bytes option \<Rightarrow> bytes option \<Rightarrow> bool" where
  "cn_netsimple_validate host' port' path' =
     (if host' = None \<or> port' = None \<or> path' = None then False
      else if \<not> host_text_ok host' then False
      else if cn_netsimple_parse_port port' = None then False
      else if char_at (cstr (the path')) 0 \<noteq> of_char CHR ''/'' then False
      else length (cstr (the path')) \<le> netsimple_path_max \<and>
           list_all (\<lambda>c. \<not> (c \<le> 0x20 \<or> c = 0x7f \<or> c = 92)) (cstr (the path')))"

section \<open>Requests\<close>

definition crlf :: bytes where "crlf = [13, 10]"

definition cn_netsimple_build_request ::
  "bytes option \<Rightarrow> bytes option \<Rightarrow> bytes option \<Rightarrow> bool \<Rightarrow> nat \<Rightarrow> cn_netsimple_result + bytes" where
  "cn_netsimple_build_request host' port' path' request request_cap =
     (if host' = None \<or> port' = None \<or> path' = None \<or> \<not> request then Inl CN_NETSIMPLE_INVALID
      else let written = str ''GET '' @ cstr (the path') @ str '' HTTP/1.0'' @ crlf @ str ''Host: '' @ cstr (the host') @ crlf @ crlf
        in if length written \<ge> request_cap then Inl CN_NETSIMPLE_INVALID else Inr written)"

definition header_name_byte :: "byte \<Rightarrow> bool" where
  "header_name_byte c \<longleftrightarrow> (of_char CHR ''a'' \<le> c \<and> c \<le> of_char CHR ''z'') \<or>
     (of_char CHR ''A'' \<le> c \<and> c \<le> of_char CHR ''Z'') \<or> decimal_byte c \<or> c = of_char CHR ''-''"

definition header_name_ok :: "bytes option \<Rightarrow> bool" where
  "header_name_ok name = (case name of None \<Rightarrow> False
     | Some n \<Rightarrow> cstr n \<noteq> [] \<and> length (cstr n) \<le> 63 \<and> list_all header_name_byte (cstr n))"

definition header_value_ok :: "bytes option \<Rightarrow> bool" where
  "header_value_ok value = (case value of None \<Rightarrow> False
     | Some v \<Rightarrow> length (cstr v) \<le> 2048 \<and> list_all (\<lambda>c. \<not> (c < 0x20 \<or> c = 0x7f)) (cstr v))"

definition append_text :: "nat \<Rightarrow> bytes \<Rightarrow> bytes \<Rightarrow> bytes option" where
  "append_text request_cap text' request =
     (if length request \<ge> request_cap \<or> length (cstr text') \<ge> request_cap - length request then None
      else Some (request @ cstr text'))"

text \<open>A sequence of \<open>append_text\<close> calls, each one skipped once one did not fit.\<close>

definition append_texts :: "nat \<Rightarrow> bytes list \<Rightarrow> bytes \<Rightarrow> bytes option" where
  "append_texts request_cap texts request =
     foldl (\<lambda>r t. Option.bind r (append_text request_cap t)) (Some request) texts"

text \<open>\<open>snprintf\<close> with "Content-Length: %llu": at most 20 digits, so the 64 bytes always suffice.\<close>

definition length_line :: "nat \<Rightarrow> bytes" where
  "length_line n = str ''Content-Length: '' @ decimal_text n @ crlf"

definition append_header :: "nat \<Rightarrow> bytes option \<Rightarrow> cn_netsimple_header \<Rightarrow> bytes option" where
  "append_header request_cap request h = Option.bind request
     (append_texts request_cap [the (header_name h), str '': '', the (header_value h), crlf])"

definition exchange_arguments_ok :: "cn_netsimple_request \<Rightarrow> nat \<Rightarrow> bool" where
  "exchange_arguments_ok spec request_cap \<longleftrightarrow>
     \<not> (request_cap = 0 \<or> \<not> cn_netsimple_validate (host spec) (port spec) (path spec) \<or>
        connect_host spec \<noteq> None \<and> \<not> host_text_ok (connect_host spec) \<or>
        header_count spec > netsimple_header_max \<or> header_count spec \<noteq> 0 \<and> headers spec = None \<or>
        body_len spec \<noteq> 0 \<and> body spec = None)"

text \<open>The name of the method, \<open>None\<close> where its arguments do not fit it.\<close>

definition request_method :: "cn_netsimple_request \<Rightarrow> bytes option" where
  "request_method spec = (case method' spec of
       Known CN_NETSIMPLE_METHOD_GET \<Rightarrow>
         if body spec \<noteq> None \<or> body_len spec \<noteq> 0 \<or> content_type spec \<noteq> None then None else Some (str ''GET'')
     | Known CN_NETSIMPLE_METHOD_PUT \<Rightarrow>
         if body spec = None \<or> content_type spec = None \<or> \<not> header_value_ok (content_type spec) then None
         else Some (str ''PUT'')
     | Unknown _ \<Rightarrow> None)"

definition request_headers :: "cn_netsimple_request \<Rightarrow> cn_netsimple_header list" where
  "request_headers spec = take (header_count spec) (case headers spec of None \<Rightarrow> [] | Some hs \<Rightarrow> hs)"

definition cn_netsimple_build_exchange_request ::
  "cn_netsimple_request option \<Rightarrow> bool \<Rightarrow> nat \<Rightarrow> cn_netsimple_result + bytes" where
  "cn_netsimple_build_exchange_request spec request request_cap = (case spec of None \<Rightarrow> Inl CN_NETSIMPLE_INVALID
     | Some spec \<Rightarrow>
         if \<not> request \<or> \<not> exchange_arguments_ok spec request_cap then Inl CN_NETSIMPLE_INVALID
         else case request_method spec of None \<Rightarrow> Inl CN_NETSIMPLE_INVALID
         | Some name \<Rightarrow>
             if \<not> list_all (\<lambda>h. header_name_ok (header_name h) \<and> header_value_ok (header_value h)) (request_headers spec)
             then Inl CN_NETSIMPLE_INVALID
             else
               let r = append_texts request_cap [name, str '' '', the (path spec), str '' HTTP/1.0'' @ crlf @ str ''Host: '',
                         the (host spec)] [];
                   r = (if tls spec \<and> cstr (the (port spec)) \<noteq> str ''443'' \<or> \<not> tls spec \<and> cstr (the (port spec)) \<noteq> str ''80''
                        then Option.bind r (append_texts request_cap [str '':'', the (port spec)]) else r);
                   r = Option.bind r (append_texts request_cap [crlf]);
                   r = foldl (append_header request_cap) r (request_headers spec);
                   r = (if method' spec = Known CN_NETSIMPLE_METHOD_PUT
                        then Option.bind r (append_texts request_cap
                          [str ''Content-Type: '', the (content_type spec), crlf, length_line (body_len spec)]) else r);
                   r = Option.bind r (append_texts request_cap [crlf])
               in case r of None \<Rightarrow> Inl CN_NETSIMPLE_INVALID | Some text' \<Rightarrow> Inr text')"

section \<open>Status lines\<close>

definition blank :: "byte \<Rightarrow> bool" where
  "blank c \<longleftrightarrow> c = 32 \<or> c = 9"

fun code_digits :: "nat \<Rightarrow> int \<Rightarrow> bytes \<Rightarrow> (int \<times> bytes) option" where
  "code_digits 0 value buf = Some (value, buf)"
| "code_digits (Suc n) value [] = None"
| "code_digits (Suc n) value (c # buf) =
     (if \<not> decimal_byte c then None else code_digits n (value * 10 + int (decimal_value c)) buf)"

definition parse_code :: "bytes \<Rightarrow> (int \<times> bytes) option" where
  "parse_code buf = map_option (\<lambda>(code, rest). (code, dropWhile blank rest)) (code_digits 3 0 (dropWhile blank buf))"

fun first_match :: "bytes \<Rightarrow> bytes \<Rightarrow> nat option" where
  "first_match pattern [] = None"
| "first_match pattern (c # buf) =
     (if take (length pattern) (c # buf) = pattern then Some 0 else map_option Suc (first_match pattern buf))"

definition zero_response :: cn_netsimple_response where
  "zero_response = \<lparr>status = 0, header_bytes = 0, body_bytes = 0, total_bytes = 0, status_text = []\<rparr>"

text \<open>The version of the status line: what follows it, if it is one.\<close>

definition status_version :: "bytes \<Rightarrow> bytes option" where
  "status_version buf =
     (let r = dropWhile (\<lambda>c. c = 13 \<or> c = 10) buf
      in if take 5 r \<noteq> str ''HTTP/'' then None
         else let r = drop 5 r in
           if r = [] \<or> \<not> decimal_byte (hd r) then None
           else let r = tl r in
             if r = [] \<or> hd r \<noteq> of_char CHR ''.'' then None
             else let r = tl r in
               if r = [] \<or> \<not> decimal_byte (hd r) then None
               else let r = tl r;
                        r = (if r \<noteq> [] \<and> decimal_byte (hd r) then tl r else r)
                    in if r = [] \<or> (hd r \<noteq> 32 \<and> hd r \<noteq> 9 \<and> hd r \<noteq> 13) then None else Some r)"

definition header_length :: "bytes \<Rightarrow> nat" where
  "header_length buf =
     (let len = length buf;
          crlfcrlf = (case first_match (crlf @ crlf) buf of None \<Rightarrow> len | Some i \<Rightarrow> i);
          lflf = (case first_match [10, 10] buf of None \<Rightarrow> len | Some i \<Rightarrow> i);
          n = (if crlfcrlf = len \<and> lflf = len then len
               else if crlfcrlf \<le> lflf then crlfcrlf + 4 else lflf + 2)
      in if n > len then len else n)"

definition cn_netsimple_parse_status :: "bytes option \<Rightarrow> bool \<Rightarrow> cn_netsimple_result \<times> cn_netsimple_response" where
  "cn_netsimple_parse_status buf out = (case buf of None \<Rightarrow> (CN_NETSIMPLE_INVALID, zero_response)
     | Some buf \<Rightarrow>
         if \<not> out then (CN_NETSIMPLE_INVALID, zero_response)
         else case Option.bind (status_version buf) parse_code of
           None \<Rightarrow> (CN_NETSIMPLE_BAD_RESPONSE, zero_response)
         | Some (code, rest) \<Rightarrow>
             (CN_NETSIMPLE_OK, \<lparr>status = code, header_bytes = header_length buf,
                body_bytes = length buf - header_length buf, total_bytes = length buf,
                status_text = takeWhile (\<lambda>c. c \<noteq> 13 \<and> c \<noteq> 10) rest\<rparr>))"

section \<open>The length of a response\<close>

text \<open>The answers -1, 0, 1 and 2, the last with the length of the whole response.\<close>

datatype framing = Malformed | Incomplete | Unframed | Framed nat

definition ascii_lower :: "byte \<Rightarrow> byte" where
  "ascii_lower c = (if of_char CHR ''A'' \<le> c \<and> c \<le> of_char CHR ''Z'' then c - of_char CHR ''A'' + of_char CHR ''a'' else c)"

fun length_digits :: "bytes \<Rightarrow> nat \<Rightarrow> bool \<Rightarrow> (nat \<times> bool \<times> bytes) option" where
  "length_digits [] value digits = Some (value, digits, [])"
| "length_digits (c # r) value digits =
     (if \<not> decimal_byte c then Some (value, digits, c # r)
      else if value > (size_max - decimal_value c) div 10 then None
      else length_digits r (value * 10 + decimal_value c) True)"

text \<open>One header line: \<open>None\<close> for an error, else the length found so far.\<close>

definition length_header :: "bytes \<Rightarrow> nat option \<Rightarrow> nat option option" where
  "length_header line found =
     (let name = takeWhile (\<lambda>c. c \<noteq> of_char CHR '':'') line in
      if map ascii_lower name \<noteq> str ''content-length'' then Some found
      else case length_digits (dropWhile blank (drop (length name + 1) line)) 0 False of
        None \<Rightarrow> None
      | Some (value, digits, r) \<Rightarrow>
          if \<not> digits \<or> dropWhile (\<lambda>c. c = 32 \<or> c = 9 \<or> c = 13) r \<noteq> [] \<or> found \<noteq> None then None
          else Some (Some value))"

function length_headers :: "bytes \<Rightarrow> nat option \<Rightarrow> nat option option" where
  "length_headers r found =
     (if r = [] then Some found
      else let line = takeWhile (\<lambda>c. c \<noteq> 10) r
        in case length_header line found of None \<Rightarrow> None
           | Some found \<Rightarrow> length_headers (drop (length line + 1) r) found)"
  by pat_completeness auto
termination by (relation "measure (\<lambda>(r, f). length r)") auto

declare length_headers.simps [simp del]

definition response_content_length :: "bytes \<Rightarrow> framing" where
  "response_content_length buf = (case first_match (crlf @ crlf) buf of
       None \<Rightarrow> Incomplete
     | Some header_end \<Rightarrow>
         if header_end = 0 then Incomplete
         else case length_headers (drop 1 (dropWhile (\<lambda>c. c \<noteq> 10) (take header_end buf))) None of
           None \<Rightarrow> Malformed
         | Some None \<Rightarrow> Unframed
         | Some (Some content_length) \<Rightarrow>
             if content_length > size_max - (header_end + 4) then Malformed
             else Framed (header_end + 4 + content_length))"

section \<open>The lines of a request\<close>

definition request_lines :: "cn_netsimple_request \<Rightarrow> bytes list" where
  "request_lines spec =
     [the (request_method spec) @ str '' '' @ cstr (the (path spec)) @ str '' HTTP/1.0'',
      str ''Host: '' @ cstr (the (host spec)) @
        (if cstr (the (port spec)) = (if tls spec then str ''443'' else str ''80'') then [] else str '':'' @ cstr (the (port spec)))] @
     map (\<lambda>h. cstr (the (header_name h)) @ str '': '' @ cstr (the (header_value h))) (request_headers spec) @
     (if method' spec = Known CN_NETSIMPLE_METHOD_PUT
      then [str ''Content-Type: '' @ cstr (the (content_type spec)), str ''Content-Length: '' @ decimal_text (body_len spec)] else [])"

definition line_byte :: "byte \<Rightarrow> bool" where
  "line_byte c \<longleftrightarrow> 0x20 \<le> c \<and> c \<noteq> 0x7f"

lemma append_texts_None [simp]: "foldl (\<lambda>r t. Option.bind r (append_text cap t)) None ts = None"
  by (induction ts) auto

lemma append_texts_Some:
  "append_texts cap ts r = Some r' \<Longrightarrow> r' = r @ concat (map cstr ts) \<and> (ts \<noteq> [] \<longrightarrow> length r' < cap)"
proof (induction ts arbitrary: r)
  case (Cons t ts)
  then obtain r1 where r1: "append_text cap t r = Some r1" "append_texts cap ts r1 = Some r'"
    by (cases "append_text cap t r") (auto simp: append_texts_def)
  then show ?case using Cons.IH[OF r1(2)] by (cases ts) (auto simp: append_text_def append_texts_def split: if_splits)
qed (simp add: append_texts_def)

lemma append_header_None [simp]: "foldl (append_header cap) None hs = None"
  by (induction hs) (auto simp: append_header_def)

lemma append_headers_Some:
  "foldl (append_header cap) (Some r) hs = Some r' \<Longrightarrow>
   r' = r @ concat (map (\<lambda>h. cstr (the (header_name h)) @ cstr (str '': '') @ cstr (the (header_value h)) @ cstr crlf) hs)"
proof (induction hs arbitrary: r)
  case (Cons h hs)
  then obtain r1 where r1: "append_header cap (Some r) h = Some r1" "foldl (append_header cap) (Some r1) hs = Some r'"
    by (cases "append_header cap (Some r) h") auto
  then show ?case using Cons.IH[OF r1(2)] append_texts_Some[of cap _ r r1] by (fastforce simp: append_header_def)
qed simp

lemma plain_terminated:
  "terminated crlf" "terminated (str '' '')" "terminated (str '': '')" "terminated (str '':'')"
  "terminated (str '' HTTP/1.0'' @ crlf @ str ''Host: '')" "terminated (str ''Content-Type: '')"
  by (simp_all add: terminated_def crlf_def)

lemma decimal_text_digits: "list_all decimal_byte (decimal_text n) \<and> decimal_text n \<noteq> []"
proof (induction n rule: decimal_text.induct)
  case (1 n)
  have "decimal_byte (word_of_nat (48 + k))" if "k < 10" for k
  proof -
    have "unat (word_of_nat (48 + k) :: byte) = 48 + k" using that
      by (simp add: unat_of_nat[of "48 + k", where ?'a = 8, simplified] take_bit_nat_eq_self)
    then show ?thesis using that by (simp add: decimal_byte_def word_le_nat_alt)
  qed
  then show ?case using 1 by (subst (1 2) decimal_text.simps) auto
qed

lemma decimal_line: "list_all decimal_byte t \<Longrightarrow> list_all line_byte t \<and> terminated t"
  by (auto simp: list_all_iff decimal_byte_def line_byte_def terminated_def word_le_nat_alt)

lemma length_line_terminated: "terminated (length_line n)"
  using decimal_text_digits[of n] decimal_line[of "decimal_text n"] by (simp add: length_line_def terminated_def crlf_def)

lemma port_digits: "port_loop t v d = Some r \<Longrightarrow> list_all decimal_byte t"
  by (induction t v d rule: port_loop.induct) (auto simp: Let_def split: if_splits)

lemma port_lines: "cn_netsimple_parse_port p \<noteq> None \<Longrightarrow> list_all line_byte (cstr (the p))"
  using port_digits decimal_line by (fastforce simp: cn_netsimple_parse_port_def split: option.splits)

lemma strict_line: "c > (0x20 :: byte) \<Longrightarrow> c \<noteq> 0x7f \<Longrightarrow> line_byte c"
  by (simp add: line_byte_def)

lemma header_name_line: "header_name_byte c \<Longrightarrow> line_byte c"
  by (auto simp: header_name_byte_def line_byte_def decimal_byte_def word_le_nat_alt word_unat_eq_iff)

text \<open>The request is these lines, and no value that goes into one of them can end it.\<close>

lemma request_text:
  assumes "cn_netsimple_build_exchange_request (Some spec) True cap = Inr req"
  shows "req = concat (map (\<lambda>l. l @ crlf) (request_lines spec @ [[]]))" "length req < cap"
    "exchange_arguments_ok spec cap" "request_method spec \<noteq> None"
    "list_all (\<lambda>h. header_name_ok (header_name h) \<and> header_value_ok (header_value h)) (request_headers spec)"
proof -
  obtain name where n: "request_method spec = Some name" using assms
    by (auto simp: cn_netsimple_build_exchange_request_def split: if_splits option.splits)
  define r1 where "r1 = append_texts cap [name, str '' '', the (path spec), str '' HTTP/1.0'' @ crlf @ str ''Host: '',
                         the (host spec)] []"
  define r2 where "r2 = (if tls spec \<and> cstr (the (port spec)) \<noteq> str ''443'' \<or> \<not> tls spec \<and> cstr (the (port spec)) \<noteq> str ''80''
                        then Option.bind r1 (append_texts cap [str '':'', the (port spec)]) else r1)"
  define r3 where "r3 = Option.bind r2 (append_texts cap [crlf])"
  define r4 where "r4 = foldl (append_header cap) r3 (request_headers spec)"
  define r5 where "r5 = (if method' spec = Known CN_NETSIMPLE_METHOD_PUT then Option.bind r4 (append_texts cap
      [str ''Content-Type: '', the (content_type spec), crlf, length_line (body_len spec)]) else r4)"
  have "Option.bind r5 (append_texts cap [crlf]) = Some req" using assms n
    by (auto simp: cn_netsimple_build_exchange_request_def r1_def r2_def r3_def r4_def r5_def Let_def split: if_splits option.splits)
  then obtain t5 where t5: "r5 = Some t5" "append_texts cap [crlf] t5 = Some req" by (auto simp: bind_eq_Some_conv)
  obtain t4 where t4: "r4 = Some t4" using t5(1) by (auto simp: r5_def bind_eq_Some_conv split: if_splits)
  obtain t3 where t3: "r3 = Some t3" using t4 by (cases r3) (auto simp: r4_def)
  obtain t2 where t2: "r2 = Some t2" "append_texts cap [crlf] t2 = Some t3" using t3 by (auto simp: r3_def bind_eq_Some_conv)
  obtain t1 where t1: "r1 = Some t1" using t2(1) by (auto simp: r2_def bind_eq_Some_conv split: if_splits)
  have name: "cstr name = name" using n
    by (auto simp: request_method_def terminated_def split: enum_value.splits cn_netsimple_method.splits if_splits)
  note T = plain_terminated
  have e1: "t1 = name @ str '' '' @ cstr (the (path spec)) @ str '' HTTP/1.0'' @ crlf @ str ''Host: '' @ cstr (the (host spec))"
    using append_texts_Some[OF t1[unfolded r1_def]] T name by (simp del: str_simps)
  have e2: "t2 = t1 @ (if cstr (the (port spec)) = (if tls spec then str ''443'' else str ''80'') then []
      else str '':'' @ cstr (the (port spec)))"
    using t2(1) t1 append_texts_Some[of cap "[str '':'', the (port spec)]" t1 t2] T
    by (cases "tls spec") (auto simp: r2_def simp del: str_simps split: if_splits)
  have e3: "t3 = t2 @ crlf" using append_texts_Some[OF t2(2)] T by simp
  have e4: "t4 = t3 @ concat (map (\<lambda>h. cstr (the (header_name h)) @ str '': '' @ cstr (the (header_value h)) @ crlf) (request_headers spec))"
    using append_headers_Some[of cap t3 "request_headers spec" t4] t4 t3 T by (simp add: r4_def del: str_simps)
  have e5: "t5 = t4 @ (if method' spec = Known CN_NETSIMPLE_METHOD_PUT
      then str ''Content-Type: '' @ cstr (the (content_type spec)) @ crlf @ length_line (body_len spec) else [])"
    using t5(1) t4 append_texts_Some[of cap "[str ''Content-Type: '', the (content_type spec), crlf, length_line (body_len spec)]" t4 t5]
      T length_line_terminated[of "body_len spec"] by (auto simp: r5_def simp del: str_simps split: if_splits)
  show "req = concat (map (\<lambda>l. l @ crlf) (request_lines spec @ [[]]))"
    using append_texts_Some[OF t5(2)] T n unfolding e5 e4 e3 e2 e1
    by (simp add: request_lines_def length_line_def comp_def del: str_simps)
  show "length req < cap" using append_texts_Some[OF t5(2)] by blast
  show "exchange_arguments_ok spec cap" "request_method spec \<noteq> None"
    "list_all (\<lambda>h. header_name_ok (header_name h) \<and> header_value_ok (header_value h)) (request_headers spec)"
    using assms n by (auto simp: cn_netsimple_build_exchange_request_def split: if_splits option.splits)
qed

lemma str_lines: "list_all line_byte (str ''GET'')" "list_all line_byte (str ''PUT'')" "list_all line_byte (str '' '')"
  "list_all line_byte (str '' HTTP/1.0'')" "list_all line_byte (str ''Host: '')" "list_all line_byte (str '':'')"
  "list_all line_byte (str '': '')" "list_all line_byte (str ''Content-Type: '')" "list_all line_byte (str ''Content-Length: '')"
  by (simp_all add: line_byte_def)

lemma request_lines_plain:
  assumes ok: "exchange_arguments_ok spec cap" "request_method spec \<noteq> None"
    "list_all (\<lambda>h. header_name_ok (header_name h) \<and> header_value_ok (header_value h)) (request_headers spec)"
  shows "list_all (\<lambda>l. l \<noteq> [] \<and> list_all line_byte l) (request_lines spec)"
proof -
  have v: "cn_netsimple_validate (host spec) (port spec) (path spec)" using ok(1) by (simp add: exchange_arguments_ok_def)
  have h: "list_all line_byte (cstr (the (host spec)))"
    using v by (auto simp: cn_netsimple_validate_def host_text_ok_def list_all_iff line_byte_def split: if_splits)
  have p: "list_all line_byte (cstr (the (path spec)))"
    using v by (auto simp: cn_netsimple_validate_def list_all_iff line_byte_def split: if_splits)
  have q: "list_all line_byte (cstr (the (port spec)))"
    using v by (intro port_lines) (auto simp: cn_netsimple_validate_def split: if_splits)
  have m: "list_all line_byte (the (request_method spec))" "the (request_method spec) \<noteq> []" 
    using ok(2) str_lines by (auto simp: request_method_def split: enum_value.splits cn_netsimple_method.splits if_splits)
  have c: "list_all line_byte (cstr (the (content_type spec)))" if "method' spec = Known CN_NETSIMPLE_METHOD_PUT"
    using ok(2) that by (auto simp: request_method_def header_value_ok_def list_all_iff line_byte_def not_less split: if_splits)
  have n: "list_all line_byte (cstr (the (header_name x)))" "list_all line_byte (cstr (the (header_value x)))"
    "cstr (the (header_name x)) \<noteq> []" if "x \<in> set (request_headers spec)" for x
    using ok(3) that header_name_line by (fastforce simp: list_all_iff header_name_ok_def header_value_ok_def line_byte_def split: option.splits)+
  have fields: "list_all (\<lambda>l. l \<noteq> [] \<and> list_all line_byte l)
      (map (\<lambda>h. cstr (the (header_name h)) @ str '': '' @ cstr (the (header_value h))) (request_headers spec))"
    unfolding list.pred_map list_all_iff[of _ "request_headers spec"] comp_def using n str_lines(7) by simp
  have len: "list_all line_byte (decimal_text (body_len spec))" "decimal_text (body_len spec) \<noteq> []"
    using decimal_text_digits decimal_line by blast+
  show ?thesis unfolding request_lines_def using h p q m c fields len str_lines by simp
qed

section \<open>The parts of a response\<close>

lemma first_match_bound: "first_match p buf = Some i \<Longrightarrow> i + length p \<le> length buf \<and> take (length p) (drop i buf) = p"
proof (induction buf arbitrary: i)
  case (Cons c buf)
  show ?case
  proof (cases "take (length p) (c # buf) = p")
    case True
    then have "length p \<le> length (c # buf)" by (metis length_take min.cobounded1)
    then show ?thesis using True Cons.prems by simp
  next
    case False
    then obtain j where "i = Suc j" "first_match p buf = Some j" using Cons.prems by auto
    then show ?thesis using Cons.IH by auto
  qed
qed simp

lemma first_match_append: "first_match p buf = Some i \<Longrightarrow> first_match p (buf @ rest) = Some i"
proof (induction buf arbitrary: i)
  case (Cons c buf)
  show ?case
  proof (cases "take (length p) (c # buf) = p")
    case True
    then have "length p \<le> length (c # buf)" by (metis length_take min.cobounded1)
    then have "take (length p) (c # buf @ rest) = p" using True by (metis append_Cons append_take_drop_id append.right_neutral diff_is_0_eq take_append take_0)
    then show ?thesis using True Cons.prems by simp
  next
    case False
    then obtain j where j: "i = Suc j" "first_match p buf = Some j" using Cons.prems by auto
    have "length p \<le> length (c # buf)" using first_match_bound[OF j(2)] by simp
    then have "take (length p) (c # buf @ rest) \<noteq> p" using False by (metis append_Cons append.right_neutral diff_is_0_eq take_append take_0)
    then show ?thesis using Cons.IH j by simp
  qed
qed simp

lemma header_length_le: "header_length buf \<le> length buf"
  by (simp add: header_length_def Let_def)

text \<open>The framing of a response does not change while the rest of it arrives.\<close>

lemma framing_stable:
  assumes "response_content_length buf \<noteq> Incomplete"
  shows "response_content_length (buf @ rest) = response_content_length buf"
proof -
  obtain i where i: "first_match (crlf @ crlf) buf = Some i" "i \<noteq> 0"
    using assms by (auto simp: response_content_length_def split: option.splits if_splits)
  have "i \<le> length buf" using first_match_bound[OF i(1)] by simp
  then show ?thesis using i first_match_append[OF i(1)] by (simp add: response_content_length_def)
qed


lemma framed_bounds:
  assumes "response_content_length buf = Framed n"
  shows "n \<le> max size_max (length buf) \<and> (\<exists>h. first_match (crlf @ crlf) buf = Some h \<and> 0 < h \<and> h + 4 \<le> n)"
proof -
  obtain h c where h: "first_match (crlf @ crlf) buf = Some h" "h \<noteq> 0" "\<not> c > size_max - (h + 4)" "n = h + 4 + c"
    using assms by (auto simp: response_content_length_def split: option.splits if_splits)
  have "h + 4 \<le> length buf" using first_match_bound[OF h(1)] by (simp add: crlf_def)
  then show ?thesis using h by auto
qed

lemma first_match_skip:
  "list_all (\<lambda>c. c \<noteq> hd p) xs \<Longrightarrow> p \<noteq> [] \<Longrightarrow> first_match p (xs @ ys) = map_option (\<lambda>i. i + length xs) (first_match p ys)"
proof (induction xs)
  case (Cons c xs)
  have "take (length p) (c # xs @ ys) \<noteq> p" using Cons.prems by (cases p) auto
  then show ?case using Cons by (simp add: option.map_comp comp_def)
qed (cases "first_match p ys"; simp)

definition field_line :: "bytes \<Rightarrow> bool" where
  "field_line l \<longleftrightarrow> l \<noteq> [] \<and> list_all (\<lambda>c. c \<noteq> 13 \<and> c \<noteq> 10) l"

abbreviation lines_text :: "bytes list \<Rightarrow> bytes" where
  "lines_text ls \<equiv> concat (map (\<lambda>l. l @ crlf) ls)"

lemma first_blank_line:
  "list_all field_line ls \<Longrightarrow> ls \<noteq> [] \<Longrightarrow>
   first_match (crlf @ crlf) (lines_text ls @ crlf @ body') = Some (length (lines_text ls) - 2)"
proof (induction ls)
  case (Cons l ls)
  have l: "list_all (\<lambda>c. c \<noteq> hd (crlf @ crlf)) l" using Cons.prems by (auto simp: field_line_def crlf_def list_all_iff)
  have skip: "first_match (crlf @ crlf) (l @ crlf @ x) = map_option (\<lambda>i. i + length l) (first_match (crlf @ crlf) (crlf @ x))" for x
    by (rule first_match_skip[OF l]) (simp add: crlf_def)
  show ?case
  proof (cases ls)
    case Nil
    then show ?thesis using skip[of "crlf @ body'"] by (simp add: crlf_def)
  next
    case (Cons m ms)
    define x where "x = lines_text ls @ crlf @ body'"
    obtain c r where c: "x = c # r" "c \<noteq> 13"
      using Cons Cons.prems unfolding x_def by (cases m) (auto simp: field_line_def)
    have len: "length (lines_text ls) \<ge> 2" using Cons by (simp add: crlf_def)
    have "first_match (crlf @ crlf) (crlf @ x) = map_option (\<lambda>i. i + 2) (first_match (crlf @ crlf) x)"
      using c by (simp add: crlf_def option.map_comp comp_def)
    moreover have "first_match (crlf @ crlf) x = Some (length (lines_text ls) - 2)"
      unfolding x_def using Cons.IH Cons.prems Cons by simp
    moreover have "lines_text (l # ls) @ crlf @ body' = l @ crlf @ x" by (simp add: x_def)
    moreover have "length (lines_text (l # ls)) - 2 = length (lines_text ls) - 2 + 2 + length l"
      using len by (simp add: crlf_def)
    ultimately show ?thesis using skip[of x] by (simp only: option.map)
  qed
qed simp

lemma no_early_line_feeds:
  "list_all field_line ls \<Longrightarrow>
   first_match [10, 10] (lines_text ls @ crlf @ body') = map_option (\<lambda>i. i + length (lines_text ls)) (first_match [10, 10] (crlf @ body'))"
proof (induction ls)
  case (Cons l ls)
  have l: "list_all (\<lambda>c. c \<noteq> hd [10, 10]) (l @ [13])" using Cons.prems by (auto simp: field_line_def list_all_iff)
  obtain c r where c: "lines_text ls @ crlf @ body' = c # r" "c \<noteq> 10"
    using Cons.prems by (cases ls) (auto simp: field_line_def crlf_def neq_Nil_conv)
  have "first_match [10, 10] ((l @ [13]) @ 10 # lines_text ls @ crlf @ body') =
      map_option (\<lambda>i. i + length (l @ [13])) (first_match [10, 10] (10 # lines_text ls @ crlf @ body'))"
    by (rule first_match_skip[OF l]) simp
  also have "first_match [10, 10] (10 # lines_text ls @ crlf @ body') =
      map_option Suc (first_match [10, 10] (lines_text ls @ crlf @ body'))" using c by simp
  finally show ?case using Cons by (simp add: crlf_def option.map_comp comp_def ac_simps)
qed (cases "first_match [10, 10] (crlf @ body')"; simp)

lemma header_length_lines:
  assumes ls: "list_all field_line ls" "ls \<noteq> []"
  shows "header_length (lines_text ls @ crlf @ body') = length (lines_text ls) + 2"
proof -
  let ?k = "length (lines_text ls)"
  have k: "2 \<le> ?k" using ls by (cases ls) (auto simp: crlf_def)
  have c: "first_match (crlf @ crlf) (lines_text ls @ crlf @ body') = Some (?k - 2)" by (rule first_blank_line[OF ls])
  have l: "first_match [10, 10] (lines_text ls @ crlf @ body') = map_option (\<lambda>i. i + ?k) (first_match [10, 10] (crlf @ body'))"
    by (rule no_early_line_feeds[OF ls(1)])
  show ?thesis unfolding header_length_def c l Let_def using k
    by (cases "first_match [10, 10] (crlf @ body')") (auto simp: crlf_def)
qed

definition response_text :: "byte \<Rightarrow> byte \<Rightarrow> byte \<Rightarrow> bytes \<Rightarrow> bytes list \<Rightarrow> bytes \<Rightarrow> bytes" where
  "response_text a b c reason hs body' =
     lines_text ((str ''HTTP/1.1 '' @ [a, b, c] @ str '' '' @ reason) # hs) @ crlf @ body'"

section \<open>Properties\<close>

text \<open>C24. A request that was built is exactly its lines, each ended by CR LF, and an empty line: the
  request line, the Host line, one line for each header and for PUT the type and the length of the body.
  No value from the caller can end a line: none holds a control byte, so no header can be smuggled in.\<close>

theorem request_has_no_smuggled_line:
  assumes "cn_netsimple_build_exchange_request (Some spec) True cap = Inr req"
  shows "req = lines_text (request_lines spec @ [[]]) \<and> length req < cap \<and>
    list_all (\<lambda>l. l \<noteq> [] \<and> list_all line_byte l) (request_lines spec) \<and>
    length (request_lines spec) =
      length (request_headers spec) + (if method' spec = Known CN_NETSIMPLE_METHOD_PUT then 4 else 2)"
  using request_text[OF assms] request_lines_plain by (simp add: request_lines_def)

definition sample_request :: cn_netsimple_request where
  "sample_request = \<lparr>method' = Known CN_NETSIMPLE_METHOD_PUT, host = Some (str ''h''), connect_host = None, port = Some (str ''80''),
     path = Some (str ''/s''), headers = Some [\<lparr>header_name = Some (str ''A''), header_value = Some (str ''b'')\<rparr>],
     header_count = 1, content_type = Some (str ''t''), body = Some (str ''{}''), body_len = 2, tls = False\<rparr>"

lemma sample_request_builds:
  "\<exists>req. cn_netsimple_build_exchange_request (Some sample_request) True 100 = Inr req"
  "\<exists>req. cn_netsimple_build_exchange_request (Some sample_request) True 4096 = Inr req"
  by (simp_all add: cn_netsimple_build_exchange_request_def sample_request_def exchange_arguments_ok_def cn_netsimple_validate_def
        host_text_ok_def cn_netsimple_parse_port_def decimal_byte_def decimal_value_def cstr_def char_at_def request_method_def
        request_headers_def header_name_ok_def header_value_ok_def header_name_byte_def append_texts_def append_text_def
        append_header_def length_line_def decimal_text.simps crlf_def netsimple_port_max_text_def netsimple_host_max_def
        netsimple_path_max_def netsimple_header_max_def Let_def)

lemma request_has_no_smuggled_line_witness:
  "\<exists>req. cn_netsimple_build_exchange_request (Some sample_request) True 100 = Inr req \<and>
     req = lines_text (request_lines sample_request @ [[]]) \<and> list_all (\<lambda>l. l \<noteq> [] \<and> list_all line_byte l) (request_lines sample_request)"
  using sample_request_builds(1) request_has_no_smuggled_line by blast

text \<open>C25. A response that is a status line, header lines, an empty line and a body is taken apart into
  these: the parser finds the status, the reason text and where the body begins, whatever bytes the body
  holds.\<close>

theorem response_is_taken_apart:
  assumes "decimal_byte a" "decimal_byte b" "decimal_byte c"
    and "list_all (\<lambda>x. x \<noteq> 13 \<and> x \<noteq> 10) reason" "reason = [] \<or> \<not> blank (hd reason)" "list_all field_line hs"
  shows "\<exists>r. cn_netsimple_parse_status (Some (response_text a b c reason hs body')) True = (CN_NETSIMPLE_OK, r) \<and>
    status r = int (decimal_value a) * 100 + int (decimal_value b) * 10 + int (decimal_value c) \<and>
    status_text r = reason \<and> body_bytes r = length body' \<and>
    drop (header_bytes r) (response_text a b c reason hs body') = body'"
proof -
  let ?line = "str ''HTTP/1.1 '' @ [a, b, c] @ str '' '' @ reason"
  let ?buf = "response_text a b c reason hs body'"
  have d: "\<not> blank x" if "decimal_byte x" for x using that by (auto simp: decimal_byte_def blank_def)
  have line: "x \<noteq> 13 \<and> x \<noteq> 10" if "decimal_byte x" for x using that by (auto simp: decimal_byte_def)
  have f: "list_all field_line (?line # hs)" using assms line by (simp add: field_line_def)
  have h: "header_length ?buf = length (lines_text (?line # hs)) + 2"
    unfolding response_text_def by (rule header_length_lines[OF f]) simp
  define head where "head = lines_text (?line # hs) @ crlf"
  have split: "?buf = head @ body'" "header_length ?buf = length head"
    unfolding h by (simp_all add: response_text_def head_def crlf_def)
  have b: "drop (header_length ?buf) ?buf = body'" unfolding split(2) by (simp add: split(1))
  have l: "length ?buf - header_length ?buf = length body'" unfolding split(2) by (simp add: split(1))
  define rest where "rest = reason @ crlf @ lines_text hs @ crlf @ body'"
  have v: "status_version ?buf = Some (32 # a # b # c # 32 # rest)"
    by (simp add: status_version_def response_text_def Let_def decimal_byte_def rest_def)
  have r: "dropWhile blank (32 # rest) = rest"
    using assms(5) by (cases reason) (auto simp: rest_def blank_def crlf_def)
  have blank_space: "blank 32" by (simp add: blank_def)
  have three: "code_digits 3 = code_digits (Suc (Suc (Suc 0)))" by (simp add: eval_nat_numeral)
  have p: "parse_code (32 # a # b # c # 32 # rest) = Some (int (decimal_value a) * 100 + int (decimal_value b) * 10 + int (decimal_value c), rest)"
    using assms(1-3) d r blank_space by (simp add: parse_code_def three)
  have t: "takeWhile (\<lambda>c. c \<noteq> 13 \<and> c \<noteq> 10) rest = reason"
    unfolding rest_def using assms(4) by (subst takeWhile_append2) (auto simp: list_all_iff crlf_def)
  show ?thesis using v p t b l by (simp add: cn_netsimple_parse_status_def)
qed

lemma response_is_taken_apart_witness:
  "\<exists>r. cn_netsimple_parse_status (Some (response_text 50 48 48 (str ''OK'') [str ''A: b''] (str ''{}''))) True = (CN_NETSIMPLE_OK, r) \<and>
    status r = 200 \<and> body_bytes r = 2"
proof -
  have "decimal_byte 50" "decimal_byte 48" "list_all (\<lambda>x. x \<noteq> 13 \<and> x \<noteq> 10) (str ''OK'')" "\<not> blank (hd (str ''OK''))"
    "list_all field_line [str ''A: b'']" by (simp_all add: decimal_byte_def blank_def field_line_def)
  from response_is_taken_apart[OF this(1,2,2,3) _ this(5), of "str ''{}''"] this(4) show ?thesis
    by (auto simp: decimal_value_def)
qed

end
