(* ===== verification/Kosync_Policy.thy ===== *)
theory Kosync_Policy
  imports Sync_Types
begin

text \<open>
  The product policy, src/sync/kosync_policy.c: what the outcome of one synchronisation means for the
  user, when it may be retried, and which side may have changed.  The result is in and out; a NULL
  result is \<open>None\<close>.  The answer is the C return value, 0 or -1.
\<close>

definition fail_closed :: "cn_kosync_product_result \<Rightarrow> cn_kosync_product_result" where
  "fail_closed result = result\<lparr>outcome := CN_KOSYNC_PRODUCT_INTERNAL_FAILURE,
     retry := CN_KOSYNC_RETRY_EXPLICIT_ACTION, local_mutation := CN_KOSYNC_MUTATION_NONE,
     remote_mutation := CN_KOSYNC_MUTATION_NONE\<rparr>"

definition boolean_fields_valid :: "cn_kosync_sync_result \<Rightarrow> bool" where
  "boolean_fields_valid sync \<longleftrightarrow>
     (local_present sync = 0 \<or> local_present sync = 1) \<and>
     (remote_present sync = 0 \<or> remote_present sync = 1) \<and>
     (local_save_attempted sync = 0 \<or> local_save_attempted sync = 1) \<and>
     (remote_put_attempted sync = 0 \<or> remote_put_attempted sync = 1) \<and>
     (local_saved sync = 0 \<or> local_saved sync = 1) \<and>
     (remote_uploaded sync = 0 \<or> remote_uploaded sync = 1)"

definition transport_valid :: "cn_netsimple_result enum_value \<Rightarrow> bool" where
  "transport_valid transport \<longleftrightarrow> is_known transport"

definition transport_is_pre_put :: "cn_netsimple_result \<Rightarrow> bool" where
  "transport_is_pre_put transport = (case transport of
       CN_NETSIMPLE_INVALID \<Rightarrow> True
     | CN_NETSIMPLE_RESOLVE_ERROR \<Rightarrow> True
     | CN_NETSIMPLE_CONNECT_REFUSED \<Rightarrow> True
     | CN_NETSIMPLE_NETWORK_UNREACHABLE \<Rightarrow> True
     | CN_NETSIMPLE_HOST_UNREACHABLE \<Rightarrow> True
     | CN_NETSIMPLE_CONNECT_TIMEOUT \<Rightarrow> True
     | CN_NETSIMPLE_CONNECT_ERROR \<Rightarrow> True
     | CN_NETSIMPLE_TLS_ENTROPY_FAILED \<Rightarrow> True
     | CN_NETSIMPLE_TLS_INVALID_CA \<Rightarrow> True
     | CN_NETSIMPLE_TLS_HANDSHAKE_FAILED \<Rightarrow> True
     | CN_NETSIMPLE_TLS_HANDSHAKE_TIMEOUT \<Rightarrow> True
     | CN_NETSIMPLE_TLS_TRUST_FAILED \<Rightarrow> True
     | CN_NETSIMPLE_TLS_HOSTNAME_MISMATCH \<Rightarrow> True
     | CN_NETSIMPLE_TLS_CERT_TIME_FAILED \<Rightarrow> True
     | CN_NETSIMPLE_TLS_CERT_INVALID \<Rightarrow> True
     | CN_NETSIMPLE_TLS_INTERNAL \<Rightarrow> True
     | _ \<Rightarrow> False)"

text \<open>The constant of an enumeration value that has been checked.\<close>

definition known_pre_put :: "cn_netsimple_result enum_value \<Rightarrow> bool" where
  "known_pre_put transport = (case transport of Known t \<Rightarrow> transport_is_pre_put t | Unknown _ \<Rightarrow> False)"

definition policy_remote_mutation :: "cn_kosync_sync_result \<Rightarrow> cn_kosync_mutation_state" where
  "policy_remote_mutation sync =
     (if remote_uploaded sync \<noteq> 0 then CN_KOSYNC_MUTATION_CONFIRMED
      else if remote_put_attempted sync = 0 then CN_KOSYNC_MUTATION_NONE
      else if sync_status sync = Known CN_KOSYNC_SYNC_STATUS_AUTH_FAILED \<or>
              sync_status sync = Known CN_KOSYNC_SYNC_STATUS_INVALID then CN_KOSYNC_MUTATION_NONE
      else if sync_status sync = Known CN_KOSYNC_SYNC_STATUS_HTTPS_FAILED \<and>
              transport_valid (transport_result (kosync_outcome sync)) \<and>
              known_pre_put (transport_result (kosync_outcome sync)) then CN_KOSYNC_MUTATION_NONE
      else CN_KOSYNC_MUTATION_POSSIBLE)"

definition success_invariants_hold :: "cn_kosync_sync_result \<Rightarrow> bool" where
  "success_invariants_hold sync =
     (if local_saved sync \<noteq> 0 \<and> local_save_attempted sync = 0 then False
      else if remote_uploaded sync \<noteq> 0 \<and> remote_put_attempted sync = 0 then False
      else case decision sync of
          Known CN_KOSYNC_SYNC_NO_STATE \<Rightarrow>
            local_present sync = 0 \<and> remote_present sync = 0 \<and> local_save_attempted sync = 0 \<and>
            remote_put_attempted sync = 0 \<and> local_saved sync = 0 \<and> remote_uploaded sync = 0
        | Known CN_KOSYNC_SYNC_LOCAL_SELECTED \<Rightarrow>
            local_present sync \<noteq> 0 \<and> remote_present sync = 0 \<and> local_save_attempted sync = 0 \<and>
            remote_put_attempted sync \<noteq> 0 \<and> local_saved sync = 0 \<and> remote_uploaded sync \<noteq> 0
        | Known CN_KOSYNC_SYNC_REMOTE_SELECTED \<Rightarrow>
            local_present sync = 0 \<and> remote_present sync \<noteq> 0 \<and> local_save_attempted sync \<noteq> 0 \<and>
            remote_put_attempted sync = 0 \<and> local_saved sync \<noteq> 0 \<and> remote_uploaded sync = 0
        | Known CN_KOSYNC_SYNC_NO_CHANGE \<Rightarrow>
            local_present sync \<noteq> 0 \<and> remote_present sync \<noteq> 0 \<and> local_save_attempted sync = 0 \<and>
            remote_put_attempted sync = 0 \<and> local_saved sync = 0 \<and> remote_uploaded sync = 0
        | Known CN_KOSYNC_SYNC_AMBIGUOUS \<Rightarrow>
            local_present sync \<noteq> 0 \<and> remote_present sync \<noteq> 0 \<and> local_save_attempted sync = 0 \<and>
            remote_put_attempted sync = 0 \<and> local_saved sync = 0 \<and> remote_uploaded sync = 0
        | _ \<Rightarrow> False)"

definition classify_success :: "cn_kosync_sync_result \<Rightarrow> cn_kosync_product_result \<Rightarrow> cn_kosync_product_result" where
  "classify_success sync result =
     (if \<not> success_invariants_hold sync then fail_closed result
      else let result = result\<lparr>retry :=
             (if decision sync = Known CN_KOSYNC_SYNC_AMBIGUOUS then CN_KOSYNC_RETRY_EXPLICIT_ACTION
              else CN_KOSYNC_RETRY_NONE)\<rparr>
      in case decision sync of
           Known CN_KOSYNC_SYNC_NO_STATE \<Rightarrow> result\<lparr>outcome := CN_KOSYNC_PRODUCT_NO_STATE\<rparr>
         | Known CN_KOSYNC_SYNC_LOCAL_SELECTED \<Rightarrow> result\<lparr>outcome := CN_KOSYNC_PRODUCT_UPLOADED\<rparr>
         | Known CN_KOSYNC_SYNC_REMOTE_SELECTED \<Rightarrow> result\<lparr>outcome := CN_KOSYNC_PRODUCT_IMPORTED\<rparr>
         | Known CN_KOSYNC_SYNC_NO_CHANGE \<Rightarrow> result\<lparr>outcome := CN_KOSYNC_PRODUCT_UNCHANGED\<rparr>
         | Known CN_KOSYNC_SYNC_AMBIGUOUS \<Rightarrow> result\<lparr>outcome := CN_KOSYNC_PRODUCT_CONFLICT\<rparr>
         | _ \<Rightarrow> fail_closed result)"

definition classify_time :: "cn_kosync_sync_result \<Rightarrow> cn_kosync_product_result \<Rightarrow> cn_kosync_product_result" where
  "classify_time sync result =
     (if \<not> is_known (time_result sync) \<or> time_result sync = Known CN_TIME_OK then fail_closed result
      else let result = result\<lparr>outcome := CN_KOSYNC_PRODUCT_TRUSTED_TIME_UNAVAILABLE\<rparr>
      in case time_result sync of
           Known CN_TIME_SOCKET_FAILED \<Rightarrow> result\<lparr>retry := CN_KOSYNC_RETRY_AUTOMATIC_LATER\<rparr>
         | Known CN_TIME_SEND_FAILED \<Rightarrow> result\<lparr>retry := CN_KOSYNC_RETRY_AUTOMATIC_LATER\<rparr>
         | Known CN_TIME_TIMEOUT \<Rightarrow> result\<lparr>retry := CN_KOSYNC_RETRY_AUTOMATIC_LATER\<rparr>
         | Known CN_TIME_RECV_FAILED \<Rightarrow> result\<lparr>retry := CN_KOSYNC_RETRY_AUTOMATIC_LATER\<rparr>
         | _ \<Rightarrow> result\<lparr>retry := CN_KOSYNC_RETRY_EXPLICIT_ACTION\<rparr>)"

text \<open>The outcome and the retry that a case sets together.\<close>

definition verdict :: "cn_kosync_product_outcome \<Rightarrow> cn_kosync_retry_policy \<Rightarrow> cn_kosync_product_result \<Rightarrow>
    cn_kosync_product_result" where
  "verdict o' r result = result\<lparr>outcome := o', retry := r\<rparr>"

definition classify_dns :: "cn_kosync_sync_result \<Rightarrow> cn_kosync_product_result \<Rightarrow> cn_kosync_product_result" where
  "classify_dns sync result =
     (let transient = verdict CN_KOSYNC_PRODUCT_CONNECTIVITY_FAILURE CN_KOSYNC_RETRY_AUTOMATIC_LATER result;
          configuration = verdict CN_KOSYNC_PRODUCT_CONFIGURATION_FAILURE CN_KOSYNC_RETRY_EXPLICIT_ACTION result;
          internal = verdict CN_KOSYNC_PRODUCT_INTERNAL_FAILURE CN_KOSYNC_RETRY_EXPLICIT_ACTION result;
          service = verdict CN_KOSYNC_PRODUCT_SERVICE_FAILURE CN_KOSYNC_RETRY_EXPLICIT_ACTION result
      in if \<not> is_known (dns_result sync) \<or> dns_result sync = Known CN_DNS_OK then fail_closed result
      else case dns_result sync of
          Known CN_DNS_SOCKET_FAILED \<Rightarrow> transient
        | Known CN_DNS_NETWORK_FAILED \<Rightarrow> transient
        | Known CN_DNS_TIMEOUT \<Rightarrow> transient
        | Known CN_DNS_SERVER_FAILURE \<Rightarrow> transient
        | Known CN_DNS_INVALID \<Rightarrow> configuration
        | Known CN_DNS_INVALID_HOSTNAME \<Rightarrow> configuration
        | Known CN_DNS_ENTROPY_FAILED \<Rightarrow> internal
        | Known CN_DNS_PACKET_SIZE \<Rightarrow> service
        | Known CN_DNS_MALFORMED_RESPONSE \<Rightarrow> service
        | Known CN_DNS_TRUNCATED_RESPONSE \<Rightarrow> service
        | Known CN_DNS_NXDOMAIN \<Rightarrow> service
        | Known CN_DNS_NO_ADDRESS \<Rightarrow> service
        | Known CN_DNS_UNSUPPORTED_CNAME \<Rightarrow> service
        | _ \<Rightarrow> fail_closed result)"

definition classify_https :: "cn_kosync_sync_result \<Rightarrow> cn_kosync_product_result \<Rightarrow> cn_kosync_product_result" where
  "classify_https sync result =
     (let transport = transport_result (kosync_outcome sync);
          transient = verdict CN_KOSYNC_PRODUCT_CONNECTIVITY_FAILURE CN_KOSYNC_RETRY_AUTOMATIC_LATER result;
          security = verdict CN_KOSYNC_PRODUCT_SECURITY_FAILURE CN_KOSYNC_RETRY_EXPLICIT_ACTION result;
          service = verdict CN_KOSYNC_PRODUCT_SERVICE_FAILURE CN_KOSYNC_RETRY_EXPLICIT_ACTION result;
          configuration = verdict CN_KOSYNC_PRODUCT_CONFIGURATION_FAILURE CN_KOSYNC_RETRY_EXPLICIT_ACTION result;
          internal = verdict CN_KOSYNC_PRODUCT_INTERNAL_FAILURE CN_KOSYNC_RETRY_EXPLICIT_ACTION result
      in if \<not> transport_valid transport \<or> transport = Known CN_NETSIMPLE_OK then fail_closed result
      else case transport of
          Known CN_NETSIMPLE_RESOLVE_ERROR \<Rightarrow> transient
        | Known CN_NETSIMPLE_CONNECT_REFUSED \<Rightarrow> transient
        | Known CN_NETSIMPLE_NETWORK_UNREACHABLE \<Rightarrow> transient
        | Known CN_NETSIMPLE_HOST_UNREACHABLE \<Rightarrow> transient
        | Known CN_NETSIMPLE_CONNECT_TIMEOUT \<Rightarrow> transient
        | Known CN_NETSIMPLE_CONNECT_ERROR \<Rightarrow> transient
        | Known CN_NETSIMPLE_SEND_ERROR \<Rightarrow> transient
        | Known CN_NETSIMPLE_RECV_ERROR \<Rightarrow> transient
        | Known CN_NETSIMPLE_RECV_TIMEOUT \<Rightarrow> transient
        | Known CN_NETSIMPLE_SEND_TIMEOUT \<Rightarrow> transient
        | Known CN_NETSIMPLE_TLS_HANDSHAKE_TIMEOUT \<Rightarrow> transient
        | Known CN_NETSIMPLE_TLS_RECV_TIMEOUT \<Rightarrow> transient
        | Known CN_NETSIMPLE_TLS_INVALID_CA \<Rightarrow> security
        | Known CN_NETSIMPLE_TLS_TRUST_FAILED \<Rightarrow> security
        | Known CN_NETSIMPLE_TLS_HOSTNAME_MISMATCH \<Rightarrow> security
        | Known CN_NETSIMPLE_TLS_CERT_TIME_FAILED \<Rightarrow> security
        | Known CN_NETSIMPLE_TLS_CERT_INVALID \<Rightarrow> security
        | Known CN_NETSIMPLE_TRUNCATED \<Rightarrow> service
        | Known CN_NETSIMPLE_BAD_RESPONSE \<Rightarrow> service
        | Known CN_NETSIMPLE_TLS_HANDSHAKE_FAILED \<Rightarrow> service
        | Known CN_NETSIMPLE_TLS_PROTOCOL_FAILED \<Rightarrow> service
        | Known CN_NETSIMPLE_INVALID \<Rightarrow> configuration
        | Known CN_NETSIMPLE_TLS_ENTROPY_FAILED \<Rightarrow> internal
        | Known CN_NETSIMPLE_TLS_INTERNAL \<Rightarrow> internal
        | _ \<Rightarrow> fail_closed result)"

definition classify_protocol :: "cn_kosync_sync_result \<Rightarrow> cn_kosync_product_result \<Rightarrow> cn_kosync_product_result" where
  "classify_protocol sync result =
     (if \<not> is_known (kosync_result sync) then fail_closed result
      else let result = verdict CN_KOSYNC_PRODUCT_SERVICE_FAILURE CN_KOSYNC_RETRY_EXPLICIT_ACTION result;
               status = http_status (kosync_outcome sync)
      in if kosync_result sync = Known CN_KOSYNC_HTTP_ERROR \<and>
            (status = 408 \<or> status = 429 \<or> (status \<ge> 500 \<and> status \<le> 599))
         then result\<lparr>retry := CN_KOSYNC_RETRY_AUTOMATIC_LATER\<rparr>
         else if kosync_result sync \<noteq> Known CN_KOSYNC_HTTP_ERROR \<and> kosync_result sync \<noteq> Known CN_KOSYNC_BAD_JSON \<and>
                 kosync_result sync \<noteq> Known CN_KOSYNC_BAD_PROTOCOL
         then fail_closed result
         else result)"

text \<open>The checks of the arguments, and of the evidence that the status asks for.\<close>

definition policy_arguments_valid :: "cn_kosync_sync_result option \<Rightarrow> bool" where
  "policy_arguments_valid sync = (case sync of None \<Rightarrow> False
     | Some sync \<Rightarrow> boolean_fields_valid sync \<and> is_known (sync_status sync) \<and> is_known (decision sync))"

definition policy_evidence_valid :: "cn_kosync_sync_result \<Rightarrow> bool" where
  "policy_evidence_valid sync \<longleftrightarrow>
     \<not> (sync_status sync = Known CN_KOSYNC_SYNC_STATUS_TRUSTED_TIME_FAILED \<and> \<not> is_known (time_result sync) \<or>
        sync_status sync = Known CN_KOSYNC_SYNC_STATUS_DNS_FAILED \<and> \<not> is_known (dns_result sync) \<or>
        sync_status sync = Known CN_KOSYNC_SYNC_STATUS_HTTPS_FAILED \<and>
          \<not> transport_valid (transport_result (kosync_outcome sync)) \<or>
        sync_status sync = Known CN_KOSYNC_SYNC_STATUS_PROTOCOL_FAILED \<and> \<not> is_known (kosync_result sync))"

definition policy_switch :: "cn_kosync_sync_result \<Rightarrow> cn_kosync_product_result \<Rightarrow> int \<times> cn_kosync_product_result" where
  "policy_switch sync result = (case sync_status sync of
       Known CN_KOSYNC_SYNC_STATUS_OK \<Rightarrow> (0, classify_success sync result)
     | Known CN_KOSYNC_SYNC_STATUS_INVALID \<Rightarrow>
         (0, verdict CN_KOSYNC_PRODUCT_CONFIGURATION_FAILURE CN_KOSYNC_RETRY_EXPLICIT_ACTION result)
     | Known CN_KOSYNC_SYNC_STATUS_IDENTITY_FAILED \<Rightarrow>
         (0, verdict CN_KOSYNC_PRODUCT_LOCAL_FAILURE CN_KOSYNC_RETRY_EXPLICIT_ACTION result)
     | Known CN_KOSYNC_SYNC_STATUS_LOCAL_FAILED \<Rightarrow>
         (0, verdict CN_KOSYNC_PRODUCT_LOCAL_FAILURE CN_KOSYNC_RETRY_EXPLICIT_ACTION result)
     | Known CN_KOSYNC_SYNC_STATUS_LOCAL_UNSUPPORTED \<Rightarrow>
         (0, verdict CN_KOSYNC_PRODUCT_LOCAL_UNSUPPORTED CN_KOSYNC_RETRY_EXPLICIT_ACTION result)
     | Known CN_KOSYNC_SYNC_STATUS_TRUSTED_TIME_FAILED \<Rightarrow> (0, classify_time sync result)
     | Known CN_KOSYNC_SYNC_STATUS_DNS_FAILED \<Rightarrow> (0, classify_dns sync result)
     | Known CN_KOSYNC_SYNC_STATUS_AUTH_FAILED \<Rightarrow>
         (0, verdict CN_KOSYNC_PRODUCT_AUTH_REQUIRED CN_KOSYNC_RETRY_EXPLICIT_ACTION result)
     | Known CN_KOSYNC_SYNC_STATUS_HTTPS_FAILED \<Rightarrow> (0, classify_https sync result)
     | Known CN_KOSYNC_SYNC_STATUS_PROTOCOL_FAILED \<Rightarrow> (0, classify_protocol sync result)
     | Known CN_KOSYNC_SYNC_STATUS_NO_MEMORY \<Rightarrow>
         (0, verdict CN_KOSYNC_PRODUCT_INTERNAL_FAILURE CN_KOSYNC_RETRY_EXPLICIT_ACTION result)
     | Unknown _ \<Rightarrow> (-1, fail_closed result))"

definition cn_kosync_policy_classify ::
  "int \<Rightarrow> cn_kosync_sync_result option \<Rightarrow> cn_kosync_product_result option \<Rightarrow> int \<times> cn_kosync_product_result option" where
  "cn_kosync_policy_classify enabled sync result = (case result of None \<Rightarrow> (-1, None)
     | Some result \<Rightarrow>
     let result = fail_closed result in
     if enabled \<noteq> 0 \<and> enabled \<noteq> 1 then (-1, Some result)
     else if enabled = 0 then
       (0, Some (result\<lparr>outcome := CN_KOSYNC_PRODUCT_DISABLED, retry := CN_KOSYNC_RETRY_NONE\<rparr>))
     else if \<not> policy_arguments_valid sync then (-1, Some result)
     else let sync = the sync in
     if \<not> policy_evidence_valid sync then (-1, Some result)
     else let result = result\<lparr>
         local_mutation := (if local_saved sync \<noteq> 0 then CN_KOSYNC_MUTATION_CONFIRMED
           else if local_save_attempted sync \<noteq> 0 then CN_KOSYNC_MUTATION_POSSIBLE
           else CN_KOSYNC_MUTATION_NONE),
         remote_mutation := policy_remote_mutation sync\<rparr>
     in if local_saved sync \<noteq> 0 \<and> local_save_attempted sync = 0 \<or>
           remote_uploaded sync \<noteq> 0 \<and> remote_put_attempted sync = 0 \<or>
           sync_status sync \<noteq> Known CN_KOSYNC_SYNC_STATUS_OK \<and> (local_saved sync \<noteq> 0 \<or> remote_uploaded sync \<noteq> 0)
        then (0, Some (fail_closed result))
        else (case policy_switch sync result of (r, result) \<Rightarrow> (r, Some result)))"

section \<open>What the cases can answer\<close>

definition synced_outcomes :: "cn_kosync_product_outcome set" where
  "synced_outcomes = {CN_KOSYNC_PRODUCT_UPLOADED, CN_KOSYNC_PRODUCT_IMPORTED, CN_KOSYNC_PRODUCT_UNCHANGED,
     CN_KOSYNC_PRODUCT_NO_STATE, CN_KOSYNC_PRODUCT_CONFLICT}"

definition transient_failure :: "cn_kosync_sync_result \<Rightarrow> bool" where
  "transient_failure sync \<longleftrightarrow>
     sync_status sync = Known CN_KOSYNC_SYNC_STATUS_TRUSTED_TIME_FAILED \<and>
       time_result sync \<in> Known ` {CN_TIME_SOCKET_FAILED, CN_TIME_SEND_FAILED, CN_TIME_TIMEOUT, CN_TIME_RECV_FAILED} \<or>
     sync_status sync = Known CN_KOSYNC_SYNC_STATUS_DNS_FAILED \<and>
       dns_result sync \<in> Known ` {CN_DNS_SOCKET_FAILED, CN_DNS_NETWORK_FAILED, CN_DNS_TIMEOUT, CN_DNS_SERVER_FAILURE} \<or>
     sync_status sync = Known CN_KOSYNC_SYNC_STATUS_HTTPS_FAILED \<and>
       transport_result (kosync_outcome sync) \<in> Known ` {CN_NETSIMPLE_RESOLVE_ERROR, CN_NETSIMPLE_CONNECT_REFUSED,
         CN_NETSIMPLE_NETWORK_UNREACHABLE, CN_NETSIMPLE_HOST_UNREACHABLE, CN_NETSIMPLE_CONNECT_TIMEOUT,
         CN_NETSIMPLE_CONNECT_ERROR, CN_NETSIMPLE_SEND_ERROR, CN_NETSIMPLE_RECV_ERROR, CN_NETSIMPLE_RECV_TIMEOUT,
         CN_NETSIMPLE_SEND_TIMEOUT, CN_NETSIMPLE_TLS_HANDSHAKE_TIMEOUT, CN_NETSIMPLE_TLS_RECV_TIMEOUT} \<or>
     sync_status sync = Known CN_KOSYNC_SYNC_STATUS_PROTOCOL_FAILED \<and> kosync_result sync = Known CN_KOSYNC_HTTP_ERROR \<and>
       http_status (kosync_outcome sync) \<in> {408, 429} \<union> {500..599}"


text \<open>An answer that needs no further check: the flags agree with each other and with the status.\<close>

definition flags_agree :: "cn_kosync_sync_result \<Rightarrow> bool" where
  "flags_agree s \<longleftrightarrow> \<not> (local_saved s \<noteq> 0 \<and> local_save_attempted s = 0 \<or> remote_uploaded s \<noteq> 0 \<and> remote_put_attempted s = 0 \<or>
     sync_status s \<noteq> Known CN_KOSYNC_SYNC_STATUS_OK \<and> (local_saved s \<noteq> 0 \<or> remote_uploaded s \<noteq> 0))"

definition judged :: "cn_kosync_sync_result \<Rightarrow> bool" where
  "judged s \<longleftrightarrow> boolean_fields_valid s \<and> is_known (sync_status s) \<and> is_known (decision s) \<and> policy_evidence_valid s"

definition closed_result :: cn_kosync_product_result where
  "closed_result = \<lparr>outcome = CN_KOSYNC_PRODUCT_INTERNAL_FAILURE, retry = CN_KOSYNC_RETRY_EXPLICIT_ACTION,
     local_mutation = CN_KOSYNC_MUTATION_NONE, remote_mutation = CN_KOSYNC_MUTATION_NONE\<rparr>"

lemma fail_closed_any [simp]: "fail_closed result = closed_result"
  by (cases result) (simp add: fail_closed_def closed_result_def)

definition mutation_report :: "cn_kosync_sync_result \<Rightarrow> cn_kosync_product_result" where
  "mutation_report s = closed_result\<lparr>
     local_mutation := (if local_saved s \<noteq> 0 then CN_KOSYNC_MUTATION_CONFIRMED
       else if local_save_attempted s \<noteq> 0 then CN_KOSYNC_MUTATION_POSSIBLE else CN_KOSYNC_MUTATION_NONE),
     remote_mutation := policy_remote_mutation s\<rparr>"

text \<open>The policy as one case distinction.\<close>

lemma policy_cases:
  "cn_kosync_policy_classify enabled sync (Some old) =
     (if enabled = 0 then (0, Some (closed_result\<lparr>outcome := CN_KOSYNC_PRODUCT_DISABLED, retry := CN_KOSYNC_RETRY_NONE\<rparr>))
      else if enabled = 1 \<and> (\<exists>s. sync = Some s \<and> judged s)
      then (if flags_agree (the sync) then map_prod id Some (policy_switch (the sync) (mutation_report (the sync)))
            else (0, Some closed_result))
      else (-1, Some closed_result))"
  by (cases sync)
    (auto simp: cn_kosync_policy_classify_def policy_arguments_valid_def judged_def flags_agree_def
      mutation_report_def Let_def map_prod_def id_def split: prod.splits)

lemma policy_switch_code: "is_known (sync_status s) \<Longrightarrow> fst (policy_switch s x) = 0"
  by (auto simp: policy_switch_def is_known_def split: enum_value.splits cn_kosync_sync_status.splits)

text \<open>Each failure case answers one of a few verdicts, and leaves the mutation report or closes.\<close>

lemmas policy_verdicts = classify_time_def classify_dns_def classify_https_def classify_protocol_def
  verdict_def closed_result_def mutation_report_def Let_def

lemma classify_time_retry:
  "retry (classify_time s (mutation_report s)) = CN_KOSYNC_RETRY_AUTOMATIC_LATER \<longleftrightarrow>
     time_result s \<in> Known ` {CN_TIME_SOCKET_FAILED, CN_TIME_SEND_FAILED, CN_TIME_TIMEOUT, CN_TIME_RECV_FAILED}"
  by (cases "time_result s") (auto simp: policy_verdicts split: cn_time_result.splits)

lemma classify_dns_retry:
  "retry (classify_dns s (mutation_report s)) = CN_KOSYNC_RETRY_AUTOMATIC_LATER \<longleftrightarrow>
     dns_result s \<in> Known ` {CN_DNS_SOCKET_FAILED, CN_DNS_NETWORK_FAILED, CN_DNS_TIMEOUT, CN_DNS_SERVER_FAILURE}"
  by (cases "dns_result s") (auto simp: policy_verdicts split: cn_dns_result.splits)

lemma classify_https_retry:
  "retry (classify_https s (mutation_report s)) = CN_KOSYNC_RETRY_AUTOMATIC_LATER \<longleftrightarrow>
     transport_result (kosync_outcome s) \<in> Known ` {CN_NETSIMPLE_RESOLVE_ERROR, CN_NETSIMPLE_CONNECT_REFUSED,
         CN_NETSIMPLE_NETWORK_UNREACHABLE, CN_NETSIMPLE_HOST_UNREACHABLE, CN_NETSIMPLE_CONNECT_TIMEOUT,
         CN_NETSIMPLE_CONNECT_ERROR, CN_NETSIMPLE_SEND_ERROR, CN_NETSIMPLE_RECV_ERROR, CN_NETSIMPLE_RECV_TIMEOUT,
         CN_NETSIMPLE_SEND_TIMEOUT, CN_NETSIMPLE_TLS_HANDSHAKE_TIMEOUT, CN_NETSIMPLE_TLS_RECV_TIMEOUT}"
  by (cases "transport_result (kosync_outcome s)")
    (auto simp: policy_verdicts transport_valid_def split: cn_netsimple_result.splits)

lemma classify_protocol_retry:
  "retry (classify_protocol s (mutation_report s)) = CN_KOSYNC_RETRY_AUTOMATIC_LATER \<longleftrightarrow>
     kosync_result s = Known CN_KOSYNC_HTTP_ERROR \<and> http_status (kosync_outcome s) \<in> {408, 429} \<union> {500..599}"
  by (cases "kosync_result s") (auto simp: policy_verdicts)

lemma classify_success_retry: "retry (classify_success s x) \<noteq> CN_KOSYNC_RETRY_AUTOMATIC_LATER"
  by (auto simp: classify_success_def closed_result_def Let_def split: enum_value.splits cn_kosync_sync_decision.splits)

lemma policy_switch_retry:
  "retry (snd (policy_switch s (mutation_report s))) = CN_KOSYNC_RETRY_AUTOMATIC_LATER \<longleftrightarrow> transient_failure s"
proof (cases "sync_status s")
  case (Known c)
  then show ?thesis
    by (cases c) (simp_all only: policy_switch_def transient_failure_def enum_value.case cn_kosync_sync_status.case
        snd_conv classify_time_retry classify_dns_retry classify_https_retry classify_protocol_retry
        classify_success_retry, simp_all add: verdict_def)
qed (simp add: policy_switch_def transient_failure_def closed_result_def)

text \<open>The case of success, and that no failure is reported as one.\<close>

lemma classify_failure_outcome:
  "outcome (classify_time s x) \<notin> synced_outcomes" "outcome (classify_dns s x) \<notin> synced_outcomes"
  "outcome (classify_https s x) \<notin> synced_outcomes" "outcome (classify_protocol s x) \<notin> synced_outcomes"
  by (auto simp: policy_verdicts synced_outcomes_def split: enum_value.splits cn_time_result.splits
      cn_dns_result.splits cn_netsimple_result.splits)

lemma policy_switch_synced:
  "outcome (snd (policy_switch s x)) \<in> synced_outcomes \<Longrightarrow>
     sync_status s = Known CN_KOSYNC_SYNC_STATUS_OK \<and> snd (policy_switch s x) = classify_success s x"
proof (cases "sync_status s")
  case (Known c)
  assume "outcome (snd (policy_switch s x)) \<in> synced_outcomes"
  then show ?thesis using Known classify_failure_outcome [of s x]
    by (cases c) (auto simp: policy_switch_def verdict_def, simp_all add: synced_outcomes_def)
qed (simp add: policy_switch_def synced_outcomes_def closed_result_def)

lemma classify_success_outcome:
  "outcome (classify_success s (mutation_report s)) \<in> synced_outcomes \<Longrightarrow> success_invariants_hold s \<and>
     (\<exists>d. decision s = Known d \<and> outcome (classify_success s (mutation_report s)) = (case d of
        CN_KOSYNC_SYNC_LOCAL_SELECTED \<Rightarrow> CN_KOSYNC_PRODUCT_UPLOADED
      | CN_KOSYNC_SYNC_REMOTE_SELECTED \<Rightarrow> CN_KOSYNC_PRODUCT_IMPORTED
      | CN_KOSYNC_SYNC_NO_CHANGE \<Rightarrow> CN_KOSYNC_PRODUCT_UNCHANGED
      | CN_KOSYNC_SYNC_AMBIGUOUS \<Rightarrow> CN_KOSYNC_PRODUCT_CONFLICT
      | _ \<Rightarrow> CN_KOSYNC_PRODUCT_NO_STATE) \<and>
      local_mutation (classify_success s (mutation_report s)) = local_mutation (mutation_report s) \<and>
      remote_mutation (classify_success s (mutation_report s)) = remote_mutation (mutation_report s))"
  by (auto simp: classify_success_def Let_def closed_result_def synced_outcomes_def
      split: if_splits enum_value.splits cn_kosync_sync_decision.splits)

section \<open>Properties\<close>

text \<open>What a product outcome that claims a completed synchronisation asserts of the evidence.\<close>

definition outcome_proved :: "cn_kosync_product_result \<Rightarrow> cn_kosync_sync_result \<Rightarrow> bool" where
  "outcome_proved r s \<longleftrightarrow> (case outcome r of
     CN_KOSYNC_PRODUCT_UPLOADED \<Rightarrow> local_present s = 1 \<and> remote_present s = 0 \<and> remote_put_attempted s = 1 \<and>
       remote_uploaded s = 1 \<and> local_save_attempted s = 0 \<and>
       remote_mutation r = CN_KOSYNC_MUTATION_CONFIRMED \<and> local_mutation r = CN_KOSYNC_MUTATION_NONE
   | CN_KOSYNC_PRODUCT_IMPORTED \<Rightarrow> local_present s = 0 \<and> remote_present s = 1 \<and> local_save_attempted s = 1 \<and>
       local_saved s = 1 \<and> remote_put_attempted s = 0 \<and>
       local_mutation r = CN_KOSYNC_MUTATION_CONFIRMED \<and> remote_mutation r = CN_KOSYNC_MUTATION_NONE
   | CN_KOSYNC_PRODUCT_NO_STATE \<Rightarrow> local_present s = 0 \<and> remote_present s = 0 \<and> local_save_attempted s = 0 \<and>
       remote_put_attempted s = 0 \<and> local_mutation r = CN_KOSYNC_MUTATION_NONE \<and> remote_mutation r = CN_KOSYNC_MUTATION_NONE
   | _ \<Rightarrow> local_present s = 1 \<and> remote_present s = 1 \<and> local_save_attempted s = 0 \<and>
       remote_put_attempted s = 0 \<and> local_mutation r = CN_KOSYNC_MUTATION_NONE \<and> remote_mutation r = CN_KOSYNC_MUTATION_NONE)"

lemma success_evidence:
  assumes "judged s" "outcome (classify_success s (mutation_report s)) \<in> synced_outcomes"
  shows "outcome_proved (classify_success s (mutation_report s)) s"
  using classify_success_outcome [OF assms(2)] assms(1)
  by (auto simp: success_invariants_hold_def outcome_proved_def judged_def boolean_fields_valid_def mutation_report_def
      policy_remote_mutation_def closed_result_def split: cn_kosync_sync_decision.splits if_splits)

text \<open>C13. The policy reports a completed synchronisation (uploaded, imported, unchanged, nothing to do,
  conflict) only when synchronisation is enabled, its status is OK and its flags prove that outcome;
  the mutation it reports for each side then is what the flags say.\<close>

theorem policy_reports_only_proved_success:
  assumes "cn_kosync_policy_classify enabled sync (Some old) = (code, Some r)" "outcome r \<in> synced_outcomes"
  shows "enabled = 1 \<and> code = 0 \<and>
    (\<exists>s. sync = Some s \<and> sync_status s = Known CN_KOSYNC_SYNC_STATUS_OK \<and> outcome_proved r s)"
proof -
  have n: "outcome closed_result \<notin> synced_outcomes" "CN_KOSYNC_PRODUCT_DISABLED \<notin> synced_outcomes"
    by (simp_all add: closed_result_def synced_outcomes_def)
  have e: "enabled = 1" "\<exists>s. sync = Some s \<and> judged s" "flags_agree (the sync)"
    using assms n unfolding policy_cases by (auto split: if_splits)
  then obtain s where s: "sync = Some s" "judged s" by blast
  have r: "policy_switch s (mutation_report s) = (code, r)"
    using assms(1) e s unfolding policy_cases by (cases "policy_switch s (mutation_report s)") auto
  then have ok: "sync_status s = Known CN_KOSYNC_SYNC_STATUS_OK" "r = classify_success s (mutation_report s)"
    using policy_switch_synced [of s "mutation_report s"] assms(2) by auto
  then have "outcome_proved r s" using success_evidence [OF s(2)] assms(2) by simp
  moreover have "code = 0" using policy_switch_code [of s "mutation_report s"] ok(1) r by simp
  ultimately show ?thesis using e(1) s(1) ok(1) by blast
qed

definition sample_unchanged :: cn_kosync_sync_result where
  "sample_unchanged = \<lparr>sync_status = Known CN_KOSYNC_SYNC_STATUS_OK, decision = Known CN_KOSYNC_SYNC_NO_CHANGE,
     local_present = 1, remote_present = 1, local_save_attempted = 0, remote_put_attempted = 0, local_saved = 0,
     remote_uploaded = 0, koreader_document_id = [], remote_progress = the (cn_kosync_progress_init (Some undefined)),
     local_identity_ok = True, identity_result = CN_KOREADER_IDENTITY_OK, local_load_result = CN_PROGRESS_OK,
     local_save_result = CN_PROGRESS_INVALID, time_result = Known CN_TIME_OK, dns_result = Known CN_DNS_OK,
     kosync_result = Known CN_KOSYNC_OK,
     kosync_outcome = \<lparr>http_status = 200, transport_result = Known CN_NETSIMPLE_OK\<rparr>,
     put_timestamp = 0, has_put_timestamp = False\<rparr>"

theorem policy_reports_only_proved_success_witness:
  "\<exists>r. cn_kosync_policy_classify 1 (Some sample_unchanged) (Some closed_result) = (0, Some r) \<and>
     outcome r = CN_KOSYNC_PRODUCT_UNCHANGED \<and> outcome_proved r sample_unchanged"
proof -
  obtain r where r: "cn_kosync_policy_classify 1 (Some sample_unchanged) (Some closed_result) = (0, Some r)"
    "outcome r = CN_KOSYNC_PRODUCT_UNCHANGED"
    by (simp add: policy_cases judged_def sample_unchanged_def boolean_fields_valid_def policy_evidence_valid_def
        flags_agree_def policy_switch_def classify_success_def success_invariants_hold_def Let_def)
  then show ?thesis
    using policy_reports_only_proved_success [OF r(1)] by (auto simp: synced_outcomes_def)
qed

text \<open>An automatic retry is offered exactly for a transient failure: valid evidence with no completed
  mutation whose status, time, DNS, transport or HTTP code is one of the transient ones.\<close>

lemma policy_retries_only_transient:
  "retry (the (snd (cn_kosync_policy_classify enabled sync (Some old)))) = CN_KOSYNC_RETRY_AUTOMATIC_LATER \<longleftrightarrow>
     enabled = 1 \<and> (\<exists>s. sync = Some s \<and> judged s \<and> local_saved s = 0 \<and> remote_uploaded s = 0 \<and> transient_failure s)"
proof -
  have n: "retry closed_result \<noteq> CN_KOSYNC_RETRY_AUTOMATIC_LATER" by (simp add: closed_result_def)
  have f: "transient_failure s \<Longrightarrow> flags_agree s \<longleftrightarrow> local_saved s = 0 \<and> remote_uploaded s = 0" for s
    by (auto simp: transient_failure_def flags_agree_def)
  show ?thesis
    using n f policy_switch_retry unfolding policy_cases
    by (cases sync) auto
qed

text \<open>C14. The policy fails closed: it answers -1 exactly when its arguments or the evidence are not
  valid, and then reports an internal failure that asks for an explicit action and no mutation, whatever
  the result held before.\<close>

theorem policy_fails_closed:
  "cn_kosync_policy_classify enabled sync (Some old) = (-1, x) \<longleftrightarrow>
     x = Some closed_result \<and> \<not> (enabled = 0 \<or> enabled = 1 \<and> (\<exists>s. sync = Some s \<and> judged s))"
proof -
  have "judged s \<Longrightarrow> policy_switch s y \<noteq> (-1, z)" for s y z
    using policy_switch_code [of s y] by (auto simp: judged_def)
  then show ?thesis unfolding policy_cases by (auto simp: map_prod_def split: prod.splits)
qed

end
