(* ===== verification/Sockets.thy ===== *)
theory Sockets
  imports Prelude
begin

text \<open>
  The sockets, clocks and random bytes that the network code of src/net and src/time uses.

  The world is a script of replies: every call of the operating system and of the TLS layer
  (src/net/tlssimple.c, which drives BearSSL) takes the next one and reads of it what that call can
  answer, an error, an event, a count, some bytes.  A script is any finite list; once it is used up every
  call fails or times out, so each loop ends.  The lemmas hold for every script.  The world records the
  descriptors that are open, the bytes that were handed to a connection (what \<open>send\<close> accepted, and of a
  TLS send that failed the part the script names), the datagrams that were sent and the time that was set.
\<close>

section \<open>The calls\<close>

datatype socket_errno = ECONNREFUSED | ENETUNREACH | EHOSTUNREACH | ETIMEDOUT | EINPROGRESS | EAGAIN
  | SOCKET_EINTR | SOCKET_EOTHER

datatype poll_event = POLLIN | POLLOUT | POLLERR | POLLHUP | POLLNVAL

datatype cn_tls_result =
  CN_TLS_OK | CN_TLS_INVALID | CN_TLS_INTERNAL | CN_TLS_ENTROPY_FAILED | CN_TLS_INVALID_CA
  | CN_TLS_HANDSHAKE_FAILED | CN_TLS_HANDSHAKE_TIMEOUT | CN_TLS_TRUST_FAILED | CN_TLS_HOSTNAME_MISMATCH
  | CN_TLS_CERT_TIME_FAILED | CN_TLS_CERT_INVALID | CN_TLS_PROTOCOL_FAILED | CN_TLS_CLOSED
  | CN_TLS_RECV_TIMEOUT | CN_TLS_SEND_TIMEOUT

text \<open>\<open>r_families\<close> tells of each address that \<open>getaddrinfo\<close> finds whether its family is \<open>AF_INET\<close>.
  \<open>r_peer\<close> is the sender of a datagram, four octets and a port, or \<open>None\<close> where its address is of
  another family or length.\<close>

record reply =
  r_clock :: int
  r_error :: "socket_errno option"
  r_timeout :: bool
  r_events :: "poll_event set"
  r_count :: nat
  r_data :: bytes
  r_families :: "bool list"
  r_tls :: cn_tls_result
  r_closed :: bool
  r_peer :: "(bytes \<times> nat) option"

record network =
  script :: "reply list"
  sockets :: "nat set"
  next_socket :: nat
  outgoing :: bytes
  datagrams :: "((bytes \<times> nat) \<times> bytes) list"
  wall_clock :: "(int \<times> int) option"

definition last_reply :: reply where
  "last_reply = \<lparr>r_clock = 0, r_error = None, r_timeout = True, r_events = {}, r_count = 0, r_data = [],
     r_families = [], r_tls = CN_TLS_INTERNAL, r_closed = True, r_peer = None\<rparr>"

definition next_reply :: "network \<Rightarrow> reply" where
  "next_reply n = (case script n of [] \<Rightarrow> last_reply | r # _ \<Rightarrow> r)"

definition spend :: "network \<Rightarrow> network" where
  "spend n = n\<lparr>script := tl (script n)\<rparr>"

definition int_max :: int where "int_max = 2147483647"

text \<open>\<open>clock_gettime\<close>, \<open>fcntl\<close>, \<open>socket\<close>, \<open>close\<close>, \<open>connect\<close>, \<open>poll\<close>, \<open>getsockopt\<close>, \<open>send\<close> and \<open>recv\<close>.\<close>

definition now_ms :: "network \<Rightarrow> int \<times> network" where
  "now_ms n = (r_clock (next_reply n), spend n)"

definition sys_fcntl :: "network \<Rightarrow> bool \<times> network" where
  "sys_fcntl n = (r_error (next_reply n) = None, spend n)"

definition sys_socket :: "network \<Rightarrow> nat option \<times> network" where
  "sys_socket n = (if r_error (next_reply n) \<noteq> None then (None, spend n)
     else (Some (next_socket n), (spend n)\<lparr>sockets := insert (next_socket n) (sockets n), next_socket := next_socket n + 1\<rparr>))"

definition sys_close_socket :: "nat \<Rightarrow> network \<Rightarrow> network" where
  "sys_close_socket fd n = n\<lparr>sockets := sockets n - {fd}\<rparr>"

definition sys_connect :: "network \<Rightarrow> socket_errno option \<times> network" where
  "sys_connect n = (r_error (next_reply n), spend n)"

datatype poll_answer = Poll_timeout | Poll_error socket_errno | Poll_events "poll_event set"

definition sys_poll :: "network \<Rightarrow> poll_answer \<times> network" where
  "sys_poll n = (case r_error (next_reply n) of Some e \<Rightarrow> Poll_error e
     | None \<Rightarrow> if r_timeout (next_reply n) then Poll_timeout else Poll_events (r_events (next_reply n)), spend n)"

definition sys_socket_error :: "network \<Rightarrow> socket_errno option option \<times> network" where
  "sys_socket_error n = (if r_timeout (next_reply n) then None else Some (r_error (next_reply n)), spend n)"

definition sys_send :: "bytes \<Rightarrow> network \<Rightarrow> (socket_errno + nat) \<times> network" where
  "sys_send data n = (case r_error (next_reply n) of Some e \<Rightarrow> (Inl e, spend n)
     | None \<Rightarrow> let k = min (r_count (next_reply n)) (length data)
               in (Inr k, (spend n)\<lparr>outgoing := outgoing n @ take k data\<rparr>))"

definition sys_recv :: "nat \<Rightarrow> network \<Rightarrow> (socket_errno + bytes) \<times> network" where
  "sys_recv room n = (case r_error (next_reply n) of Some e \<Rightarrow> Inl e
     | None \<Rightarrow> Inr (take room (r_data (next_reply n))), spend n)"

definition getaddrinfo :: "network \<Rightarrow> bool list \<times> network" where
  "getaddrinfo n = (if r_error (next_reply n) \<noteq> None then [] else r_families (next_reply n), spend n)"

text \<open>\<open>clock_gettime\<close> and \<open>clock_settime\<close>, \<open>sendto\<close> and \<open>recvfrom\<close>, and the random device: opening and
  reading it can fail like any descriptor.\<close>

definition sys_clock :: "network \<Rightarrow> int option \<times> network" where
  "sys_clock n = (if r_error (next_reply n) \<noteq> None then None else Some (r_clock (next_reply n)), spend n)"

definition sys_settime :: "int \<Rightarrow> int \<Rightarrow> network \<Rightarrow> bool \<times> network" where
  "sys_settime seconds nanoseconds n = (if r_error (next_reply n) \<noteq> None then (False, spend n)
     else (True, (spend n)\<lparr>wall_clock := Some (seconds, nanoseconds)\<rparr>))"

definition sys_sendto :: "bytes \<Rightarrow> bytes \<times> nat \<Rightarrow> network \<Rightarrow> (socket_errno + nat) \<times> network" where
  "sys_sendto data address n = (case r_error (next_reply n) of Some e \<Rightarrow> (Inl e, spend n)
     | None \<Rightarrow> let k = min (r_count (next_reply n)) (length data)
               in (Inr k, (spend n)\<lparr>datagrams := datagrams n @ [(address, take k data)]\<rparr>))"

definition sys_recvfrom :: "nat \<Rightarrow> network \<Rightarrow> (socket_errno + bytes \<times> (bytes \<times> nat) option) \<times> network" where
  "sys_recvfrom room n = (case r_error (next_reply n) of Some e \<Rightarrow> Inl e
     | None \<Rightarrow> Inr (take room (r_data (next_reply n)), r_peer (next_reply n)), spend n)"

definition sys_open_random :: "network \<Rightarrow> nat option \<times> network" where
  "sys_open_random n = sys_socket n"

definition sys_read_random :: "nat \<Rightarrow> network \<Rightarrow> (socket_errno + bytes) \<times> network" where
  "sys_read_random room n = sys_recv room n"

text \<open>The contract of the TLS layer: \<open>cn_tls_open\<close> owns the socket and closes it when it fails, a
  successful send has sent everything, and \<open>cn_tls_recv_some\<close> delivers bytes only with success.\<close>

definition tls_open :: "nat \<Rightarrow> network \<Rightarrow> cn_tls_result \<times> network" where
  "tls_open fd n = (r_tls (next_reply n),
     if r_tls (next_reply n) = CN_TLS_OK then spend n else sys_close_socket fd (spend n))"

definition tls_send_all :: "bytes \<Rightarrow> network \<Rightarrow> cn_tls_result \<times> network" where
  "tls_send_all data n = (r_tls (next_reply n),
     (spend n)\<lparr>outgoing := outgoing n @ (if r_tls (next_reply n) = CN_TLS_OK then data else take (r_count (next_reply n)) data)\<rparr>)"

definition tls_recv_some :: "nat \<Rightarrow> network \<Rightarrow> (cn_tls_result \<times> bytes \<times> bool) \<times> network" where
  "tls_recv_some room n =
     ((r_tls (next_reply n), if r_tls (next_reply n) = CN_TLS_OK then take room (r_data (next_reply n)) else [],
       r_closed (next_reply n)), spend n)"

section \<open>What the calls use up\<close>

lemma script_spend: "length (script (spend n)) \<le> length (script n)"
  by (simp add: spend_def)

lemma spend_error: "r_error (next_reply n) = Some e \<Longrightarrow> length (script (spend n)) < length (script n)"
  by (cases "script n") (auto simp: next_reply_def last_reply_def spend_def)

lemma poll_error_spends: "sys_poll n = (Poll_error e, n') \<Longrightarrow> length (script n') < length (script n)"
  by (auto simp: sys_poll_def dest: spend_error split: option.splits if_splits)

lemma sent_spends: "sys_send d n = (r, n') \<Longrightarrow> r \<noteq> Inr 0 \<Longrightarrow> length (script n') < length (script n)"
  by (cases "script n") (auto simp: sys_send_def Let_def next_reply_def last_reply_def spend_def split: option.splits)

lemma poll_script: "sys_poll n = (Poll_events r, n') \<Longrightarrow> length (script n') \<le> length (script n)"
  by (auto simp: sys_poll_def script_spend)

lemma recv_error_spends: "sys_recv k n = (Inl e, n') \<Longrightarrow> length (script n') < length (script n)"
  by (auto simp: sys_recv_def dest: spend_error split: option.splits)

lemma recv_some_spends: "sys_recv k n = (Inr d, n') \<Longrightarrow> d \<noteq> [] \<Longrightarrow> length (script n') < length (script n)"
  by (cases "script n") (auto simp: sys_recv_def next_reply_def last_reply_def spend_def split: option.splits)

lemma recv_length: "sys_recv k n = (Inr d, n') \<Longrightarrow> length d \<le> k"
  by (auto simp: sys_recv_def split: option.splits)

lemma tls_recv_spends:
  "tls_recv_some k n = ((CN_TLS_OK, got, closed), n') \<Longrightarrow> length (script n') < length (script n) \<and> length got \<le> k"
  by (cases "script n") (auto simp: tls_recv_some_def next_reply_def last_reply_def spend_def)

section \<open>What the calls leave alone\<close>

definition silent :: "network \<Rightarrow> network \<Rightarrow> bool" where
  "silent n n' \<longleftrightarrow> outgoing n' = outgoing n \<and> sockets n' = sockets n \<and> next_socket n' = next_socket n \<and>
     datagrams n' = datagrams n \<and> wall_clock n' = wall_clock n"

lemma silent_refl [simp]: "silent n n"
  by (simp add: silent_def)

lemma silent_trans [trans]: "silent a b \<Longrightarrow> silent b c \<Longrightarrow> silent a c"
  by (simp add: silent_def)

lemma silent_spend [simp]: "silent a (spend b) = silent a b"
  by (simp add: silent_def spend_def)

lemma silent_call:
  "now_ms n = (r1, n') \<Longrightarrow> silent n n'" "sys_fcntl n = (r2, n') \<Longrightarrow> silent n n'" "sys_connect n = (r3, n') \<Longrightarrow> silent n n'"
  "sys_poll n = (r4, n') \<Longrightarrow> silent n n'" "sys_socket_error n = (r5, n') \<Longrightarrow> silent n n'" "sys_recv k n = (r6, n') \<Longrightarrow> silent n n'"
  "getaddrinfo n = (r7, n') \<Longrightarrow> silent n n'" "tls_recv_some k n = (r8, n') \<Longrightarrow> silent n n'"
  by (auto simp: now_ms_def sys_fcntl_def sys_connect_def sys_poll_def sys_socket_error_def sys_recv_def getaddrinfo_def
      tls_recv_some_def)

lemma silent_snd [simp]:
  "silent a (snd (now_ms n)) = silent a n" "silent a (snd (sys_fcntl n)) = silent a n" "silent a (snd (sys_connect n)) = silent a n"
  "silent a (snd (sys_poll n)) = silent a n" "silent a (snd (sys_socket_error n)) = silent a n" "silent a (snd (sys_recv k n)) = silent a n"
  "silent a (snd (getaddrinfo n)) = silent a n" "silent a (snd (tls_recv_some k n)) = silent a n"
  by (simp_all add: now_ms_def sys_fcntl_def sys_connect_def sys_poll_def sys_socket_error_def sys_recv_def getaddrinfo_def
      tls_recv_some_def)

definition wf_net :: "network \<Rightarrow> bool" where
  "wf_net n \<longleftrightarrow> (\<forall>fd \<in> sockets n. fd < next_socket n)"

text \<open>Opening: nothing is sent, and the one socket that stays open is the one that is handed on.\<close>

definition holds_socket :: "network \<Rightarrow> nat option \<Rightarrow> network \<Rightarrow> bool" where
  "holds_socket n fd n' \<longleftrightarrow> outgoing n' = outgoing n \<and> wf_net n' \<and>
     (case fd of None \<Rightarrow> sockets n' = sockets n | Some f \<Rightarrow> f \<notin> sockets n \<and> sockets n' = insert f (sockets n))"

lemma socket_opened: "sys_socket n = (fd, n') \<Longrightarrow> wf_net n \<Longrightarrow> holds_socket n fd n'"
  by (auto simp: sys_socket_def holds_socket_def wf_net_def spend_def less_Suc_eq split: if_splits)

lemma opened_silent: "holds_socket n fd n1 \<Longrightarrow> silent n1 n2 \<Longrightarrow> holds_socket n fd n2"
  by (auto simp: holds_socket_def silent_def wf_net_def split: option.splits)

lemma opened_shut: "holds_socket n (Some fd) n1 \<Longrightarrow> holds_socket n None (sys_close_socket fd n1)"
  by (auto simp: holds_socket_def sys_close_socket_def wf_net_def)

lemma opened_again: "holds_socket n None n1 \<Longrightarrow> holds_socket n1 fd n2 \<Longrightarrow> holds_socket n fd n2"
  by (auto simp: holds_socket_def split: option.splits)

lemma opened_wf: "holds_socket n fd n' \<Longrightarrow> wf_net n'"
  by (simp add: holds_socket_def)

definition idle_network :: "reply list \<Rightarrow> network" where
  "idle_network replies = \<lparr>script = replies, sockets = {}, next_socket = 3, outgoing = [],
     datagrams = [], wall_clock = None\<rparr>"

end
