(* ===== verification/Net_Exchange.thy ===== *)
theory Net_Exchange
  imports Netsimple Kosync_Policy Sockets
begin

text \<open>
  One HTTP exchange, \<open>cn_netsimple_exchange\<close> of src/net/netsimple.c, on
  the calls of Sockets: connecting, sending, receiving, with and without TLS.
\<close>

section \<open>Connecting\<close>

definition poll_interval_ms :: "int \<Rightarrow> network \<Rightarrow> int \<times> network" where
  "poll_interval_ms deadline n = (case now_ms n of (now, n) \<Rightarrow>
     let remaining = deadline - now
     in (if remaining < 0 then - 1 else if remaining > int_max then int_max else remaining, n))"

definition cn_tls_map :: "cn_tls_result \<Rightarrow> cn_netsimple_result" where
  "cn_tls_map r = (case r of
       CN_TLS_OK \<Rightarrow> CN_NETSIMPLE_OK
     | CN_TLS_INVALID \<Rightarrow> CN_NETSIMPLE_INVALID
     | CN_TLS_INTERNAL \<Rightarrow> CN_NETSIMPLE_TLS_INTERNAL
     | CN_TLS_ENTROPY_FAILED \<Rightarrow> CN_NETSIMPLE_TLS_ENTROPY_FAILED
     | CN_TLS_INVALID_CA \<Rightarrow> CN_NETSIMPLE_TLS_INVALID_CA
     | CN_TLS_HANDSHAKE_FAILED \<Rightarrow> CN_NETSIMPLE_TLS_HANDSHAKE_FAILED
     | CN_TLS_HANDSHAKE_TIMEOUT \<Rightarrow> CN_NETSIMPLE_TLS_HANDSHAKE_TIMEOUT
     | CN_TLS_TRUST_FAILED \<Rightarrow> CN_NETSIMPLE_TLS_TRUST_FAILED
     | CN_TLS_HOSTNAME_MISMATCH \<Rightarrow> CN_NETSIMPLE_TLS_HOSTNAME_MISMATCH
     | CN_TLS_CERT_TIME_FAILED \<Rightarrow> CN_NETSIMPLE_TLS_CERT_TIME_FAILED
     | CN_TLS_CERT_INVALID \<Rightarrow> CN_NETSIMPLE_TLS_CERT_INVALID
     | CN_TLS_PROTOCOL_FAILED \<Rightarrow> CN_NETSIMPLE_TLS_PROTOCOL_FAILED
     | CN_TLS_CLOSED \<Rightarrow> CN_NETSIMPLE_TLS_PROTOCOL_FAILED
     | CN_TLS_RECV_TIMEOUT \<Rightarrow> CN_NETSIMPLE_TLS_RECV_TIMEOUT
     | CN_TLS_SEND_TIMEOUT \<Rightarrow> CN_NETSIMPLE_SEND_TIMEOUT)"

definition cn_netsimple_connect_error :: "socket_errno \<Rightarrow> cn_netsimple_result" where
  "cn_netsimple_connect_error e = (case e of
       ECONNREFUSED \<Rightarrow> CN_NETSIMPLE_CONNECT_REFUSED
     | ENETUNREACH \<Rightarrow> CN_NETSIMPLE_NETWORK_UNREACHABLE
     | EHOSTUNREACH \<Rightarrow> CN_NETSIMPLE_HOST_UNREACHABLE
     | ETIMEDOUT \<Rightarrow> CN_NETSIMPLE_CONNECT_TIMEOUT
     | EINPROGRESS \<Rightarrow> CN_NETSIMPLE_CONNECT_TIMEOUT
     | _ \<Rightarrow> CN_NETSIMPLE_CONNECT_ERROR)"

lemma interval_script: "poll_interval_ms d n = (i, n') \<Longrightarrow> length (script n') \<le> length (script n)"
  by (auto simp: poll_interval_ms_def now_ms_def Let_def script_spend)

text \<open>The wait for a connection: \<open>Inl\<close> with the result, \<open>Inr\<close> once the socket can be asked.\<close>

function connect_wait :: "int \<Rightarrow> network \<Rightarrow> (cn_netsimple_result + unit) \<times> network" where
  "connect_wait deadline n = (case poll_interval_ms deadline n of (poll_ms, n) \<Rightarrow>
     if poll_ms < 0 then (Inl CN_NETSIMPLE_CONNECT_TIMEOUT, n)
     else case sys_poll n of
       (Poll_timeout, n) \<Rightarrow> (Inl CN_NETSIMPLE_CONNECT_TIMEOUT, n)
     | (Poll_error e, n) \<Rightarrow>
         if e = SOCKET_EINTR then connect_wait deadline n
         else (Inl CN_NETSIMPLE_CONNECT_ERROR, snd (sys_fcntl n))
     | (Poll_events _, n) \<Rightarrow> (Inr (), n))"
  by pat_completeness auto
termination
  by (relation "measure (\<lambda>(d, n). length (script n))")
    (auto dest!: interval_script[OF sym] poll_error_spends[OF sym])

declare connect_wait.simps [simp del]

definition connect_with_timeout :: "int \<Rightarrow> network \<Rightarrow> cn_netsimple_result \<times> network" where
  "connect_with_timeout timeout_ms n = (case sys_fcntl n of
     (False, n) \<Rightarrow> (CN_NETSIMPLE_CONNECT_ERROR, n)
   | (True, n) \<Rightarrow> (case sys_fcntl n of
       (False, n) \<Rightarrow> (CN_NETSIMPLE_CONNECT_ERROR, n)
     | (True, n) \<Rightarrow> (case sys_connect n of
         (None, n) \<Rightarrow> (case sys_fcntl n of
             (False, n) \<Rightarrow> (CN_NETSIMPLE_CONNECT_ERROR, n)
           | (True, n) \<Rightarrow> (CN_NETSIMPLE_OK, n))
       | (Some e, n) \<Rightarrow>
           if e \<noteq> EINPROGRESS then (cn_netsimple_connect_error e, snd (sys_fcntl n))
           else case now_ms n of (now, n) \<Rightarrow> (case connect_wait (now + timeout_ms) n of
               (Inl r, n) \<Rightarrow> (r, n)
             | (Inr _, n) \<Rightarrow> (case sys_socket_error n of
                 (None, n) \<Rightarrow> (CN_NETSIMPLE_CONNECT_ERROR, snd (sys_fcntl n))
               | (Some value, n) \<Rightarrow> (case value of
                     Some e \<Rightarrow> (cn_netsimple_connect_error e, snd (sys_fcntl n))
                   | None \<Rightarrow> (CN_NETSIMPLE_OK, snd (sys_fcntl n))))))))"

text \<open>The loop over the addresses that were found.\<close>

fun connect_entries :: "int \<Rightarrow> bool list \<Rightarrow> cn_netsimple_result \<Rightarrow> network \<Rightarrow> (cn_netsimple_result \<times> nat option) \<times> network" where
  "connect_entries connect_ms [] result n = ((result, None), n)"
| "connect_entries connect_ms (inet # entries) result n =
     (if \<not> inet then connect_entries connect_ms entries result n
      else case sys_socket n of
        (None, n) \<Rightarrow> connect_entries connect_ms entries CN_NETSIMPLE_CONNECT_ERROR n
      | (Some fd, n) \<Rightarrow> (case connect_with_timeout connect_ms n of (result, n) \<Rightarrow>
          if result = CN_NETSIMPLE_OK then ((result, Some fd), n)
          else connect_entries connect_ms entries result (sys_close_socket fd n)))"

definition open_connection :: "cn_netsimple_request \<Rightarrow> int \<Rightarrow> network \<Rightarrow> (cn_netsimple_result \<times> nat option) \<times> network" where
  "open_connection spec connect_ms n =
     (let target = (if connect_host spec \<noteq> None then connect_host spec else host spec) in
      if cn_netsimple_parse_ipv4 target \<noteq> None then
        (case sys_socket n of
           (None, n) \<Rightarrow> ((CN_NETSIMPLE_CONNECT_ERROR, None), n)
         | (Some fd, n) \<Rightarrow> (case connect_with_timeout connect_ms n of (result, n) \<Rightarrow>
             if result = CN_NETSIMPLE_OK then ((result, Some fd), n)
             else ((result, None), sys_close_socket fd n)))
      else case getaddrinfo n of (families, n) \<Rightarrow>
        if families = [] then ((CN_NETSIMPLE_RESOLVE_ERROR, None), n)
        else connect_entries connect_ms families CN_NETSIMPLE_OK n)"

section \<open>Sending and receiving\<close>

text \<open>The result and whether a response arrived before everything was sent.\<close>

function send_buffer :: "bytes \<Rightarrow> int \<Rightarrow> network \<Rightarrow> (cn_netsimple_result \<times> bool) \<times> network" where
  "send_buffer data deadline n =
     (if data = [] then ((CN_NETSIMPLE_OK, False), n)
      else case poll_interval_ms deadline n of (poll_ms, n) \<Rightarrow>
        if poll_ms < 0 then ((CN_NETSIMPLE_SEND_TIMEOUT, False), n)
        else case sys_poll n of
          (Poll_timeout, n) \<Rightarrow> ((CN_NETSIMPLE_SEND_TIMEOUT, False), n)
        | (Poll_error e, n) \<Rightarrow>
            if e = SOCKET_EINTR then send_buffer data deadline n else ((CN_NETSIMPLE_SEND_ERROR, False), n)
        | (Poll_events revents, n) \<Rightarrow>
            if POLLIN \<in> revents then ((CN_NETSIMPLE_OK, True), n)
            else if revents \<inter> {POLLERR, POLLHUP, POLLNVAL} \<noteq> {} then ((CN_NETSIMPLE_SEND_ERROR, False), n)
            else case sys_send data n of
              (Inl e, n) \<Rightarrow>
                if e = SOCKET_EINTR \<or> e = EAGAIN then send_buffer data deadline n
                else ((CN_NETSIMPLE_SEND_ERROR, False), n)
            | (Inr sent, n) \<Rightarrow>
                if sent = 0 then ((CN_NETSIMPLE_SEND_ERROR, False), n)
                else send_buffer (drop sent data) deadline n)"
  by pat_completeness auto
termination
  by (relation "measure (\<lambda>(data, d, n). length (script n))")
    (auto dest!: interval_script[OF sym] poll_error_spends[OF sym] poll_script[OF sym] sent_spends[OF sym])

declare send_buffer.simps [simp del]

text \<open>How receiving ends: with an error, or with what arrived so far and whether it filled the buffer.\<close>

datatype received = Received_error cn_netsimple_result | Received bytes bool

text \<open>The inner loop after \<open>POLLERR\<close> or \<open>POLLHUP\<close>; after \<open>EAGAIN\<close> a full buffer cannot be seen.\<close>

function drain_loop :: "nat \<Rightarrow> bytes \<Rightarrow> network \<Rightarrow> received \<times> network" where
  "drain_loop buffer_cap buffer n =
     (if length buffer \<ge> buffer_cap then (Received buffer True, n)
      else case sys_recv (buffer_cap - length buffer) n of
        (Inr got, n) \<Rightarrow> if got = [] then (Received buffer False, n) else drain_loop buffer_cap (buffer @ got) n
      | (Inl e, n) \<Rightarrow>
          if e = SOCKET_EINTR then drain_loop buffer_cap buffer n
          else if e = EAGAIN then (Received buffer False, n)
          else (Received_error CN_NETSIMPLE_RECV_ERROR, n))"
  by pat_completeness auto
termination
  by (relation "measure (\<lambda>(c, b, n). length (script n))")
    (auto dest!: recv_error_spends[OF sym] recv_some_spends[OF sym])

declare drain_loop.simps [simp del]

function receive_loop :: "nat \<Rightarrow> int \<Rightarrow> bytes \<Rightarrow> network \<Rightarrow> received \<times> network" where
  "receive_loop buffer_cap deadline buffer n =
     (if length buffer \<ge> buffer_cap then (Received buffer True, n)
      else case poll_interval_ms deadline n of (poll_ms, n) \<Rightarrow>
        if poll_ms < 0 then (Received_error CN_NETSIMPLE_RECV_TIMEOUT, n)
        else case sys_poll n of
          (Poll_timeout, n) \<Rightarrow> (Received_error CN_NETSIMPLE_RECV_TIMEOUT, n)
        | (Poll_error e, n) \<Rightarrow>
            if e = SOCKET_EINTR then receive_loop buffer_cap deadline buffer n
            else (Received_error CN_NETSIMPLE_RECV_ERROR, n)
        | (Poll_events revents, n) \<Rightarrow>
            if revents \<inter> {POLLERR, POLLHUP, POLLNVAL} \<noteq> {} then
              (if revents \<inter> {POLLERR, POLLHUP} \<noteq> {} then drain_loop buffer_cap buffer n
               else (Received_error CN_NETSIMPLE_RECV_ERROR, n))
            else case sys_recv (buffer_cap - length buffer) n of
              (Inr got, n) \<Rightarrow> if got = [] then (Received buffer False, n) else receive_loop buffer_cap deadline (buffer @ got) n
            | (Inl e, n) \<Rightarrow>
                if e = SOCKET_EINTR \<or> e = EAGAIN then receive_loop buffer_cap deadline buffer n
                else (Received_error CN_NETSIMPLE_RECV_ERROR, n))"
  by pat_completeness auto
termination
  by (relation "measure (\<lambda>(c, d, b, n). length (script n))")
    (auto dest!: interval_script[OF sym] poll_error_spends[OF sym] poll_script[OF sym] recv_error_spends[OF sym]
      recv_some_spends[OF sym])

declare receive_loop.simps [simp del]

definition overrun :: "framing \<Rightarrow> nat \<Rightarrow> bool" where
  "overrun framed used = (case framed of Malformed \<Rightarrow> True | Framed expected \<Rightarrow> used > expected | _ \<Rightarrow> False)"

text \<open>The receiving loop over TLS, which frames the response by its length.\<close>

function tls_receive_loop :: "nat \<Rightarrow> bytes \<Rightarrow> network \<Rightarrow> received \<times> network" where
  "tls_receive_loop buffer_cap buffer n =
     (if length buffer \<ge> buffer_cap then (Received buffer True, n)
      else case tls_recv_some (buffer_cap - length buffer) n of ((tls_result, got, closed), n) \<Rightarrow>
        let buffer = buffer @ got;
            framed = response_content_length buffer
        in if overrun framed (length buffer) then (Received_error CN_NETSIMPLE_BAD_RESPONSE, n)
           else if framed = Framed (length buffer) then (Received buffer False, n)
           else if tls_result = CN_TLS_CLOSED then
             (if framed = Unframed then (Received buffer False, n) else (Received_error CN_NETSIMPLE_TRUNCATED, n))
           else if tls_result \<noteq> CN_TLS_OK then
             (Received_error (if tls_result = CN_TLS_RECV_TIMEOUT then CN_NETSIMPLE_TLS_RECV_TIMEOUT
                              else CN_NETSIMPLE_TLS_PROTOCOL_FAILED), n)
           else if closed \<or> got = [] then (Received buffer False, n)
           else tls_receive_loop buffer_cap buffer n)"
  by pat_completeness auto
termination
  by (relation "measure (\<lambda>(c, b, n). length (script n))") (auto dest!: tls_recv_spends[OF sym])

declare tls_receive_loop.simps [simp del]

section \<open>The exchange\<close>

text \<open>\<open>recv_done\<close>: the answer and the bytes of the buffer that were filled.\<close>

definition finish_exchange :: "received \<Rightarrow> cn_netsimple_result \<times> cn_netsimple_response \<times> bytes" where
  "finish_exchange got = (case got of
       Received_error r \<Rightarrow> (r, zero_response, [])
     | Received buffer truncated \<Rightarrow> (case cn_netsimple_parse_status (Some buffer) True of (parse_result, parsed) \<Rightarrow>
         if parse_result \<noteq> CN_NETSIMPLE_OK
         then (if truncated then CN_NETSIMPLE_TRUNCATED else parse_result, zero_response, buffer)
         else (if truncated then CN_NETSIMPLE_TRUNCATED else CN_NETSIMPLE_OK, parsed, buffer)))"

definition tls_exchange :: "cn_netsimple_request \<Rightarrow> bytes \<Rightarrow> nat \<Rightarrow> nat \<Rightarrow> network \<Rightarrow>
    (cn_netsimple_result \<times> cn_netsimple_response \<times> bytes) \<times> network" where
  "tls_exchange spec request fd buffer_cap n = (case now_ms n of (_, n) \<Rightarrow> (case tls_open fd n of (tls_result, n) \<Rightarrow>
     if tls_result \<noteq> CN_TLS_OK then ((cn_tls_map tls_result, zero_response, []), n)
     else case tls_send_all request n of (tls_result, n) \<Rightarrow> (case
         (if tls_result = CN_TLS_OK \<and> body_len spec \<noteq> 0
          then tls_send_all (take (body_len spec) (the (body spec))) n else (tls_result, n)) of (tls_result, n) \<Rightarrow>
       if tls_result \<noteq> CN_TLS_OK then
         ((if tls_result = CN_TLS_SEND_TIMEOUT then CN_NETSIMPLE_SEND_TIMEOUT else CN_NETSIMPLE_SEND_ERROR,
           zero_response, []), sys_close_socket fd n)
       else case now_ms n of (_, n) \<Rightarrow> (case tls_receive_loop buffer_cap [] n of (got, n) \<Rightarrow>
         (finish_exchange got, sys_close_socket fd n)))))"

definition plain_exchange :: "cn_netsimple_request \<Rightarrow> bytes \<Rightarrow> nat \<Rightarrow> nat \<Rightarrow> int \<Rightarrow> network \<Rightarrow>
    (cn_netsimple_result \<times> cn_netsimple_response \<times> bytes) \<times> network" where
  "plain_exchange spec request fd buffer_cap recv_ms n = (case now_ms n of (now, n) \<Rightarrow>
     (case send_buffer request (now + recv_ms) n of ((result, early_response), n) \<Rightarrow>
     (case (if result = CN_NETSIMPLE_OK \<and> \<not> early_response \<and> body_len spec \<noteq> 0
            then send_buffer (take (body_len spec) (the (body spec))) (now + recv_ms) n
            else ((result, early_response), n)) of ((result, early_response), n) \<Rightarrow>
     (case sys_fcntl n of (restored, n) \<Rightarrow>
        let result = (if \<not> restored \<and> result = CN_NETSIMPLE_OK then CN_NETSIMPLE_SEND_ERROR else result)
        in if result \<noteq> CN_NETSIMPLE_OK then ((result, zero_response, []), sys_close_socket fd n)
           else case now_ms n of (now, n) \<Rightarrow> (case receive_loop buffer_cap (now + recv_ms) [] n of (got, n) \<Rightarrow>
             (finish_exchange got, sys_close_socket fd n))))))"

text \<open>\<open>buffer\<close> and \<open>out\<close> tell whether the pointers are not NULL.\<close>

definition cn_netsimple_exchange :: "cn_netsimple_request option \<Rightarrow> bool \<Rightarrow> nat \<Rightarrow> int \<Rightarrow> int \<Rightarrow> bool \<Rightarrow> network \<Rightarrow>
    (cn_netsimple_result \<times> cn_netsimple_response \<times> bytes) \<times> network" where
  "cn_netsimple_exchange spec' buffer buffer_cap connect_ms recv_ms out n =
     (if spec' = None \<or> \<not> out \<or> \<not> buffer \<or> buffer_cap = 0 then ((CN_NETSIMPLE_INVALID, zero_response, []), n)
      else let spec = the spec' in
        case cn_netsimple_build_exchange_request spec' True netsimple_request_max of
          Inl result \<Rightarrow> ((result, zero_response, []), n)
        | Inr request \<Rightarrow> (case open_connection spec connect_ms n of
            ((result, None), n) \<Rightarrow> ((result, zero_response, []), n)
          | ((_, Some fd), n) \<Rightarrow> (case sys_fcntl n of
              (False, n) \<Rightarrow> ((CN_NETSIMPLE_SEND_ERROR, zero_response, []), sys_close_socket fd n)
            | (True, n) \<Rightarrow> (case sys_fcntl n of
                (False, n) \<Rightarrow> ((CN_NETSIMPLE_SEND_ERROR, zero_response, []), sys_close_socket fd n)
              | (True, n) \<Rightarrow>
                  if tls spec then tls_exchange spec request fd buffer_cap n
                  else plain_exchange spec request fd buffer_cap recv_ms n))))"

section \<open>What an exchange does to the world\<close>

lemma interval_silent: "poll_interval_ms d n = (r, n') \<Longrightarrow> silent n n'"
  by (auto simp: poll_interval_ms_def now_ms_def Let_def)

lemma interval_silent_snd [simp]: "silent a (snd (poll_interval_ms d n)) = silent a n"
  by (simp add: poll_interval_ms_def now_ms_def Let_def)

lemma connect_wait_silent: "silent n (snd (connect_wait d n))"
proof (induction d n rule: connect_wait.induct)
  case (1 d n)
  obtain i n1 where i: "poll_interval_ms d n = (i, n1)" by (cases "poll_interval_ms d n")
  obtain a n2 where a: "sys_poll n1 = (a, n2)" by (cases "sys_poll n1")
  have q: "silent n n1" "silent n1 n2" using interval_silent[OF i] silent_call(4)[OF a] by simp_all
  then have q2: "silent n n2" by (rule silent_trans)
  show ?case
  proof (cases "i < 0")
    case True
    then show ?thesis using q by (subst connect_wait.simps) (simp add: i)
  next
    case False
    show ?thesis
    proof (cases "a = Poll_error SOCKET_EINTR")
      case True
      then have "silent n2 (snd (connect_wait d n2))" using "1"[OF i[symmetric] False a[symmetric] _ refl] by simp
      then show ?thesis using q2 False True silent_trans by (subst connect_wait.simps) (auto simp: i a)
    next
      case other: False
      then show ?thesis using q2 False by (subst connect_wait.simps) (auto simp: i a split: poll_answer.splits)
    qed
  qed
qed

lemma connect_wait_silent' [simp]: "silent a (snd (connect_wait d n)) = silent a n"
  using connect_wait_silent[of n d] by (simp add: silent_def)

lemma connect_with_timeout_silent [simp]: "silent a (snd (connect_with_timeout t n)) = silent a n"
  unfolding connect_with_timeout_def case_prod_beta
  by (simp split: bool.split option.split sum.split)

lemma connect_silent: "connect_with_timeout t n = (r, n') \<Longrightarrow> silent n n'"
  using connect_with_timeout_silent[of n t n] by simp

lemma connect_entries_opened:
  "connect_entries t es r0 n = ((r, fd), n') \<Longrightarrow> wf_net n \<Longrightarrow> holds_socket n fd n'"
proof (induction t es r0 n rule: connect_entries.induct)
  case (1 t r0 n)
  then show ?case by (auto simp: holds_socket_def)
next
  case (2 t inet es r0 n)
  show ?case
  proof (cases inet)
    case False
    then show ?thesis using 2 by simp
  next
    case inet: True
    obtain f n1 where f: "sys_socket n = (f, n1)" by (cases "sys_socket n")
    have o: "holds_socket n f n1" by (rule socket_opened[OF f "2.prems"(2)])
    show ?thesis
    proof (cases f)
      case None
      have "holds_socket n1 fd n'" using "2.IH"(2)[OF _ f[symmetric] None] "2.prems"(1) inet f None opened_wf[OF o] by simp
      then show ?thesis using opened_again o None by blast
    next
      case (Some s)
      obtain r1 n2 where c: "connect_with_timeout t n1 = (r1, n2)" by (cases "connect_with_timeout t n1")
      have o2: "holds_socket n (Some s) n2" using opened_silent[OF o connect_silent[OF c]] Some by simp
      show ?thesis
      proof (cases "r1 = CN_NETSIMPLE_OK")
        case True
        then show ?thesis using "2.prems"(1) inet f Some c o2 by simp
      next
        case False
        have o3: "holds_socket n None (sys_close_socket s n2)" by (rule opened_shut[OF o2])
        have "holds_socket (sys_close_socket s n2) fd n'"
          using "2.IH"(3)[OF _ f[symmetric] Some c[symmetric] False _ opened_wf[OF o3]] "2.prems"(1) inet f Some c False by simp
        then show ?thesis by (rule opened_again[OF o3])
      qed
    qed
  qed
qed

lemma open_connection_opened:
  assumes "open_connection spec t n = ((r, fd), n')" "wf_net n"
  shows "holds_socket n fd n'"
proof (cases "cn_netsimple_parse_ipv4 (if connect_host spec \<noteq> None then connect_host spec else host spec) \<noteq> None")
  case True
  obtain f n1 where f: "sys_socket n = (f, n1)" by (cases "sys_socket n")
  have o: "holds_socket n f n1" by (rule socket_opened[OF f assms(2)])
  show ?thesis
  proof (cases f)
    case None
    then show ?thesis using assms(1) True f o by (simp add: open_connection_def)
  next
    case (Some s)
    obtain r1 n2 where c: "connect_with_timeout t n1 = (r1, n2)" by (cases "connect_with_timeout t n1")
    have o2: "holds_socket n (Some s) n2" using opened_silent[OF o connect_silent[OF c]] Some by simp
    show ?thesis using assms(1) True f Some c o2 opened_shut[OF o2] by (auto simp: open_connection_def split: if_splits)
  qed
next
  case False
  obtain fs n1 where g: "getaddrinfo n = (fs, n1)" by (cases "getaddrinfo n")
  have o: "holds_socket n None n1" using silent_call(7)[OF g] assms(2) by (simp add: holds_socket_def silent_def wf_net_def)
  show ?thesis
  proof (cases "fs = []")
    case True
    then show ?thesis using assms(1) False g o by (simp add: open_connection_def)
  next
    case fs: False
    then have "holds_socket n1 fd n'" using assms(1) False g connect_entries_opened opened_wf[OF o] by (simp add: open_connection_def)
    then show ?thesis by (rule opened_again[OF o])
  qed
qed

text \<open>Sending: a prefix of the data goes out, all of it where the sender says so, and no socket changes.\<close>

definition sends :: "network \<Rightarrow> bytes \<Rightarrow> bool \<Rightarrow> network \<Rightarrow> bool" where
  "sends n data whole n' \<longleftrightarrow> sockets n' = sockets n \<and> next_socket n' = next_socket n \<and>
     (\<exists>k. outgoing n' = outgoing n @ take k data \<and> (whole \<longrightarrow> k = length data))"

lemma sends_silent: "silent n n1 \<Longrightarrow> sends n1 data w n2 \<Longrightarrow> sends n data w n2"
  by (simp add: sends_def silent_def)

lemma sends_nothing: "silent n n' \<Longrightarrow> sends n data False n'"
  by (auto simp: sends_def silent_def intro: exI[of _ 0])

lemma sends_weaken: "sends n data w n' \<Longrightarrow> sends n data False n'"
  by (auto simp: sends_def)

lemma take_take_drop: "k \<le> length xs \<Longrightarrow> take k xs @ take j (drop k xs) = take (k + j) xs"
  by (simp add: take_add)

lemma sends_append:
  assumes "sends n xs True n1" "sends n1 ys w n2"
  shows "sends n (xs @ ys) w n2"
proof -
  obtain k where k: "outgoing n2 = outgoing n1 @ take k ys" "w \<longrightarrow> k = length ys" using assms(2) by (auto simp: sends_def)
  have "outgoing n1 = outgoing n @ xs" using assms(1) by (auto simp: sends_def)
  then have "outgoing n2 = outgoing n @ take (length xs + k) (xs @ ys)" using k by simp
  then show ?thesis using assms k unfolding sends_def by (intro conjI exI[of _ "length xs + k"]) (auto simp: sends_def)
qed

lemma sends_extend: "sends n xs False n' \<Longrightarrow> sends n (xs @ ys) False n'"
proof -
  assume "sends n xs False n'"
  then obtain k where k: "outgoing n' = outgoing n @ take k xs" "sockets n' = sockets n" "next_socket n' = next_socket n"
    by (auto simp: sends_def)
  have "take k xs = take (min k (length xs)) (xs @ ys)" by (simp add: min_def)
  then show ?thesis using k unfolding sends_def by (intro conjI exI[of _ "min k (length xs)"]) simp_all
qed

lemma sys_send_sends:
  "sys_send data n = (Inr k, n') \<Longrightarrow> k \<le> length data \<and> outgoing n' = outgoing n @ take k data \<and>
     sockets n' = sockets n \<and> next_socket n' = next_socket n"
  by (auto simp: sys_send_def spend_def Let_def split: option.splits)

lemma sys_send_error: "sys_send data n = (Inl e, n') \<Longrightarrow> silent n n'"
  by (auto simp: sys_send_def Let_def split: option.splits)

lemma send_buffer_sends:
  "send_buffer data d n = ((r, early), n') \<Longrightarrow>
   sends n data (r = CN_NETSIMPLE_OK \<and> \<not> early) n' \<and> r \<in> {CN_NETSIMPLE_OK, CN_NETSIMPLE_SEND_TIMEOUT, CN_NETSIMPLE_SEND_ERROR}"
proof (induction data d n arbitrary: n' rule: send_buffer.induct)
  case (1 data d n)
  note ih = "1.IH" and run = "1.prems"
  show ?case
  proof (cases "data = []")
    case True
    then show ?thesis using run by (subst (asm) send_buffer.simps) (auto simp: sends_def)
  next
    case nonempty: False
    obtain i n1 where i: "poll_interval_ms d n = (i, n1)" by (cases "poll_interval_ms d n")
    obtain a n2 where a: "sys_poll n1 = (a, n2)" by (cases "sys_poll n1")
    have q: "silent n n1" "silent n n2" using interval_silent[OF i] silent_call(4)[OF a] silent_trans by blast+
    note stop = sends_nothing[OF q(1), of data] sends_nothing[OF q(2), of data]
    show ?thesis
    proof (cases "i < 0")
      case True
      then show ?thesis using run nonempty stop by (subst (asm) send_buffer.simps) (auto simp: i)
    next
      case live: False
      show ?thesis
      proof (cases a)
        case Poll_timeout
        then show ?thesis using run nonempty live stop by (subst (asm) send_buffer.simps) (auto simp: i a)
      next
        case (Poll_error e)
        show ?thesis
        proof (cases "e = SOCKET_EINTR")
          case True
          then have "send_buffer data d n2 = ((r, early), n')"
            using run nonempty live Poll_error by (subst (asm) send_buffer.simps) (auto simp: i a)
          from ih(1)[OF nonempty i[symmetric] live a[symmetric] Poll_error True this]
          show ?thesis using sends_silent[OF q(2)] by blast
        next
          case False
          then show ?thesis using run nonempty live stop Poll_error by (subst (asm) send_buffer.simps) (auto simp: i a)
        qed
      next
        case (Poll_events ev)
        show ?thesis
        proof (cases "POLLIN \<in> ev \<or> ev \<inter> {POLLERR, POLLHUP, POLLNVAL} \<noteq> {}")
          case True
          then show ?thesis using run nonempty live stop Poll_events by (subst (asm) send_buffer.simps) (auto simp: i a split: if_splits)
        next
          case ready: False
          obtain sr n3 where sr: "sys_send data n2 = (sr, n3)" by (cases "sys_send data n2")
          show ?thesis
          proof (cases sr)
            case (Inl e)
            have q3: "silent n n3" using silent_trans[OF q(2) sys_send_error[of data n2 e n3]] sr Inl by simp
            show ?thesis
            proof (cases "e = SOCKET_EINTR \<or> e = EAGAIN")
              case True
              then have "send_buffer data d n3 = ((r, early), n')"
                using run nonempty live Poll_events ready Inl by (subst (asm) send_buffer.simps) (auto simp: i a sr)
              from ih(2)[OF nonempty i[symmetric] live a[symmetric] Poll_events _ _ sr[symmetric] Inl True this] ready
              show ?thesis using sends_silent[OF q3] by blast
            next
              case False
              then show ?thesis using run nonempty live Poll_events ready Inl sends_nothing[OF q3, of data]
                by (subst (asm) send_buffer.simps) (auto simp: i a sr)
            qed
          next
            case (Inr k)
            have k: "k \<le> length data" "outgoing n3 = outgoing n @ take k data" "sockets n3 = sockets n" "next_socket n3 = next_socket n"
              using sys_send_sends[of data n2 k n3] sr Inr q(2) by (auto simp: silent_def)
            show ?thesis
            proof (cases "k = 0")
              case True
              then show ?thesis using run nonempty live Poll_events ready Inr k
                by (subst (asm) send_buffer.simps) (auto simp: i a sr sends_def)
            next
              case False
              then have "send_buffer (drop k data) d n3 = ((r, early), n')"
                using run nonempty live Poll_events ready Inr by (subst (asm) send_buffer.simps) (auto simp: i a sr)
              from ih(3)[OF nonempty i[symmetric] live a[symmetric] Poll_events _ _ sr[symmetric] Inr False this] ready
              have s: "sends n3 (drop k data) (r = CN_NETSIMPLE_OK \<and> \<not> early) n'"
                "r \<in> {CN_NETSIMPLE_OK, CN_NETSIMPLE_SEND_TIMEOUT, CN_NETSIMPLE_SEND_ERROR}" by auto
              then obtain j where j: "outgoing n' = outgoing n3 @ take j (drop k data)"
                "r = CN_NETSIMPLE_OK \<and> \<not> early \<longrightarrow> j = length (drop k data)" by (auto simp: sends_def)
              have "outgoing n' = outgoing n @ take (k + j) data"
                using j(1) k(2) take_take_drop[OF k(1), of j] by simp
              then show ?thesis using s j(2) k unfolding sends_def by (intro conjI exI[of _ "k + j"]) (auto simp: sends_def)
            qed
          qed
        qed
      qed
    qed
  qed
qed

text \<open>Receiving: nothing is sent, the buffer is not overrun, and the errors are none of those that tell
  that nothing was sent.\<close>

definition late_error :: "cn_netsimple_result \<Rightarrow> bool" where
  "late_error r \<longleftrightarrow> r \<noteq> CN_NETSIMPLE_OK \<and> \<not> transport_is_pre_put r"

definition receives :: "nat \<Rightarrow> network \<Rightarrow> received \<times> network \<Rightarrow> bool" where
  "receives cap n out \<longleftrightarrow> silent n (snd out) \<and>
     (case fst out of Received_error r \<Rightarrow> late_error r | Received b _ \<Rightarrow> length b \<le> cap)"

lemma late_errors [simp]: "late_error CN_NETSIMPLE_RECV_ERROR" "late_error CN_NETSIMPLE_RECV_TIMEOUT"
  "late_error CN_NETSIMPLE_BAD_RESPONSE" "late_error CN_NETSIMPLE_TRUNCATED" "late_error CN_NETSIMPLE_TLS_RECV_TIMEOUT"
  "late_error CN_NETSIMPLE_TLS_PROTOCOL_FAILED" "late_error CN_NETSIMPLE_SEND_ERROR" "late_error CN_NETSIMPLE_SEND_TIMEOUT"
  by (simp_all add: late_error_def transport_is_pre_put_def)

lemma receives_after: "silent n n1 \<Longrightarrow> receives cap n1 out \<Longrightarrow> receives cap n out"
  by (auto simp: receives_def silent_def)

lemma receives_error: "silent n n' \<Longrightarrow> late_error r \<Longrightarrow> receives cap n (Received_error r, n')"
  by (simp add: receives_def)

lemma receives_done: "silent n n' \<Longrightarrow> length b \<le> cap \<Longrightarrow> receives cap n (Received b t, n')"
  by (simp add: receives_def)

lemma drain_loop_receives: "length b \<le> c \<Longrightarrow> receives c n (drain_loop c b n)"
proof (induction c b n rule: drain_loop.induct)
  case (1 c b n)
  obtain x n1 where x: "sys_recv (c - length b) n = (x, n1)" by (cases "sys_recv (c - length b) n")
  have q: "silent n n1" by (rule silent_call(6)[OF x])
  show ?case
  proof (cases "c \<le> length b")
    case True
    then show ?thesis using "1.prems" by (subst drain_loop.simps) (simp add: receives_done)
  next
    case room: False
    show ?thesis
    proof (cases x)
      case (Inl e)
      have "receives c n1 (drain_loop c b n1)" if "e = SOCKET_EINTR"
        using "1.IH"(1)[OF room x[symmetric] Inl that] "1.prems" by simp
      then show ?thesis using "1.prems" room Inl q receives_after[OF q]
        by (subst drain_loop.simps) (auto simp: x intro: receives_done receives_error)
    next
      case (Inr d)
      have "length d \<le> c - length b" using recv_length[of "c - length b" n d n1] x Inr by simp
      then have "receives c n1 (drain_loop c (b @ d) n1)" if "d \<noteq> []"
        using "1.IH"(2)[OF room x[symmetric] Inr that] room by simp
      then show ?thesis using "1.prems" room Inr q receives_after[OF q]
        by (subst drain_loop.simps) (auto simp: x intro: receives_done)
    qed
  qed
qed

lemma receive_loop_receives: "length b \<le> c \<Longrightarrow> receives c n (receive_loop c d b n)"
proof (induction c d b n rule: receive_loop.induct)
  case (1 c d b n)
  obtain i n1 where i: "poll_interval_ms d n = (i, n1)" by (cases "poll_interval_ms d n")
  obtain a n2 where a: "sys_poll n1 = (a, n2)" by (cases "sys_poll n1")
  obtain x n3 where x: "sys_recv (c - length b) n2 = (x, n3)" by (cases "sys_recv (c - length b) n2")
  have q: "silent n n1" "silent n n2" "silent n n3"
    using interval_silent[OF i] silent_call(4)[OF a] silent_call(6)[OF x] silent_trans by blast+
  show ?case
  proof (cases "c \<le> length b \<or> i < 0")
    case True
    then show ?thesis using "1.prems" q by (subst receive_loop.simps) (auto simp: i intro: receives_done receives_error)
  next
    case False
    then have live: "\<not> c \<le> length b" "\<not> i < 0" by auto
    show ?thesis
    proof (cases a)
      case Poll_timeout
      then show ?thesis using live q by (subst receive_loop.simps) (auto simp: i a intro: receives_error)
    next
      case (Poll_error e)
      have "receives c n2 (receive_loop c d b n2)" if "e = SOCKET_EINTR"
        using "1.IH"(1)[OF live(1) i[symmetric] live(2) a[symmetric] Poll_error that "1.prems"] .
      then show ?thesis using live q Poll_error receives_after[OF q(2)]
        by (subst receive_loop.simps) (auto simp: i a intro: receives_error)
    next
      case (Poll_events ev)
      show ?thesis
      proof (cases "ev \<inter> {POLLERR, POLLHUP, POLLNVAL} = {}")
        case False
        then show ?thesis using live q Poll_events receives_after[OF q(2) drain_loop_receives[OF "1.prems"]]
          by (subst receive_loop.simps) (auto simp: i a intro: receives_error)
      next
        case quiet: True
        show ?thesis
        proof (cases x)
          case (Inl e)
          have "receives c n3 (receive_loop c d b n3)" if "e = SOCKET_EINTR \<or> e = EAGAIN"
            using "1.IH"(2)[OF live(1) i[symmetric] live(2) a[symmetric] Poll_events _ x[symmetric] Inl that "1.prems"] quiet by simp
          then show ?thesis using live q Poll_events quiet Inl receives_after[OF q(3)]
            by (subst receive_loop.simps) (auto simp: i a x intro: receives_error)
        next
          case (Inr got)
          have "length got \<le> c - length b" using recv_length[of "c - length b" n2 got n3] x Inr by simp
          then have "receives c n3 (receive_loop c d (b @ got) n3)" if "got \<noteq> []"
            using "1.IH"(3)[OF live(1) i[symmetric] live(2) a[symmetric] Poll_events _ x[symmetric] Inr that] quiet live by simp
          then show ?thesis using live q Poll_events quiet Inr receives_after[OF q(3)] "1.prems"
            by (subst receive_loop.simps) (auto simp: i a x intro: receives_done)
        qed
      qed
    qed
  qed
qed

lemma tls_recv_length: "tls_recv_some k n = ((r, got, closed), n') \<Longrightarrow> length got \<le> k"
  by (auto simp: tls_recv_some_def)

lemma tls_receive_loop_receives: "length b \<le> c \<Longrightarrow> receives c n (tls_receive_loop c b n)"
proof (induction c b n rule: tls_receive_loop.induct)
  case (1 c b n)
  obtain r got closed n1 where x: "tls_recv_some (c - length b) n = ((r, got, closed), n1)"
    by (cases "tls_recv_some (c - length b) n") auto
  have q: "silent n n1" by (rule silent_call(8)[OF x])
  have len: "length (b @ got) \<le> c" using tls_recv_length[OF x] "1.prems" by simp
  define f where "f = response_content_length (b @ got)"
  show ?case
  proof (cases "c \<le> length b \<or> overrun f (length (b @ got)) \<or> f = Framed (length (b @ got)) \<or> r \<noteq> CN_TLS_OK \<or> closed \<or> got = []")
    case True
    then show ?thesis using "1.prems" q len
      by (subst tls_receive_loop.simps) (auto simp: x f_def[symmetric] Let_def intro: receives_done receives_error)
  next
    case False
    then have "receives c n1 (tls_receive_loop c (b @ got) n1)"
      using "1.IH"[OF _ x[symmetric] refl refl refl refl] len f_def by auto
    then show ?thesis using False receives_after[OF q]
      by (subst tls_receive_loop.simps) (auto simp: x f_def[symmetric] Let_def)
  qed
qed

section \<open>The account of an exchange\<close>

definition request_bytes :: "cn_netsimple_request option \<Rightarrow> bytes" where
  "request_bytes spec = (case cn_netsimple_build_exchange_request spec True netsimple_request_max of
     Inl _ \<Rightarrow> [] | Inr request \<Rightarrow> request @ take (body_len (the spec)) (if body_len (the spec) = 0 then [] else the (body (the spec))))"

text \<open>The account of one answer: from the world before, the bytes of the request and the connection.\<close>

definition accounted :: "network \<Rightarrow> bytes \<Rightarrow> nat \<Rightarrow> bool \<Rightarrow>
    (cn_netsimple_result \<times> cn_netsimple_response \<times> bytes) \<times> network \<Rightarrow> bool" where
  "accounted n req cap secure out = (case out of ((r, response, received), n') \<Rightarrow>
     sends n req (secure \<and> r = CN_NETSIMPLE_OK) n' \<and> (transport_is_pre_put r \<longrightarrow> outgoing n' = outgoing n) \<and>
     length received \<le> cap \<and> (r = CN_NETSIMPLE_OK \<longrightarrow> header_bytes response + body_bytes response = length received))"

lemma finish_exchange_result:
  assumes "receives cap n (got, n')" "finish_exchange got = (r, response, received)"
  shows "(r = CN_NETSIMPLE_OK \<or> late_error r) \<and> length received \<le> cap \<and>
    (r = CN_NETSIMPLE_OK \<longrightarrow> header_bytes response + body_bytes response = length received)"
proof (cases got)
  case (Received_error e)
  then show ?thesis using assms by (auto simp: finish_exchange_def receives_def late_error_def)
next
  case (Received b t)
  obtain pr p where p: "cn_netsimple_parse_status (Some b) True = (pr, p)" by (cases "cn_netsimple_parse_status (Some b) True")
  have "pr = CN_NETSIMPLE_OK \<and> header_bytes p + body_bytes p = length b \<or> pr = CN_NETSIMPLE_BAD_RESPONSE"
    using p header_length_le[of b] by (auto simp: cn_netsimple_parse_status_def split: option.splits)
  then show ?thesis using assms Received p by (auto simp: finish_exchange_def receives_def split: if_splits)
qed

lemma accounted_late:
  assumes "sends n req False n'" "late_error r"
  shows "accounted n req cap secure ((r, response, []), n')"
  using assms by (auto simp: accounted_def late_error_def)

lemma sends_then_silent: "sends n xs w n1 \<Longrightarrow> silent n1 n2 \<Longrightarrow> sends n xs w n2"
  by (auto simp: sends_def silent_def)

lemma accounted_finish:
  assumes "sends n req w n1" "receives cap n1 (got, n2)" "secure \<Longrightarrow> w"
  shows "accounted n req cap secure (finish_exchange got, n2)"
proof -
  obtain r response received where f: "finish_exchange got = (r, response, received)" by (cases "finish_exchange got") auto
  have "sends n req w n2" using sends_then_silent[OF assms(1)] assms(2) by (simp add: receives_def)
  then show ?thesis using finish_exchange_result[OF assms(2) f] assms(3) sends_weaken
    by (cases secure) (auto simp: accounted_def f late_error_def transport_is_pre_put_def)
qed

text \<open>Closing the socket of the exchange gives back the sockets that were open before it.\<close>

definition settled :: "network \<Rightarrow> bytes \<Rightarrow> nat \<Rightarrow> bool \<Rightarrow>
    (cn_netsimple_result \<times> cn_netsimple_response \<times> bytes) \<times> network \<Rightarrow> bool" where
  "settled n req cap secure out = (case out of ((r, response, received), n') \<Rightarrow>
     sockets n' = sockets n \<and> wf_net n' \<and> (\<exists>k. outgoing n' = outgoing n @ take k req \<and>
       (secure \<and> r = CN_NETSIMPLE_OK \<and> received \<noteq> [] \<longrightarrow> k = length req)) \<and>
     (transport_is_pre_put r \<longrightarrow> outgoing n' = outgoing n) \<and> length received \<le> cap \<and>
     (r = CN_NETSIMPLE_OK \<longrightarrow> header_bytes response + body_bytes response = length received))"

lemma settled_close:
  assumes "holds_socket n (Some fd) n1" "accounted n1 req cap secure (a, n2)"
  shows "settled n req cap secure (a, sys_close_socket fd n2)"
proof -
  obtain r response received where a: "a = (r, response, received)" by (cases a) auto
  have o: "outgoing n1 = outgoing n" "fd \<notin> sockets n" "sockets n1 = insert fd (sockets n)" using assms(1) by (auto simp: holds_socket_def)
  obtain k where k: "outgoing n2 = outgoing n1 @ take k req" "secure \<and> r = CN_NETSIMPLE_OK \<longrightarrow> k = length req"
    using assms(2) a by (auto simp: accounted_def sends_def)
  have "sockets n2 = sockets n1" "next_socket n2 = next_socket n1" using assms(2) a by (simp_all add: accounted_def sends_def)
  moreover from this have "wf_net (sys_close_socket fd n2)"
    using assms(1) by (auto simp: holds_socket_def wf_net_def sys_close_socket_def)
  ultimately show ?thesis using assms(2) a o k by (auto simp: settled_def accounted_def sys_close_socket_def)
qed

lemma settled_quiet:
  assumes "sockets n' = sockets n" "outgoing n' = outgoing n" "wf_net n'"
  shows "settled n req cap secure ((r, zero_response, []), n')"
  using assms by (auto simp: settled_def zero_response_def intro: exI[of _ 0])

lemma tls_send_sends:
  "tls_send_all data n = (r, n') \<Longrightarrow> sends n data (r = CN_TLS_OK) n'"
  by (auto simp: tls_send_all_def sends_def spend_def intro: exI[of _ "length data"])

lemma tls_map_not_ok: "r \<noteq> CN_TLS_OK \<Longrightarrow> cn_tls_map r \<noteq> CN_NETSIMPLE_OK"
  by (cases r) (simp_all add: cn_tls_map_def)

lemma tls_exchange_settled:
  assumes o: "holds_socket n (Some fd) n0" and b: "body' = (if body_len spec = 0 then [] else the (body spec))"
  shows "settled n (request @ take (body_len spec) body') cap True (tls_exchange spec request fd cap n0)"
proof -
  let ?body = "take (body_len spec) (the (body spec))"
  obtain t0 n1 where t0: "now_ms n0 = (t0, n1)" by (cases "now_ms n0")
  obtain r n2 where r: "tls_open fd n1 = (r, n2)" by (cases "tls_open fd n1")
  have o1: "holds_socket n (Some fd) n1" by (rule opened_silent[OF o silent_call(1)[OF t0]])
  show ?thesis
  proof (cases "r = CN_TLS_OK")
    case False
    have "holds_socket n None n2" using opened_shut[OF opened_silent[OF o1, of "spend n1"]] r False by (auto simp: tls_open_def)
    then show ?thesis using t0 r False by (simp add: tls_exchange_def holds_socket_def settled_quiet)
  next
    case True
    have o2: "holds_socket n (Some fd) n2" using opened_silent[OF o1, of "spend n1"] r True by (auto simp: tls_open_def)
    obtain r1 n3 where r1: "tls_send_all request n2 = (r1, n3)" by (cases "tls_send_all request n2")
    obtain r2 n4 where r2: "(if r1 = CN_TLS_OK \<and> body_len spec \<noteq> 0 then tls_send_all ?body n3 else (r1, n3)) = (r2, n4)"
      by (cases "if r1 = CN_TLS_OK \<and> body_len spec \<noteq> 0 then tls_send_all ?body n3 else (r1, n3)")
    have s: "sends n2 (request @ take (body_len spec) body') (r2 = CN_TLS_OK) n4"
    proof (cases "r1 = CN_TLS_OK \<and> body_len spec \<noteq> 0")
      case True
      then have "sends n2 request True n3" "sends n3 (take (body_len spec) body') (r2 = CN_TLS_OK) n4"
        using tls_send_sends[OF r1] tls_send_sends[of ?body n3 r2 n4] r2 b by auto
      then show ?thesis by (rule sends_append)
    next
      case False
      then have "sends n2 request (r2 = CN_TLS_OK) n4" "r2 = CN_TLS_OK \<longrightarrow> body_len spec = 0" using tls_send_sends[OF r1] r2 by auto
      then show ?thesis using sends_extend[OF sends_weaken, of n2 request "r2 = CN_TLS_OK" n4] by (cases "r2 = CN_TLS_OK") auto
    qed
    show ?thesis
    proof (cases "r2 = CN_TLS_OK")
      case False
      then have "accounted n2 (request @ take (body_len spec) body') cap True
         ((if r2 = CN_TLS_SEND_TIMEOUT then CN_NETSIMPLE_SEND_TIMEOUT else CN_NETSIMPLE_SEND_ERROR, zero_response, []), n4)"
        using s by (intro accounted_late) auto
      from settled_close[OF o2 this] show ?thesis using t0 r True r1 r2 False by (simp add: tls_exchange_def)
    next
      case sent: True
      obtain t1 n5 where t1: "now_ms n4 = (t1, n5)" by (cases "now_ms n4")
      obtain got n6 where got: "tls_receive_loop cap [] n5 = (got, n6)" by (cases "tls_receive_loop cap [] n5")
      have "receives cap n4 (got, n6)"
        using receives_after[OF silent_call(1)[OF t1] tls_receive_loop_receives[of "[]" cap n5]] got by simp
      from accounted_finish[OF s this] sent have "accounted n2 (request @ take (body_len spec) body') cap True (finish_exchange got, n6)" by simp
      from settled_close[OF o2 this] show ?thesis using t0 r True r1 r2 sent t1 got by (simp add: tls_exchange_def)
    qed
  qed
qed

lemma plain_exchange_settled:
  assumes o: "holds_socket n (Some fd) n0" and b: "body' = (if body_len spec = 0 then [] else the (body spec))"
  shows "settled n (request @ take (body_len spec) body') cap False (plain_exchange spec request fd cap ms n0)"
proof -
  let ?body = "take (body_len spec) (the (body spec))"
  let ?req = "request @ take (body_len spec) body'"
  obtain t0 n1 where t0: "now_ms n0 = (t0, n1)" by (cases "now_ms n0")
  have o1: "holds_socket n (Some fd) n1" by (rule opened_silent[OF o silent_call(1)[OF t0]])
  obtain r1 e1 n2 where r1: "send_buffer request (t0 + ms) n1 = ((r1, e1), n2)" by (cases "send_buffer request (t0 + ms) n1") auto
  define x where "x = (if r1 = CN_NETSIMPLE_OK \<and> \<not> e1 \<and> body_len spec \<noteq> 0 then send_buffer ?body (t0 + ms) n2 else ((r1, e1), n2))"
  obtain r2 e2 n3 where r2: "x = ((r2, e2), n3)" by (cases x) auto
  note s1 = send_buffer_sends[OF r1]
  have s: "sends n1 ?req False n3 \<and> r2 \<in> {CN_NETSIMPLE_OK, CN_NETSIMPLE_SEND_TIMEOUT, CN_NETSIMPLE_SEND_ERROR}"
  proof (cases "r1 = CN_NETSIMPLE_OK \<and> \<not> e1 \<and> body_len spec \<noteq> 0")
    case True
    then have "send_buffer ?body (t0 + ms) n2 = ((r2, e2), n3)" using r2 x_def by simp
    note s2 = send_buffer_sends[OF this]
    have "sends n1 request True n2" "sends n2 (take (body_len spec) body') False n3" using s1 s2 True b sends_weaken by auto
    then show ?thesis using s2 sends_append by blast
  next
    case False
    then have "r2 = r1" "n3 = n2" using r2 x_def by (auto split: if_splits)
    then show ?thesis using s1 sends_extend sends_weaken by blast
  qed
  obtain restored n4 where f: "sys_fcntl n3 = (restored, n4)" by (cases "sys_fcntl n3")
  define r3 where "r3 = (if \<not> restored \<and> r2 = CN_NETSIMPLE_OK then CN_NETSIMPLE_SEND_ERROR else r2)"
  have s4: "sends n1 ?req False n4" using s sends_then_silent[OF _ silent_call(2)[OF f]] by blast
  show ?thesis
  proof (cases "r3 = CN_NETSIMPLE_OK")
    case False
    have "late_error r3" using s False by (auto simp: r3_def split: if_splits)
    from settled_close[OF o1 accounted_late[OF s4 this]]
    show ?thesis using t0 r1 r2 x_def f r3_def False by (simp add: plain_exchange_def Let_def)
  next
    case True
    obtain t1 n5 where t1: "now_ms n4 = (t1, n5)" by (cases "now_ms n4")
    obtain got n6 where got: "receive_loop cap (t1 + ms) [] n5 = (got, n6)" by (cases "receive_loop cap (t1 + ms) [] n5")
    have "receives cap n4 (got, n6)"
      using receives_after[OF silent_call(1)[OF t1] receive_loop_receives[of "[]" cap n5 "t1 + ms"]] got by simp
    from settled_close[OF o1 accounted_finish[OF s4 this]] 
    show ?thesis using t0 r1 r2 x_def f r3_def True t1 got by (simp add: plain_exchange_def Let_def)
  qed
qed

lemma exchange_settled:
  assumes "wf_net n" "cn_netsimple_exchange spec buffer cap cms rms out n = (a, n')"
  shows "settled n (request_bytes spec) cap (spec \<noteq> None \<and> tls (the spec)) (a, n')"
proof (cases "spec = None \<or> \<not> out \<or> \<not> buffer \<or> cap = 0")
  case True
  then show ?thesis using assms settled_quiet[of n n] by (auto simp: cn_netsimple_exchange_def)
next
  case False
  then obtain q where q: "spec = Some q" by auto
  show ?thesis
  proof (cases "cn_netsimple_build_exchange_request spec True netsimple_request_max")
    case (Inl r)
    then show ?thesis using assms False settled_quiet[of n n] by (auto simp: cn_netsimple_exchange_def)
  next
    case (Inr request)
    define body' where "body' = (if body_len q = 0 then [] else the (body q))"
    have req: "request_bytes spec = request @ take (body_len q) body'" using Inr q by (simp add: request_bytes_def body'_def)
    obtain r fd n1 where o: "open_connection q cms n = ((r, fd), n1)" by (cases "open_connection q cms n") auto
    have op: "holds_socket n fd n1" by (rule open_connection_opened[OF o assms(1)])
    show ?thesis
    proof (cases fd)
      case None
      then show ?thesis using assms(2) False q Inr o op by (auto simp: cn_netsimple_exchange_def holds_socket_def settled_quiet)
    next
      case (Some f)
      obtain ok1 n2 where c1: "sys_fcntl n1 = (ok1, n2)" by (cases "sys_fcntl n1")
      obtain ok2 n3 where c2: "sys_fcntl n2 = (ok2, n3)" by (cases "sys_fcntl n2")
      have o2: "holds_socket n (Some f) n2" using opened_silent[OF op silent_call(2)[OF c1]] Some by simp
      have o3: "holds_socket n (Some f) n3" by (rule opened_silent[OF o2 silent_call(2)[OF c2]])
      have closed: "settled n req cap secure ((CN_NETSIMPLE_SEND_ERROR, zero_response, []), sys_close_socket f m)"
        if "holds_socket n (Some f) m" for m req secure
        using opened_shut[OF that] by (simp add: holds_socket_def settled_quiet)
      show ?thesis
        using assms(2) False q Inr o Some c1 c2 closed[OF o2] closed[OF o3] req
          tls_exchange_settled[OF o3 body'_def, of request cap] plain_exchange_settled[OF o3 body'_def, of request cap rms]
        by (auto simp: cn_netsimple_exchange_def split: if_splits bool.splits)
    qed
  qed
qed

section \<open>Properties\<close>

text \<open>C23. Whatever the network, the resolver and the TLS layer answer, an exchange closes every socket it
  opened, and what it sent is a prefix of the one request it was asked to make: no byte is sent twice or
  out of order, and a response over TLS means that all of it was sent.  A result that the policy takes as a
  proof that nothing was sent is one: then not a byte of the request has left.  The response fits the
  buffer, and its header and body make up exactly the bytes that arrived.\<close>

theorem exchange_accounts_for_the_wire:
  assumes "wf_net n"
    and "cn_netsimple_exchange spec buffer cap cms rms out n = ((r, response, received), n')"
  shows "sockets n' = sockets n \<and>
    (\<exists>k. outgoing n' = outgoing n @ take k (request_bytes spec) \<and>
      (tls (the spec) \<and> r = CN_NETSIMPLE_OK \<and> received \<noteq> [] \<longrightarrow> k = length (request_bytes spec))) \<and>
    (transport_is_pre_put r \<longrightarrow> outgoing n' = outgoing n) \<and>
    length received \<le> cap \<and>
    (r = CN_NETSIMPLE_OK \<longrightarrow> header_bytes response + body_bytes response = length received)"
proof -
  have "spec \<noteq> None \<or> r \<noteq> CN_NETSIMPLE_OK" using assms(2) by (auto simp: cn_netsimple_exchange_def)
  then show ?thesis using exchange_settled[OF assms] by (auto simp: settled_def)
qed

lemma exchange_accounts_for_the_wire_witness:
  "\<exists>n'. cn_netsimple_exchange (Some sample_request) True 100 20000 10000 True (idle_network []) =
     ((CN_NETSIMPLE_RESOLVE_ERROR, zero_response, []), n') \<and> outgoing n' = [] \<and> sockets n' = {}"
proof -
  obtain req where "cn_netsimple_build_exchange_request (Some sample_request) True netsimple_request_max = Inr req"
    using sample_request_builds(2) by (auto simp: netsimple_request_max_def)
  then have e: "cn_netsimple_exchange (Some sample_request) True 100 20000 10000 True (idle_network []) =
     ((CN_NETSIMPLE_RESOLVE_ERROR, zero_response, []), idle_network [])"
    by (simp add: cn_netsimple_exchange_def open_connection_def sample_request_def cn_netsimple_parse_ipv4_def decimal_byte_def
        cstr_def getaddrinfo_def next_reply_def idle_network_def last_reply_def spend_def)
  have "wf_net (idle_network [])" by (simp add: wf_net_def idle_network_def)
  from exchange_accounts_for_the_wire[OF this e] e show ?thesis
    by (auto simp: idle_network_def transport_is_pre_put_def)
qed

end
