(* ===== verification/Kosync_Client.thy ===== *)
theory Kosync_Client
  imports Kosync_Json Net_Exchange
begin

text \<open>
  The client of the synchronisation server, src/sync/kosync.c from \<open>cn_kosync_client_init\<close> on: its set-up
  from a URL, and the three requests to authorize, to put and to get a progress record.

  The state of a run is the operating system, for the allocations, and the network.  The arrays of the
  client hold C strings; the empty list is the empty string.
\<close>

definition kosync_username_max :: nat where "kosync_username_max = 255"
definition kosync_userkey_max :: nat where "kosync_userkey_max = 255"
definition kosync_base_path_max :: nat where "kosync_base_path_max = 1024"

record cn_tls_config =
  ca_path :: "bytes option"
  own_clock :: bool

record cn_kosync_client =
  client_host :: bytes
  client_port :: bytes
  base_path :: bytes
  username :: bytes
  userkey :: bytes
  client_connect_host :: bytes
  client_tls :: "cn_tls_config option"
  use_tls :: bool
  connect_ms :: int
  recv_ms :: int

datatype cn_kosync_remote_state =
  CN_KOSYNC_REMOTE_SAME_DEVICE | CN_KOSYNC_REMOTE_ALREADY_SYNCED | CN_KOSYNC_REMOTE_NEWER
  | CN_KOSYNC_REMOTE_OLDER_OR_EQUAL

section \<open>Setting up the client\<close>

definition copy_url_part :: "nat \<Rightarrow> bytes \<Rightarrow> bytes option" where
  "copy_url_part cap start = (if length start = 0 \<or> length start \<ge> cap then None else Some start)"

definition url_scheme :: "bytes \<Rightarrow> (bool \<times> bytes) option" where
  "url_scheme url =
     (if take 7 url = str ''http://'' then Some (False, drop 7 url)
      else if take 8 url = str ''https://'' then Some (True, drop 8 url) else None)"

definition blank_client :: cn_kosync_client where
  "blank_client = \<lparr>client_host = [], client_port = [], base_path = [], username = [], userkey = [],
     client_connect_host = [], client_tls = None, use_tls = False, connect_ms = 0, recv_ms = 0\<rparr>"

text \<open>The host and the port of an authority; a part that was copied stays when the next one is refused.\<close>

definition client_authority :: "bool \<Rightarrow> bytes \<Rightarrow> cn_kosync_client \<Rightarrow> bool \<times> cn_kosync_client" where
  "client_authority use_tls' authority client =
     (if of_char CHR '':'' \<in> set authority then
        (let name = takeWhile (\<lambda>c. c \<noteq> of_char CHR '':'') authority in
         case copy_url_part (netsimple_host_max + 1) name of None \<Rightarrow> (False, client)
         | Some h \<Rightarrow> (case copy_url_part (netsimple_port_max_text + 1) (drop (length name + 1) authority) of
             None \<Rightarrow> (False, client\<lparr>client_host := h\<rparr>)
           | Some p \<Rightarrow> (True, client\<lparr>client_host := h, client_port := p\<rparr>)))
      else case copy_url_part (netsimple_host_max + 1) authority of None \<Rightarrow> (False, client)
        | Some h \<Rightarrow> (True, client\<lparr>client_host := h, client_port := (if use_tls' then str ''443'' else str ''80'')\<rparr>))"

function strip_path :: "bytes \<Rightarrow> bytes" where
  "strip_path p = (if p \<noteq> [] \<and> last p = of_char CHR ''/'' then strip_path (butlast p) else p)"
  by pat_completeness auto
termination by (relation "measure length") auto

declare strip_path.simps [simp del]

definition request_path :: "cn_kosync_client \<Rightarrow> bytes" where
  "request_path client = (if base_path client \<noteq> [] then base_path client else str ''/'')"

definition client_path :: "bytes \<Rightarrow> cn_kosync_client \<Rightarrow> bool \<times> cn_kosync_client" where
  "client_path p client =
     (if of_char CHR ''?'' \<in> set p \<or> of_char CHR ''#'' \<in> set p \<or> length p > kosync_base_path_max then (False, client)
      else let client = client\<lparr>base_path := strip_path p\<rparr>
        in (cn_netsimple_validate (Some (client_host client)) (Some (client_port client)) (Some (request_path client)), client))"

definition cn_kosync_client_init ::
  "cn_kosync_client option \<Rightarrow> bytes option \<Rightarrow> bytes option \<Rightarrow> bytes option \<Rightarrow> cn_kosync_result \<times> cn_kosync_client option" where
  "cn_kosync_client_init client base_url username' userkey' =
     (if client = None \<or> base_url = None \<or> \<not> header_text_ok username' kosync_username_max False \<or>
         \<not> header_text_ok userkey' kosync_userkey_max False
      then (CN_KOSYNC_INVALID, client)
      else case url_scheme (cstr (the base_url)) of None \<Rightarrow> (CN_KOSYNC_INVALID, client)
      | Some (use_tls', rest) \<Rightarrow>
          let authority = takeWhile (\<lambda>c. c \<noteq> of_char CHR ''/'') rest
          in if of_char CHR ''@'' \<in> set authority \<or> of_char CHR ''?'' \<in> set authority \<or>
                of_char CHR ''#'' \<in> set authority \<or> authority = []
             then (CN_KOSYNC_INVALID, client)
             else case client_authority use_tls' authority blank_client of
               (False, client) \<Rightarrow> (CN_KOSYNC_INVALID, Some client)
             | (True, client) \<Rightarrow>
                 if cn_netsimple_parse_port (Some (client_port client)) = None then (CN_KOSYNC_INVALID, Some client)
                 else case client_path (dropWhile (\<lambda>c. c \<noteq> of_char CHR ''/'') rest) client of
                   (False, client) \<Rightarrow> (CN_KOSYNC_INVALID, Some client)
                 | (True, client) \<Rightarrow> (CN_KOSYNC_OK, Some (client\<lparr>username := cstr (the username'),
                     userkey := cstr (the userkey'), use_tls := use_tls', connect_ms := 20000, recv_ms := 10000\<rparr>)))"

text \<open>\<open>connect_host\<close> is NULL or a text; it is copied, and the old one stays where it is NULL.\<close>

definition cn_kosync_client_set_tls ::
  "cn_kosync_client option \<Rightarrow> cn_tls_config option \<Rightarrow> bytes option \<Rightarrow> cn_kosync_result \<times> cn_kosync_client option" where
  "cn_kosync_client_set_tls client tls' connect_host' = (case client of None \<Rightarrow> (CN_KOSYNC_INVALID, None)
     | Some c \<Rightarrow>
         if \<not> use_tls c \<or> tls' = None \<or> ca_path (the tls') = None then (CN_KOSYNC_INVALID, Some c)
         else case connect_host' of
           None \<Rightarrow> (CN_KOSYNC_OK, Some (c\<lparr>client_tls := tls'\<rparr>))
         | Some h \<Rightarrow>
             let length' = kosync_bounded_length (Some h) netsimple_host_max
             in if length' = 0 \<or> length' > netsimple_host_max \<or>
                   \<not> cn_netsimple_validate (Some h) (Some (client_port c)) (Some (str ''/''))
                then (CN_KOSYNC_INVALID, Some c)
                else (CN_KOSYNC_OK, Some (c\<lparr>client_connect_host := cstr h, client_tls := tls'\<rparr>)))"

section \<open>Requests\<close>

definition endpoint_path :: "cn_kosync_client \<Rightarrow> bytes \<Rightarrow> nat \<Rightarrow> bytes option" where
  "endpoint_path client suffix cap =
     (if length (base_path client @ suffix) \<ge> cap then None else Some (base_path client @ suffix))"

definition map_response ::
  "cn_netsimple_result \<Rightarrow> cn_netsimple_response \<Rightarrow> cn_kosync_result \<times> cn_kosync_outcome" where
  "map_response transport response =
     (if transport \<noteq> CN_NETSIMPLE_OK then CN_KOSYNC_TRANSPORT_ERROR
      else if status response = 401 then CN_KOSYNC_AUTH_FAILED
      else if status response \<noteq> 200 then CN_KOSYNC_HTTP_ERROR else CN_KOSYNC_OK,
      \<lparr>http_status = (if transport = CN_NETSIMPLE_OK then status response else 0), transport_result = Known transport\<rparr>)"

definition init_outcome :: cn_kosync_outcome where
  "init_outcome = \<lparr>http_status = 0, transport_result = Known CN_NETSIMPLE_INVALID\<rparr>"

definition kosync_accept :: bytes where "kosync_accept = str ''application/vnd.koreader.v1+json''"
definition kosync_content_type :: bytes where "kosync_content_type = str ''application/json''"

definition client_headers :: "cn_kosync_client \<Rightarrow> cn_netsimple_header list" where
  "client_headers client =
     [\<lparr>header_name = Some (str ''Accept''), header_value = Some kosync_accept\<rparr>,
      \<lparr>header_name = Some (str ''x-auth-user''), header_value = Some (username client)\<rparr>,
      \<lparr>header_name = Some (str ''x-auth-key''), header_value = Some (userkey client)\<rparr>]"

definition client_request :: "cn_kosync_client \<Rightarrow> bytes \<Rightarrow> bytes option \<Rightarrow> cn_netsimple_request" where
  "client_request client path' json =
     \<lparr>method' = Known (if json = None then CN_NETSIMPLE_METHOD_GET else CN_NETSIMPLE_METHOD_PUT),
      host = Some (client_host client),
      connect_host = (if client_connect_host client \<noteq> [] then Some (client_connect_host client) else None),
      port = Some (client_port client), path = Some path', headers = Some (client_headers client), header_count = 3,
      content_type = (if json = None then None else Some kosync_content_type),
      body = json, body_len = (case json of None \<Rightarrow> 0 | Some j \<Rightarrow> length j),
      tls = (use_tls client \<and> client_tls client \<noteq> None)\<rparr>"

definition client_exchange :: "cn_kosync_client \<Rightarrow> bytes \<Rightarrow> bytes option \<Rightarrow> nat \<Rightarrow> network \<Rightarrow>
    (cn_netsimple_result \<times> cn_netsimple_response \<times> bytes) \<times> network" where
  "client_exchange client path' json cap n =
     cn_netsimple_exchange (Some (client_request client path' json)) True cap (connect_ms client) (recv_ms client) True n"

definition client_unusable :: "cn_kosync_client option \<Rightarrow> bool" where
  "client_unusable client \<longleftrightarrow> (case client of None \<Rightarrow> True | Some c \<Rightarrow> use_tls c \<and> client_tls c = None)"

definition cn_kosync_authorize :: "cn_kosync_client option \<Rightarrow> os \<Rightarrow> network \<Rightarrow>
    (cn_kosync_result \<times> cn_kosync_outcome) \<times> os \<times> network" where
  "cn_kosync_authorize client s n =
     (if client_unusable client then ((CN_KOSYNC_INVALID, init_outcome), s, n)
      else case endpoint_path (the client) (str ''/users/auth'') (netsimple_path_max + 1) of
        None \<Rightarrow> ((CN_KOSYNC_INVALID, init_outcome), s, n)
      | Some path' \<Rightarrow> (case sys_malloc s of
          (False, s) \<Rightarrow> ((CN_KOSYNC_NO_MEMORY, init_outcome), s, n)
        | (True, s) \<Rightarrow> (case client_exchange (the client) path' None netsimple_response_max n of
            ((transport, response, _), n) \<Rightarrow> (map_response transport response, s, n))))"

definition response_capacity :: nat where
  "response_capacity = kosync_json_max + netsimple_request_max"

text \<open>The body of a response, from the bytes that arrived.\<close>

definition response_body :: "cn_netsimple_response \<Rightarrow> bytes \<Rightarrow> bytes option" where
  "response_body response buffer = Some (take (body_bytes response) (drop (header_bytes response) buffer))"

text \<open>What the server must have acknowledged: the time stamp it answers.\<close>

definition put_acknowledged :: "(rat \<Rightarrow> bool) \<Rightarrow> cn_kosync_progress \<Rightarrow> bytes option \<Rightarrow> os \<Rightarrow> (cn_kosync_result + int) \<times> os" where
  "put_acknowledged underflow progress body' s = (case parse_object underflow body' s of
     (Inl e, s) \<Rightarrow> (Inl e, s)
   | (Inr ack, s) \<Rightarrow>
       if \<not> {FIELD_DOCUMENT, FIELD_TIMESTAMP} \<subseteq> parsed_fields ack \<or>
          document_id (parsed_progress ack) \<noteq> cstr (document_id progress)
       then (Inl CN_KOSYNC_BAD_PROTOCOL, s)
       else (Inr (timestamp (parsed_progress ack)), s))"

definition cn_kosync_put_progress :: "(rat \<Rightarrow> bool) \<Rightarrow> cn_kosync_client option \<Rightarrow> cn_kosync_progress option \<Rightarrow> os \<Rightarrow> network \<Rightarrow>
    ((cn_kosync_result \<times> int option) \<times> cn_kosync_outcome) \<times> os \<times> network" where
  "cn_kosync_put_progress underflow client progress s n =
     (if client_unusable client \<or> progress = None then (((CN_KOSYNC_INVALID, None), init_outcome), s, n)
      else case sys_malloc s of (json_ok, s) \<Rightarrow> (case sys_malloc s of (buffer_ok, s) \<Rightarrow>
        if \<not> json_ok \<or> \<not> buffer_ok then (((CN_KOSYNC_NO_MEMORY, None), init_outcome), s, n)
        else case cn_kosync_serialize_progress progress True (kosync_json_max + 1) of
          Inl e \<Rightarrow> (((e, None), init_outcome), s, n)
        | Inr json \<Rightarrow> (case endpoint_path (the client) (str ''/syncs/progress'') (netsimple_path_max + 1) of
            None \<Rightarrow> (((CN_KOSYNC_INVALID, None), init_outcome), s, n)
          | Some path' \<Rightarrow> (case client_exchange (the client) path' (Some json) response_capacity n of
              ((transport, response, buffer), n) \<Rightarrow> (case map_response transport response of (result, outcome') \<Rightarrow>
                if result \<noteq> CN_KOSYNC_OK then (((result, None), outcome'), s, n)
                else case put_acknowledged underflow (the progress) (response_body response buffer) s of
                  (Inl e, s) \<Rightarrow> (((e, None), outcome'), s, n)
                | (Inr t, s) \<Rightarrow> (((CN_KOSYNC_OK, Some t), outcome'), s, n))))))"

definition get_suffix :: "bytes \<Rightarrow> bytes" where
  "get_suffix document_id' = str ''/syncs/progress/'' @ cstr document_id'"

text \<open>\<open>progress\<close> is the record that is replaced on success, and cleared if it is of another document.\<close>

definition cn_kosync_get_progress :: "(rat \<Rightarrow> bool) \<Rightarrow> cn_kosync_client option \<Rightarrow> bytes option \<Rightarrow> cn_kosync_progress option \<Rightarrow>
    os \<Rightarrow> network \<Rightarrow> ((cn_kosync_result \<times> cn_kosync_progress option) \<times> cn_kosync_outcome) \<times> os \<times> network" where
  "cn_kosync_get_progress underflow client document_id' progress s n =
     (if client = None \<or> progress = None \<or> \<not> document_id_ok document_id' \<or> client_unusable client
      then (((CN_KOSYNC_INVALID, progress), init_outcome), s, n)
      else if length (get_suffix (the document_id')) \<ge> 64 then (((CN_KOSYNC_INVALID, progress), init_outcome), s, n)
      else case endpoint_path (the client) (get_suffix (the document_id')) (netsimple_path_max + 1) of
        None \<Rightarrow> (((CN_KOSYNC_INVALID, progress), init_outcome), s, n)
      | Some path' \<Rightarrow> (case sys_malloc s of
          (False, s) \<Rightarrow> (((CN_KOSYNC_NO_MEMORY, progress), init_outcome), s, n)
        | (True, s) \<Rightarrow> (case client_exchange (the client) path' None response_capacity n of
            ((transport, response, buffer), n) \<Rightarrow> (case map_response transport response of (result, outcome') \<Rightarrow>
              if result \<noteq> CN_KOSYNC_OK then (((result, progress), outcome'), s, n)
              else case cn_kosync_parse_progress underflow (response_body response buffer) True s of
                (Inl e, s) \<Rightarrow> (((e, progress), outcome'), s, n)
              | (Inr remote, s) \<Rightarrow>
                  if document_id remote \<noteq> cstr (the document_id')
                  then (((CN_KOSYNC_BAD_PROTOCOL, cn_kosync_progress_clear (Some remote)), outcome'), s, n)
                  else (((CN_KOSYNC_OK, Some remote), outcome'), s, n)))))"

definition cn_kosync_classify_remote :: "cn_kosync_progress option \<Rightarrow> bytes option \<Rightarrow> int \<Rightarrow> int \<Rightarrow> bytes option \<Rightarrow> bytes option \<Rightarrow>
    cn_kosync_remote_state" where
  "cn_kosync_classify_remote remote local_position local_progress local_timestamp local_model local_id = (case remote of
     None \<Rightarrow> CN_KOSYNC_REMOTE_OLDER_OR_EQUAL
   | Some r \<Rightarrow>
       if local_model \<noteq> None \<and> local_id \<noteq> None \<and> cstr (device r) = cstr (the local_model) \<and>
          cstr (device_id r) = cstr (the local_id) then CN_KOSYNC_REMOTE_SAME_DEVICE
       else if local_position \<noteq> None \<and> (scaled_progress r = local_progress \<or>
          (logical_position r \<noteq> None \<and> cstr (the (logical_position r)) = cstr (the local_position)))
       then CN_KOSYNC_REMOTE_ALREADY_SYNCED
       else if has_timestamp r \<and> timestamp r > local_timestamp \<or> \<not> has_timestamp r \<and> scaled_progress r > local_progress
       then CN_KOSYNC_REMOTE_NEWER else CN_KOSYNC_REMOTE_OLDER_OR_EQUAL)"

section \<open>A client that was set up\<close>

definition client_ok :: "cn_kosync_client \<Rightarrow> bool" where
  "client_ok c \<longleftrightarrow>
     cn_netsimple_validate (Some (client_host c)) (Some (client_port c)) (Some (request_path c)) \<and>
     length (client_port c) \<le> 8 \<and> length (base_path c) \<le> 1024 \<and>
     terminated (client_host c) \<and> terminated (client_port c) \<and> terminated (base_path c) \<and>
     terminated (username c) \<and> length (username c) \<le> 255 \<and> header_value_ok (Some (username c)) \<and>
     terminated (userkey c) \<and> length (userkey c) \<le> 255 \<and> header_value_ok (Some (userkey c)) \<and>
     (client_connect_host c \<noteq> [] \<longrightarrow> host_text_ok (Some (client_connect_host c)))"

lemma header_text_value:
  assumes "header_text_ok (Some t) n e" "n \<le> 2048"
  shows "header_value_ok (Some (cstr t)) \<and> length (cstr t) \<le> n"
proof -
  have "header_text_ok (Some (cstr t)) n e" using assms(1) by (simp add: terminated_ok_cstr)
  from header_text_terminated[OF this] show ?thesis using assms
    by (auto simp: header_text_ok_def kosync_bounded_length_def header_value_ok_def scan_nul_eq Let_def
        take_strlen[unfolded strlen_def] min_def list_all_iff strlen_def split: if_splits)
qed

lemma strip_path_prefix: "\<exists>k. strip_path p = take k p"
proof (induction p rule: strip_path.induct)
  case (1 p)
  show ?case
  proof (cases "p \<noteq> [] \<and> last p = of_char CHR ''/''")
    case True
    then obtain k where k: "strip_path (butlast p) = take k (butlast p)" using 1 by blast
    have "take k (butlast p) = take (min k (length p - 1)) p" by (simp add: butlast_conv_take)
    then show ?thesis using True k by (subst strip_path.simps) auto
  next
    case False
    then show ?thesis by (subst strip_path.simps) (auto intro: exI[of _ "length p"])
  qed
qed

lemma terminated_take: "terminated t \<Longrightarrow> terminated (take k t)"
  by (auto simp: terminated_def dest: in_set_takeD)

lemma terminated_drop: "terminated t \<Longrightarrow> terminated (drop k t)"
  by (auto simp: terminated_def dest: in_set_dropD)

lemma terminated_while: "terminated t \<Longrightarrow> terminated (takeWhile P t)" "terminated t \<Longrightarrow> terminated (dropWhile P t)"
  by (auto simp: terminated_def dest: set_takeWhileD set_dropWhileD)

lemma copy_url_part_Some: "copy_url_part cap t = Some u \<Longrightarrow> u = t \<and> t \<noteq> [] \<and> length t < cap"
  by (auto simp: copy_url_part_def split: if_splits)

lemma client_authority_parts:
  assumes "client_authority b a blank_client = (True, c)" "terminated a"
  shows "c = blank_client\<lparr>client_host := client_host c, client_port := client_port c\<rparr> \<and> terminated (client_host c) \<and>
    terminated (client_port c) \<and> length (client_port c) \<le> 8"
  using assms terminated_while(1)[OF assms(2)] terminated_drop[OF assms(2)]
  by (auto simp: client_authority_def Let_def netsimple_port_max_text_def dest!: copy_url_part_Some split: if_splits option.splits)

lemma client_init_ok:
  assumes "cn_kosync_client_init old url u k = (CN_KOSYNC_OK, Some c)"
  shows "client_ok c"
proof -
  obtain b rest where s: "url_scheme (cstr (the url)) = Some (b, rest)" and h: "header_text_ok u kosync_username_max False"
    "header_text_ok k kosync_userkey_max False" "old \<noteq> None" "url \<noteq> None"
    using assms by (auto simp: cn_kosync_client_init_def split: if_splits option.splits)
  define a where "a = takeWhile (\<lambda>c. c \<noteq> of_char CHR ''/'') rest"
  define q where "q = dropWhile (\<lambda>c. c \<noteq> of_char CHR ''/'') rest"
  have t: "terminated rest" using s terminated_drop[of "cstr (the url)"] by (auto simp: url_scheme_def split: if_splits)
  obtain ok1 c1 where c1: "client_authority b a blank_client = (ok1, c1)" by (cases "client_authority b a blank_client")
  obtain ok2 c2 where c2: "client_path q c1 = (ok2, c2)" by (cases "client_path q c1")
  have run: "ok1" "ok2" "c = c2\<lparr>username := cstr (the u), userkey := cstr (the k), use_tls := b, connect_ms := 20000, recv_ms := 10000\<rparr>"
    using assms s h c1 c2 by (auto simp: cn_kosync_client_init_def Let_def a_def q_def split: if_splits bool.splits)
  note c = run(3)
  have p: "c1 = blank_client\<lparr>client_host := client_host c1, client_port := client_port c1\<rparr>" "terminated (client_host c1)"
    "terminated (client_port c1)" "length (client_port c1) \<le> 8"
    using client_authority_parts[of b a c1] c1 run terminated_while(1)[OF t] by (auto simp: a_def)
  have q: "c2 = c1\<lparr>base_path := strip_path q\<rparr>" "length q \<le> 1024"
    "cn_netsimple_validate (Some (client_host c2)) (Some (client_port c2)) (Some (request_path c2))"
    using c2 run(2) by (auto simp: client_path_def Let_def kosync_base_path_max_def split: if_splits)
  obtain i where i: "strip_path q = take i q" using strip_path_prefix by blast
  have b: "terminated (strip_path q)" "length (strip_path q) \<le> 1024"
    using terminated_take[OF terminated_while(2)[OF t]] q(2) unfolding i q_def[symmetric] by (auto simp: q_def)
  have u: "header_value_ok (Some (cstr (the u))) \<and> length (cstr (the u)) \<le> 255"
    using h(1) header_text_value[of "the u" kosync_username_max False]
    by (cases u) (auto simp: kosync_username_max_def header_text_ok_def kosync_bounded_length_def Let_def)
  have k: "header_value_ok (Some (cstr (the k))) \<and> length (cstr (the k)) \<le> 255"
    using h(2) header_text_value[of "the k" kosync_userkey_max False]
    by (cases k) (auto simp: kosync_userkey_max_def header_text_ok_def kosync_bounded_length_def Let_def)
  have "client_connect_host c1 = []" by (subst p(1)) (simp add: blank_client_def)
  then show ?thesis using c q p(2-4) b u k
    by (cases "strip_path q = []") (simp_all add: client_ok_def request_path_def)
qed

lemma host_cstr: "host_text_ok (Some (cstr h)) = host_text_ok (Some h)"
  by (simp add: host_text_ok_def)

lemma client_set_tls_ok:
  assumes "cn_kosync_client_set_tls (Some c) t h = (CN_KOSYNC_OK, Some c')" "client_ok c"
  shows "client_ok c' \<and> use_tls c' \<and> client_tls c' \<noteq> None \<and> client_tls c' = t"
proof -
  have "cn_netsimple_validate (Some x) p (Some (str ''/'')) \<Longrightarrow> host_text_ok (Some (cstr x))" for x p
    by (auto simp: cn_netsimple_validate_def host_cstr split: if_splits)
  then show ?thesis using assms
    by (auto simp: cn_kosync_client_set_tls_def Let_def client_ok_def request_path_def split: if_splits option.splits)
qed

text \<open>Where the lengths add up, every append of a request succeeds.\<close>

lemma append_texts_fit:
  "length r + length (concat (map cstr ts)) < cap \<Longrightarrow> append_texts cap ts r = Some (r @ concat (map cstr ts))"
proof (induction ts arbitrary: r)
  case (Cons t ts)
  have "append_text cap t r = Some (r @ cstr t)" using Cons.prems by (simp add: append_text_def)
  then show ?case using Cons.IH[of "r @ cstr t"] Cons.prems by (simp add: append_texts_def)
qed (simp add: append_texts_def)

lemma append_headers_fit:
  "length r + length (concat (map (\<lambda>h. cstr (the (header_name h)) @ cstr (str '': '') @ cstr (the (header_value h)) @ cstr crlf) hs)) < cap \<Longrightarrow>
   foldl (append_header cap) (Some r) hs =
     Some (r @ concat (map (\<lambda>h. cstr (the (header_name h)) @ cstr (str '': '') @ cstr (the (header_value h)) @ cstr crlf) hs))"
proof (induction hs arbitrary: r)
  case (Cons h hs)
  have "append_header cap (Some r) h = Some (r @ cstr (the (header_name h)) @ cstr (str '': '') @ cstr (the (header_value h)) @ cstr crlf)"
    using Cons.prems append_texts_fit[of r "[the (header_name h), str '': '', the (header_value h), crlf]" cap]
    by (simp add: append_header_def)
  then show ?case using Cons.IH[of "r @ cstr (the (header_name h)) @ cstr (str '': '') @ cstr (the (header_value h)) @ cstr crlf"] Cons.prems
    by simp
qed simp

lemma header_length_bound:
  "length (concat (map (\<lambda>h. cstr (the (header_name h)) @ cstr (str '': '') @ cstr (the (header_value h)) @ cstr crlf) (client_headers c)))
     \<le> 78 + length (cstr (username c)) + length (cstr (userkey c))"
  using plain_terminated by (simp add: client_headers_def kosync_accept_def crlf_def)

lemma request_builds:
  assumes ok: "exchange_arguments_ok spec cap" "request_method spec = Some name" "length name = 3" "terminated name"
    "list_all (\<lambda>h. header_name_ok (header_name h) \<and> header_value_ok (header_value h)) (request_headers spec)"
    and len: "length (cstr (the (path spec))) + length (cstr (the (host spec))) + length (cstr (the (port spec))) +
      length (concat (map (\<lambda>h. cstr (the (header_name h)) @ cstr (str '': '') @ cstr (the (header_value h)) @ cstr crlf) (request_headers spec))) +
      (if method' spec = Known CN_NETSIMPLE_METHOD_PUT then length (cstr (the (content_type spec))) else 0) +
      length (decimal_text (body_len spec)) + 80 < cap"
  shows "\<exists>req. cn_netsimple_build_exchange_request (Some spec) True cap = Inr req"
proof -
  note T = plain_terminated
  define t1 where "t1 = concat (map cstr [name, str '' '', the (path spec), str '' HTTP/1.0'' @ crlf @ str ''Host: '', the (host spec)])"
  have l1: "length t1 = 21 + length (cstr (the (path spec))) + length (cstr (the (host spec)))"
    using T ok(3,4) by (simp add: t1_def crlf_def)
  have e1: "append_texts cap [name, str '' '', the (path spec), str '' HTTP/1.0'' @ crlf @ str ''Host: '', the (host spec)] [] = Some t1"
    using append_texts_fit[of "[]" _ cap] l1 len by (simp add: t1_def del: str_simps)
  define needs where "needs = (tls spec \<and> cstr (the (port spec)) \<noteq> str ''443'' \<or> \<not> tls spec \<and> cstr (the (port spec)) \<noteq> str ''80'')"
  define t2 where "t2 = (if needs then t1 @ str '':'' @ cstr (the (port spec)) else t1)"
  have l2: "length t2 \<le> length t1 + 1 + length (cstr (the (port spec)))" by (simp add: t2_def)
  have e2: "needs \<Longrightarrow> append_texts cap [str '':'', the (port spec)] t1 = Some t2" "\<not> needs \<Longrightarrow> t2 = t1"
    using append_texts_fit[of t1 "[str '':'', the (port spec)]" cap] l1 len T by (simp_all add: t2_def del: str_simps)
  have e3: "append_texts cap [crlf] t2 = Some (t2 @ crlf)"
    using append_texts_fit[of t2 "[crlf]" cap] l1 l2 len T by (simp add: crlf_def)
  define hs where "hs = concat (map (\<lambda>h. cstr (the (header_name h)) @ cstr (str '': '') @ cstr (the (header_value h)) @ cstr crlf) (request_headers spec))"
  have e4: "foldl (append_header cap) (Some (t2 @ crlf)) (request_headers spec) = Some (t2 @ crlf @ hs)"
    using append_headers_fit[of "t2 @ crlf" "request_headers spec" cap] l1 l2 len by (simp add: hs_def crlf_def)
  define ps where "ps = (if method' spec = Known CN_NETSIMPLE_METHOD_PUT
      then str ''Content-Type: '' @ cstr (the (content_type spec)) @ crlf @ length_line (body_len spec) else [])"
  have l5: "length ps \<le> 34 + (if method' spec = Known CN_NETSIMPLE_METHOD_PUT then length (cstr (the (content_type spec))) else 0) +
      length (decimal_text (body_len spec))"
    by (simp add: ps_def length_line_def crlf_def)
  have ll: "length (length_line (body_len spec)) = 18 + length (decimal_text (body_len spec))"
    by (simp add: length_line_def crlf_def)
  have e5: "method' spec = Known CN_NETSIMPLE_METHOD_PUT \<Longrightarrow> append_texts cap
      [str ''Content-Type: '', the (content_type spec), crlf, length_line (body_len spec)] (t2 @ crlf @ hs) = Some (t2 @ crlf @ hs @ ps)"
    "method' spec \<noteq> Known CN_NETSIMPLE_METHOD_PUT \<Longrightarrow> ps = []"
    using append_texts_fit[of "t2 @ crlf @ hs" "[str ''Content-Type: '', the (content_type spec), crlf, length_line (body_len spec)]" cap]
      l1 l2 ll len T length_line_terminated[of "body_len spec"]
    by (simp_all add: ps_def hs_def crlf_def del: str_simps)
  have e6: "append_texts cap [crlf] (t2 @ crlf @ hs @ ps) = Some (t2 @ crlf @ hs @ ps @ crlf)"
    using append_texts_fit[of "t2 @ crlf @ hs @ ps" "[crlf]" cap] l1 l2 l5 len T by (simp add: hs_def crlf_def)
  show ?thesis using ok(1,2,5) e2 e3 e4 e5 e6
    by (cases needs; cases "method' spec = Known CN_NETSIMPLE_METHOD_PUT")
      (simp_all add: cn_netsimple_build_exchange_request_def Let_def e1 needs_def[symmetric] del: str_simps)
qed

lemma decimal_text_length: "n < 10 ^ k \<Longrightarrow> 0 < k \<Longrightarrow> length (decimal_text n) \<le> k"
proof (induction k arbitrary: n)
  case (Suc k)
  show ?case
  proof (cases "n < 10")
    case True
    then show ?thesis by (subst decimal_text.simps) simp
  next
    case False
    then have "0 < k" using Suc.prems by (cases k) auto
    moreover have "n div 10 < 10 ^ k" using Suc.prems(1) by (simp add: less_mult_imp_div_less)
    ultimately show ?thesis using Suc.IH[of "n div 10"] False by (subst decimal_text.simps) simp
  qed
qed simp

lemma client_request_builds:
  assumes ok: "client_ok c" and path: "path' = base_path c @ suffix" "suffix = of_char CHR ''/'' # rest" "length suffix \<le> 64"
      "terminated suffix" "list_all (\<lambda>x. \<not> (x \<le> 0x20 \<or> x = 0x7f \<or> x = 92)) suffix"
    and json: "case json of None \<Rightarrow> True | Some j \<Rightarrow> length j \<le> kosync_json_max"
  shows "\<exists>req. cn_netsimple_build_exchange_request (Some (client_request c path' json)) True netsimple_request_max = Inr req"
proof -
  have v: "cn_netsimple_validate (Some (client_host c)) (Some (client_port c)) (Some (request_path c))" using ok by (simp add: client_ok_def)
  have t: "terminated path'" using ok path by (auto simp: client_ok_def terminated_def)
  have len: "length (cstr path') \<le> 1088" using t ok path by (simp add: client_ok_def)
  have b: "base_path c = [] \<or> hd (base_path c) = of_char CHR ''/''" "list_all (\<lambda>x. \<not> (x \<le> 0x20 \<or> x = 0x7f \<or> x = 92)) (base_path c)"
    using v ok by (auto simp: cn_netsimple_validate_def request_path_def client_ok_def char_at_def hd_conv_nth split: if_splits)
  have v': "cn_netsimple_validate (Some (client_host c)) (Some (client_port c)) (Some path')"
    using v b path t len by (cases "base_path c") (auto simp: cn_netsimple_validate_def char_at_def netsimple_path_max_def split: if_splits)
  have h: "length (cstr (client_host c)) \<le> 255" using v by (auto simp: cn_netsimple_validate_def host_text_ok_def netsimple_host_max_def split: if_splits)
  have p: "length (cstr (client_port c)) \<le> 8" using ok by (simp add: client_ok_def)
  have u: "length (cstr (username c)) \<le> 255" "length (cstr (userkey c)) \<le> 255" using ok by (simp_all add: client_ok_def)
  have d: "length (decimal_text (body_len (client_request c path' json))) \<le> 6"
    using json by (intro decimal_text_length) (auto simp: client_request_def kosync_json_max_def kosync_position_max_def split: option.splits)
  have ct: "length (cstr (the (content_type (client_request c path' json)))) \<le> 16 \<or> json = None"
    by (cases json) (simp_all add: client_request_def kosync_content_type_def)
  have hs: "request_headers (client_request c path' json) = client_headers c"
    by (simp add: request_headers_def client_request_def client_headers_def)
  have a: "exchange_arguments_ok (client_request c path' json) netsimple_request_max"
    using v' ok by (auto simp: exchange_arguments_ok_def client_request_def netsimple_request_max_def netsimple_header_max_def client_ok_def
        split: option.splits)
  have hv: "header_value_ok (Some kosync_accept)" "header_value_ok (Some kosync_content_type)"
    by (simp_all add: header_value_ok_def kosync_accept_def kosync_content_type_def)
  have m: "request_method (client_request c path' json) = Some (if json = None then str ''GET'' else str ''PUT'')"
    using hv by (simp add: request_method_def client_request_def)
  have hn: "list_all (\<lambda>h. header_name_ok (header_name h) \<and> header_value_ok (header_value h)) (client_headers c)"
    using ok hv by (simp add: client_headers_def client_ok_def header_name_ok_def header_name_byte_def decimal_byte_def)
  show ?thesis
  proof (rule request_builds[OF a m])
    show "list_all (\<lambda>h. header_name_ok (header_name h) \<and> header_value_ok (header_value h)) (request_headers (client_request c path' json))"
      using hn hs by simp
  qed (use header_length_bound[of c] hs len h p u d ct in \<open>auto simp: client_request_def netsimple_request_max_def\<close>)
qed

section \<open>What a client can ask\<close>

lemma document_suffix:
  assumes "document_id_ok (Some d)"
  shows "length (get_suffix d) = 48" "terminated (get_suffix d)" "list_all (\<lambda>x. \<not> (x \<le> 0x20 \<or> x = 0x7f \<or> x = 92)) (get_suffix d)"
    "\<exists>rest. get_suffix d = of_char CHR ''/'' # rest"
proof -
  have d: "length (cstr d) = 32" "list_all lower_hex (cstr d)"
    using document_id_terminated[of "cstr d"] assms by (simp_all add: terminated_ok_cstr kosync_document_id_bytes_def)
  show "length (get_suffix d) = 48" "\<exists>rest. get_suffix d = of_char CHR ''/'' # rest" using d(1) by (simp_all add: get_suffix_def)
  have x: "\<not> (x \<le> 0x20 \<or> x = 0x7f \<or> x = 92)" if "lower_hex x" for x
    using that by (auto simp: lower_hex_def word_le_nat_alt word_unat_eq_iff)
  show "list_all (\<lambda>x. \<not> (x \<le> 0x20 \<or> x = 0x7f \<or> x = 92)) (get_suffix d)"
    using d(2) x by (auto simp: get_suffix_def list_all_iff)
  show "terminated (get_suffix d)" by (simp add: get_suffix_def)
qed

text \<open>A client that was set up from a URL, a user name and a key, with or without TLS and a resolved
  address, can make its three requests: their paths fit, and the request texts are built, whatever the
  base path, the credentials, the document and the body.  So an exchange for it never fails because of
  its own arguments.\<close>

lemma client_requests_are_well_formed:
  assumes "cn_kosync_client_init old url user key = (CN_KOSYNC_OK, Some c)"
    and "client = c \<or> cn_kosync_client_set_tls (Some c) config address = (CN_KOSYNC_OK, Some client)"
    and "document_id_ok (Some d)" "length json \<le> kosync_json_max"
    and "(suffix, body') \<in> {(str ''/users/auth'', None), (str ''/syncs/progress'', Some json), (get_suffix d, None)}"
  shows "\<exists>path' req. endpoint_path client suffix (netsimple_path_max + 1) = Some path' \<and>
    cn_netsimple_build_exchange_request (Some (client_request client path' body')) True netsimple_request_max = Inr req"
proof -
  have ok: "client_ok client" using client_init_ok[OF assms(1)] assms(2) client_set_tls_ok by blast
  have sfx: "length suffix \<le> 64 \<and> terminated suffix \<and> list_all (\<lambda>x. \<not> (x \<le> 0x20 \<or> x = 0x7f \<or> x = 92)) suffix \<and>
      (\<exists>rest. suffix = of_char CHR ''/'' # rest)"
    using assms(5) document_suffix[OF assms(3)] by auto
  then have "endpoint_path client suffix (netsimple_path_max + 1) = Some (base_path client @ suffix)"
    using ok by (simp add: endpoint_path_def netsimple_path_max_def client_ok_def)
  moreover have "case body' of None \<Rightarrow> True | Some j \<Rightarrow> length j \<le> kosync_json_max" using assms(4,5) by auto
  ultimately show ?thesis using client_request_builds[OF ok refl] sfx by blast
qed

end
