(* ===== verification/Dns_Message.thy ===== *)
theory Dns_Message
  imports Sync_Types Netsimple
begin

text \<open>
  The messages of src/net/dnssimple.c: the check of a host name, the query, compressed names and the
  response.  A packet is a list of bytes whose length is the C \<open>packet_len\<close>; a host name that is NULL is
  \<open>None\<close>.  The array of visited pointers is the set of its members.
\<close>

type_synonym u16 = "16 word"

definition dns_header_bytes :: nat where "dns_header_bytes = 12"
definition dns_packet_max :: nat where "dns_packet_max = 512"
definition dns_pointer_hops_max :: nat where "dns_pointer_hops_max = 16"
definition dns_records_max :: nat where "dns_records_max = 32"
definition dns_host_max :: nat where "dns_host_max = 253"
definition dns_max_servers :: nat where "dns_max_servers = 2"
definition dns_max_ipv4 :: nat where "dns_max_ipv4 = 4"
definition dns_default_port :: nat where "dns_default_port = 53"
definition dns_default_timeout_ms :: nat where "dns_default_timeout_ms = 2000"

record cn_dns_answer =
  ipv4 :: "bytes list"
  server_index :: nat

definition load_u16 :: "bytes \<Rightarrow> nat \<Rightarrow> u16" where
  "load_u16 p i = push_bit 8 (ucast (p ! i)) OR ucast (p ! (i + 1))"

definition store_u16 :: "u16 \<Rightarrow> bytes" where
  "store_u16 value = [ucast (drop_bit 8 value), ucast value]"

section \<open>Host names\<close>

definition ascii_alnum :: "byte \<Rightarrow> bool" where
  "ascii_alnum c \<longleftrightarrow> of_char CHR ''a'' \<le> c \<and> c \<le> of_char CHR ''z'' \<or> of_char CHR ''A'' \<le> c \<and> c \<le> of_char CHR ''Z'' \<or>
     of_char CHR ''0'' \<le> c \<and> c \<le> of_char CHR ''9''"

definition label_ok :: "bytes \<Rightarrow> bool" where
  "label_ok label =
     (if length label = 0 \<or> length label > 63 \<or> label ! 0 = of_char CHR ''-'' \<or>
         label ! (length label - 1) = of_char CHR ''-'' then False
      else list_all (\<lambda>c. ascii_alnum c \<or> c = of_char CHR ''-'') label)"

text \<open>The loop over a host name; the label that is being read is the accumulator.\<close>

fun labels_ok :: "bytes \<Rightarrow> bytes \<Rightarrow> bool" where
  "labels_ok [] label = label_ok label"
| "labels_ok (c # rest) label =
     (if c \<noteq> of_char CHR ''.'' then labels_ok rest (label @ [c]) else label_ok label \<and> labels_ok rest [])"

definition hostname_ok :: "bytes option \<Rightarrow> bool" where
  "hostname_ok hostname = (case hostname of None \<Rightarrow> False
     | Some h \<Rightarrow>
         if strlen h = 0 \<or> strlen h > dns_host_max \<or> cstr h ! (strlen h - 1) = of_char CHR ''.'' then False
         else labels_ok (cstr h) [])"

definition dns_lower :: "byte \<Rightarrow> byte" where
  "dns_lower c = (if of_char CHR ''A'' \<le> c \<and> c \<le> of_char CHR ''Z'' then c + 32 else c)"

fun name_equal :: "bytes \<Rightarrow> bytes \<Rightarrow> bool" where
  "name_equal (a # left) (b # right) = (dns_lower a = dns_lower b \<and> name_equal left right)"
| "name_equal [] [] = True"
| "name_equal _ _ = False"

section \<open>The query\<close>

text \<open>The loop over the labels; \<open>None\<close> where a label does not fit the packet.\<close>

function encode_labels :: "bytes \<Rightarrow> bytes \<Rightarrow> bytes option" where
  "encode_labels hostname query =
     (if hostname = [] then Some query
      else let label = takeWhile (\<lambda>c. c \<noteq> of_char CHR ''.'') hostname
      in if length query + 1 + length label \<ge> dns_packet_max then None
         else encode_labels (drop (length label + 1) hostname) (query @ [of_nat (length label)] @ label))"
  by pat_completeness auto
termination by (relation "measure (\<lambda>(h, q). length h)") auto

declare encode_labels.simps [simp del]

definition query_header :: "u16 \<Rightarrow> bytes" where
  "query_header id' = store_u16 id' @ store_u16 0x0100 @ store_u16 1 @ replicate 6 0"

text \<open>The part of \<open>build_query\<close> after the transaction id has been read.\<close>

definition query_packet :: "bytes \<Rightarrow> u16 \<Rightarrow> cn_dns_result + bytes" where
  "query_packet hostname id' = (case encode_labels hostname (query_header id') of
     None \<Rightarrow> Inl CN_DNS_INVALID_HOSTNAME
   | Some query \<Rightarrow> Inr (query @ [0] @ store_u16 1 @ store_u16 1))"

section \<open>Names\<close>

text \<open>The state of the loop: position, visited pointers, the name so far, its expanded length, the number
  of pointers, whether every label is one of a host name, and the offset after the name once a pointer
  has been followed.\<close>

function decode_loop :: "bytes \<Rightarrow> nat \<Rightarrow> nat set \<Rightarrow> bytes \<Rightarrow> nat \<Rightarrow> nat \<Rightarrow> bool \<Rightarrow> nat option \<Rightarrow> (bytes \<times> bool \<times> nat) option" where
  "decode_loop packet pos seen out expanded hops syntax next_offset =
     (if pos \<ge> length packet then None
      else let len = packet ! pos in
      if len AND 0xc0 = 0xc0 then
        (if pos + 1 \<ge> length packet \<or> hops \<ge> dns_pointer_hops_max then None
         else let pointer = unat (len AND 0x3f) * 256 + unat (packet ! (pos + 1)) in
           if pointer \<ge> length packet \<or> pointer \<in> seen then None
           else decode_loop packet pointer (insert pointer seen) out expanded (hops + 1) syntax
             (if next_offset = None then Some (pos + 2) else next_offset))
      else if len AND 0xc0 \<noteq> 0 then None
      else let pos = pos + 1; len = unat len in
      if len = 0 then
        Some (if syntax then out else [], syntax, case next_offset of None \<Rightarrow> pos | Some o' \<Rightarrow> o')
      else if len > 63 \<or> pos + len > length packet \<or> expanded > 255 - len - 1 then None
      else let label = take len (drop pos packet);
               broken = (syntax \<and> \<not> label_ok label);
               syntax = (syntax \<and> \<not> broken);
               out = (if broken then [] else out)
      in if \<not> syntax then decode_loop packet (pos + len) seen out (expanded + len + 1) hops syntax next_offset
         else if out \<noteq> [] \<and> length out \<ge> dns_host_max then None
         else let out = (if out \<noteq> [] then out @ str ''.'' else out)
         in if len > dns_host_max - length out then None
            else decode_loop packet (pos + len) seen (out @ label) (expanded + len + 1) hops syntax next_offset)"
  by pat_completeness auto
termination
  by (relation "measures [\<lambda>(p, pos, s, out, e, h, y, n). dns_pointer_hops_max - h, \<lambda>(p, pos, s, out, e, h, y, n). length p - pos]")
    (auto simp: Let_def)

declare decode_loop.simps [simp del]

definition decode_name :: "bytes \<Rightarrow> nat \<Rightarrow> (bytes \<times> bool \<times> nat) option" where
  "decode_name packet offset =
     (if offset \<ge> length packet then None else decode_loop packet offset {} [] 1 0 True None)"

section \<open>The response\<close>

definition dotted :: "bytes \<Rightarrow> bytes" where
  "dotted octets = decimal_text (unat (octets ! 0)) @ str ''.'' @ decimal_text (unat (octets ! 1)) @ str ''.'' @
     decimal_text (unat (octets ! 2)) @ str ''.'' @ decimal_text (unat (octets ! 3))"

definition answer_contains :: "cn_dns_answer \<Rightarrow> bytes \<Rightarrow> bool" where
  "answer_contains answer address \<longleftrightarrow> list_ex (\<lambda>a. a = address) (ipv4 answer)"

definition add_address :: "cn_dns_answer \<Rightarrow> bytes \<Rightarrow> cn_dns_answer" where
  "add_address answer address =
     (if \<not> answer_contains answer address \<and> length (ipv4 answer) < dns_max_ipv4
      then answer\<lparr>ipv4 := ipv4 answer @ [address]\<rparr> else answer)"

text \<open>One record: \<open>None\<close> where it is malformed, else the offset after it, the answer and whether an alias
  was seen.\<close>

definition parse_record :: "bytes \<Rightarrow> bytes \<Rightarrow> bool \<Rightarrow> nat \<times> cn_dns_answer \<times> bool \<Rightarrow> (nat \<times> cn_dns_answer \<times> bool) option" where
  "parse_record packet hostname in_answer state = (case state of (offset, answer, saw_cname) \<Rightarrow>
     case decode_name packet offset of None \<Rightarrow> None
     | Some (owner, owner_syntax, offset) \<Rightarrow>
       if offset + 10 > length packet then None
       else let type' = load_u16 packet offset; class' = load_u16 packet (offset + 2);
                data_length = unat (load_u16 packet (offset + 8)); data_offset = offset + 10
       in if data_offset + data_length > length packet then None
          else if type' = 1 \<and> class' = 1 \<and> data_length \<noteq> 4 then None
          else if in_answer \<and> type' = 1 \<and> class' = 1 \<and> owner_syntax \<and> name_equal owner hostname
          then Some (data_offset + data_length, add_address answer (dotted (take 4 (drop data_offset packet))), saw_cname)
          else if in_answer \<and> type' = 5 \<and> class' = 1 \<and> owner_syntax \<and> name_equal owner hostname
          then (case decode_name packet data_offset of None \<Rightarrow> None
              | Some (_, _, cname_end) \<Rightarrow>
                  if cname_end \<noteq> data_offset + data_length then None
                  else Some (data_offset + data_length, answer, True))
          else Some (data_offset + data_length, answer, saw_cname))"

text \<open>\<open>k\<close> records from the \<open>i\<close>-th on.\<close>

fun parse_records :: "bytes \<Rightarrow> bytes \<Rightarrow> nat \<Rightarrow> nat \<Rightarrow> nat \<Rightarrow> nat \<times> cn_dns_answer \<times> bool \<Rightarrow> (nat \<times> cn_dns_answer \<times> bool) option" where
  "parse_records packet hostname answer_count i 0 state = Some state"
| "parse_records packet hostname answer_count i (Suc k) state =
     (case parse_record packet hostname (i < answer_count) state of None \<Rightarrow> None
      | Some state \<Rightarrow> parse_records packet hostname answer_count (i + 1) k state)"

definition parse_question :: "bytes \<Rightarrow> bytes \<Rightarrow> nat option" where
  "parse_question packet hostname = (case decode_name packet dns_header_bytes of None \<Rightarrow> None
     | Some (decoded, decoded_syntax, offset) \<Rightarrow>
         if \<not> decoded_syntax \<or> \<not> name_equal decoded hostname \<or> offset + 4 > length packet \<or>
            load_u16 packet offset \<noteq> 1 \<or> load_u16 packet (offset + 2) \<noteq> 1 then None
         else Some (offset + 4))"

definition empty_answer :: cn_dns_answer where
  "empty_answer = \<lparr>ipv4 = [], server_index = 0\<rparr>"

definition response_verdict :: "u16 \<Rightarrow> cn_dns_answer \<Rightarrow> bool \<Rightarrow> cn_dns_result \<times> cn_dns_answer" where
  "response_verdict flags answer saw_cname =
     (let rcode = flags AND 0x000f; answer = (if rcode \<noteq> 0 then empty_answer else answer)
      in if rcode = 3 then (CN_DNS_NXDOMAIN, answer)
         else if rcode \<noteq> 0 then (CN_DNS_SERVER_FAILURE, answer)
         else if ipv4 answer \<noteq> [] then (CN_DNS_OK, answer)
         else (if saw_cname then CN_DNS_UNSUPPORTED_CNAME else CN_DNS_NO_ADDRESS, answer))"

text \<open>The answer of a response that is refused is not read by the caller; it is left as it was.\<close>

definition parse_response :: "bytes \<Rightarrow> u16 \<Rightarrow> bytes \<Rightarrow> cn_dns_answer \<Rightarrow> cn_dns_result \<times> cn_dns_answer" where
  "parse_response packet expected_id hostname answer =
     (if length packet < dns_header_bytes then (CN_DNS_MALFORMED_RESPONSE, answer)
      else if load_u16 packet 0 \<noteq> expected_id then (CN_DNS_TIMEOUT, answer)
      else let flags = load_u16 packet 2 in
      if flags AND 0x8000 = 0 \<or> flags AND 0x7800 \<noteq> 0 \<or> flags AND 0x0040 \<noteq> 0 then (CN_DNS_MALFORMED_RESPONSE, answer)
      else if load_u16 packet 4 \<noteq> 1 then (CN_DNS_MALFORMED_RESPONSE, answer)
      else if flags AND 0x0200 \<noteq> 0 then (CN_DNS_TRUNCATED_RESPONSE, answer)
      else case parse_question packet hostname of None \<Rightarrow> (CN_DNS_MALFORMED_RESPONSE, answer)
      | Some offset \<Rightarrow>
        let answer_count = unat (load_u16 packet 6);
            total_records = answer_count + unat (load_u16 packet 8) + unat (load_u16 packet 10)
        in if total_records > dns_records_max then (CN_DNS_MALFORMED_RESPONSE, answer)
           else (case parse_records packet hostname answer_count 0 total_records (offset, answer, False) of
              None \<Rightarrow> (CN_DNS_MALFORMED_RESPONSE, answer)
            | Some (offset, found, saw_cname) \<Rightarrow>
                if offset \<noteq> length packet then (CN_DNS_MALFORMED_RESPONSE, answer)
                else response_verdict flags found saw_cname))"

section \<open>Names as the message format defines them\<close>

text \<open>The name at an offset, independent of the reader: the labels up to the root, the number of
  compression pointers that lead to it, and the offset after the name in the place where it is read.\<close>

inductive wire_name :: "bytes \<Rightarrow> nat \<Rightarrow> nat \<Rightarrow> bytes list \<Rightarrow> nat \<Rightarrow> bool" for p where
  root: "pos < length p \<Longrightarrow> p ! pos = 0 \<Longrightarrow> wire_name p pos 0 [] (pos + 1)"
| label: "pos < length p \<Longrightarrow> p ! pos AND 0xc0 = 0 \<Longrightarrow> p ! pos \<noteq> 0 \<Longrightarrow> pos + 1 + unat (p ! pos) \<le> length p \<Longrightarrow>
    wire_name p (pos + 1 + unat (p ! pos)) h ls next' \<Longrightarrow>
    wire_name p pos h (take (unat (p ! pos)) (drop (pos + 1) p) # ls) next'"
| pointer: "pos + 1 < length p \<Longrightarrow> p ! pos AND 0xc0 = 0xc0 \<Longrightarrow>
    target = unat (p ! pos AND 0x3f) * 256 + unat (p ! (pos + 1)) \<Longrightarrow> target < length p \<Longrightarrow>
    wire_name p target h ls next' \<Longrightarrow> wire_name p pos (Suc h) ls (pos + 2)"

definition wire_length :: "bytes list \<Rightarrow> nat" where
  "wire_length ls = sum_list (map (\<lambda>l. length l + 1) ls)"

fun append_labels :: "bytes \<Rightarrow> bytes list \<Rightarrow> bytes" where
  "append_labels out [] = out"
| "append_labels out (l # ls) = append_labels (if out = [] then l else out @ of_char CHR ''.'' # l) ls"

lemma wire_length_simps [simp]: "wire_length [] = 0" "wire_length (l # ls) = length l + 1 + wire_length ls"
  by (simp_all add: wire_length_def)

lemma label_byte: "(c :: byte) AND 0xc0 = 0 \<Longrightarrow> unat c \<le> 63"
  using byte_and_high(1)[of c] by simp

lemma zero_not_pointer: "(0 :: byte) AND 0xc0 \<noteq> 0xc0"
  by simp

inductive_cases wire_nameE: "wire_name p pos h ls next'"

lemma wire_name_fun:
  "wire_name p pos h ls n \<Longrightarrow> wire_name p pos h' ls' n' \<Longrightarrow> h = h' \<and> ls = ls' \<and> n = n'"
proof (induction arbitrary: h' ls' n' rule: wire_name.induct)
  case (root pos)
  show ?case using root by (auto elim: wire_nameE)
next
  case (label pos h ls next')
  note IH = label.IH and H = label.hyps
  from label.prems show ?case
  proof (cases rule: wire_name.cases)
    case root
    then show ?thesis using H(3) by simp
  next
    case (label ls2)
    then show ?thesis using IH by blast
  next
    case (pointer t h2 next2)
    then show ?thesis using H(2) by simp
  qed
next
  case (pointer pos target h ls next')
  note IH = pointer.IH and H = pointer.hyps
  from pointer.prems show ?case
  proof (cases rule: wire_name.cases)
    case root
    then show ?thesis using H(2) zero_not_pointer by metis
  next
    case (label ls2)
    then show ?thesis using H(2) by simp
  next
    case (pointer t h2 next2)
    then show ?thesis using IH H(3) by blast
  qed
qed

lemma label_nonempty: "label_ok l \<Longrightarrow> l \<noteq> []"
  by (auto simp: label_ok_def)

text \<open>One step of the loop in each case.\<close>

lemma decode_root:
  "pos < length p \<Longrightarrow> p ! pos = 0 \<Longrightarrow> decode_loop p pos seen out e h y nx =
     Some (if y then out else [], y, case nx of None \<Rightarrow> pos + 1 | Some o' \<Rightarrow> o')"
  by (subst decode_loop.simps) (simp split: option.split)

lemma decode_pointer:
  "pos < length p \<Longrightarrow> p ! pos AND 0xc0 = 0xc0 \<Longrightarrow> target = unat (p ! pos AND 0x3f) * 256 + unat (p ! (pos + 1)) \<Longrightarrow>
   decode_loop p pos seen out e h y nx =
     (if pos + 1 \<ge> length p \<or> h \<ge> 16 \<or> target \<ge> length p \<or> target \<in> seen then None
      else decode_loop p target (insert target seen) out e (h + 1) y (if nx = None then Some (pos + 2) else nx))"
  by (subst decode_loop.simps) (simp add: Let_def dns_pointer_hops_max_def)

definition step_out :: "bool \<Rightarrow> bytes \<Rightarrow> bytes \<Rightarrow> bytes" where
  "step_out y out l = (if \<not> (y \<and> label_ok l) then (if y then [] else out) else if out = [] then l else out @ of_char CHR ''.'' # l)"

lemma decode_label:
  assumes "pos < length p" "p ! pos AND 0xc0 = 0" "p ! pos \<noteq> 0" "len = unat (p ! pos)" "l = take len (drop (pos + 1) p)"
  shows "decode_loop p pos seen out e h y nx =
     (if pos + 1 + len > length p \<or> e + len + 1 > 255 then None
      else if y \<and> label_ok l \<and> (out \<noteq> [] \<and> length out \<ge> 253 \<or> len > 253 - (if out = [] then 0 else length out + 1)) then None
      else decode_loop p (pos + 1 + len) seen (step_out y out l) (e + len + 1) h (y \<and> label_ok l) nx)"
proof -
  have b: "len \<le> 63" "len \<noteq> 0" using label_byte assms(2-4) by (auto simp: unat_eq_0)
  have e: "e > 255 - len - 1 \<longleftrightarrow> e + len + 1 > 255" using b by auto
  have c: "p ! pos AND 0xc0 \<noteq> 0xc0" using assms(2) by simp
  note S = decode_loop.simps[of p pos seen out e h y nx, unfolded Let_def, folded assms(4), folded assms(5)]
  show ?thesis unfolding S using assms(1-3) b e c
    by (cases "y \<and> label_ok l"; cases "out = []") (auto simp: step_out_def dns_host_max_def)
qed

lemma decode_other:
  "p ! pos AND 0xc0 \<noteq> 0xc0 \<Longrightarrow> p ! pos AND 0xc0 \<noteq> 0 \<Longrightarrow> decode_loop p pos seen out e h y nx = None"
  by (subst decode_loop.simps) simp

lemma decode_past: "\<not> pos < length p \<Longrightarrow> decode_loop p pos seen out e h y nx = None"
  by (subst decode_loop.simps) simp

lemma append_labels_step:
  "list_all label_ok ls \<Longrightarrow> label_ok l \<Longrightarrow> append_labels (step_out True out l) ls = append_labels out (l # ls)"
  by (simp add: step_out_def)

lemma decode_loop_sound:
  "decode_loop p pos seen out e h y nx = Some (o', y', n) \<Longrightarrow> h \<le> 16 \<Longrightarrow> e \<le> 255 \<Longrightarrow>
   \<exists>k ls n'. wire_name p pos k ls n' \<and> h + k \<le> 16 \<and> e + wire_length ls \<le> 255 \<and>
     y' = (y \<and> list_all label_ok ls) \<and> o' = (if y' then append_labels out ls else []) \<and>
     n = (case nx of None \<Rightarrow> n' | Some o' \<Rightarrow> o')"
proof (induction p pos seen out e h y nx rule: decode_loop.induct)
  case (1 p pos seen out e h y nx)
  note IH = "1.IH" and D = "1.prems"
  have pos: "pos < length p" using D(1) decode_past by (cases "pos < length p") auto
  show ?case
  proof (cases "p ! pos AND 0xc0 = 0xc0")
    case True
    define t where "t = unat (p ! pos AND 0x3f) * 256 + unat (p ! (pos + 1))"
    have c: "pos + 1 < length p" "h < 16" "t < length p" "t \<notin> seen"
      and r: "decode_loop p t (insert t seen) out e (h + 1) y (if nx = None then Some (pos + 2) else nx) = Some (o', y', n)"
      using D(1) decode_pointer[OF pos True t_def, of seen out e h y nx] by (auto split: if_splits)
    have "\<exists>k ls n'. wire_name p t k ls n' \<and> h + 1 + k \<le> 16 \<and> e + wire_length ls \<le> 255 \<and>
       y' = (y \<and> list_all label_ok ls) \<and> o' = (if y' then append_labels out ls else []) \<and>
       n = (case (if nx = None then Some (pos + 2) else nx) of None \<Rightarrow> n' | Some o' \<Rightarrow> o')"
      by (rule IH(1)[OF _ refl True _ t_def _ r]) (use c pos D(3) in \<open>auto simp: dns_pointer_hops_max_def\<close>)
    then obtain k ls n' where k: "wire_name p t k ls n'" "h + 1 + k \<le> 16" "e + wire_length ls \<le> 255"
       "y' = (y \<and> list_all label_ok ls)" "o' = (if y' then append_labels out ls else [])"
       "n = (case (if nx = None then Some (pos + 2) else nx) of None \<Rightarrow> n' | Some o' \<Rightarrow> o')" by blast
    have "wire_name p pos (Suc k) ls (pos + 2)" using wire_name.pointer[OF c(1) True t_def c(3) k(1)] .
    then show ?thesis using k by (intro exI[of _ "Suc k"] exI[of _ ls] exI[of _ "pos + 2"]) (auto split: option.split)
  next
    case no_pointer: False
    have z: "p ! pos AND 0xc0 = 0" using D(1) decode_other[OF no_pointer] by (cases "p ! pos AND 0xc0 = 0") auto
    show ?thesis
    proof (cases "p ! pos = 0")
      case True
      then show ?thesis using D decode_root[OF pos True, of seen out e h y nx] wire_name.root[OF pos True]
        by (intro exI[of _ 0] exI[of _ "[]"] exI[of _ "pos + 1"]) auto
    next
      case False
      define len where "len = unat (p ! pos)"
      define l where "l = take len (drop (pos + 1) p)"
      note S = decode_label[OF pos z False len_def l_def, of seen out e h y nx]
      have c: "pos + 1 + len \<le> length p" "e + len + 1 \<le> 255"
        and r: "decode_loop p (pos + 1 + len) seen (step_out y out l) (e + len + 1) h (y \<and> label_ok l) nx = Some (o', y', n)"
        and f: "\<not> (y \<and> label_ok l \<and> (out \<noteq> [] \<and> length out \<ge> 253 \<or> len > 253 - (if out = [] then 0 else length out + 1)))"
        using D(1) unfolding S by (auto split: if_splits)
      have b: "len \<noteq> 0" "len \<le> 63" using label_byte[OF z] False by (auto simp: len_def unat_eq_0)
      have ll: "length l = len" using c by (simp add: l_def)
      have "\<exists>k ls n'. wire_name p (pos + 1 + len) k ls n' \<and> h + k \<le> 16 \<and> e + len + 1 + wire_length ls \<le> 255 \<and>
         y' = ((y \<and> label_ok l) \<and> list_all label_ok ls) \<and> o' = (if y' then append_labels (step_out y out l) ls else []) \<and>
         n = (case nx of None \<Rightarrow> n' | Some o' \<Rightarrow> o')"
      proof -
        define bad where "bad = (y \<and> \<not> label_ok l)"
        define syn where "syn = (y \<and> \<not> bad)"
        define out1 where "out1 = (if bad then [] else out)"
        define out2 where "out2 = (if out1 \<noteq> [] then out1 @ str ''.'' else out1)"
        have g: "\<not> length p \<le> pos" "\<not> p ! pos AND 192 \<noteq> 0" "\<not> (63 < len \<or> length p < pos + 1 + len \<or> 255 - len - 1 < e)"
          "e + len + 1 \<le> 255" using pos z b c by auto
        have q: "syn = (y \<and> label_ok l)" by (auto simp: syn_def bad_def)
        show ?thesis
        proof (cases syn)
          case True
          then have t: "out2 @ l = step_out y out l" "\<not> (out1 \<noteq> [] \<and> dns_host_max \<le> length out1)" "\<not> dns_host_max - length out2 < len"
            using q f by (auto simp: out1_def out2_def bad_def step_out_def dns_host_max_def)
          have r': "decode_loop p (pos + 1 + len) seen (out2 @ l) (e + len + 1) h syn nx = Some (o', y', n)" using r t q by simp
          show ?thesis
            using IH(3)[OF g(1) refl no_pointer g(2) refl len_def b(1) g(3) l_def bad_def syn_def out1_def _ t(2) out2_def t(3) r' D(2) g(4)] True
            unfolding q t(1) by simp
        next
          case False
          then have t: "out1 = step_out y out l" using q by (auto simp: out1_def bad_def step_out_def)
          have r': "decode_loop p (pos + 1 + len) seen out1 (e + len + 1) h syn nx = Some (o', y', n)" using r t q by simp
          show ?thesis
            using IH(2)[OF g(1) refl no_pointer g(2) refl len_def b(1) g(3) l_def bad_def syn_def out1_def False r' D(2) g(4)]
            unfolding q t .
        qed
      qed
      then obtain k ls n' where k: "wire_name p (pos + 1 + len) k ls n'" "h + k \<le> 16" "e + len + 1 + wire_length ls \<le> 255"
         "y' = ((y \<and> label_ok l) \<and> list_all label_ok ls)" "o' = (if y' then append_labels (step_out y out l) ls else [])"
         "n = (case nx of None \<Rightarrow> n' | Some o' \<Rightarrow> o')" by blast
      have "wire_name p pos k (l # ls) n'" using wire_name.label[OF pos z False] c k(1) by (simp add: len_def l_def)
      then show ?thesis using k ll by (intro exI[of _ k] exI[of _ "l # ls"] exI[of _ n']) (auto simp: step_out_def)
    qed
  qed
qed

lemma decode_loop_complete:
  "wire_name p pos k ls n' \<Longrightarrow> h + k \<le> 16 \<Longrightarrow> e + wire_length ls \<le> 255 \<Longrightarrow>
   (\<And>q k' ls' n''. q \<in> seen \<Longrightarrow> wire_name p q k' ls' n'' \<Longrightarrow> k \<le> k') \<Longrightarrow>
   y \<longrightarrow> length out + (if out = [] then 1 else 2) \<le> e \<Longrightarrow>
   decode_loop p pos seen out e h y nx =
     Some (if y \<and> list_all label_ok ls then append_labels out ls else [], y \<and> list_all label_ok ls,
       case nx of None \<Rightarrow> n' | Some o' \<Rightarrow> o')"
proof (induction arbitrary: seen out e h y nx rule: wire_name.induct)
  case (root pos)
  then show ?case by (simp add: decode_root)
next
  case (label pos k ls n')
  define len where "len = unat (p ! pos)"
  define l where "l = take len (drop (pos + 1) p)"
  note S = decode_label[OF label.hyps(1-3) len_def l_def, of seen out e h y nx]
  have ll: "length l = len" using label.hyps(4) by (simp add: l_def len_def)
  have b: "len \<noteq> 0" using label.hyps(3) by (auto simp: len_def unat_eq_0)
  have fits: "\<not> (pos + 1 + len > length p \<or> e + len + 1 > 255)"
    using label.hyps(4) label.prems(2) ll by (simp add: len_def l_def)
  have room: "\<not> (y \<and> label_ok l \<and> (out \<noteq> [] \<and> length out \<ge> 253 \<or> len > 253 - (if out = [] then 0 else length out + 1)))"
    using label.prems(4) fits b by (auto split: if_splits)
  have "decode_loop p (pos + 1 + len) seen (step_out y out l) (e + len + 1) h (y \<and> label_ok l) nx =
      Some (if (y \<and> label_ok l) \<and> list_all label_ok ls then append_labels (step_out y out l) ls else [],
        (y \<and> label_ok l) \<and> list_all label_ok ls, case nx of None \<Rightarrow> n' | Some o' \<Rightarrow> o')"
    unfolding len_def
  proof (rule label.IH)
    show "h + k \<le> 16" using label.prems(1) .
    show "e + unat (p ! pos) + 1 + wire_length ls \<le> 255" using label.prems(2) ll by (simp add: len_def l_def)
    show "\<And>q k' ls' n''. q \<in> seen \<Longrightarrow> wire_name p q k' ls' n'' \<Longrightarrow> k \<le> k'" using label.prems(3) .
    show "y \<and> label_ok l \<longrightarrow> length (step_out y out l) + (if step_out y out l = [] then 1 else 2) \<le> e + unat (p ! pos) + 1"
      using label.prems(4) ll b by (auto simp: step_out_def len_def)
  qed
  moreover have g: "take (unat (p ! pos)) (drop (pos + 1) p) = l" by (simp add: l_def len_def)
  ultimately show ?case unfolding S g if_not_P[OF fits] if_not_P[OF room]
    by (cases "y \<and> label_ok l") (auto simp: step_out_def)
next
  case (pointer pos t k ls n')
  note S = decode_pointer[OF _ pointer.hyps(2,3), of seen out e h y nx]
  have new: "t \<notin> seen" using pointer.prems(3) pointer.hyps(5) by fastforce
  have "decode_loop p t (insert t seen) out e (h + 1) y (if nx = None then Some (pos + 2) else nx) =
      Some (if y \<and> list_all label_ok ls then append_labels out ls else [], y \<and> list_all label_ok ls,
        case (if nx = None then Some (pos + 2) else nx) of None \<Rightarrow> n' | Some o' \<Rightarrow> o')"
  proof (rule pointer.IH)
    show "h + 1 + k \<le> 16" using pointer.prems(1) by simp
    show "\<And>q k' ls' n''. q \<in> insert t seen \<Longrightarrow> wire_name p q k' ls' n'' \<Longrightarrow> k \<le> k'"
      using pointer.prems(3) wire_name_fun[OF pointer.hyps(5)] by fastforce
  qed (use pointer.prems in auto)
  then show ?case using S new pointer.hyps(1,4) pointer.prems(1) by (auto split: option.split)
qed

section \<open>Reading back what was written\<close>

fun dotted_labels :: "bytes list \<Rightarrow> bytes" where
  "dotted_labels [] = []"
| "dotted_labels [l] = l"
| "dotted_labels (l # ls) = l @ of_char CHR ''.'' # dotted_labels ls"

definition wire_labels :: "bytes list \<Rightarrow> bytes" where
  "wire_labels ls = concat (map (\<lambda>l. of_nat (length l) # l) ls)"

lemma wire_labels_simps [simp]: "wire_labels [] = []" "wire_labels (l # ls) = of_nat (length l) # l @ wire_labels ls"
  by (simp_all add: wire_labels_def)

lemma dotted_labels_Cons: "dotted_labels (l # ls) = (if ls = [] then l else l @ of_char CHR ''.'' # dotted_labels ls)"
  by (cases ls) simp_all

lemma append_labels_dotted:
  "list_all label_ok ls \<Longrightarrow>
     append_labels out ls = (if ls = [] then out else if out = [] then dotted_labels ls else out @ of_char CHR ''.'' # dotted_labels ls)"
  by (induction out ls rule: append_labels.induct) (auto simp: dotted_labels_Cons dest: label_nonempty)

lemma dotted_length: "ls \<noteq> [] \<Longrightarrow> length (dotted_labels ls) + 1 = wire_length ls"
  by (induction ls rule: dotted_labels.induct) auto

lemma wire_labels_length: "length (wire_labels ls) = wire_length ls"
  by (induction ls) simp_all

lemma label_no_dot: "label_ok l \<Longrightarrow> c \<in> set l \<Longrightarrow> c \<noteq> of_char CHR ''.''"
  by (auto simp: label_ok_def ascii_alnum_def list_all_iff split: if_splits)

lemma labels_ok_split: "labels_ok h acc \<Longrightarrow> \<exists>ls. ls \<noteq> [] \<and> list_all label_ok ls \<and> acc @ h = dotted_labels ls"
proof (induction h acc rule: labels_ok.induct)
  case (1 acc)
  then show ?case by (intro exI[of _ "[acc]"]) simp
next
  case (2 c rest acc)
  show ?case
  proof (cases "c = of_char CHR ''.''")
    case True
    then obtain ls where "ls \<noteq> []" "list_all label_ok ls" "rest = dotted_labels ls" using 2 by auto
    then show ?thesis using True "2.prems" by (intro exI[of _ "acc # ls"]) (simp add: dotted_labels_Cons)
  qed (use 2 in auto)
qed

lemma encode_labels_dotted:
  "ls \<noteq> [] \<Longrightarrow> list_all label_ok ls \<Longrightarrow> length q + wire_length ls < 512 \<Longrightarrow>
     encode_labels (dotted_labels ls) q = Some (q @ wire_labels ls)"
proof (induction ls arbitrary: q)
  case (Cons l ls)
  have l: "l \<noteq> []" "\<And>c. c \<in> set l \<Longrightarrow> c \<noteq> of_char CHR ''.''" using Cons.prems(2) label_nonempty label_no_dot by auto
  have w: "takeWhile (\<lambda>c. c \<noteq> of_char CHR ''.'') (dotted_labels (l # ls)) = l"
    using l(2) by (auto simp: dotted_labels_Cons takeWhile_eq_all_conv)
  have d: "drop (length l + 1) (dotted_labels (l # ls)) = dotted_labels ls" by (simp add: dotted_labels_Cons)
  have n: "dotted_labels (l # ls) \<noteq> []" using l(1) by (simp add: dotted_labels_Cons)
  have "encode_labels (dotted_labels ls) (q @ [of_nat (length l)] @ l) = Some (q @ wire_labels (l # ls))"
  proof (cases "ls = []")
    case True
    then show ?thesis by (subst encode_labels.simps) simp
  next
    case False
    then show ?thesis using Cons.IH[of "q @ [of_nat (length l)] @ l"] Cons.prems by simp
  qed
  moreover have "\<not> length q + 1 + length l \<ge> dns_packet_max" using Cons.prems(3) by (simp add: dns_packet_max_def)
  ultimately show ?case by (subst encode_labels.simps) (simp only: Let_def w d n if_False)
qed simp

lemma label_length_byte:
  assumes "label_ok l"
  shows "unat (of_nat (length l) :: byte) = length l" "(of_nat (length l) :: byte) AND 0xc0 = 0" "(of_nat (length l) :: byte) \<noteq> 0"
proof -
  have b: "0 < length l" "length l \<le> 63" using assms by (auto simp: label_ok_def split: if_splits)
  show u: "unat (of_nat (length l) :: byte) = length l"
    using b by (simp add: unat_of_nat take_bit_nat_eq_self)
  show "(of_nat (length l) :: byte) AND 0xc0 = 0"
    using byte_and_high(1)[of "of_nat (length l)"] u b by (simp add: unat_eq_0 [symmetric])
  show "(of_nat (length l) :: byte) \<noteq> 0" using u b by (metis unat_0 less_irrefl)
qed

lemma wire_name_labels:
  "list_all label_ok ls \<Longrightarrow> drop pos p = wire_labels ls @ 0 # rest \<Longrightarrow> wire_name p pos 0 ls (pos + wire_length ls + 1)"
proof (induction ls arbitrary: pos)
  case Nil
  then have "pos < length p" "p ! pos = 0" by (cases "pos < length p"; simp add: Cons_nth_drop_Suc[symmetric])+
  then show ?case using wire_name.root by simp
next
  case (Cons l ls)
  note B = label_length_byte[of l]
  have l: "label_ok l" using Cons.prems by simp
  have pos: "pos < length p" using Cons.prems(2) by (cases "pos < length p") simp_all
  have h: "p ! pos = of_nat (length l)" and t: "drop (pos + 1) p = l @ wire_labels ls @ 0 # rest"
    using Cons.prems(2) pos by (simp_all add: Cons_nth_drop_Suc[symmetric])
  have "drop (length l) (drop (pos + 1) p) = wire_labels ls @ 0 # rest" unfolding t by simp
  then have d: "drop (pos + 1 + length l) p = wire_labels ls @ 0 # rest" by (simp add: add.commute)
  have le: "pos + 1 + length l \<le> length p" using d by (cases "pos + 1 + length l \<le> length p") simp_all
  have "wire_name p (pos + 1 + length l) 0 ls (pos + 1 + length l + wire_length ls + 1)"
    using Cons.IH[OF _ d] Cons.prems(1) by simp
  then have "wire_name p pos 0 (take (length l) (drop (pos + 1) p) # ls) (pos + 1 + length l + wire_length ls + 1)"
    using wire_name.label[OF pos, of 0 ls] B[OF l] le h by simp
  then show ?case unfolding t by (simp add: add.assoc)
qed

lemma name_equal_iff: "name_equal a b \<longleftrightarrow> map dns_lower a = map dns_lower b"
  by (induction a b rule: name_equal.induct) auto

lemma load_store_u16: "i + 1 < length p \<Longrightarrow> take 2 (drop i p) = store_u16 v \<Longrightarrow> load_u16 p i = v"
proof -
  assume a: "i + 1 < length p" "take 2 (drop i p) = store_u16 v"
  have "take 2 (drop i p) = [p ! i, p ! (i + 1)]"
    using a(1) by (simp add: Cons_nth_drop_Suc[symmetric] numeral_2_eq_2)
  then have "load_u16 p i = push_bit 8 (ucast (ucast (drop_bit 8 v) :: byte)) OR ucast (ucast v :: byte)"
    using a(2) by (simp add: load_u16_def store_u16_def)
  also have "\<dots> = v" by (rule bit_word_eqI) (auto simp: bit_simps)
  finally show ?thesis .
qed

lemma decode_name_exact:
  "decode_name p off = Some (o', y, n) \<longleftrightarrow>
     (\<exists>k ls. wire_name p off k ls n \<and> k \<le> 16 \<and> wire_length ls \<le> 254 \<and> y = list_all label_ok ls \<and>
        o' = (if y then dotted_labels ls else []))"
    (is "_ \<longleftrightarrow> ?R")
proof
  assume d: "decode_name p off = Some (o', y, n)"
  then have "decode_loop p off {} [] 1 0 True None = Some (o', y, n)" by (auto simp: decode_name_def split: if_splits)
  from decode_loop_sound[OF this] obtain k ls where "wire_name p off k ls n" "k \<le> 16" "1 + wire_length ls \<le> 255"
    "y = list_all label_ok ls" "o' = (if y then append_labels [] ls else [])" by auto
  then show ?R by (intro exI[of _ k] exI[of _ ls]) (auto simp: append_labels_dotted)
next
  assume ?R
  then obtain k ls where k: "wire_name p off k ls n" "k \<le> 16" "wire_length ls \<le> 254" "y = list_all label_ok ls"
    "o' = (if y then dotted_labels ls else [])" by blast
  have "off < length p" using k(1) by (cases rule: wire_name.cases) auto
  then show "decode_name p off = Some (o', y, n)"
    using decode_loop_complete[OF k(1), of 0 1 "{}" True "[]" None] k by (auto simp: decode_name_def append_labels_dotted)
qed

section \<open>Properties\<close>

lemma hostname_labels:
  assumes "hostname_ok (Some h)"
  obtains ls where "ls \<noteq> []" "list_all label_ok ls" "cstr h = dotted_labels ls" "wire_length ls = strlen h + 1" "strlen h \<le> 253"
proof -
  have "labels_ok (cstr h) []" "strlen h \<le> 253" using assms by (auto simp: hostname_ok_def dns_host_max_def split: if_splits)
  moreover from this obtain ls where "ls \<noteq> []" "list_all label_ok ls" "cstr h = dotted_labels ls" using labels_ok_split[of "cstr h" "[]"] by auto
  ultimately show ?thesis using that dotted_length[of ls] by (simp add: strlen_def)
qed

text \<open>C26. Compressed names are read exactly: a name is accepted iff the bytes at the offset spell it in the
  message format with at most 16 pointers and 255 bytes, however the pointers are laid out (cycles and
  pointers past the end included); the text and the offset after the name are those of the format.\<close>

theorem dns_name_decoding_exact:
  "decode_name packet offset = Some (name, syntax, next_offset) \<longleftrightarrow>
     (\<exists>hops ls. wire_name packet offset hops ls next_offset \<and> hops \<le> 16 \<and> wire_length ls + 1 \<le> 255 \<and>
        syntax = list_all label_ok ls \<and> name = (if syntax then dotted_labels ls else []))"
  by (simp add: decode_name_exact)

text \<open>C27. The query for a valid host name always fits its packet, carries the transaction id, and reads back
  as the question for that name: the check of a response accepts it as the question that was asked.\<close>

theorem dns_query_reads_back:
  assumes "hostname_ok (Some h)"
  shows "\<exists>query. query_packet (cstr h) id' = Inr query \<and> length query = strlen h + 18 \<and> load_u16 query 0 = id' \<and>
    decode_name query dns_header_bytes = Some (cstr h, True, strlen h + 14) \<and>
    parse_question query (cstr h) = Some (length query)"
proof -
  obtain ls where ls: "ls \<noteq> []" "list_all label_ok ls" "cstr h = dotted_labels ls" "wire_length ls = strlen h + 1" "strlen h \<le> 253"
    using hostname_labels[OF assms] .
  have hd: "length (query_header id') = 12" by (simp add: query_header_def store_u16_def)
  define q where "q = query_header id' @ wire_labels ls @ [0] @ store_u16 1 @ store_u16 1"
  have e: "query_packet (cstr h) id' = Inr q"
    using encode_labels_dotted[OF ls(1,2), of "query_header id'"] ls(4,5) hd by (simp add: query_packet_def q_def ls(3))
  have l: "length q = strlen h + 18" using hd ls(4) by (simp add: q_def wire_labels_length store_u16_def)
  have i: "load_u16 q 0 = id'" by (rule load_store_u16) (simp_all add: q_def query_header_def store_u16_def)
  have "drop 12 q = wire_labels ls @ 0 # store_u16 1 @ store_u16 1" using hd by (simp add: q_def)
  from wire_name_labels[OF ls(2) this] have w: "wire_name q 12 0 ls (strlen h + 14)" using ls(4) by (simp add: add.commute)
  have d: "decode_name q 12 = Some (cstr h, True, strlen h + 14)"
    unfolding decode_name_exact using w ls by (intro exI[of _ 0] exI[of _ ls]) simp
  have n: "drop (strlen h + 14) q = store_u16 1 @ store_u16 1"
    using hd ls(4) by (simp add: q_def wire_labels_length)
  have t: "load_u16 q (strlen h + 14) = 1" using n l by (intro load_store_u16) (simp_all add: store_u16_def)
  have "drop (strlen h + 16) q = drop 2 (drop (strlen h + 14) q)" by (simp add: add.commute)
  also have "\<dots> = store_u16 1" unfolding n by (simp add: store_u16_def)
  finally have c: "load_u16 q (strlen h + 16) = 1" using l by (intro load_store_u16) (simp_all add: store_u16_def)
  have "parse_question q (cstr h) = Some (length q)"
    using d t c l by (simp add: parse_question_def dns_header_bytes_def name_equal_iff add.commute)
  then show ?thesis using e l i d by (simp add: dns_header_bytes_def)
qed

lemma dns_query_reads_back_witness:
  "hostname_ok (Some (str ''k.io'')) \<and> (\<exists>query. query_packet (str ''k.io'') 7 = Inr query \<and> length query = 22 \<and>
     parse_question query (str ''k.io'') = Some 22)"
proof -
  have h: "hostname_ok (Some (str ''k.io''))" by (simp add: hostname_ok_def label_ok_def ascii_alnum_def dns_host_max_def)
  show ?thesis using h dns_query_reads_back[OF h, of 7] by auto
qed

text \<open>What makes a text an address of a response: an A record of class IN whose owner is the name that was
  asked for, up to the case of letters, holds its four bytes.\<close>

definition address_record :: "bytes \<Rightarrow> bytes \<Rightarrow> bytes \<Rightarrow> bool" where
  "address_record packet hostname address \<longleftrightarrow>
     (\<exists>offset owner n. decode_name packet offset = Some (owner, True, n) \<and> map dns_lower owner = map dns_lower hostname \<and>
        load_u16 packet n = 1 \<and> load_u16 packet (n + 2) = 1 \<and> load_u16 packet (n + 8) = 4 \<and> n + 14 \<le> length packet \<and>
        address = dotted (take 4 (drop (n + 10) packet)))"

definition answer_ok :: "bytes \<Rightarrow> bytes \<Rightarrow> cn_dns_answer \<Rightarrow> bool" where
  "answer_ok packet hostname answer \<longleftrightarrow> length (ipv4 answer) \<le> 4 \<and> distinct (ipv4 answer) \<and>
     (\<forall>a \<in> set (ipv4 answer). address_record packet hostname a)"

lemma add_address_ok:
  "answer_ok p h answer \<Longrightarrow> address_record p h a \<Longrightarrow> answer_ok p h (add_address answer a)"
  by (auto simp: answer_ok_def add_address_def answer_contains_def list_ex_iff dns_max_ipv4_def)

lemma parse_record_ok:
  assumes "parse_record p h i (offset, answer, c) = Some (offset', answer', c')" "answer_ok p h answer"
  shows "answer_ok p h answer'"
proof -
  have four: "unat v = 4 \<Longrightarrow> v = (4 :: u16)" for v by (simp add: word_unat_eq_iff)
  obtain owner y n where d: "decode_name p offset = Some (owner, y, n)"
    using assms(1) by (auto simp: parse_record_def split: option.splits)
  have "address_record p h (dotted (take 4 (drop (n + 10) p)))"
    if "y" "name_equal owner h" "load_u16 p n = 1" "load_u16 p (n + 2) = 1" "unat (load_u16 p (n + 8)) = 4" "n + 14 \<le> length p"
    unfolding address_record_def using d that four by (intro exI[of _ offset] exI[of _ owner] exI[of _ n]) (simp add: name_equal_iff)
  then show ?thesis using assms add_address_ok
    by (auto simp: parse_record_def d Let_def split: if_splits option.splits)
qed

lemma parse_records_ok:
  "parse_records p h count i k st = Some (offset', answer', c') \<Longrightarrow> answer_ok p h (fst (snd st)) \<Longrightarrow> answer_ok p h answer'"
proof (induction p h count i k st rule: parse_records.induct)
  case (2 p h count i k st)
  obtain a b c where st: "st = (a, b, c)" by (cases st)
  from "2.prems"(1) obtain st' where s: "parse_record p h (i < count) st = Some st'" "parse_records p h count (i + 1) k st' = Some (offset', answer', c')"
    by (auto split: option.splits)
  obtain a' b' c2 where st': "st' = (a', b', c2)" by (cases st')
  have "answer_ok p h b'" using parse_record_ok s(1) "2.prems"(2) by (auto simp: st st')
  then show ?case using "2.IH"[OF s(1) s(2)] by (simp add: st')
qed simp

lemma empty_answer_ok: "answer_ok p h empty_answer"
  by (simp add: answer_ok_def empty_answer_def)

lemma parse_response_OK:
  assumes "parse_response p i h empty_answer = (CN_DNS_OK, answer)"
  shows "load_u16 p 0 = i \<and> load_u16 p 2 AND 0x8000 \<noteq> 0 \<and> ipv4 answer \<noteq> [] \<and> answer_ok p h answer"
  using assms parse_records_ok[OF _ , of p h _ 0 _ "(_, empty_answer, False)"] empty_answer_ok
  by (auto simp: parse_response_def response_verdict_def Let_def split: if_splits option.splits)

text \<open>An address that was written reads back with the parser of numeric addresses.\<close>

lemma decimal_digit_byte:
  assumes "d < 10"
  shows "decimal_byte (word_of_nat (48 + d))" "decimal_value (word_of_nat (48 + d)) = d"
proof -
  have u: "unat (word_of_nat (48 + d) :: byte) = 48 + d"
    using assms unat_of_nat[of "48 + d", where ?'a = 8] by (simp add: take_bit_nat_eq_self)
  show "decimal_byte (word_of_nat (48 + d))"
    using u assms by (simp add: decimal_byte_def word_le_nat_alt)
  show "decimal_value (word_of_nat (48 + d)) = d" using u by (simp add: decimal_value_def)
qed

lemma ipv4_loop_number:
  "n \<le> 255 \<Longrightarrow> ipv4_loop (decimal_text n @ rest) octets 0 started = ipv4_loop rest octets n True"
proof (induction n arbitrary: rest rule: decimal_text.induct)
  case (1 n)
  show ?case
  proof (cases "n < 10")
    case True
    then show ?thesis using decimal_digit_byte[OF True] by (subst decimal_text.simps) simp
  next
    case False
    have d: "n mod 10 < 10" by simp
    have "n div 10 * 10 + n mod 10 = n" "n div 10 \<le> 255" using "1.prems" by simp_all
    then show ?thesis using False decimal_digit_byte[OF d] "1.IH"[OF False] "1.prems"
      by (subst decimal_text.simps) simp
  qed
qed

lemma decimal_text_terminated [simp]: "terminated (decimal_text n)"
  using decimal_text_digits[of n] by (auto simp: terminated_def list_all_iff decimal_byte_def)

lemma dotted_parses:
  "length octets = 4 \<Longrightarrow> cn_netsimple_parse_ipv4 (Some (dotted octets)) = Some (map unat octets) \<and> terminated (dotted octets)"
proof -
  assume "length octets = 4"
  then obtain a b c d where o': "octets = [a, b, c, d]" by (auto simp: numeral_eq_Suc length_Suc_conv)
  have u: "unat x \<le> 255" for x :: byte using byte_less[of x] by linarith
  have t: "terminated (dotted octets)" by (simp add: dotted_def o')
  have dot: "\<not> decimal_byte (of_char CHR ''.'')" by (simp add: decimal_byte_def)
  show ?thesis using t u dot ipv4_loop_number[OF u, of d "[]"]
    by (simp add: cn_netsimple_parse_ipv4_def dotted_def o' ipv4_loop_number)
qed

end
