(* ===== verification/Datagrams.thy ===== *)
theory Datagrams
  imports Sockets Netsimple
begin

text \<open>
  What src/net/dnssimple.c and src/time/timesimple.c share: the monotonic clock in nanoseconds, the time that
  is left until a deadline, numeric addresses, and the relation that says of a piece of their runs that
  it sends nothing and only uses replies of the script.
\<close>

definition monotonic_ns :: "network \<Rightarrow> int option \<times> network" where
  "monotonic_ns n = sys_clock n"

text \<open>-2 without a clock, -1 once the deadline has passed.\<close>

definition poll_timeout_ms :: "int \<Rightarrow> network \<Rightarrow> int \<times> network" where
  "poll_timeout_ms deadline_ns n = (case monotonic_ns n of
     (None, n) \<Rightarrow> (- 2, n)
   | (Some now, n) \<Rightarrow>
       let remaining = deadline_ns - now; milliseconds = (remaining + 999999) div 1000000
       in (if remaining \<le> 0 then - 1 else if milliseconds > int_max then int_max else milliseconds, n))"

datatype readiness = Wait_error | Wait_timeout | Wait_ready

section \<open>Numeric addresses\<close>

text \<open>The C library's \<open>inet_pton\<close> for \<open>AF_INET\<close>: four numbers of one to three digits without a leading
  zero, each at most 255.\<close>

fun dot_parts :: "bytes \<Rightarrow> bytes \<Rightarrow> bytes list" where
  "dot_parts [] part = [part]"
| "dot_parts (c # rest) part = (if c = of_char CHR ''.'' then part # dot_parts rest [] else dot_parts rest (part @ [c]))"

definition pton_octet :: "bytes \<Rightarrow> byte option" where
  "pton_octet part =
     (if part = [] \<or> length part > 3 \<or> \<not> list_all decimal_byte part \<or> length part > 1 \<and> hd part = of_char CHR ''0'' then None
      else let v = foldl (\<lambda>v c. v * 10 + decimal_value c) 0 part in if v > 255 then None else Some (of_nat v))"

definition inet_pton :: "bytes option \<Rightarrow> bytes option" where
  "inet_pton text' = (case text' of None \<Rightarrow> None
     | Some t \<Rightarrow> let parts = dot_parts (cstr t) [] in if length parts \<noteq> 4 then None else those (map pton_octet parts))"

section \<open>Steps that send nothing\<close>

definition listens :: "network \<Rightarrow> network \<Rightarrow> bool" where
  "listens n n' \<longleftrightarrow> silent n n' \<and> set (script n') \<subseteq> set (script n)"

lemma listens_refl [simp]: "listens n n"
  by (simp add: listens_def)

lemma listens_trans [trans]: "listens a b \<Longrightarrow> listens b c \<Longrightarrow> listens a c"
  by (auto simp: listens_def silent_def)

lemma spend_replies: "set (script (spend n)) \<subseteq> set (script n)"
  by (auto simp: spend_def dest: list.set_sel(2)[rotated] split: list.splits) (metis list.sel(2) list.set_sel(2))

lemma listens_spend [simp]: "listens n (spend n)"
  using spend_replies by (simp add: listens_def)

lemma listens_snd:
  "listens n (snd (sys_clock n))" "listens n (snd (sys_poll n))" "listens n (snd (sys_fcntl n))" "listens n (snd (sys_recvfrom k n))"
  "listens n (snd (sys_read_random k n))" "listens n (snd (poll_timeout_ms d n))"
  by (simp_all add: sys_clock_def sys_poll_def sys_fcntl_def sys_recvfrom_def sys_read_random_def sys_recv_def poll_timeout_ms_def
      monotonic_ns_def Let_def split: option.split)

lemma listens_call:
  "sys_clock n = (r1, n') \<Longrightarrow> listens n n'" "sys_poll n = (r2, n') \<Longrightarrow> listens n n'" "sys_fcntl n = (r3, n') \<Longrightarrow> listens n n'"
  "sys_recvfrom k n = (r4, n') \<Longrightarrow> listens n n'" "sys_read_random k n = (r5, n') \<Longrightarrow> listens n n'" "poll_timeout_ms d n = (r6, n') \<Longrightarrow> listens n n'"
  using listens_snd[of n] by (metis snd_conv)+

lemma poll_timeout_script: "poll_timeout_ms d n = (i, n') \<Longrightarrow> length (script n') \<le> length (script n)"
  by (auto simp: poll_timeout_ms_def monotonic_ns_def sys_clock_def Let_def script_spend split: option.splits if_splits)

lemma clock_script: "sys_clock n = (i, n') \<Longrightarrow> length (script n') \<le> length (script n)"
  by (auto simp: sys_clock_def script_spend split: if_splits)

lemma poll_ready_spends: "sys_poll n = (Poll_events r, n') \<Longrightarrow> length (script n') < length (script n)"
  by (cases "script n") (auto simp: sys_poll_def next_reply_def last_reply_def spend_def split: option.splits if_splits)

lemma sendto_error_spends: "sys_sendto d a n = (Inl e, n') \<Longrightarrow> length (script n') < length (script n)"
  by (auto simp: sys_sendto_def Let_def dest: spend_error split: option.splits)

lemma recvfrom_error_spends: "sys_recvfrom k n = (Inl e, n') \<Longrightarrow> length (script n') < length (script n)"
  by (auto simp: sys_recvfrom_def dest: spend_error split: option.splits)

lemma recvfrom_script: "sys_recvfrom k n = (r, n') \<Longrightarrow> length (script n') \<le> length (script n)"
  by (auto simp: sys_recvfrom_def script_spend)

text \<open>A datagram with a sender is one of the replies.\<close>

lemma recvfrom_reply:
  "sys_recvfrom k n = (Inr (data, Some peer), n') \<Longrightarrow> \<exists>r \<in> set (script n). r_peer r = Some peer \<and> data = take k (r_data r)"
  by (cases "script n") (auto simp: sys_recvfrom_def next_reply_def last_reply_def split: option.splits)

lemma sendto_listens: "sys_sendto data a n = (Inl e, n') \<Longrightarrow> listens n n'"
  by (auto simp: sys_sendto_def Let_def split: option.splits)

lemma sendto_sends: "sys_sendto data a n = (Inr k, n') \<Longrightarrow>
    listens (n\<lparr>datagrams := datagrams n @ [(a, take k data)]\<rparr>) n' \<and> k \<le> length data"
  using spend_replies[of n]
  by (auto simp: sys_sendto_def Let_def listens_def silent_def spend_def split: option.splits)

section \<open>What a datagram exchange does to the world\<close>

text \<open>\<open>posts n ds n'\<close>: nothing but the datagrams \<open>ds\<close> left the machine, and no descriptor or clock changed.
  \<open>returns n ds n'\<close> says the same of a piece that opens descriptors and closes them.\<close>

definition posts :: "network \<Rightarrow> ((bytes \<times> nat) \<times> bytes) list \<Rightarrow> network \<Rightarrow> bool" where
  "posts n ds n' \<longleftrightarrow> listens (n\<lparr>datagrams := datagrams n @ ds\<rparr>) n'"

definition returns :: "network \<Rightarrow> ((bytes \<times> nat) \<times> bytes) list \<Rightarrow> network \<Rightarrow> bool" where
  "returns n ds n' \<longleftrightarrow> sockets n' = sockets n \<and> next_socket n \<le> next_socket n' \<and> outgoing n' = outgoing n \<and>
     wall_clock n' = wall_clock n \<and> datagrams n' = datagrams n @ ds \<and> set (script n') \<subseteq> set (script n)"

lemma posts_none [simp]: "posts n [] n' = listens n n'"
  by (simp add: posts_def)

lemma posts_trans: "posts n ds n1 \<Longrightarrow> posts n1 es n2 \<Longrightarrow> posts n (ds @ es) n2"
  by (auto simp: posts_def listens_def silent_def)

lemma posts_listens: "posts n ds n1 \<Longrightarrow> listens n1 n2 \<Longrightarrow> posts n ds n2" "listens n n1 \<Longrightarrow> posts n1 ds n2 \<Longrightarrow> posts n ds n2"
  by (auto simp: posts_def listens_def silent_def)

lemma sendto_posts: "sys_sendto data a n = (Inr k, n') \<Longrightarrow> posts n [(a, take k data)] n'"
  using sendto_sends by (simp add: posts_def)

lemma returns_refl [simp]: "returns n [] n"
  by (simp add: returns_def)

lemma listens_returns: "listens n n' \<Longrightarrow> returns n [] n'"
  by (auto simp: returns_def listens_def silent_def)

lemma returns_trans: "returns n ds n1 \<Longrightarrow> returns n1 es n2 \<Longrightarrow> returns n (ds @ es) n2"
  by (auto simp: returns_def)

lemma returns_wf: "returns n ds n' \<Longrightarrow> wf_net n \<Longrightarrow> wf_net n'"
  by (auto simp: returns_def wf_net_def)

lemma socket_refused: "sys_socket n = (None, n') \<Longrightarrow> returns n [] n'"
  using spend_replies[of n] by (auto simp: sys_socket_def returns_def spend_def split: if_splits)

lemma socket_replies: "sys_socket n = (r, n') \<Longrightarrow> set (script n') \<subseteq> set (script n)"
  using spend_replies[of n] by (auto simp: sys_socket_def spend_def split: if_splits)

lemma socket_returns:
  assumes "sys_socket n = (Some fd, n1)" "posts n1 ds n2" "wf_net n"
  shows "returns n ds (sys_close_socket fd n2)"
proof -
  have s1: "set (script n1) \<subseteq> set (script n)"
    using socket_replies[OF assms(1)] .
  moreover have "set (script n2) \<subseteq> set (script n1)" using assms(2) by (simp add: posts_def listens_def)
  ultimately have "set (script n2) \<subseteq> set (script n)" by (rule subset_trans[rotated])
  then show ?thesis using assms
    by (auto simp: sys_socket_def returns_def posts_def listens_def silent_def sys_close_socket_def spend_def wf_net_def split: if_splits)
qed

end
