(* ===== verification/Dns_Resolve.thy ===== *)
theory Dns_Resolve
  imports Dns_Message Datagrams
begin

text \<open>
  Resolving a host name, \<open>query_server\<close> and \<open>cn_dnssimple_resolve_a\<close> of src/net/dnssimple.c: the
  transaction id, sending with up to two repeats, waiting, and the choice of the datagram that counts.
  A server that is NULL is \<open>None\<close>.
\<close>

record cn_dns_config =
  dns_servers :: "bytes option list"
  dns_server_count :: nat
  dns_port :: nat
  dns_timeout_ms :: nat

definition dns_recv_cap :: nat where "dns_recv_cap = dns_packet_max + 1"

section \<open>The transaction id\<close>

definition read_transaction_id :: "network \<Rightarrow> u16 option \<times> network" where
  "read_transaction_id n = (case sys_open_random n of (None, n) \<Rightarrow> (None, n)
     | (Some fd, n) \<Rightarrow> (case sys_read_random 2 n of (got, n) \<Rightarrow>
         (case got of Inl _ \<Rightarrow> None | Inr b \<Rightarrow> if length b \<noteq> 2 then None else Some (load_u16 b 0), sys_close_socket fd n)))"

definition build_query :: "bytes \<Rightarrow> network \<Rightarrow> (cn_dns_result + bytes \<times> u16) \<times> network" where
  "build_query hostname n = (case read_transaction_id n of
     (None, n) \<Rightarrow> (Inl CN_DNS_ENTROPY_FAILED, n)
   | (Some id', n) \<Rightarrow> (case query_packet hostname id' of Inl e \<Rightarrow> Inl e | Inr query \<Rightarrow> Inr (query, id'), n))"

section \<open>Waiting, sending and receiving\<close>

function dns_wait_for_socket :: "poll_event \<Rightarrow> int \<Rightarrow> network \<Rightarrow> readiness \<times> network" where
  "dns_wait_for_socket event deadline_ns n = (case poll_timeout_ms deadline_ns n of (timeout, n) \<Rightarrow>
     if timeout = - 2 then (Wait_error, n)
     else if timeout < 0 then (Wait_timeout, n)
     else case sys_poll n of
       (Poll_timeout, n) \<Rightarrow> (Wait_timeout, n)
     | (Poll_error e, n) \<Rightarrow> if e = SOCKET_EINTR then dns_wait_for_socket event deadline_ns n else (Wait_error, n)
     | (Poll_events revents, n) \<Rightarrow>
         if event \<in> revents then
           (case poll_timeout_ms deadline_ns n of (timeout, n) \<Rightarrow>
              (if timeout = - 2 then Wait_error else if timeout < 0 then Wait_timeout else Wait_ready, n))
         else if revents \<inter> {POLLERR, POLLHUP, POLLNVAL} \<noteq> {} then (Wait_error, n)
         else dns_wait_for_socket event deadline_ns n)"
  by pat_completeness auto
termination
  by (relation "measure (\<lambda>(e, d, n). length (script n))")
    (auto dest!: poll_timeout_script[OF sym] poll_error_spends[OF sym] poll_ready_spends[OF sym])

declare dns_wait_for_socket.simps [simp del]

lemma dns_wait_step:
  assumes "poll_timeout_ms d n = (t, n1)" "sys_poll n1 = (a, n2)"
  shows "dns_wait_for_socket v d n = (if t = - 2 then (Wait_error, n1) else if t < 0 then (Wait_timeout, n1) else case a of
       Poll_timeout \<Rightarrow> (Wait_timeout, n2)
     | Poll_error e \<Rightarrow> if e = SOCKET_EINTR then dns_wait_for_socket v d n2 else (Wait_error, n2)
     | Poll_events revents \<Rightarrow>
         if v \<in> revents then (case poll_timeout_ms d n2 of (t', n3) \<Rightarrow>
           (if t' = - 2 then Wait_error else if t' < 0 then Wait_timeout else Wait_ready, n3))
         else if revents \<inter> {POLLERR, POLLHUP, POLLNVAL} \<noteq> {} then (Wait_error, n2)
         else dns_wait_for_socket v d n2)"
  by (subst dns_wait_for_socket.simps) (simp add: assms)

lemma dns_wait_listens: "listens n (snd (dns_wait_for_socket v d n))"
proof (induction v d n rule: dns_wait_for_socket.induct)
  case (1 v d n)
  obtain t n1 where t: "poll_timeout_ms d n = (t, n1)" by (cases "poll_timeout_ms d n")
  obtain a n2 where a: "sys_poll n1 = (a, n2)" by (cases "sys_poll n1")
  have q: "listens n n1" "listens n1 n2" using listens_call(6)[OF t] listens_call(2)[OF a] by simp_all
  then have q2: "listens n n2" by (rule listens_trans)
  have r: "listens n (snd (poll_timeout_ms d n2))" using q2 listens_snd(6) listens_trans by blast
  note S = dns_wait_step[OF t a, of v]
  show ?case
  proof (cases "t < 0")
    case True
    then show ?thesis unfolding S using q by simp
  next
    case f: False
    then have f2: "t \<noteq> - 2" by auto
    show ?thesis
    proof (cases a)
      case Poll_timeout
      then show ?thesis unfolding S using f f2 q2 by simp
    next
      case (Poll_error e)
      have "e = SOCKET_EINTR \<Longrightarrow> listens n2 (snd (dns_wait_for_socket v d n2))"
        using "1.IH"(1)[OF t[symmetric] f2 f] a Poll_error by simp
      then show ?thesis unfolding S using f f2 q2 Poll_error listens_trans by auto
    next
      case (Poll_events revents)
      have "listens n2 (snd (dns_wait_for_socket v d n2))" if "v \<notin> revents" "revents \<inter> {POLLERR, POLLHUP, POLLNVAL} = {}"
        using "1.IH"(2)[OF t[symmetric] f2 f] a Poll_events that by simp
      then show ?thesis unfolding S using f f2 q2 r Poll_events listens_trans by (auto split: prod.split)
    qed
  qed
qed

lemma dns_wait_call: "dns_wait_for_socket v d n = (r, n') \<Longrightarrow> listens n n'"
  using dns_wait_listens[of n v d] by simp

lemma dns_wait_spends:
  "dns_wait_for_socket v d n = (Wait_ready, n') \<Longrightarrow> length (script n') < length (script n)"
proof (induction v d n rule: dns_wait_for_socket.induct)
  case (1 v d n)
  obtain t n1 where t: "poll_timeout_ms d n = (t, n1)" by (cases "poll_timeout_ms d n")
  obtain a n2 where a: "sys_poll n1 = (a, n2)" by (cases "sys_poll n1")
  note P = "1.prems"[unfolded dns_wait_step[OF t a]]
  have l: "length (script n1) \<le> length (script n)" using poll_timeout_script[OF t] .
  have f: "\<not> t < 0" "t \<noteq> - 2" using P by (auto split: if_splits)
  show ?case
  proof (cases a)
    case Poll_timeout
    then show ?thesis using f P by simp
  next
    case (Poll_error e)
    then have e: "e = SOCKET_EINTR" "dns_wait_for_socket v d n2 = (Wait_ready, n')" using f P by (simp_all split: if_splits)
    have "length (script n') < length (script n2)" using "1.IH"(1)[OF t[symmetric] f(2,1)] a e Poll_error by simp
    then show ?thesis using poll_error_spends[of n1 e n2] a Poll_error l by simp
  next
    case (Poll_events revents)
    note s = poll_ready_spends[of n1 revents n2]
    show ?thesis
    proof (cases "v \<in> revents")
      case True
      then obtain t2 where "poll_timeout_ms d n2 = (t2, n')" using f P Poll_events by (auto split: prod.splits)
      then show ?thesis using s a Poll_events l poll_timeout_script[of d n2 t2 n'] by simp
    next
      case False
      then have w: "revents \<inter> {POLLERR, POLLHUP, POLLNVAL} = {}" "dns_wait_for_socket v d n2 = (Wait_ready, n')"
        using f P Poll_events by (simp_all split: if_splits)
      have "length (script n') < length (script n2)" using "1.IH"(2)[OF t[symmetric] f(2,1)] a w False Poll_events by simp
      then show ?thesis using s a Poll_events l by simp
    qed
  qed
qed

text \<open>The loop that sends the query once; \<open>Inl\<close> with the result that ends the run.\<close>

function dns_send :: "bytes \<Rightarrow> bytes \<times> nat \<Rightarrow> int \<Rightarrow> network \<Rightarrow> (cn_dns_result + unit) \<times> network" where
  "dns_send query address deadline n = (case poll_timeout_ms deadline n of (remaining, n) \<Rightarrow>
     if remaining = - 2 then (Inl CN_DNS_NETWORK_FAILED, n)
     else if remaining < 0 then (Inl CN_DNS_TIMEOUT, n)
     else case sys_sendto query address n of
       (Inr sent, n) \<Rightarrow> (if sent = length query then Inr () else Inl CN_DNS_NETWORK_FAILED, n)
     | (Inl e, n) \<Rightarrow>
         if e = SOCKET_EINTR then dns_send query address deadline n
         else if e = EAGAIN then
           (case dns_wait_for_socket POLLOUT deadline n of
              (Wait_timeout, n) \<Rightarrow> (Inl CN_DNS_TIMEOUT, n)
            | (Wait_error, n) \<Rightarrow> (Inl CN_DNS_NETWORK_FAILED, n)
            | (Wait_ready, n) \<Rightarrow> dns_send query address deadline n)
         else (Inl CN_DNS_NETWORK_FAILED, n))"
  by pat_completeness auto
termination
  by (relation "measure (\<lambda>(q, a, d, n). length (script n))")
    (auto dest!: poll_timeout_script[OF sym] sendto_error_spends[OF sym] dns_wait_spends[OF sym])

declare dns_send.simps [simp del]

datatype dns_turn = Repeat_query | Dns_done cn_dns_result cn_dns_answer

text \<open>Waiting for the response that counts; \<open>may_repeat\<close> is \<open>sends < 3\<close>.\<close>

function dns_receive :: "bytes \<times> nat \<Rightarrow> u16 \<Rightarrow> bytes \<Rightarrow> int \<Rightarrow> int \<Rightarrow> bool \<Rightarrow> cn_dns_answer \<Rightarrow> network \<Rightarrow> dns_turn \<times> network" where
  "dns_receive address transaction_id hostname deadline wait_deadline may_repeat answer n =
     (case dns_wait_for_socket POLLIN wait_deadline n of
        (Wait_timeout, n) \<Rightarrow>
          if may_repeat then (case poll_timeout_ms deadline n of (remaining, n) \<Rightarrow>
             (if remaining = - 2 then Dns_done CN_DNS_NETWORK_FAILED answer
              else if remaining \<ge> 0 then Repeat_query else Dns_done CN_DNS_TIMEOUT answer, n))
          else (Dns_done CN_DNS_TIMEOUT answer, n)
      | (Wait_error, n) \<Rightarrow> (Dns_done CN_DNS_NETWORK_FAILED answer, n)
      | (Wait_ready, n) \<Rightarrow> (case sys_recvfrom dns_recv_cap n of
          (Inl e, n) \<Rightarrow>
            if e = SOCKET_EINTR \<or> e = EAGAIN
            then dns_receive address transaction_id hostname deadline wait_deadline may_repeat answer n
            else (Dns_done CN_DNS_NETWORK_FAILED answer, n)
        | (Inr (response, peer), n) \<Rightarrow>
            if peer \<noteq> Some address
            then dns_receive address transaction_id hostname deadline wait_deadline may_repeat answer n
            else if length response < 2 \<or> load_u16 response 0 \<noteq> transaction_id
            then dns_receive address transaction_id hostname deadline wait_deadline may_repeat answer n
            else if length response > dns_packet_max then (Dns_done CN_DNS_PACKET_SIZE answer, n)
            else (case parse_response response transaction_id hostname answer of (result, answer) \<Rightarrow>
                    (Dns_done result answer, n))))"
  by pat_completeness auto
termination
  by (relation "measure (\<lambda>(a, i, h, d, w, m, r, n). length (script n))")
    (auto dest!: dns_wait_spends[OF sym] recvfrom_script[OF sym])

declare dns_receive.simps [simp del]

text \<open>The reply of the script that answers a query: a datagram from the server with the id of the query.\<close>

definition dns_answers :: "network \<Rightarrow> bytes \<times> nat \<Rightarrow> u16 \<Rightarrow> bytes \<Rightarrow> bool" where
  "dns_answers n address id' packet \<longleftrightarrow> (\<exists>r \<in> set (script n). r_peer r = Some address \<and> r_data r = packet) \<and>
     2 \<le> length packet \<and> length packet \<le> 512 \<and> load_u16 packet 0 = id'"

lemma dns_answers_later: "dns_answers n' a i p \<Longrightarrow> listens n n' \<Longrightarrow> dns_answers n a i p"
  by (auto simp: dns_answers_def listens_def)

lemma recvfrom_answers:
  "sys_recvfrom 513 n = (Inr (packet, Some a), n') \<Longrightarrow> 2 \<le> length packet \<Longrightarrow> length packet \<le> 512 \<Longrightarrow> load_u16 packet 0 = i \<Longrightarrow>
     dns_answers n a i packet"
proof -
  assume a: "sys_recvfrom 513 n = (Inr (packet, Some a), n')" "2 \<le> length packet" "length packet \<le> 512" "load_u16 packet 0 = i"
  then obtain r where r: "r \<in> set (script n)" "r_peer r = Some a" "packet = take 513 (r_data r)" using recvfrom_reply by blast
  then have "packet = r_data r" using a(3) by (simp add: min_def split: if_splits)
  then show ?thesis using r a(2-4) by (auto simp: dns_answers_def)
qed

definition turn_ok :: "bytes \<times> nat \<Rightarrow> u16 \<Rightarrow> bytes \<Rightarrow> bool \<Rightarrow> cn_dns_answer \<Rightarrow> network \<Rightarrow> dns_turn \<times> network \<Rightarrow> bool" where
  "turn_ok a i h m ans n out \<longleftrightarrow> listens n (snd out) \<and> (fst out = Repeat_query \<longrightarrow> m) \<and>
     (\<forall>ans'. fst out = Dns_done CN_DNS_OK ans' \<longrightarrow>
        (\<exists>packet. dns_answers n a i packet \<and> parse_response packet i h ans = (CN_DNS_OK, ans'))) \<and>
     (\<forall>r ans'. fst out = Dns_done r ans' \<longrightarrow> r \<noteq> CN_DNS_OK \<longrightarrow> ipv4 ans = [] \<longrightarrow> ipv4 ans' = [])"

lemma response_verdict_empty: "response_verdict f a c = (r, answer) \<Longrightarrow> r \<noteq> CN_DNS_OK \<Longrightarrow> ipv4 answer = []"
  by (auto simp: response_verdict_def empty_answer_def Let_def split: if_splits)

lemma parse_response_failed: "parse_response p i h ans = (r, ans') \<Longrightarrow> r \<noteq> CN_DNS_OK \<Longrightarrow> ipv4 ans = [] \<Longrightarrow> ipv4 ans' = []"
  using response_verdict_empty by (auto simp: parse_response_def Let_def split: if_splits option.splits)

lemma turn_later: "turn_ok a i h m ans n1 out \<Longrightarrow> listens n n1 \<Longrightarrow> turn_ok a i h m ans n out"
  unfolding turn_ok_def using dns_answers_later[of n1 a i _ n] listens_trans[of n n1 "snd out"] by blast

lemma dns_receive_ok: "turn_ok a i h m ans n (dns_receive a i h d w m ans n)"
proof (induction a i h d w m ans n rule: dns_receive.induct)
  case (1 a i h d w m ans n)
  obtain r n1 where r: "dns_wait_for_socket POLLIN w n = (r, n1)" by (cases "dns_wait_for_socket POLLIN w n")
  have l1: "listens n n1" using dns_wait_call[OF r] .
  show ?case
  proof (cases r)
    case Wait_ready
    obtain x n2 where x': "sys_recvfrom dns_recv_cap n1 = (x, n2)" by (cases "sys_recvfrom dns_recv_cap n1")
    then have x: "sys_recvfrom 513 n1 = (x, n2)" by (simp add: dns_recv_cap_def dns_packet_max_def)
    have l2: "listens n n2" using l1 listens_call(4)[OF x] listens_trans by blast
    have S: "dns_receive a i h d w m ans n = (case x of
        Inl e \<Rightarrow> if e = SOCKET_EINTR \<or> e = EAGAIN then dns_receive a i h d w m ans n2 else (Dns_done CN_DNS_NETWORK_FAILED ans, n2)
      | Inr (p, peer) \<Rightarrow> if peer \<noteq> Some a then dns_receive a i h d w m ans n2
          else if length p < 2 \<or> load_u16 p 0 \<noteq> i then dns_receive a i h d w m ans n2
          else if length p > dns_packet_max then (Dns_done CN_DNS_PACKET_SIZE ans, n2)
          else (case parse_response p i h ans of (result, answer) \<Rightarrow> (Dns_done result answer, n2)))"
      by (subst dns_receive.simps) (simp add: r x' Wait_ready split: sum.split prod.split)
    note L = turn_later[OF _ l2]
    show ?thesis
    proof (cases x)
      case (Inl e)
      have b: "e = SOCKET_EINTR \<or> e = EAGAIN \<Longrightarrow> turn_ok a i h m ans n (dns_receive a i h d w m ans n2)"
        using L "1.IH"(1)[OF r[symmetric] Wait_ready] x' Inl by simp
      have "turn_ok a i h m ans n (Dns_done CN_DNS_NETWORK_FAILED ans, n2)" using l2 by (simp add: turn_ok_def)
      then show ?thesis unfolding S using Inl b by simp
    next
      case (Inr y)
      obtain p peer where y: "y = (p, peer)" by (cases y)
      have b1: "turn_ok a i h m ans n (dns_receive a i h d w m ans n2)" if "peer \<noteq> Some a"
        using L "1.IH"(2)[OF r[symmetric] Wait_ready] x' Inr y that by simp
      have b2: "turn_ok a i h m ans n (dns_receive a i h d w m ans n2)" if "peer = Some a" "length p < 2 \<or> load_u16 p 0 \<noteq> i"
        using L "1.IH"(3)[OF r[symmetric] Wait_ready] x' Inr y that by simp
      have b3: "dns_answers n a i p" if "peer = Some a" "\<not> (length p < 2 \<or> load_u16 p 0 \<noteq> i)" "length p \<le> 512"
        using dns_answers_later[OF _ l1] recvfrom_answers[of n1 p a n2 i] x Inr y that by simp
      show ?thesis
      proof (cases "peer = Some a \<and> \<not> (length p < 2 \<or> load_u16 p 0 \<noteq> i)")
        case True
        then show ?thesis unfolding S using Inr y b3 l2
          by (cases "parse_response p i h ans") (auto simp: turn_ok_def dns_packet_max_def dest: parse_response_failed)
      next
        case False
        then show ?thesis unfolding S using Inr y b1 b2 by auto
      qed
    qed
  next
    case Wait_timeout
    obtain t n2 where t: "poll_timeout_ms d n1 = (t, n2)" by (cases "poll_timeout_ms d n1")
    have "listens n n2" using l1 listens_call(6)[OF t] listens_trans by blast
    then show ?thesis using l1 Wait_timeout
      by (subst dns_receive.simps) (simp add: r t turn_ok_def)
  next
    case Wait_error
    then show ?thesis using l1 by (subst dns_receive.simps) (simp add: r turn_ok_def)
  qed
qed

lemma dns_receive_repeats: "dns_receive a i h d w m ans n = (Repeat_query, n') \<Longrightarrow> m"
  using dns_receive_ok[of a i h m ans n d w] by (simp add: turn_ok_def)

text \<open>The outer loop: \<open>sends\<close> counts the queries that were sent.\<close>

function dns_rounds :: "bytes \<Rightarrow> bytes \<times> nat \<Rightarrow> u16 \<Rightarrow> bytes \<Rightarrow> int \<Rightarrow> int list \<Rightarrow> nat \<Rightarrow> cn_dns_answer \<Rightarrow> network \<Rightarrow>
    (cn_dns_result \<times> cn_dns_answer) \<times> network" where
  "dns_rounds query address transaction_id hostname deadline retransmit_deadlines sends answer n =
     (case dns_send query address deadline n of
        (Inl result, n) \<Rightarrow> ((result, answer), n)
      | (Inr _, n) \<Rightarrow>
          (case dns_receive address transaction_id hostname deadline
              (if sends + 1 < 3 then retransmit_deadlines ! sends else deadline) (sends + 1 < 3) answer n of
             (Repeat_query, n) \<Rightarrow>
               dns_rounds query address transaction_id hostname deadline retransmit_deadlines (sends + 1) answer n
           | (Dns_done result answer, n) \<Rightarrow> ((result, answer), n)))"
  by pat_completeness auto
termination
  by (relation "measure (\<lambda>(q, a, i, h, d, r, sends, ans, n). 3 - sends)") (auto dest: dns_receive_repeats[OF sym])

declare dns_rounds.simps [simp del]

section \<open>One server and all servers\<close>

definition dns_query_server :: "bytes option \<Rightarrow> nat \<Rightarrow> nat \<Rightarrow> bytes \<Rightarrow> cn_dns_answer \<Rightarrow> network \<Rightarrow>
    (cn_dns_result \<times> cn_dns_answer) \<times> network" where
  "dns_query_server server port' timeout_ms hostname answer n = (case inet_pton server of
     None \<Rightarrow> ((CN_DNS_INVALID, answer), n)
   | Some octets \<Rightarrow> (case build_query hostname n of
       (Inl result, n) \<Rightarrow> ((result, answer), n)
     | (Inr (query, transaction_id), n) \<Rightarrow> (case monotonic_ns n of
         (None, n) \<Rightarrow> ((CN_DNS_NETWORK_FAILED, answer), n)
       | (Some start, n) \<Rightarrow>
           let timeout_ns = int timeout_ms * 1000000; deadline = start + timeout_ns;
               retransmit_deadlines = [start + timeout_ns div 4, start + timeout_ns div 2]
           in case sys_socket n of
             (None, n) \<Rightarrow> ((CN_DNS_SOCKET_FAILED, answer), n)
           | (Some fd, n) \<Rightarrow> (case sys_fcntl n of
               (False, n) \<Rightarrow> ((CN_DNS_SOCKET_FAILED, answer), sys_close_socket fd n)
             | (True, n) \<Rightarrow> (case sys_fcntl n of
                 (False, n) \<Rightarrow> ((CN_DNS_SOCKET_FAILED, answer), sys_close_socket fd n)
               | (True, n) \<Rightarrow> (case dns_rounds query (octets, port') transaction_id hostname deadline
                     retransmit_deadlines 0 answer n of
                   (r, n) \<Rightarrow> (r, sys_close_socket fd n)))))))"

definition dns_result_is_final :: "cn_dns_result \<Rightarrow> bool" where
  "dns_result_is_final last' \<longleftrightarrow> last' = CN_DNS_NXDOMAIN \<or> last' = CN_DNS_NO_ADDRESS \<or> last' = CN_DNS_UNSUPPORTED_CNAME \<or>
     last' = CN_DNS_ENTROPY_FAILED \<or> last' = CN_DNS_INVALID \<or> last' = CN_DNS_INVALID_HOSTNAME"

fun dns_servers_loop :: "bytes option list \<Rightarrow> nat \<Rightarrow> cn_dns_result \<Rightarrow> nat \<Rightarrow> nat \<Rightarrow> bytes \<Rightarrow> network \<Rightarrow>
    (cn_dns_result \<times> cn_dns_answer) \<times> network" where
  "dns_servers_loop [] i last' port' timeout_ms hostname n = ((last', empty_answer), n)"
| "dns_servers_loop (server # rest) i last' port' timeout_ms hostname n =
     (case dns_query_server server port' timeout_ms hostname empty_answer n of ((last', answer), n) \<Rightarrow>
        if last' = CN_DNS_OK then ((CN_DNS_OK, answer\<lparr>server_index := i\<rparr>), n)
        else if dns_result_is_final last' then ((last', answer), n)
        else dns_servers_loop rest (i + 1) last' port' timeout_ms hostname n)"

text \<open>\<open>servers\<close> is an array of two pointers, of which the first \<open>server_count\<close> are used.  The answer is in and
  out; the caller passes a pointer to it.\<close>

definition cn_dnssimple_resolve_a :: "cn_dns_config option \<Rightarrow> bytes option \<Rightarrow> cn_dns_answer option \<Rightarrow> network \<Rightarrow>
    (cn_dns_result \<times> cn_dns_answer option) \<times> network" where
  "cn_dnssimple_resolve_a config hostname answer n =
     (if config = None \<or> answer = None \<or> dns_server_count (the config) = 0 \<or> dns_server_count (the config) > dns_max_servers
      then ((CN_DNS_INVALID, answer), n)
      else if \<not> hostname_ok hostname then ((CN_DNS_INVALID_HOSTNAME, answer), n)
      else let c = the config;
               port' = (if dns_port c \<noteq> 0 then dns_port c else dns_default_port);
               timeout_ms = (if dns_timeout_ms c \<noteq> 0 then dns_timeout_ms c else dns_default_timeout_ms)
      in if port' > 65535 then ((CN_DNS_INVALID, answer), n)
         else (case dns_servers_loop (take (dns_server_count c) (dns_servers c)) 0 CN_DNS_INVALID port' timeout_ms
                 (cstr (the hostname)) n of ((result, a), n) \<Rightarrow> ((result, Some a), n)))"

section \<open>What resolving does\<close>

definition queries :: "bytes \<times> nat \<Rightarrow> bytes \<Rightarrow> nat \<Rightarrow> ((bytes \<times> nat) \<times> bytes) list \<Rightarrow> bool" where
  "queries a query k ds \<longleftrightarrow> length ds \<le> k \<and> (\<forall>x \<in> set ds. fst x = a \<and> (\<exists>j. snd x = take j query))"

lemma queries_simps [simp]: "queries a q k []" "queries a q (Suc k) ((a, take j q) # ds) = queries a q k ds"
  "queries a q (Suc k) ((a, q) # ds) = queries a q k ds"
  by (auto simp: queries_def intro: exI[of _ "length q"])

lemma queries_append: "queries a q j ds \<Longrightarrow> queries a q k es \<Longrightarrow> queries a q (j + k) (ds @ es)"
  by (auto simp: queries_def)

definition sent_once :: "bytes \<times> nat \<Rightarrow> bytes \<Rightarrow> network \<Rightarrow> (cn_dns_result + unit) \<times> network \<Rightarrow> bool" where
  "sent_once a q n out \<longleftrightarrow> fst out \<noteq> Inl CN_DNS_OK \<and>
     (\<exists>ds. posts n ds (snd out) \<and> queries a q 1 ds \<and> (fst out = Inr () \<longrightarrow> (a, q) \<in> set ds))"

lemma sent_later: "listens n n' \<Longrightarrow> sent_once a q n' out \<Longrightarrow> sent_once a q n out"
  using posts_listens(2) by (fastforce simp: sent_once_def)

lemma sent_nothing: "listens n n' \<Longrightarrow> r \<noteq> CN_DNS_OK \<Longrightarrow> sent_once a q n (Inl r, n')"
  by (auto simp: sent_once_def intro: exI[of _ "[]"])

lemma dns_send_posts: "sent_once a q n (dns_send q a d n)"
proof (induction q a d n rule: dns_send.induct)
  case (1 q a d n)
  obtain t n1 where t: "poll_timeout_ms d n = (t, n1)" by (cases "poll_timeout_ms d n")
  obtain x n2 where x: "sys_sendto q a n1 = (x, n2)" by (cases "sys_sendto q a n1")
  obtain w n3 where w: "dns_wait_for_socket POLLOUT d n2 = (w, n3)" by (cases "dns_wait_for_socket POLLOUT d n2")
  have l1: "listens n n1" using listens_call(6)[OF t] .
  note S = dns_send.simps[of q a d n, unfolded t prod.case x w]
  show ?case
  proof (cases "t < 0")
    case True
    then show ?thesis unfolding S using sent_nothing[OF l1] by simp
  next
    case False
    then have t2: "t \<noteq> - 2" by auto
    show ?thesis
    proof (cases x)
      case (Inr k)
      have "posts n1 [(a, take k q)] n2" using sendto_posts[of q a n1 k n2] x Inr by simp
      then have p: "posts n [(a, take k q)] n2" using posts_listens(2)[OF l1] by blast
      show ?thesis
      proof (cases "k = length q")
        case True
        then show ?thesis unfolding S using False t2 Inr p by (auto simp: sent_once_def intro: exI[of _ "[(a, q)]"])
      next
        case short: False
        then show ?thesis unfolding S using False t2 Inr p by (auto simp: sent_once_def intro: exI[of _ "[(a, take k q)]"])
      qed
    next
      case (Inl e)
      have l2: "listens n n2" using l1 sendto_listens[of q a n1 e n2] x Inl listens_trans by blast
      have l3: "listens n n3" using l2 dns_wait_call[OF w] listens_trans by blast
      have a1: "e = SOCKET_EINTR \<Longrightarrow> sent_once a q n (dns_send q a d n2)"
        using sent_later[OF l2] "1.IH"(1)[OF t[symmetric] t2 False] x Inl by simp
      have a2: "e \<noteq> SOCKET_EINTR \<Longrightarrow> e = EAGAIN \<Longrightarrow> w = Wait_ready \<Longrightarrow> sent_once a q n (dns_send q a d n3)"
        using sent_later[OF l3] "1.IH"(2)[OF t[symmetric] t2 False] x w Inl by simp
      show ?thesis unfolding S using False t2 Inl a1 a2 sent_nothing[OF l2] sent_nothing[OF l3]
        by (cases "e = SOCKET_EINTR"; cases "e = EAGAIN"; cases w) simp_all
    qed
  qed
qed

text \<open>A run of queries: at most \<open>k\<close> of them, and a result OK only for an answer to one that was sent.\<close>

definition asked :: "bytes \<times> nat \<Rightarrow> bytes \<Rightarrow> u16 \<Rightarrow> bytes \<Rightarrow> cn_dns_answer \<Rightarrow> network \<Rightarrow> ((bytes \<times> nat) \<times> bytes) list \<Rightarrow>
    cn_dns_result \<times> cn_dns_answer \<Rightarrow> bool" where
  "asked a q i h ans n ds out \<longleftrightarrow>
     (fst out = CN_DNS_OK \<longrightarrow> (a, q) \<in> set ds \<and>
        (\<exists>packet. dns_answers n a i packet \<and> parse_response packet i h ans = (CN_DNS_OK, snd out))) \<and>
     (fst out \<noteq> CN_DNS_OK \<longrightarrow> ipv4 ans = [] \<longrightarrow> ipv4 (snd out) = [])"

lemma dns_rounds_asks:
  "sends < 3 \<Longrightarrow> \<exists>ds. posts n ds (snd (dns_rounds q a i h d rd sends ans n)) \<and> queries a q (3 - sends) ds \<and>
     asked a q i h ans n ds (fst (dns_rounds q a i h d rd sends ans n))"
proof (induction q a i h d rd sends ans n rule: dns_rounds.induct)
  case (1 q a i h d rd sends ans n)
  obtain s n1 where s: "dns_send q a d n = (s, n1)" by (cases "dns_send q a d n")
  define w where "w = (if sends + 1 < 3 then rd ! sends else d)"
  obtain t n2 where t: "dns_receive a i h d w (sends + 1 < 3) ans n1 = (t, n2)" by (cases "dns_receive a i h d w (sends + 1 < 3) ans n1")
  note S = dns_rounds.simps[of q a i h d rd sends ans n, unfolded s prod.case, folded w_def, unfolded t]
  obtain ds where ds: "posts n ds n1" "queries a q 1 ds" "s = Inr () \<Longrightarrow> (a, q) \<in> set ds"
    and no: "s \<noteq> Inl CN_DNS_OK"
    using dns_send_posts[of a q n d] by (auto simp: s sent_once_def)
  have k: "queries a q (3 - sends) ds" using ds(2) "1.prems" by (auto simp: queries_def)
  note R = dns_receive_ok[of a i h "sends + 1 < 3" ans n1 d w, unfolded t turn_ok_def fst_conv snd_conv]
  have p: "posts n ds n2" using posts_listens(1)[OF ds(1)] R by blast
  have sub: "set (script n1) \<subseteq> set (script n)" using ds(1) by (simp add: posts_def listens_def)
  have up: "dns_answers n' a i packet \<Longrightarrow> set (script n') \<subseteq> set (script n) \<Longrightarrow> dns_answers n a i packet" for n' packet
    by (auto simp: dns_answers_def)
  show ?case
  proof (cases s)
    case (Inl r)
    then show ?thesis unfolding S using ds(1) k no by (intro exI[of _ ds]) (simp add: asked_def)
  next
    case (Inr u)
    show ?thesis
    proof (cases t)
      case (Dns_done r ans')
      then show ?thesis unfolding S using Inr p k ds(3) R up[OF _ sub] by (intro exI[of _ ds]) (auto simp: asked_def)
    next
      case Repeat_query
      then have m: "sends + 1 < 3" using R by simp
      obtain es where es: "posts n2 es (snd (dns_rounds q a i h d rd (sends + 1) ans n2))" "queries a q (3 - (sends + 1)) es"
          "asked a q i h ans n2 es (fst (dns_rounds q a i h d rd (sends + 1) ans n2))"
        using "1.IH"[OF s[symmetric] Inr[unfolded w_def]] t m Repeat_query by (auto simp: w_def)
      have sub2: "set (script n2) \<subseteq> set (script n)" using p by (simp add: posts_def listens_def)
      have "queries a q (1 + (3 - (sends + 1))) (ds @ es)" using queries_append[OF ds(2) es(2)] .
      moreover have "1 + (3 - (sends + 1)) = 3 - sends" using m by simp
      ultimately show ?thesis unfolding S using Inr Repeat_query posts_trans[OF p es(1)] es(3) up[OF _ sub2]
        by (intro exI[of _ "ds @ es"]) (auto simp: asked_def)
    qed
  qed
qed

lemma read_transaction_id_returns: "wf_net n \<Longrightarrow> returns n [] (snd (read_transaction_id n))"
  using socket_refused[of n] socket_returns[of n _ _ "[]"] listens_call(5)
  by (auto simp: read_transaction_id_def sys_open_random_def split: option.splits prod.splits)

lemma build_query_returns: "wf_net n \<Longrightarrow> build_query h n = (r, n') \<Longrightarrow>
    returns n [] n' \<and> (\<forall>e. r = Inl e \<longrightarrow> e \<noteq> CN_DNS_OK) \<and> (\<forall>q i. r = Inr (q, i) \<longrightarrow> query_packet h i = Inr q)"
  using read_transaction_id_returns[of n]
  by (auto simp: build_query_def query_packet_def split: prod.splits option.splits sum.splits)

text \<open>What one server, or several, can leave: at most \<open>k\<close> prefixes of a query to the given addresses, and
  an answer only with the result OK, of a response to a query that was sent.\<close>

definition server_answered :: "network \<Rightarrow> bytes option \<Rightarrow> nat \<Rightarrow> bytes \<Rightarrow> ((bytes \<times> nat) \<times> bytes) list \<Rightarrow> bytes list \<Rightarrow> bool" where
  "server_answered n server p h ds addresses \<longleftrightarrow> (\<exists>octets i q packet. inet_pton server = Some octets \<and>
     query_packet h i = Inr q \<and> ((octets, p), q) \<in> set ds \<and> dns_answers n (octets, p) i packet \<and>
     addresses \<noteq> [] \<and> length addresses \<le> 4 \<and> distinct addresses \<and> (\<forall>a \<in> set addresses. address_record packet h a))"

definition sent_to :: "bytes option list \<Rightarrow> nat \<Rightarrow> bytes \<Rightarrow> (bytes \<times> nat) \<times> bytes \<Rightarrow> bool" where
  "sent_to servers p h x \<longleftrightarrow> (\<exists>server \<in> set servers. \<exists>octets i q j. inet_pton server = Some octets \<and> query_packet h i = Inr q \<and>
     x = ((octets, p), take j q))"

lemma dns_query_server_effect:
  assumes "wf_net n" "dns_query_server server p t h empty_answer n = ((r, answer), n')"
  shows "\<exists>ds. returns n ds n' \<and> length ds \<le> 3 \<and> (\<forall>x \<in> set ds. sent_to [server] p h x) \<and>
    (r = CN_DNS_OK \<longrightarrow> server_answered n server p h ds (ipv4 answer)) \<and> (r \<noteq> CN_DNS_OK \<longrightarrow> ipv4 answer = [])"
proof (cases "inet_pton server")
  case None
  then show ?thesis using assms by (intro exI[of _ "[]"]) (auto simp: dns_query_server_def empty_answer_def)
next
  case (Some octets)
  obtain b n1 where b: "build_query h n = (b, n1)" by (cases "build_query h n")
  have r1: "returns n [] n1" using build_query_returns[OF assms(1) b] by simp
  have wf1: "wf_net n1" using returns_wf[OF r1 assms(1)] .
  show ?thesis
  proof (cases b)
    case (Inl e)
    then show ?thesis using assms build_query_returns[OF assms(1) b] r1
      by (intro exI[of _ "[]"]) (auto simp: dns_query_server_def Some b empty_answer_def)
  next
    case (Inr qi)
    obtain q i where qi: "qi = (q, i)" by (cases qi)
    have q: "query_packet h i = Inr q" using build_query_returns[OF assms(1) b] Inr qi by simp
    obtain c n2 where c: "monotonic_ns n1 = (c, n2)" by (cases "monotonic_ns n1")
    have r2: "returns n [] n2" using returns_trans[OF r1 listens_returns[OF listens_call(1)[of n1]]] c by (simp add: monotonic_ns_def)
    have wf2: "wf_net n2" using returns_wf[OF r2 assms(1)] .
    obtain fd n3 where fd: "sys_socket n2 = (fd, n3)" by (cases "sys_socket n2")
    obtain g n4 where g: "sys_fcntl n3 = (g, n4)" by (cases "sys_fcntl n3")
    obtain g' n5 where g': "sys_fcntl n4 = (g', n5)" by (cases "sys_fcntl n4")
    have l4: "listens n3 n4" and l5: "listens n3 n5"
      using listens_call(3)[OF g] listens_call(3)[OF g'] listens_trans by blast+
    define tn where "tn = int t * 1000000"
    define st where "st = the c"
    obtain out n6 where o': "dns_rounds q (octets, p) i h (st + tn) [st + tn div 4, st + tn div 2] 0 empty_answer n5 = (out, n6)"
      by (cases "dns_rounds q (octets, p) i h (st + tn) [st + tn div 4, st + tn div 2] 0 empty_answer n5")
    obtain ds where ds: "posts n5 ds n6" "queries (octets, p) q 3 ds" "asked (octets, p) q i h empty_answer n5 ds out"
      using dns_rounds_asks[of 0 n5 q "(octets, p)" i h "st + tn" "[st + tn div 4, st + tn div 2]" empty_answer] by (auto simp: o')
    have E: "((r, answer), n') = (case c of None \<Rightarrow> ((CN_DNS_NETWORK_FAILED, empty_answer), n2)
        | Some start \<Rightarrow> (case fd of None \<Rightarrow> ((CN_DNS_SOCKET_FAILED, empty_answer), n3)
          | Some fd \<Rightarrow> if \<not> g then ((CN_DNS_SOCKET_FAILED, empty_answer), sys_close_socket fd n4)
             else if \<not> g' then ((CN_DNS_SOCKET_FAILED, empty_answer), sys_close_socket fd n5)
             else (out, sys_close_socket fd n6)))"
      using assms(2) Inr qi o'
      by (cases c; cases fd; cases g; cases g') (simp_all add: dns_query_server_def Some b c fd g g' Let_def tn_def st_def)
    have quiet: "returns n [] n' \<Longrightarrow> r \<noteq> CN_DNS_OK \<Longrightarrow> answer = empty_answer \<Longrightarrow> ?thesis" by (intro exI[of _ "[]"]) (simp add: empty_answer_def)
    show ?thesis
    proof (cases "c = None \<or> fd = None \<or> \<not> g \<or> \<not> g'")
      case True
      have "returns n [] n3" if "fd = None" using returns_trans[OF r2 socket_refused[of n2 n3]] fd that by simp
      moreover have "returns n [] (sys_close_socket f m)" if "fd = Some f" "listens n3 m" for f m
        using returns_trans[OF r2 socket_returns[of n2 f n3 "[]" m]] fd that wf2 by simp
      ultimately show ?thesis using E True quiet r2 l4 l5 by (auto split: option.splits if_splits)
    next
      case False
      then obtain f st' where f: "fd = Some f" "c = Some st'" "g" "g'" by auto
      have "posts n3 ds n6" using posts_listens(2)[OF l5 ds(1)] .
      then have rr: "returns n ds n'" using returns_trans[OF r2 socket_returns[of n2 f n3 ds n6]] fd f wf2 E by simp
      have o2: "out = (r, answer)" using E f by simp
      have sub: "set (script n5) \<subseteq> set (script n)"
        using l5 r2 socket_replies[OF fd] unfolding listens_def returns_def by blast
      have "server_answered n server p h ds (ipv4 answer)" if ok: "r = CN_DNS_OK"
      proof -
        obtain packet where pk: "dns_answers n5 (octets, p) i packet" "parse_response packet i h empty_answer = (CN_DNS_OK, answer)"
          "((octets, p), q) \<in> set ds" using ds(3) ok o2 by (auto simp: asked_def)
        have "dns_answers n (octets, p) i packet" using pk(1) sub by (auto simp: dns_answers_def)
        then show ?thesis using parse_response_OK[OF pk(2)] pk(3) q Some by (auto simp: server_answered_def answer_ok_def)
      qed
      moreover have "sent_to [server] p h x" if mem: "x \<in> set ds" for x
      proof -
        obtain j where "x = ((octets, p), take j q)" using ds(2) mem by (cases x) (auto simp: queries_def)
        then show ?thesis using Some q by (auto simp: sent_to_def)
      qed
      moreover have "r \<noteq> CN_DNS_OK \<Longrightarrow> ipv4 answer = []" using ds(3) o2 by (simp add: asked_def empty_answer_def)
      ultimately show ?thesis using rr ds(2) by (intro exI[of _ ds]) (auto simp: queries_def)
    qed
  qed
qed

lemma sent_to_mono: "sent_to servers p h x \<Longrightarrow> set servers \<subseteq> set servers' \<Longrightarrow> sent_to servers' p h x"
  unfolding sent_to_def by blast

lemma dns_servers_loop_effect:
  "wf_net n \<Longrightarrow> dns_servers_loop servers i last' p t h n = ((r, answer), n') \<Longrightarrow> last' \<noteq> CN_DNS_OK \<Longrightarrow>
   \<exists>ds. returns n ds n' \<and> length ds \<le> 3 * length servers \<and> (\<forall>x \<in> set ds. sent_to servers p h x) \<and>
     (r = CN_DNS_OK \<longrightarrow> i \<le> server_index answer \<and> server_index answer < i + length servers \<and>
        server_answered n (servers ! (server_index answer - i)) p h ds (ipv4 answer)) \<and>
     (r \<noteq> CN_DNS_OK \<longrightarrow> ipv4 answer = [])"
proof (induction servers arbitrary: i last' n)
  case (Cons server rest)
  obtain r1 a1 n1 where q: "dns_query_server server p t h empty_answer n = ((r1, a1), n1)"
    by (cases "dns_query_server server p t h empty_answer n") auto
  obtain ds where ds: "returns n ds n1" "length ds \<le> 3" "\<forall>x \<in> set ds. sent_to [server] p h x"
    "r1 = CN_DNS_OK \<Longrightarrow> server_answered n server p h ds (ipv4 a1)" "r1 \<noteq> CN_DNS_OK \<Longrightarrow> ipv4 a1 = []"
    using dns_query_server_effect[OF Cons.prems(1) q] by blast
  have m: "sent_to (server # rest) p h x" if "x \<in> set ds" for x using ds(3) that sent_to_mono[of "[server]"] by auto
  show ?case
  proof (cases "r1 = CN_DNS_OK \<or> dns_result_is_final r1")
    case True
    then show ?thesis using Cons.prems(2) q ds m by (intro exI[of _ ds]) (auto split: if_splits)
  next
    case False
    then have l: "dns_servers_loop rest (i + 1) r1 p t h n1 = ((r, answer), n')" "r1 \<noteq> CN_DNS_OK" using Cons.prems(2) q by auto
    obtain es where es: "returns n1 es n'" "length es \<le> 3 * length rest" "\<forall>x \<in> set es. sent_to rest p h x"
      "r = CN_DNS_OK \<Longrightarrow> i + 1 \<le> server_index answer \<and> server_index answer < i + 1 + length rest \<and>
        server_answered n1 (rest ! (server_index answer - (i + 1))) p h es (ipv4 answer)"
      "r \<noteq> CN_DNS_OK \<Longrightarrow> ipv4 answer = []"
      using Cons.IH[OF returns_wf[OF ds(1) Cons.prems(1)] l] by blast
    have m2: "sent_to (server # rest) p h x" if "x \<in> set es" for x
      using es(3) that sent_to_mono[of rest p h x "server # rest"] set_subset_Cons[of rest server] by blast
    have up: "server_answered n1 s p h es a \<Longrightarrow> server_answered n s p h (ds @ es) a" for s a
      using ds(1) by (fastforce simp: server_answered_def dns_answers_def returns_def)
    have idx: "i + 1 \<le> k \<Longrightarrow> (server # rest) ! (k - i) = rest ! (k - (i + 1))" for k by (simp add: nth_Cons')
    show ?thesis
    proof (intro exI[of _ "ds @ es"] conjI impI)
      show "returns n (ds @ es) n'" using returns_trans[OF ds(1) es(1)] .
      show "length (ds @ es) \<le> 3 * length (server # rest)" using ds(2) es(2) by simp
      show "\<forall>x \<in> set (ds @ es). sent_to (server # rest) p h x" using m m2 by auto
    qed (use es(4,5) up idx in auto)
  qed
qed (auto simp: empty_answer_def intro: exI[of _ "[]"])

section \<open>Properties\<close>

text \<open>C28. Resolving a name sends nothing but at most three queries for it to each configured server, and
  leaves no descriptor open and no clock changed.  It answers OK only with one to four different addresses,
  each taken from an A record of that name in a datagram that came from the address and port of a server
  that was asked and that carries the transaction id of the query sent there; every address is a numeric
  one, so that a connection to it needs no further resolution.  Otherwise no address is left.\<close>

theorem dns_resolution_is_bound_to_its_query:
  assumes "wf_net n"
    and "cn_dnssimple_resolve_a config hostname (Some empty_answer) n = ((r, Some answer), n')"
  shows "sockets n' = sockets n \<and> outgoing n' = outgoing n \<and> wall_clock n' = wall_clock n \<and>
    (\<exists>ds. datagrams n' = datagrams n @ ds \<and> length ds \<le> 6 \<and>
       (\<forall>x \<in> set ds. \<exists>p. sent_to (dns_servers (the config)) p (cstr (the hostname)) x) \<and>
       (r = CN_DNS_OK \<longrightarrow> server_index answer < dns_server_count (the config) \<and>
          (\<exists>p. server_answered n (dns_servers (the config) ! server_index answer) p (cstr (the hostname)) ds (ipv4 answer)))) \<and>
    (\<forall>a \<in> set (ipv4 answer). \<exists>octets. cn_netsimple_parse_ipv4 (Some a) = Some octets \<and> length octets = 4) \<and>
    (r \<noteq> CN_DNS_OK \<longrightarrow> ipv4 answer = [])"
proof -
  have q: ?thesis if "n' = n" "answer = empty_answer" "r \<noteq> CN_DNS_OK"
    using that by (auto simp: empty_answer_def intro!: exI[of _ "[]"])
  show ?thesis
  proof (cases "\<exists>p t. dns_servers_loop (take (dns_server_count (the config)) (dns_servers (the config))) 0 CN_DNS_INVALID p t
      (cstr (the hostname)) n = ((r, answer), n') \<and> dns_server_count (the config) \<le> 2")
    case False
    then have "n' = n \<and> answer = empty_answer \<and> r \<noteq> CN_DNS_OK" using assms(2)
      by (auto simp: cn_dnssimple_resolve_a_def Let_def dns_max_servers_def split: if_splits prod.splits)
    then show ?thesis using q by blast
  next
    case True
    then obtain p t where l: "dns_servers_loop (take (dns_server_count (the config)) (dns_servers (the config))) 0 CN_DNS_INVALID p t
      (cstr (the hostname)) n = ((r, answer), n')" and c: "dns_server_count (the config) \<le> 2" by blast
    obtain ds where ds: "returns n ds n'" "length ds \<le> 3 * length (take (dns_server_count (the config)) (dns_servers (the config)))"
      "\<forall>x \<in> set ds. sent_to (take (dns_server_count (the config)) (dns_servers (the config))) p (cstr (the hostname)) x"
      "r = CN_DNS_OK \<Longrightarrow> server_index answer < length (take (dns_server_count (the config)) (dns_servers (the config))) \<and>
        server_answered n (take (dns_server_count (the config)) (dns_servers (the config)) ! server_index answer) p (cstr (the hostname)) ds (ipv4 answer)"
      "r \<noteq> CN_DNS_OK \<Longrightarrow> ipv4 answer = []"
      using dns_servers_loop_effect[OF assms(1) l] by auto
    have six: "length ds \<le> 6" using ds(2) c by simp
    have to: "sent_to (dns_servers (the config)) p (cstr (the hostname)) x" if "x \<in> set ds" for x
      using sent_to_mono[OF bspec[OF ds(3) that] set_take_subset] .
    have ok: "server_index answer < dns_server_count (the config) \<and>
        server_answered n (dns_servers (the config) ! server_index answer) p (cstr (the hostname)) ds (ipv4 answer)" if "r = CN_DNS_OK"
      using ds(4)[OF that] by auto
    have num: "\<exists>octets. cn_netsimple_parse_ipv4 (Some a) = Some octets \<and> length octets = 4" if mem: "a \<in> set (ipv4 answer)" for a
    proof -
      have "r = CN_DNS_OK" using ds(5) mem by force
      then obtain packet where "address_record packet (cstr (the hostname)) a" using ok mem by (auto simp: server_answered_def)
      then obtain o' where "a = dotted o'" "length o' = 4" by (auto simp: address_record_def)
      then show ?thesis using dotted_parses by auto
    qed
    have same: "sockets n' = sockets n" "outgoing n' = outgoing n" "wall_clock n' = wall_clock n" "datagrams n' = datagrams n @ ds"
      using ds(1) by (simp_all add: returns_def)
    have sent: "\<exists>ds. datagrams n' = datagrams n @ ds \<and> length ds \<le> 6 \<and>
       (\<forall>x \<in> set ds. \<exists>p. sent_to (dns_servers (the config)) p (cstr (the hostname)) x) \<and>
       (r = CN_DNS_OK \<longrightarrow> server_index answer < dns_server_count (the config) \<and>
          (\<exists>p. server_answered n (dns_servers (the config) ! server_index answer) p (cstr (the hostname)) ds (ipv4 answer)))"
      by (intro exI[of _ ds] conjI ballI impI) (use same(4) six to ok in auto)
    show ?thesis using same(1-3) sent num ds(5) by simp
  qed
qed

definition sample_response :: bytes where
  "sample_response = [0, 7, 0x81, 0x80, 0, 1, 0, 1, 0, 0, 0, 0, 1, 107, 0, 0, 1, 0, 1,
     0xc0, 12, 0, 1, 0, 1, 0, 0, 0, 60, 0, 4, 10, 0, 0, 1]"

lemma sample_response_answers:
  "parse_response sample_response 7 (str ''k'') empty_answer = (CN_DNS_OK, \<lparr>ipv4 = [str ''10.0.0.1''], server_index = 0\<rparr>)"
proof -
  have q: "decode_name sample_response 12 = Some (str ''k'', True, 15)"
    by (simp add: decode_name_def sample_response_def decode_loop.simps[of _ 12] decode_loop.simps[of _ 14] label_ok_def ascii_alnum_def dns_host_max_def Let_def)
  have o': "decode_name sample_response 19 = Some (str ''k'', True, 21)"
    by (simp add: decode_name_def sample_response_def decode_loop.simps[of _ 19] decode_loop.simps[of _ 12] decode_loop.simps[of _ 14] label_ok_def
       ascii_alnum_def dns_host_max_def dns_pointer_hops_max_def Let_def)
  have f: "load_u16 sample_response 0 = 7" "load_u16 sample_response 2 = 0x8180" "load_u16 sample_response 4 = 1" "load_u16 sample_response 6 = 1"
    "load_u16 sample_response 8 = 0" "load_u16 sample_response 10 = 0" "load_u16 sample_response 15 = 1" "load_u16 sample_response 17 = 1"
    "load_u16 sample_response 21 = 1" "load_u16 sample_response 23 = 1" "load_u16 sample_response 29 = 4" "length sample_response = 35"
    by (simp_all add: load_u16_def sample_response_def)
  have d: "dotted (take 4 (drop 31 sample_response)) = str ''10.0.0.1''"
    by (simp add: sample_response_def dotted_def decimal_text.simps)
  show ?thesis using q o' f d
    by (simp add: parse_response_def parse_question_def parse_record_def dns_header_bytes_def dns_records_max_def response_verdict_def
      name_equal_iff dns_lower_def empty_answer_def add_address_def answer_contains_def dns_max_ipv4_def Let_def)
qed

text \<open>A run of the resolver: the id, the clock, a socket, the query, and the response above.\<close>

definition sample_dns_config :: cn_dns_config where
  "sample_dns_config = \<lparr>dns_servers = [Some (str ''9.9.9.9'')], dns_server_count = 1, dns_port = 0, dns_timeout_ms = 0\<rparr>"

definition quiet_reply :: reply where
  "quiet_reply = last_reply\<lparr>r_timeout := False\<rparr>"

definition sample_replies :: "reply list" where
  "sample_replies = [quiet_reply, quiet_reply\<lparr>r_data := [0, 7]\<rparr>, quiet_reply, quiet_reply, quiet_reply, quiet_reply, quiet_reply,
     quiet_reply\<lparr>r_count := 512\<rparr>, quiet_reply, quiet_reply\<lparr>r_events := {POLLIN}\<rparr>, quiet_reply,
     quiet_reply\<lparr>r_data := sample_response, r_peer := Some ([9, 9, 9, 9], 53)\<rparr>]"

lemma dns_resolution_is_bound_to_its_query_witness:
  "\<exists>n' answer. cn_dnssimple_resolve_a (Some sample_dns_config) (Some (str ''k'')) (Some empty_answer) (idle_network sample_replies) =
     ((CN_DNS_OK, Some answer), n') \<and> ipv4 answer = [str ''10.0.0.1''] \<and> sockets n' = {} \<and> server_index answer < 1"
proof -
  have h: "hostname_ok (Some (str ''k''))" by (simp add: hostname_ok_def label_ok_def ascii_alnum_def dns_host_max_def)
  obtain q where q: "query_packet (str ''k'') 7 = Inr q" "length q = 19" using dns_query_reads_back[OF h, of 7] by auto
  have p: "inet_pton (Some (str ''9.9.9.9'')) = Some [9, 9, 9, 9]"
    by (simp add: inet_pton_def pton_octet_def decimal_byte_def decimal_value_def)
  have id': "load_u16 [0, 7] 0 = 7" by (simp add: load_u16_def)
  have l: "load_u16 sample_response 0 = 7" "length sample_response = 35" by (simp_all add: load_u16_def sample_response_def)
  note sys = sys_open_random_def sys_socket_def sys_read_random_def sys_recv_def sys_close_socket_def sys_clock_def sys_fcntl_def
    sys_poll_def sys_sendto_def sys_recvfrom_def monotonic_ns_def poll_timeout_ms_def next_reply_def spend_def last_reply_def quiet_reply_def
  have e: "\<exists>n'. cn_dnssimple_resolve_a (Some sample_dns_config) (Some (str ''k'')) (Some empty_answer) (idle_network sample_replies) =
     ((CN_DNS_OK, Some \<lparr>ipv4 = [str ''10.0.0.1''], server_index = 0\<rparr>), n')"
    using h q p id' l sample_response_answers
    by (simp add: cn_dnssimple_resolve_a_def sample_dns_config_def dns_max_servers_def dns_default_port_def dns_default_timeout_ms_def
        dns_query_server_def build_query_def read_transaction_id_def sys Let_def idle_network_def sample_replies_def dns_rounds.simps
        dns_send.simps dns_receive.simps dns_wait_for_socket.simps dns_recv_cap_def dns_packet_max_def int_max_def)
  then obtain n' where n': "cn_dnssimple_resolve_a (Some sample_dns_config) (Some (str ''k'')) (Some empty_answer) (idle_network sample_replies) =
     ((CN_DNS_OK, Some \<lparr>ipv4 = [str ''10.0.0.1''], server_index = 0\<rparr>), n')" by blast
  have "wf_net (idle_network sample_replies)" by (simp add: wf_net_def idle_network_def)
  from dns_resolution_is_bound_to_its_query[OF this n'] n' show ?thesis by (auto simp: idle_network_def sample_dns_config_def)
qed

end
