(* ===== verification/Time_Sync.thy ===== *)
theory Time_Sync
  imports Sync_Types Datagrams
begin

text \<open>
  Trusted time, src/time/timesimple.c: one SNTP exchange with each configured server until one answers,
  the checks of the response, and the setting of the clock.  Times are integers of nanoseconds or seconds,
  as the C code computes them in 64 bits; the request and the response are lists of bytes.
\<close>

definition sntp_packet_bytes :: nat where "sntp_packet_bytes = 48"
definition sntp_response_cap :: nat where "sntp_response_cap = sntp_packet_bytes + 1"
definition ntp_unix_delta :: int where "ntp_unix_delta = 2208988800"
definition ntp_era_seconds :: int where "ntp_era_seconds = 4294967296"
definition time_release_min_unix :: int where "time_release_min_unix = 1789908147"
definition time_target_max_unix :: int where "time_target_max_unix = 2147483647"
definition time_max_servers :: nat where "time_max_servers = 4"
definition time_default_port :: nat where "time_default_port = 123"
definition time_default_timeout_ms :: nat where "time_default_timeout_ms = 3000"

record cn_time_config =
  time_servers :: "bytes option list"
  time_server_count :: nat
  time_port :: nat
  time_timeout_ms :: nat

record cn_time_sample =
  unix_seconds :: int
  nanoseconds :: int
  rtt_ms :: u32
  time_server_index :: nat

section \<open>Packets\<close>

definition time_load_u32 :: "bytes \<Rightarrow> nat \<Rightarrow> u32" where
  "time_load_u32 p i = push_bit 24 (ucast (p ! i)) OR push_bit 16 (ucast (p ! (i + 1))) OR push_bit 8 (ucast (p ! (i + 2))) OR ucast (p ! (i + 3))"

definition time_store_u32 :: "u32 \<Rightarrow> bytes" where
  "time_store_u32 value = [ucast (drop_bit 24 value), ucast (drop_bit 16 value), ucast (drop_bit 8 value), ucast value]"

definition timestamp_nonzero :: "bytes \<Rightarrow> bool" where
  "timestamp_nonzero p \<longleftrightarrow> list_ex (\<lambda>b. b \<noteq> 0) (take 8 p)"

text \<open>The loop reads until four bytes have come, and gives up at an error or at the end of the device.\<close>

function fraction_loop :: "bytes \<Rightarrow> network \<Rightarrow> bytes option \<times> network" where
  "fraction_loop got n =
     (if length got \<ge> 4 then (Some got, n)
      else case sys_read_random (4 - length got) n of
        (Inr more_bytes, n) \<Rightarrow> if more_bytes \<noteq> [] then fraction_loop (got @ more_bytes) n else (None, n)
      | (Inl e, n) \<Rightarrow> if e = SOCKET_EINTR then fraction_loop got n else (None, n))"
  by pat_completeness auto
termination
  by (relation "measure (\<lambda>(g, n). length (script n))")
    (auto simp: sys_read_random_def dest!: recv_error_spends[OF sym] recv_some_spends[OF sym])

declare fraction_loop.simps [simp del]

definition read_fraction_entropy :: "network \<Rightarrow> bytes option \<times> network" where
  "read_fraction_entropy n = (case sys_open_random n of (None, n) \<Rightarrow> (None, n)
     | (Some fd, n) \<Rightarrow> (case fraction_loop [] n of (r, n) \<Rightarrow> (r, sys_close_socket fd n)))"

definition request_packet :: "int \<Rightarrow> bytes \<Rightarrow> bytes" where
  "request_packet wall_seconds fraction =
     [push_bit 3 4 OR 3] @ replicate 39 0 @ time_store_u32 (of_int (wall_seconds + ntp_unix_delta)) @ fraction"

definition build_request :: "network \<Rightarrow> (cn_time_result + bytes) \<times> network" where
  "build_request n = (case sys_clock n of (None, n) \<Rightarrow> (Inl CN_TIME_INTERNAL, n)
     | (Some wall, n) \<Rightarrow> (case read_fraction_entropy n of
         (None, n) \<Rightarrow> (Inl CN_TIME_ENTROPY_FAILED, n)
       | (Some fraction, n) \<Rightarrow> (Inr (request_packet wall fraction), n)))"

definition in_window :: "int \<Rightarrow> bool" where
  "in_window t \<longleftrightarrow> t \<ge> time_release_min_unix \<and> t \<le> time_target_max_unix"

definition decode_transmit_time :: "bytes \<Rightarrow> int \<Rightarrow> cn_time_result + cn_time_sample" where
  "decode_transmit_time stamp rtt_ns =
     (let seconds = uint (time_load_u32 stamp 0); fraction = uint (time_load_u32 stamp 4);
          era0 = seconds - ntp_unix_delta; era1 = seconds + ntp_era_seconds - ntp_unix_delta;
          candidate = (if in_window era1 then era1 else if in_window era0 then era0 else 0);
          matches = (if in_window era0 then 1 else 0) + (if in_window era1 then 1 else (0 :: int))
      in if matches \<noteq> 1 \<or> rtt_ns < 0 then Inl CN_TIME_TIME_RANGE
         else let nanos = drop_bit 32 (fraction * 1000000000) + rtt_ns div 2;
                  candidate = candidate + nanos div 1000000000;
                  nanos = nanos mod 1000000000
         in if candidate < time_release_min_unix \<or> candidate > time_target_max_unix then Inl CN_TIME_TIME_RANGE
            else Inr \<lparr>unix_seconds = candidate, nanoseconds = nanos,
                rtt_ms = of_int ((rtt_ns + 999999) div 1000000), time_server_index = 0\<rparr>)"

definition validate_response :: "bytes \<Rightarrow> bytes \<Rightarrow> int \<Rightarrow> cn_time_result + cn_time_sample" where
  "validate_response response request rtt_ns =
     (if length response \<noteq> sntp_packet_bytes then Inl CN_TIME_PACKET_SIZE
      else let leap = drop_bit 6 (response ! 0); version = drop_bit 3 (response ! 0) AND 7;
               mode = response ! 0 AND 7; stratum = response ! 1
      in if version \<noteq> 4 then Inl CN_TIME_VERSION
         else if mode \<noteq> 4 then Inl CN_TIME_MODE
         else if leap = 3 then Inl CN_TIME_UNSYNCHRONIZED
         else if stratum = 0 then Inl CN_TIME_KISS_OF_DEATH
         else if stratum > 15 then Inl CN_TIME_STRATUM
         else if take 8 (drop 24 response) \<noteq> take 8 (drop 40 request) then Inl CN_TIME_ORIGINATE_MISMATCH
         else if \<not> timestamp_nonzero (drop 32 response) then Inl CN_TIME_ZERO_RECEIVE
         else if \<not> timestamp_nonzero (drop 40 response) then Inl CN_TIME_ZERO_TRANSMIT
         else decode_transmit_time (drop 40 response) rtt_ns)"

section \<open>One server\<close>

function time_wait_for_socket :: "poll_event \<Rightarrow> int \<Rightarrow> network \<Rightarrow> readiness \<times> network" where
  "time_wait_for_socket event deadline_ns n = (case poll_timeout_ms deadline_ns n of (timeout, n) \<Rightarrow>
     if timeout = - 2 then (Wait_error, n)
     else if timeout < 0 then (Wait_timeout, n)
     else case sys_poll n of
       (Poll_timeout, n) \<Rightarrow> (Wait_timeout, n)
     | (Poll_error e, n) \<Rightarrow> if e = SOCKET_EINTR then time_wait_for_socket event deadline_ns n else (Wait_error, n)
     | (Poll_events revents, n) \<Rightarrow>
         if event \<in> revents then (Wait_ready, n)
         else if revents \<inter> {POLLERR, POLLHUP, POLLNVAL} \<noteq> {} then (Wait_error, n)
         else time_wait_for_socket event deadline_ns n)"
  by pat_completeness auto
termination
  by (relation "measure (\<lambda>(e, d, n). length (script n))")
    (auto dest!: poll_timeout_script[OF sym] poll_error_spends[OF sym] poll_ready_spends[OF sym])

declare time_wait_for_socket.simps [simp del]

lemma time_wait_step:
  assumes "poll_timeout_ms d n = (t, n1)" "sys_poll n1 = (a, n2)"
  shows "time_wait_for_socket v d n = (if t = - 2 then (Wait_error, n1) else if t < 0 then (Wait_timeout, n1) else case a of
       Poll_timeout \<Rightarrow> (Wait_timeout, n2)
     | Poll_error e \<Rightarrow> if e = SOCKET_EINTR then time_wait_for_socket v d n2 else (Wait_error, n2)
     | Poll_events revents \<Rightarrow>
         if v \<in> revents then (Wait_ready, n2)
         else if revents \<inter> {POLLERR, POLLHUP, POLLNVAL} \<noteq> {} then (Wait_error, n2)
         else time_wait_for_socket v d n2)"
  by (subst time_wait_for_socket.simps) (simp add: assms)

text \<open>Waiting sends nothing, and takes a reply of the script when it reports the socket ready.\<close>

lemma time_wait_effect:
  "time_wait_for_socket v d n = (r, n') \<Longrightarrow> listens n n' \<and> length (script n') \<le> length (script n) \<and>
     (r = Wait_ready \<longrightarrow> length (script n') < length (script n))"
proof (induction v d n rule: time_wait_for_socket.induct)
  case (1 v d n)
  obtain t n1 where t: "poll_timeout_ms d n = (t, n1)" by (cases "poll_timeout_ms d n")
  obtain a n2 where a: "sys_poll n1 = (a, n2)" by (cases "sys_poll n1")
  have l: "listens n n1" "listens n n2"
    using listens_call(6)[OF t] listens_trans[OF listens_call(6)[OF t] listens_call(2)[OF a]] .
  have k: "length (script n1) \<le> length (script n)" "length (script n2) \<le> length (script n1)"
    using poll_timeout_script[OF t] a script_spend[of n1] by (auto simp: sys_poll_def)
  note P = "1.prems"[unfolded time_wait_step[OF t a]]
  show ?case
  proof (cases "t < 0")
    case True
    then show ?thesis using P l k by (auto split: if_splits)
  next
    case f: False
    then have f2: "t \<noteq> - 2" by auto
    have again: ?thesis if w: "time_wait_for_socket v d n2 = (r, n')" and c: "a = Poll_error SOCKET_EINTR \<or>
        (\<exists>e. a = Poll_events e \<and> v \<notin> e \<and> e \<inter> {POLLERR, POLLHUP, POLLNVAL} = {})"
    proof -
      have "listens n2 n' \<and> length (script n') \<le> length (script n2) \<and> (r = Wait_ready \<longrightarrow> length (script n') < length (script n2))"
        using c "1.IH"(1)[OF t[symmetric] f2 f] "1.IH"(2)[OF t[symmetric] f2 f] a w by auto
      then show ?thesis using l(2) k listens_trans[of n n2 n'] by auto
    qed
    show ?thesis
    proof (cases a)
      case (Poll_events e)
      then show ?thesis using again P f f2 l k poll_ready_spends[of n1 e n2] a by (auto split: if_splits)
    next
      case (Poll_error e)
      then show ?thesis using again P f f2 l k by (auto split: if_splits)
    next
      case Poll_timeout
      then show ?thesis using P f f2 l k by simp
    qed
  qed
qed

text \<open>The loop that sends the request; the time just before it was accepted is kept.\<close>

function time_send :: "bytes \<Rightarrow> bytes \<times> nat \<Rightarrow> int \<Rightarrow> network \<Rightarrow> (cn_time_result + int) \<times> network" where
  "time_send request address deadline n = (case monotonic_ns n of
     (None, n) \<Rightarrow> (Inl CN_TIME_INTERNAL, n)
   | (Some send_time, n) \<Rightarrow> (case sys_sendto request address n of
       (Inr sent, n) \<Rightarrow> (if sent = length request then Inr send_time else Inl CN_TIME_SEND_FAILED, n)
     | (Inl e, n) \<Rightarrow>
         if e = SOCKET_EINTR then time_send request address deadline n
         else if e = EAGAIN then
           (case time_wait_for_socket POLLOUT deadline n of
              (Wait_timeout, n) \<Rightarrow> (Inl CN_TIME_TIMEOUT, n)
            | (Wait_error, n) \<Rightarrow> (Inl CN_TIME_SEND_FAILED, n)
            | (Wait_ready, n) \<Rightarrow> time_send request address deadline n)
         else (Inl CN_TIME_SEND_FAILED, n)))"
  by pat_completeness auto
termination
  by (relation "measure (\<lambda>(r, a, d, n). length (script n))")
    (auto simp: monotonic_ns_def dest!: clock_script[OF sym] sendto_error_spends[OF sym] time_wait_effect[OF sym])

declare time_send.simps [simp del]

function time_receive :: "bytes \<Rightarrow> bytes \<times> nat \<Rightarrow> int \<Rightarrow> int \<Rightarrow> network \<Rightarrow> (cn_time_result + cn_time_sample) \<times> network" where
  "time_receive request address send_time deadline n = (case time_wait_for_socket POLLIN deadline n of
     (Wait_timeout, n) \<Rightarrow> (Inl CN_TIME_TIMEOUT, n)
   | (Wait_error, n) \<Rightarrow> (Inl CN_TIME_RECV_FAILED, n)
   | (Wait_ready, n) \<Rightarrow> (case sys_recvfrom sntp_response_cap n of
       (Inl e, n) \<Rightarrow>
         if e = SOCKET_EINTR \<or> e = EAGAIN then time_receive request address send_time deadline n
         else (Inl CN_TIME_RECV_FAILED, n)
     | (Inr (response, peer), n) \<Rightarrow>
         if peer \<noteq> Some address then (Inl CN_TIME_PEER_MISMATCH, n)
         else (case monotonic_ns n of
             (None, n) \<Rightarrow> (Inl CN_TIME_INTERNAL, n)
           | (Some receive_time, n) \<Rightarrow> (validate_response response request (receive_time - send_time), n))))"
  by pat_completeness auto
termination
  by (relation "measure (\<lambda>(r, a, s, d, n). length (script n))")
    (auto dest!: time_wait_effect[OF sym] recvfrom_script[OF sym])

declare time_receive.simps [simp del]

definition time_query_server :: "bytes option \<Rightarrow> nat \<Rightarrow> nat \<Rightarrow> network \<Rightarrow> (cn_time_result + cn_time_sample) \<times> network" where
  "time_query_server server port' timeout_ms n = (case inet_pton server of
     None \<Rightarrow> (Inl CN_TIME_INVALID, n)
   | Some octets \<Rightarrow> (case build_request n of
       (Inl result, n) \<Rightarrow> (Inl result, n)
     | (Inr request, n) \<Rightarrow> (case monotonic_ns n of
         (None, n) \<Rightarrow> (Inl CN_TIME_INTERNAL, n)
       | (Some attempt_start, n) \<Rightarrow>
           let deadline = attempt_start + int timeout_ms * 1000000
           in case sys_socket n of
             (None, n) \<Rightarrow> (Inl CN_TIME_SOCKET_FAILED, n)
           | (Some fd, n) \<Rightarrow> (case sys_fcntl n of
               (False, n) \<Rightarrow> (Inl CN_TIME_SOCKET_FAILED, sys_close_socket fd n)
             | (True, n) \<Rightarrow> (case sys_fcntl n of
                 (False, n) \<Rightarrow> (Inl CN_TIME_SOCKET_FAILED, sys_close_socket fd n)
               | (True, n) \<Rightarrow> (case time_send request (octets, port') deadline n of
                   (Inl result, n) \<Rightarrow> (Inl result, sys_close_socket fd n)
                 | (Inr send_time, n) \<Rightarrow> (case time_receive request (octets, port') send_time deadline n of
                     (r, n) \<Rightarrow> (r, sys_close_socket fd n))))))))"

section \<open>All servers, and the clock\<close>

fun time_servers_loop :: "bytes option list \<Rightarrow> nat \<Rightarrow> cn_time_result \<Rightarrow> nat \<Rightarrow> nat \<Rightarrow> network \<Rightarrow>
    (cn_time_result + cn_time_sample) \<times> network" where
  "time_servers_loop [] i last' port' timeout_ms n = (Inl last', n)"
| "time_servers_loop (server # rest) i last' port' timeout_ms n = (case time_query_server server port' timeout_ms n of
     (Inr sample, n) \<Rightarrow> (Inr (sample\<lparr>time_server_index := i\<rparr>), n)
   | (Inl last', n) \<Rightarrow>
       if last' = CN_TIME_ENTROPY_FAILED \<or> last' = CN_TIME_INTERNAL then (Inl last', n)
       else time_servers_loop rest (i + 1) last' port' timeout_ms n)"

text \<open>\<open>out\<close> says that the pointer for the sample is not NULL; what is left there after a failure is not
  read by any caller.\<close>

definition cn_timesimple_query :: "cn_time_config option \<Rightarrow> bool \<Rightarrow> network \<Rightarrow> (cn_time_result + cn_time_sample) \<times> network" where
  "cn_timesimple_query config out n =
     (if config = None \<or> \<not> out \<or> time_server_count (the config) = 0 \<or> time_server_count (the config) > time_max_servers
      then (Inl CN_TIME_INVALID, n)
      else let c = the config;
               port' = (if time_port c \<noteq> 0 then time_port c else time_default_port);
               timeout_ms = (if time_timeout_ms c \<noteq> 0 then time_timeout_ms c else time_default_timeout_ms)
      in if port' > 65535 then (Inl CN_TIME_INVALID, n)
         else time_servers_loop (take (time_server_count c) (time_servers c)) 0 CN_TIME_INVALID port' timeout_ms n)"

definition cn_timesimple_sync :: "cn_time_config option \<Rightarrow> network \<Rightarrow> (cn_time_result + cn_time_sample) \<times> network" where
  "cn_timesimple_sync config n = (case cn_timesimple_query config True n of
     (Inl result, n) \<Rightarrow> (Inl result, n)
   | (Inr local, n) \<Rightarrow> (case sys_settime (unix_seconds local) (nanoseconds local) n of
       (False, n) \<Rightarrow> (Inl CN_TIME_CLOCK_SET_FAILED, n)
     | (True, n) \<Rightarrow> (Inr local, n)))"

section \<open>What a time exchange does\<close>

lemma window_eras: "in_window (s - ntp_unix_delta) \<Longrightarrow> 0 \<le> s \<Longrightarrow> \<not> in_window (s + ntp_era_seconds - ntp_unix_delta)"
  by (simp add: in_window_def ntp_unix_delta_def ntp_era_seconds_def time_release_min_unix_def time_target_max_unix_def)

definition time_sent :: "bytes \<times> nat \<Rightarrow> bytes \<Rightarrow> network \<Rightarrow> (cn_time_result + int) \<times> network \<Rightarrow> bool" where
  "time_sent a q n out \<longleftrightarrow> fst out \<noteq> Inl CN_TIME_OK \<and>
     (\<exists>ds. posts n ds (snd out) \<and> length ds \<le> 1 \<and> (\<forall>x \<in> set ds. fst x = a) \<and> (\<forall>t. fst out = Inr t \<longrightarrow> (a, q) \<in> set ds))"

lemma time_sent_later: "listens n n' \<Longrightarrow> time_sent a q n' out \<Longrightarrow> time_sent a q n out"
  using posts_listens(2) by (fastforce simp: time_sent_def)

lemma time_sent_nothing: "listens n n' \<Longrightarrow> r \<noteq> CN_TIME_OK \<Longrightarrow> time_sent a q n (Inl r, n')"
  by (auto simp: time_sent_def intro: exI[of _ "[]"])

lemma time_send_posts: "time_sent a q n (time_send q a d n)"
proof (induction q a d n rule: time_send.induct)
  case (1 q a d n)
  obtain t n1 where t: "monotonic_ns n = (t, n1)" by (cases "monotonic_ns n")
  obtain x n2 where x: "sys_sendto q a n1 = (x, n2)" by (cases "sys_sendto q a n1")
  obtain w n3 where w: "time_wait_for_socket POLLOUT d n2 = (w, n3)" by (cases "time_wait_for_socket POLLOUT d n2")
  have l1: "listens n n1" using listens_call(1)[of n t n1] t by (simp add: monotonic_ns_def)
  note S = time_send.simps[of q a d n, unfolded t prod.case x w]
  show ?case
  proof (cases t)
    case None
    then show ?thesis unfolding S using time_sent_nothing[OF l1] by simp
  next
    case (Some st)
    show ?thesis
    proof (cases x)
      case (Inr k)
      have "posts n1 [(a, take k q)] n2" using sendto_posts[of q a n1 k n2] x Inr by simp
      then have p: "posts n [(a, take k q)] n2" using posts_listens(2)[OF l1] by blast
      then show ?thesis unfolding S using Some Inr by (auto simp: time_sent_def intro: exI[of _ "[(a, take k q)]"])
    next
      case (Inl e)
      have l2: "listens n n2" using listens_trans[OF l1 sendto_listens[of q a n1 e n2]] x Inl by simp
      have l3: "listens n n3" using listens_trans[OF l2] time_wait_effect[OF w] by blast
      have a1: "e = SOCKET_EINTR \<Longrightarrow> time_sent a q n (time_send q a d n2)"
        using time_sent_later[OF l2] "1.IH"(1)[OF t[symmetric] Some] x Inl by simp
      have a2: "e \<noteq> SOCKET_EINTR \<Longrightarrow> e = EAGAIN \<Longrightarrow> w = Wait_ready \<Longrightarrow> time_sent a q n (time_send q a d n3)"
        using time_sent_later[OF l3] "1.IH"(2)[OF t[symmetric] Some] x w Inl by simp
      show ?thesis unfolding S using Some Inl a1 a2 time_sent_nothing[OF l2] time_sent_nothing[OF l3]
        by (cases "e = SOCKET_EINTR"; cases "e = EAGAIN"; cases w) simp_all
    qed
  qed
qed

text \<open>A response that is used: from the server, of the right length, echoing the time stamp of the request.\<close>

definition time_response :: "network \<Rightarrow> bytes \<times> nat \<Rightarrow> bytes \<Rightarrow> cn_time_sample \<Rightarrow> bool" where
  "time_response n a request sample \<longleftrightarrow> (\<exists>r \<in> set (script n). r_peer r = Some a \<and> length (r_data r) = 48 \<and>
     take 8 (drop 24 (r_data r)) = take 8 (drop 40 request) \<and>
     (\<exists>rtt. decode_transmit_time (drop 40 (r_data r)) rtt = Inr sample))"

definition time_received :: "bytes \<times> nat \<Rightarrow> bytes \<Rightarrow> network \<Rightarrow> (cn_time_result + cn_time_sample) \<times> network \<Rightarrow> bool" where
  "time_received a q n out \<longleftrightarrow> listens n (snd out) \<and> fst out \<noteq> Inl CN_TIME_OK \<and>
     (\<forall>sample. fst out = Inr sample \<longrightarrow> time_response n a q sample)"

lemma time_response_later: "set (script n') \<subseteq> set (script n) \<Longrightarrow> time_response n' a q sample \<Longrightarrow> time_response n a q sample"
  unfolding time_response_def by blast

lemma time_received_later: "listens n n' \<Longrightarrow> time_received a q n' out \<Longrightarrow> time_received a q n out"
  using listens_trans[of n n' "snd out"] time_response_later[of n' n] by (simp add: time_received_def listens_def)

lemma validate_response_Inr:
  "validate_response response request rtt = Inr sample \<Longrightarrow> length response = 48 \<and>
     take 8 (drop 24 response) = take 8 (drop 40 request) \<and> decode_transmit_time (drop 40 response) rtt = Inr sample"
  by (auto simp: validate_response_def sntp_packet_bytes_def Let_def split: if_splits)

lemma validate_response_Inl: "validate_response response request rtt \<noteq> Inl CN_TIME_OK"
  by (auto simp: validate_response_def decode_transmit_time_def Let_def)

lemma time_receive_ok: "time_received a q n (time_receive q a st d n)"
proof (induction q a st d n rule: time_receive.induct)
  case (1 q a st d n)
  obtain r n1 where r: "time_wait_for_socket POLLIN d n = (r, n1)" by (cases "time_wait_for_socket POLLIN d n")
  obtain x n2 where x: "sys_recvfrom sntp_response_cap n1 = (x, n2)" by (cases "sys_recvfrom sntp_response_cap n1")
  obtain c n3 where c: "monotonic_ns n2 = (c, n3)" by (cases "monotonic_ns n2")
  have l1: "listens n n1" using time_wait_effect[OF r] by blast
  have l2: "listens n n2" using listens_trans[OF l1 listens_call(4)[OF x]] .
  have l3: "listens n n3" using listens_trans[OF l2 listens_call(1)[of n2 c n3]] c by (simp add: monotonic_ns_def)
  have S: "time_receive q a st d n = (case r of Wait_timeout \<Rightarrow> (Inl CN_TIME_TIMEOUT, n1) | Wait_error \<Rightarrow> (Inl CN_TIME_RECV_FAILED, n1)
      | Wait_ready \<Rightarrow> (case x of
          Inl e \<Rightarrow> if e = SOCKET_EINTR \<or> e = EAGAIN then time_receive q a st d n2 else (Inl CN_TIME_RECV_FAILED, n2)
        | Inr (p, peer) \<Rightarrow> if peer \<noteq> Some a then (Inl CN_TIME_PEER_MISMATCH, n2)
            else (case c of None \<Rightarrow> (Inl CN_TIME_INTERNAL, n3) | Some rt \<Rightarrow> (validate_response p q (rt - st), n3))))"
    by (subst time_receive.simps) (cases r; cases x; cases c; simp add: r x c split: prod.split)
  have q: "listens n m \<Longrightarrow> e \<noteq> CN_TIME_OK \<Longrightarrow> time_received a q n (Inl e, m)" for m e by (simp add: time_received_def)
  show ?case
  proof (cases "r = Wait_ready")
    case True
    show ?thesis
    proof (cases x)
      case (Inl e)
      have "e = SOCKET_EINTR \<or> e = EAGAIN \<Longrightarrow> time_received a q n (time_receive q a st d n2)"
        using time_received_later[OF l2] "1.IH"[OF r[symmetric] True] x Inl by simp
      then show ?thesis unfolding S using True Inl q[OF l2] by simp
    next
      case (Inr y)
      obtain p peer where y: "y = (p, peer)" by (cases y)
      have v: "time_received a q n (validate_response p q (rt - st), n3)" if peer: "peer = Some a" for rt
      proof -
        have "time_response n a q sample" if v: "validate_response p q (rt - st) = Inr sample" for sample
        proof -
          note V = validate_response_Inr[OF v]
          obtain rep where rep: "rep \<in> set (script n1)" "r_peer rep = Some a" "p = take 49 (r_data rep)"
            using recvfrom_reply[of sntp_response_cap n1 p a n2] x Inr y peer
            by (auto simp: sntp_response_cap_def sntp_packet_bytes_def)
          have "p = r_data rep" using rep(3) V by (simp add: min_def split: if_splits)
          then show ?thesis using rep(1,2) V l1 unfolding time_response_def listens_def by blast
        qed
        then show ?thesis using l3 validate_response_Inl by (auto simp: time_received_def)
      qed
      show ?thesis unfolding S using True Inr y v q[OF l2] q[OF l3] by (cases c) auto
    qed
  next
    case False
    then show ?thesis unfolding S using q[OF l1] by (cases r) simp_all
  qed
qed

lemma fraction_loop_listens: "listens n (snd (fraction_loop got n))"
proof (induction got n rule: fraction_loop.induct)
  case (1 got n)
  obtain x n1 where x: "sys_read_random (4 - length got) n = (x, n1)" by (cases "sys_read_random (4 - length got) n")
  have l: "listens n n1" using listens_call(5)[OF x] .
  have a: "listens n (snd (fraction_loop (got @ b) n1))" if "\<not> length got \<ge> 4" "x = Inr b" "b \<noteq> []" for b
    using listens_trans[OF l] "1.IH"(2)[OF that(1) x[symmetric] that(2,3)] .
  have b: "listens n (snd (fraction_loop got n1))" if "\<not> length got \<ge> 4" "x = Inl SOCKET_EINTR"
    using listens_trans[OF l] "1.IH"(1)[OF that(1) x[symmetric] that(2) refl] .
  show ?case using l a b by (subst fraction_loop.simps) (auto simp: x split: sum.split)
qed

lemma build_request_returns: "wf_net n \<Longrightarrow> build_request n = (r, n') \<Longrightarrow> returns n [] n' \<and> r \<noteq> Inl CN_TIME_OK"
proof -
  assume wf: "wf_net n" and b: "build_request n = (r, n')"
  obtain c n1 where c: "sys_clock n = (c, n1)" by (cases "sys_clock n")
  have r1: "returns n [] n1" using listens_returns[OF listens_call(1)[OF c]] .
  have wf1: "wf_net n1" using returns_wf[OF r1 wf] .
  obtain fd n2 where fd: "sys_socket n1 = (fd, n2)" by (cases "sys_socket n1")
  have e: "returns n1 [] (snd (read_fraction_entropy n1))"
    using socket_refused[of n1 n2] socket_returns[of n1 "the fd" n2 "[]" "snd (fraction_loop [] n2)"] wf1 fraction_loop_listens fd
    by (cases fd) (simp_all add: read_fraction_entropy_def sys_open_random_def case_prod_beta)
  show ?thesis using b r1 returns_trans[OF r1 e] c by (auto simp: build_request_def split: option.splits prod.splits)
qed

definition time_answered :: "network \<Rightarrow> bytes option \<Rightarrow> nat \<Rightarrow> ((bytes \<times> nat) \<times> bytes) list \<Rightarrow> cn_time_sample \<Rightarrow> bool" where
  "time_answered n server p ds sample \<longleftrightarrow> (\<exists>octets request. inet_pton server = Some octets \<and> ((octets, p), request) \<in> set ds \<and>
     time_response n (octets, p) request sample)"

lemma time_query_server_effect:
  assumes "wf_net n" "time_query_server server p t n = (r, n')"
  shows "\<exists>ds. returns n ds n' \<and> length ds \<le> 1 \<and> (\<forall>x \<in> set ds. \<exists>octets. inet_pton server = Some octets \<and> fst x = (octets, p)) \<and>
    r \<noteq> Inl CN_TIME_OK \<and> (\<forall>sample. r = Inr sample \<longrightarrow> time_answered n server p ds sample)"
proof (cases "inet_pton server")
  case None
  then show ?thesis using assms by (intro exI[of _ "[]"]) (auto simp: time_query_server_def)
next
  case (Some octets)
  obtain b n1 where b: "build_request n = (b, n1)" by (cases "build_request n")
  have r1: "returns n [] n1" and no: "b \<noteq> Inl CN_TIME_OK" using build_request_returns[OF assms(1) b] by simp_all
  show ?thesis
  proof (cases b)
    case (Inl e)
    then show ?thesis using assms no r1 by (intro exI[of _ "[]"]) (auto simp: time_query_server_def Some b)
  next
    case (Inr q)
    obtain c n2 where c: "monotonic_ns n1 = (c, n2)" by (cases "monotonic_ns n1")
    have r2: "returns n [] n2" using returns_trans[OF r1 listens_returns[OF listens_call(1)[of n1]]] c by (simp add: monotonic_ns_def)
    have wf2: "wf_net n2" using returns_wf[OF r2 assms(1)] .
    obtain fd n3 where fd: "sys_socket n2 = (fd, n3)" by (cases "sys_socket n2")
    obtain g n4 where g: "sys_fcntl n3 = (g, n4)" by (cases "sys_fcntl n3")
    obtain g' n5 where g': "sys_fcntl n4 = (g', n5)" by (cases "sys_fcntl n4")
    have l4: "listens n3 n4" using listens_call(3)[OF g] .
    have l5: "listens n3 n5" using listens_trans[OF l4 listens_call(3)[OF g']] .
    define d where "d = the c + int t * 1000000"
    obtain s n6 where s: "time_send q (octets, p) d n5 = (s, n6)" by (cases "time_send q (octets, p) d n5")
    define st where "st = (case s of Inr st \<Rightarrow> st | _ \<Rightarrow> 0)"
    obtain out n7 where o': "time_receive q (octets, p) st d n6 = (out, n7)" by (cases "time_receive q (octets, p) st d n6")
    obtain ds where ds: "posts n5 ds n6" "length ds \<le> 1" "\<forall>x \<in> set ds. fst x = (octets, p)" "\<And>t. s = Inr t \<Longrightarrow> ((octets, p), q) \<in> set ds"
      and sno: "s \<noteq> Inl CN_TIME_OK"
      using time_send_posts[of "(octets, p)" q n5 d] by (auto simp: s time_sent_def)
    have R: "listens n6 n7" "out \<noteq> Inl CN_TIME_OK" "\<And>sample. out = Inr sample \<Longrightarrow> time_response n6 (octets, p) q sample"
      using time_receive_ok[of "(octets, p)" q n6 st d] by (auto simp: o' time_received_def)
    have E: "(r, n') = (case c of None \<Rightarrow> (Inl CN_TIME_INTERNAL, n2)
        | Some start \<Rightarrow> (case fd of None \<Rightarrow> (Inl CN_TIME_SOCKET_FAILED, n3)
          | Some fd \<Rightarrow> if \<not> g then (Inl CN_TIME_SOCKET_FAILED, sys_close_socket fd n4)
             else if \<not> g' then (Inl CN_TIME_SOCKET_FAILED, sys_close_socket fd n5)
             else (case s of Inl e \<Rightarrow> (Inl e, sys_close_socket fd n6) | Inr _ \<Rightarrow> (out, sys_close_socket fd n7))))"
      using assms(2) Inr s o'
      by (cases c; cases fd; cases g; cases g'; cases s) (simp_all add: time_query_server_def Some b c fd g g' Let_def d_def st_def)
    show ?thesis
    proof (cases "c = None \<or> fd = None \<or> \<not> g \<or> \<not> g'")
      case True
      have quiet: "returns n [] n' \<Longrightarrow> r = Inl e \<Longrightarrow> e \<noteq> CN_TIME_OK \<Longrightarrow> ?thesis" for e by (intro exI[of _ "[]"]) simp
      have "returns n [] n3" if "fd = None" using returns_trans[OF r2 socket_refused[of n2 n3]] fd that by simp
      moreover have "returns n [] (sys_close_socket f m)" if "fd = Some f" "listens n3 m" for f m
        using returns_trans[OF r2 socket_returns[of n2 f n3 "[]" m]] fd that wf2 by simp
      ultimately show ?thesis using E True quiet r2 l4 l5 by (auto split: option.splits if_splits)
    next
      case False
      then obtain f st' where f: "fd = Some f" "c = Some st'" "g" "g'" by auto
      have p6: "posts n3 ds n6" and p7: "posts n3 ds n7"
        using posts_listens(2)[OF l5 ds(1)] posts_listens(1)[OF _ R(1)] by blast+
      have shut: "returns n ds (sys_close_socket f m)" if "posts n3 ds m" for m
        using returns_trans[OF r2 socket_returns[of n2 f n3 ds m]] fd f wf2 that by simp
      have "set (script n6) \<subseteq> set (script n3)" using p6 by (simp add: posts_def listens_def)
      then have sub: "set (script n6) \<subseteq> set (script n)"
        using r2 socket_replies[OF fd] unfolding returns_def by blast
      have "time_answered n server p ds sample" if "s = Inr v" "out = Inr sample" for v sample
        unfolding time_answered_def using ds(4)[OF that(1)] time_response_later[OF sub R(3)[OF that(2)]] Some by blast
      then show ?thesis using E f shut[OF p6] shut[OF p7] ds(2,3) Some sno R(2)
        by (intro exI[of _ ds]) (cases s; simp)
    qed
  qed
qed

lemma time_servers_loop_effect:
  "wf_net n \<Longrightarrow> time_servers_loop servers i last' p t n = (r, n') \<Longrightarrow> last' \<noteq> CN_TIME_OK \<Longrightarrow>
   \<exists>ds. returns n ds n' \<and> length ds \<le> length servers \<and>
     (\<forall>x \<in> set ds. \<exists>server \<in> set servers. \<exists>octets. inet_pton server = Some octets \<and> fst x = (octets, p)) \<and>
     r \<noteq> Inl CN_TIME_OK \<and>
     (\<forall>sample. r = Inr sample \<longrightarrow> i \<le> time_server_index sample \<and> time_server_index sample < i + length servers \<and>
        (\<exists>k. time_answered n (servers ! (time_server_index sample - i)) p ds (sample\<lparr>time_server_index := k\<rparr>)))"
proof (induction servers arbitrary: i last' n)
  case (Cons server rest)
  obtain r1 n1 where q: "time_query_server server p t n = (r1, n1)" by (cases "time_query_server server p t n")
  obtain ds where ds: "returns n ds n1" "length ds \<le> 1" "\<forall>x \<in> set ds. \<exists>octets. inet_pton server = Some octets \<and> fst x = (octets, p)"
    "r1 \<noteq> Inl CN_TIME_OK" "\<And>sample. r1 = Inr sample \<Longrightarrow> time_answered n server p ds sample"
    using time_query_server_effect[OF Cons.prems(1) q] by blast
  show ?case
  proof (cases "\<exists>e. r1 = Inl e \<and> e \<noteq> CN_TIME_ENTROPY_FAILED \<and> e \<noteq> CN_TIME_INTERNAL")
    case False
    show ?thesis
    proof (cases r1)
      case (Inl e)
      then show ?thesis using False Cons.prems(2) q ds by (intro exI[of _ ds]) auto
    next
      case (Inr s)
      then have r: "r = Inr (s\<lparr>time_server_index := i\<rparr>)" "n' = n1" using Cons.prems(2) q by auto
      have "\<exists>k. time_answered n server p ds (s\<lparr>time_server_index := k\<rparr>)"
        using ds(5)[OF Inr] by (intro exI[of _ "time_server_index s"]) simp
      then show ?thesis using r ds(1-3) by (intro exI[of _ ds]) auto
    qed
  next
    case True
    then obtain e where e: "r1 = Inl e" "e \<noteq> CN_TIME_ENTROPY_FAILED" "e \<noteq> CN_TIME_INTERNAL" by blast
    then have l: "time_servers_loop rest (i + 1) e p t n1 = (r, n')" "e \<noteq> CN_TIME_OK" using Cons.prems(2) q ds(4) by auto
    obtain es where es: "returns n1 es n'" "length es \<le> length rest"
      "\<forall>x \<in> set es. \<exists>server \<in> set rest. \<exists>octets. inet_pton server = Some octets \<and> fst x = (octets, p)" "r \<noteq> Inl CN_TIME_OK"
      "\<forall>sample. r = Inr sample \<longrightarrow> i + 1 \<le> time_server_index sample \<and> time_server_index sample < i + 1 + length rest \<and>
        (\<exists>k. time_answered n1 (rest ! (time_server_index sample - (i + 1))) p es (sample\<lparr>time_server_index := k\<rparr>))"
      using Cons.IH[OF returns_wf[OF ds(1) Cons.prems(1)] l] by blast
    have sub: "set (script n1) \<subseteq> set (script n)" using ds(1) by (simp add: returns_def)
    have up: "time_answered n1 s p es a \<Longrightarrow> time_answered n s p (ds @ es) a" for s a
      using time_response_later[OF sub] by (fastforce simp: time_answered_def)
    have idx: "i + 1 \<le> k \<Longrightarrow> (server # rest) ! (k - i) = rest ! (k - (i + 1))" for k by (simp add: nth_Cons')
    have len: "length (ds @ es) \<le> length (server # rest)" using ds(2) es(2) by simp
    have addr: "\<forall>x \<in> set (ds @ es). \<exists>s \<in> set (server # rest). \<exists>octets. inet_pton s = Some octets \<and> fst x = (octets, p)"
      using ds(3) es(3) by auto
    show ?thesis using returns_trans[OF ds(1) es(1)] len addr es(4,5) up idx
      by (intro exI[of _ "ds @ es"]) (auto; metis)
  qed
qed (auto intro: exI[of _ "[]"])

section \<open>Properties\<close>

lemma mixed_radix:
  "u * 1000000000 + v = b * 1000000000 + x \<and> 0 \<le> v \<and> v < 1000000000 \<longleftrightarrow>
     u = b + x div 1000000000 \<and> v = x mod (1000000000 :: int)"
proof
  assume a: "u * 1000000000 + v = b * 1000000000 + x \<and> 0 \<le> v \<and> v < 1000000000"
  then have x: "x = v + (u - b) * 1000000000" by simp
  have v: "v div 1000000000 = 0" "v mod 1000000000 = v" using a by (simp_all add: div_pos_pos_trivial mod_pos_pos_trivial)
  have "x div 1000000000 = (u - b) + v div 1000000000" unfolding x by (rule div_mult_self1) simp
  moreover have "x mod 1000000000 = v mod 1000000000" unfolding x by (rule mod_mult_self1)
  ultimately show "u = b + x div 1000000000 \<and> v = x mod 1000000000" using v by simp
next
  assume "u = b + x div 1000000000 \<and> v = x mod 1000000000"
  then show "u * 1000000000 + v = b * 1000000000 + x \<and> 0 \<le> v \<and> v < 1000000000"
    using div_mult_mod_eq[of x 1000000000] by simp
qed

text \<open>C29. A transmit time stamp is turned into the one time it can mean: the era of the 64-bit NTP time is the
  one that falls into the window from the release of the program to the end of 32-bit time, the fraction is
  rounded down to nanoseconds, half the round trip is added with its carry, and a time that leaves the
  window is refused.  A sample is accepted exactly then.\<close>

theorem sntp_time_is_decoded_exactly:
  "decode_transmit_time stamp rtt = Inr sample \<longleftrightarrow>
     (\<exists>base \<in> {uint (time_load_u32 stamp 0) - 2208988800, uint (time_load_u32 stamp 0) + 2 ^ 32 - 2208988800}.
        1789908147 \<le> base \<and> base \<le> 2147483647 \<and> 0 \<le> rtt \<and>
        unix_seconds sample \<le> 2147483647 \<and> 0 \<le> nanoseconds sample \<and> nanoseconds sample < 10 ^ 9 \<and>
        unix_seconds sample * 10 ^ 9 + nanoseconds sample =
          base * 10 ^ 9 + (uint (time_load_u32 stamp 4) * 10 ^ 9 div 2 ^ 32 + rtt div 2) \<and>
        rtt_ms sample = of_int ((rtt + 999999) div 10 ^ 6) \<and> time_server_index sample = 0)"
proof -
  define s where "s = uint (time_load_u32 stamp 0)"
  define f where "f = uint (time_load_u32 stamp 4)"
  have s0: "0 \<le> s" "0 \<le> f" by (simp_all add: s_def f_def)
  define x where "x = f * 1000000000 div 4294967296 + rtt div 2"
  have d: "drop_bit 32 (f * 1000000000) = f * 1000000000 div 4294967296" by (simp add: drop_bit_eq_div)
  have x0: "0 \<le> x" if "0 \<le> rtt" using that s0 by (simp add: x_def)
  define R where "R b \<longleftrightarrow> 1789908147 \<le> b \<and> b \<le> 2147483647 \<and> 0 \<le> rtt \<and>
        unix_seconds sample \<le> 2147483647 \<and> 0 \<le> nanoseconds sample \<and> nanoseconds sample < 1000000000 \<and>
        unix_seconds sample * 1000000000 + nanoseconds sample = b * 1000000000 + x \<and>
        rtt_ms sample = of_int ((rtt + 999999) div 1000000) \<and> time_server_index sample = 0" for b
  have sum_eq: "R b \<longleftrightarrow> in_window b \<and> 0 \<le> rtt \<and> in_window (b + x div 1000000000) \<and> sample = \<lparr>unix_seconds = b + x div 1000000000,
      nanoseconds = x mod 1000000000, rtt_ms = of_int ((rtt + 999999) div 1000000), time_server_index = 0\<rparr>" for b
    using x0 mixed_radix[of "unix_seconds sample" "nanoseconds sample" b x]
    by (cases sample) (auto simp: R_def in_window_def time_release_min_unix_def time_target_max_unix_def)
  define e0 where "e0 = s - ntp_unix_delta"
  define e1 where "e1 = s + ntp_era_seconds - ntp_unix_delta"
  have one: "in_window e0 \<Longrightarrow> \<not> in_window e1" using window_eras[OF _ s0(1)] by (simp add: e0_def e1_def)
  have W: "t < time_release_min_unix \<or> t > time_target_max_unix \<longleftrightarrow> \<not> in_window t" for t by (auto simp: in_window_def)
  have dec: "decode_transmit_time stamp rtt = (if in_window e0 \<or> in_window e1 then
      (let b = (if in_window e1 then e1 else e0) in
       if rtt < 0 \<or> \<not> in_window (b + x div 1000000000) then Inl CN_TIME_TIME_RANGE
       else Inr \<lparr>unix_seconds = b + x div 1000000000, nanoseconds = x mod 1000000000,
          rtt_ms = of_int ((rtt + 999999) div 1000000), time_server_index = 0\<rparr>) else Inl CN_TIME_TIME_RANGE)"
    using one unfolding decode_transmit_time_def Let_def s_def[symmetric] f_def[symmetric] d x_def[symmetric]
      e0_def[symmetric] e1_def[symmetric] W
    by (cases "in_window e0"; cases "in_window e1") simp_all
  have D: "decode_transmit_time stamp rtt = Inr sample \<longleftrightarrow> R e0 \<or> R e1"
    using one unfolding dec sum_eq Let_def by (cases "in_window e0"; cases "in_window e1") auto
  have p: "(10 :: int) ^ 9 = 1000000000" "(2 :: int) ^ 32 = 4294967296" "(10 :: int) ^ 6 = 1000000" by simp_all
  show ?thesis unfolding p D R_def e0_def e1_def s_def f_def x_def ntp_unix_delta_def ntp_era_seconds_def by blast
qed

lemma decoded_in_window:
  "decode_transmit_time stamp rtt = Inr sample \<Longrightarrow> 1789908147 \<le> unix_seconds sample \<and> unix_seconds sample \<le> 2147483647 \<and>
     0 \<le> nanoseconds sample \<and> nanoseconds sample < 10 ^ 9"
  by (auto simp: decode_transmit_time_def Let_def time_release_min_unix_def time_target_max_unix_def split: if_splits)

text \<open>C30. The clock is set only by a trusted exchange.  Either it stays as it was and an error is reported, or
  it is set to the time of the sample that is returned, inside the window, and that time comes from a
  datagram of 48 bytes from the address and port of a configured server to which a request was sent, and
  echoes the time stamp of that request.  At most one request goes to each server, nothing else is sent, and
  no descriptor stays open.\<close>

theorem clock_is_set_only_by_an_answer:
  assumes "wf_net n" "cn_timesimple_sync config n = (r, n')"
  shows "sockets n' = sockets n \<and> outgoing n' = outgoing n \<and> r \<noteq> Inl CN_TIME_OK \<and>
    (\<exists>ds p. datagrams n' = datagrams n @ ds \<and> length ds \<le> time_server_count (the config) \<and>
      (\<forall>x \<in> set ds. \<exists>server \<in> set (time_servers (the config)). \<exists>octets. inet_pton server = Some octets \<and> fst x = (octets, p)) \<and>
      (case r of Inl e \<Rightarrow> wall_clock n' = wall_clock n
       | Inr sample \<Rightarrow> wall_clock n' = Some (unix_seconds sample, nanoseconds sample) \<and>
           1789908147 \<le> unix_seconds sample \<and> unix_seconds sample \<le> 2147483647 \<and>
           0 \<le> nanoseconds sample \<and> nanoseconds sample < 10 ^ 9 \<and>
           time_server_index sample < time_server_count (the config) \<and>
           (\<exists>k. time_answered n (time_servers (the config) ! time_server_index sample) p ds (sample\<lparr>time_server_index := k\<rparr>))))"
proof -
  have quiet: ?thesis if "r = Inl e" "e \<noteq> CN_TIME_OK" "n' = n" for e
    using that by (auto intro!: exI[of _ "[]"])
  obtain q n1 where q: "cn_timesimple_query config True n = (q, n1)" by (cases "cn_timesimple_query config True n")
  define servers where "servers = take (time_server_count (the config)) (time_servers (the config))"
  show ?thesis
  proof (cases "\<exists>p t. time_servers_loop servers 0 CN_TIME_INVALID p t n = (q, n1)")
    case False
    then have "q = Inl CN_TIME_INVALID" "n1 = n" using q
      by (auto simp: cn_timesimple_query_def Let_def servers_def split: if_splits)
    then have "r = Inl CN_TIME_INVALID" "n' = n" using assms(2) q by (auto simp: cn_timesimple_sync_def)
    then show ?thesis using quiet[of CN_TIME_INVALID] by blast
  next
    case True
    then obtain p t where l: "time_servers_loop servers 0 CN_TIME_INVALID p t n = (q, n1)" by blast
    obtain ds where ds: "returns n ds n1" "length ds \<le> length servers"
      "\<forall>x \<in> set ds. \<exists>server \<in> set servers. \<exists>octets. inet_pton server = Some octets \<and> fst x = (octets, p)" "q \<noteq> Inl CN_TIME_OK"
      "\<And>sample. q = Inr sample \<Longrightarrow> time_server_index sample < length servers \<and>
        (\<exists>k. time_answered n (servers ! time_server_index sample) p ds (sample\<lparr>time_server_index := k\<rparr>))"
      using time_servers_loop_effect[OF assms(1) l] by auto
    have len: "length ds \<le> time_server_count (the config)" using ds(2) by (simp add: servers_def)
    have to: "\<forall>x \<in> set ds. \<exists>server \<in> set (time_servers (the config)). \<exists>octets. inet_pton server = Some octets \<and> fst x = (octets, p)"
      using ds(3) set_take_subset[of "time_server_count (the config)" "time_servers (the config)"] unfolding servers_def by blast
    have ok: "time_server_index sample < time_server_count (the config) \<and>
        (\<exists>k. time_answered n (time_servers (the config) ! time_server_index sample) p ds (sample\<lparr>time_server_index := k\<rparr>)) \<and>
        1789908147 \<le> unix_seconds sample \<and> unix_seconds sample \<le> 2147483647 \<and> 0 \<le> nanoseconds sample \<and> nanoseconds sample < 10 ^ 9"
      if "q = Inr sample" for sample
    proof -
      from ds(5)[OF that] obtain k where k: "time_answered n (servers ! time_server_index sample) p ds (sample\<lparr>time_server_index := k\<rparr>)"
        "time_server_index sample < length servers" by blast
      obtain stamp rtt where "decode_transmit_time stamp rtt = Inr (sample\<lparr>time_server_index := k\<rparr>)"
        using k(1) by (auto simp: time_answered_def time_response_def)
      from decoded_in_window[OF this] show ?thesis using k by (auto simp: servers_def)
    qed
    have same: "sockets n1 = sockets n" "outgoing n1 = outgoing n" "datagrams n1 = datagrams n @ ds" "wall_clock n1 = wall_clock n"
      using ds(1) by (simp_all add: returns_def)
    have set: "sockets (snd (sys_settime a b n1)) = sockets n" "outgoing (snd (sys_settime a b n1)) = outgoing n"
      "datagrams (snd (sys_settime a b n1)) = datagrams n @ ds"
      "wall_clock (snd (sys_settime a b n1)) = (if fst (sys_settime a b n1) then Some (a, b) else wall_clock n)" for a b
      using same by (simp_all add: sys_settime_def spend_def)
    show ?thesis
    proof (cases q)
      case (Inl e)
      then have "r = Inl e" "n' = n1" "e \<noteq> CN_TIME_OK" using assms(2) q ds(4) by (auto simp: cn_timesimple_sync_def)
      then show ?thesis using same len to by (intro conjI exI[of _ ds] exI[of _ p]) simp_all
    next
      case (Inr sample)
      obtain b n2 where b: "sys_settime (unix_seconds sample) (nanoseconds sample) n1 = (b, n2)" by (cases "sys_settime (unix_seconds sample) (nanoseconds sample) n1")
      have r: "r = (if b then Inr sample else Inl CN_TIME_CLOCK_SET_FAILED)" "n' = n2"
        using assms(2) q Inr b by (auto simp: cn_timesimple_sync_def split: bool.splits)
      show ?thesis using r set[of "unix_seconds sample" "nanoseconds sample", unfolded b] len to ok[OF Inr]
        by (intro conjI exI[of _ ds] exI[of _ p]) (cases b; simp)+
    qed
  qed
qed

definition sample_time_response :: bytes where
  "sample_time_response = [0x24, 1] @ replicate 22 0 @ [131, 170, 126, 128, 1, 2, 3, 4] @ [1, 0, 0, 0, 0, 0, 0, 0] @ [238, 244, 80, 128, 0, 0, 0, 0]"

definition sample_time_config :: cn_time_config where
  "sample_time_config = \<lparr>time_servers = [Some (str ''9.9.9.9'')], time_server_count = 1, time_port = 0, time_timeout_ms = 0\<rparr>"

definition ready_reply :: reply where
  "ready_reply = last_reply\<lparr>r_timeout := False\<rparr>"

definition sample_time_replies :: "reply list" where
  "sample_time_replies = [ready_reply, ready_reply, ready_reply\<lparr>r_data := [1, 2, 3, 4]\<rparr>, ready_reply, ready_reply, ready_reply, ready_reply,
     ready_reply, ready_reply\<lparr>r_count := 48\<rparr>, ready_reply, ready_reply\<lparr>r_events := {POLLIN}\<rparr>,
     ready_reply\<lparr>r_data := sample_time_response, r_peer := Some ([9, 9, 9, 9], 123)\<rparr>, ready_reply, ready_reply]"

lemma sample_time_validates:
  "validate_response sample_time_response (request_packet 0 [1, 2, 3, 4]) 0 =
     Inr \<lparr>unix_seconds = 1800000000, nanoseconds = 0, rtt_ms = 0, time_server_index = 0\<rparr>"
  by (simp add: validate_response_def sample_time_response_def request_packet_def time_store_u32_def ntp_unix_delta_def sntp_packet_bytes_def
      timestamp_nonzero_def decode_transmit_time_def time_load_u32_def ntp_era_seconds_def in_window_def time_release_min_unix_def
      time_target_max_unix_def Let_def)

lemma clock_is_set_only_by_an_answer_witness:
  "\<exists>n' sample. cn_timesimple_sync (Some sample_time_config) (idle_network sample_time_replies) = (Inr sample, n') \<and>
     wall_clock n' = Some (1800000000, 0) \<and> sockets n' = {}"
proof -
  have p: "inet_pton (Some (str ''9.9.9.9'')) = Some [9, 9, 9, 9]"
    by (simp add: inet_pton_def pton_octet_def decimal_byte_def decimal_value_def)
  have l: "length (request_packet 0 [1, 2, 3, 4]) = 48" "length sample_time_response = 48"
    by (simp_all add: request_packet_def time_store_u32_def sample_time_response_def)
  note sys = sys_open_random_def sys_socket_def sys_read_random_def sys_recv_def sys_close_socket_def sys_clock_def sys_fcntl_def
    sys_poll_def sys_sendto_def sys_recvfrom_def monotonic_ns_def poll_timeout_ms_def next_reply_def spend_def last_reply_def ready_reply_def
    sys_settime_def
  have e: "\<exists>n'. cn_timesimple_sync (Some sample_time_config) (idle_network sample_time_replies) =
     (Inr \<lparr>unix_seconds = 1800000000, nanoseconds = 0, rtt_ms = 0, time_server_index = 0\<rparr>, n')"
    using p l sample_time_validates
    by (simp add: cn_timesimple_sync_def cn_timesimple_query_def sample_time_config_def time_max_servers_def time_default_port_def
        time_default_timeout_ms_def time_query_server_def build_request_def read_fraction_entropy_def fraction_loop.simps sys Let_def
        idle_network_def sample_time_replies_def time_send.simps time_receive.simps time_wait_for_socket.simps sntp_response_cap_def
        sntp_packet_bytes_def int_max_def)
  then obtain n' where n': "cn_timesimple_sync (Some sample_time_config) (idle_network sample_time_replies) =
     (Inr \<lparr>unix_seconds = 1800000000, nanoseconds = 0, rtt_ms = 0, time_server_index = 0\<rparr>, n')" by blast
  have "wf_net (idle_network sample_time_replies)" by (simp add: wf_net_def idle_network_def)
  from clock_is_set_only_by_an_answer[OF this n'] n' show ?thesis by (auto simp: idle_network_def)
qed

end
