(* ===== verification/Kosync_Sync.thy ===== *)
theory Kosync_Sync
  imports Kosync_Client Kosync_Policy Book_Identity Koreader_Identity Progress_Store Dns_Resolve Time_Sync
begin

text \<open>
  One synchronisation of one book: src/sync/kosync_sync.c decides between the local record and the
  server's, src/sync/kosync_pull.c overwrites the local record, src/sync/kosync_push.c uploads it.

  The state of a run is the operating system of Posix, for the record files and memory, and the network
  of Sockets, for the clock, name resolution and the exchanges.  Pointers that the code compares with NULL
  are options.  The three configurations of the source share their first members; that of a pull is
  the record the others extend.  Memory that the code clears or frees at the end is not kept.
\<close>

record cn_kosync_pull_config =
  cfg_document_path :: "bytes option"
  cfg_progress_store :: "cn_progress_store option"
  cfg_time_policy :: "cn_kosync_sync_time_policy enum_value"
  cfg_time :: "cn_time_config option"
  cfg_dns :: "cn_dns_config option"
  cfg_tls :: "cn_tls_config option"
  cfg_client :: "cn_kosync_client option"

record cn_kosync_sync_config = cn_kosync_pull_config +
  cfg_device :: "bytes option"
  cfg_device_id :: "bytes option"

type_synonym cn_kosync_push_config = cn_kosync_sync_config

section \<open>What the three have in common\<close>

text \<open>The part of the check of a configuration that all three share.\<close>

definition session_config_ok :: "'a cn_kosync_pull_config_scheme \<Rightarrow> bool" where
  "session_config_ok config \<longleftrightarrow> \<not> (cfg_document_path config = None \<or> cfg_progress_store config = None \<or>
     cfg_dns config = None \<or> cfg_tls config = None \<or> cfg_client config = None \<or> \<not> use_tls (the (cfg_client config)) \<or>
     (cfg_time_policy config \<noteq> Known CN_KOSYNC_SYNC_TIME_ESTABLISH \<and>
      cfg_time_policy config \<noteq> Known CN_KOSYNC_SYNC_TIME_CALLER_ESTABLISHED) \<or>
     (cfg_time_policy config = Known CN_KOSYNC_SYNC_TIME_ESTABLISH \<and>
      (cfg_time config = None \<or> own_clock (the (cfg_tls config)))))"

definition establish_time :: "'a cn_kosync_pull_config_scheme \<Rightarrow> network \<Rightarrow> cn_time_result \<times> network" where
  "establish_time config n =
     (if cfg_time_policy config = Known CN_KOSYNC_SYNC_TIME_ESTABLISH
      then (case cn_timesimple_sync (cfg_time config) n of (r, n) \<Rightarrow> (case r of Inl e \<Rightarrow> e | Inr _ \<Rightarrow> CN_TIME_OK, n))
      else (CN_TIME_OK, n))"

text \<open>Resolving the host of the client; an answer without an address is \<open>NO_ADDRESS\<close>.\<close>

definition resolve_client :: "'a cn_kosync_pull_config_scheme \<Rightarrow> network \<Rightarrow> (cn_dns_result \<times> cn_dns_answer) \<times> network" where
  "resolve_client config n =
     (case cn_dnssimple_resolve_a (cfg_dns config) (Some (client_host (the (cfg_client config)))) (Some empty_answer) n of
        ((r, answer), n) \<Rightarrow>
          ((if r = CN_DNS_OK \<and> length (ipv4 (the answer)) = 0 then CN_DNS_NO_ADDRESS else r, the answer), n))"

text \<open>How far the way to the server came: the clock, name resolution, and the copy of the client with
  TLS and the address.\<close>

datatype session = Untrusted_time cn_time_result | Unresolved cn_dns_result | Session cn_kosync_result cn_kosync_client

definition open_session :: "'a cn_kosync_pull_config_scheme \<Rightarrow> network \<Rightarrow> session \<times> network" where
  "open_session config n = (case establish_time config n of (t, n) \<Rightarrow>
     if t \<noteq> CN_TIME_OK then (Untrusted_time t, n)
     else case resolve_client config n of ((d, answer), n) \<Rightarrow>
       if d \<noteq> CN_DNS_OK then (Unresolved d, n)
       else (case cn_kosync_client_set_tls (cfg_client config) (cfg_tls config) (Some (ipv4 answer ! 0)) of
               (k, client) \<Rightarrow> (Session k (the client), n)))"

definition blank_record :: cn_progress_record where
  "blank_record = \<lparr>position = \<lparr>location = None, progress_10000 = -1\<rparr>\<rparr>"

text \<open>The two identities of the book: the key of the local record and the document id of the server.\<close>

definition local_identity :: "'a cn_kosync_pull_config_scheme \<Rightarrow> bytes option \<times> int" where
  "local_identity config = cn_book_identity_from_path (cn_book_identity_init (Some [])) (cfg_document_path config)"

definition zero_document_id :: bytes where
  "zero_document_id = replicate document_id_bytes 0"

definition remote_identity :: "(bytes \<Rightarrow> stdio_file option) \<Rightarrow> 'a cn_kosync_pull_config_scheme \<Rightarrow>
    cn_koreader_identity_result \<times> bytes option" where
  "remote_identity files config = cn_book_identity_koreader_binary files (cfg_document_path config) (Some zero_document_id)"

text \<open>The record that a pull, and a synchronisation that takes the server's state, hands to the store.\<close>

definition record_of_remote :: "cn_kosync_progress \<Rightarrow> cn_progress_record" where
  "record_of_remote remote = \<lparr>position = \<lparr>location = logical_position remote, progress_10000 = scaled_progress remote\<rparr>\<rparr>"

section \<open>Synchronisation\<close>

definition sync_blank :: cn_kosync_sync_result where
  "sync_blank = \<lparr>sync_status = Known CN_KOSYNC_SYNC_STATUS_INVALID, decision = Known CN_KOSYNC_SYNC_DECISION_NONE,
     local_present = 0, remote_present = 0, local_save_attempted = 0, remote_put_attempted = 0, local_saved = 0,
     remote_uploaded = 0, koreader_document_id = zero_document_id, remote_progress = blank_progress,
     local_identity_ok = False, identity_result = CN_KOREADER_IDENTITY_INVALID, local_load_result = CN_PROGRESS_INVALID,
     local_save_result = CN_PROGRESS_INVALID, time_result = Known CN_TIME_INVALID, dns_result = Known CN_DNS_INVALID,
     kosync_result = Known CN_KOSYNC_INVALID,
     kosync_outcome = \<lparr>http_status = 0, transport_result = Known CN_NETSIMPLE_INVALID\<rparr>,
     put_timestamp = 0, has_put_timestamp = False\<rparr>"

definition cn_kosync_sync_result_init :: "cn_kosync_sync_result option \<Rightarrow> cn_kosync_sync_result option" where
  "cn_kosync_sync_result_init result = map_option (\<lambda>_. sync_blank) result"

definition cn_kosync_sync_result_clear :: "cn_kosync_sync_result option \<Rightarrow> cn_kosync_sync_result option" where
  "cn_kosync_sync_result_clear result = cn_kosync_sync_result_init result"

definition sync_finish :: "cn_kosync_sync_result \<Rightarrow> cn_kosync_sync_status \<Rightarrow> cn_kosync_sync_result" where
  "sync_finish result status' = result\<lparr>sync_status := Known status'\<rparr>"

definition map_kosync :: "cn_kosync_result \<Rightarrow> cn_kosync_sync_status" where
  "map_kosync result = (case result of
       CN_KOSYNC_AUTH_FAILED \<Rightarrow> CN_KOSYNC_SYNC_STATUS_AUTH_FAILED
     | CN_KOSYNC_TRANSPORT_ERROR \<Rightarrow> CN_KOSYNC_SYNC_STATUS_HTTPS_FAILED
     | CN_KOSYNC_HTTP_ERROR \<Rightarrow> CN_KOSYNC_SYNC_STATUS_PROTOCOL_FAILED
     | CN_KOSYNC_BAD_JSON \<Rightarrow> CN_KOSYNC_SYNC_STATUS_PROTOCOL_FAILED
     | CN_KOSYNC_BAD_PROTOCOL \<Rightarrow> CN_KOSYNC_SYNC_STATUS_PROTOCOL_FAILED
     | CN_KOSYNC_NO_MEMORY \<Rightarrow> CN_KOSYNC_SYNC_STATUS_NO_MEMORY
     | _ \<Rightarrow> CN_KOSYNC_SYNC_STATUS_INVALID)"

definition sync_config_ok :: "cn_kosync_sync_config \<Rightarrow> bool" where
  "sync_config_ok config \<longleftrightarrow> session_config_ok config \<and> cfg_device config \<noteq> None \<and> cfg_device_id config \<noteq> None"

text \<open>The server has the only record: it is saved.\<close>

definition sync_import :: "cn_kosync_sync_config \<Rightarrow> bytes option \<Rightarrow> cn_kosync_sync_result \<Rightarrow> os \<Rightarrow> cn_kosync_sync_result \<times> os" where
  "sync_import config identity result s =
     (let result = result\<lparr>decision := Known CN_KOSYNC_SYNC_REMOTE_SELECTED, local_save_attempted := 1\<rparr>
      in case cn_progress_store_save (cfg_progress_store config) identity (Some (record_of_remote (remote_progress result))) s of
        (saved, s) \<Rightarrow>
          let result = result\<lparr>local_save_result := saved\<rparr>
          in if saved \<noteq> CN_PROGRESS_OK
             then (sync_finish result (if saved = CN_PROGRESS_NO_MEMORY then CN_KOSYNC_SYNC_STATUS_NO_MEMORY
                     else CN_KOSYNC_SYNC_STATUS_LOCAL_FAILED), s)
             else (sync_finish (result\<lparr>local_saved := 1\<rparr>) CN_KOSYNC_SYNC_STATUS_OK, s))"

text \<open>The device has the only record: it is sent.\<close>

definition sync_upload :: "(rat \<Rightarrow> bool) \<Rightarrow> cn_kosync_sync_config \<Rightarrow> bytes \<Rightarrow> cn_kosync_client \<Rightarrow> cn_reader_position \<Rightarrow>
    cn_kosync_sync_result \<Rightarrow> os \<Rightarrow> network \<Rightarrow> cn_kosync_sync_result \<times> os \<times> network" where
  "sync_upload underflow config document client pos result s n =
     (let result = result\<lparr>decision := Known CN_KOSYNC_SYNC_LOCAL_SELECTED\<rparr>
      in if progress_10000 pos < 0 then (sync_finish result CN_KOSYNC_SYNC_STATUS_LOCAL_UNSUPPORTED, s, n)
         else case cn_kosync_progress_set (Some blank_progress) (Some document) (location pos) (progress_10000 pos)
             (cfg_device config) (cfg_device_id config) s of ((k, upload), s) \<Rightarrow>
           let result = result\<lparr>kosync_result := Known k\<rparr>
           in if k \<noteq> CN_KOSYNC_OK then (sync_finish result (map_kosync k), s, n)
              else case cn_kosync_put_progress underflow (Some client) upload s n of (((k, t), outcome'), s, n) \<Rightarrow>
                let result = result\<lparr>remote_put_attempted := 1, kosync_result := Known k, kosync_outcome := outcome'\<rparr>
                in if k \<noteq> CN_KOSYNC_OK then (sync_finish result (map_kosync k), s, n)
                   else (sync_finish (result\<lparr>put_timestamp := the t, remote_uploaded := 1, has_put_timestamp := True\<rparr>)
                           CN_KOSYNC_SYNC_STATUS_OK, s, n))"

text \<open>The decision, once both sides are known.\<close>

definition sync_decide :: "(rat \<Rightarrow> bool) \<Rightarrow> cn_kosync_sync_config \<Rightarrow> bytes option \<Rightarrow> bytes \<Rightarrow> cn_kosync_client \<Rightarrow>
    cn_progress_record \<Rightarrow> cn_kosync_sync_result \<Rightarrow> os \<Rightarrow> network \<Rightarrow> cn_kosync_sync_result \<times> os \<times> network" where
  "sync_decide underflow config identity document client local result s n =
     (if local_present result = 0 \<and> remote_present result = 0
      then (sync_finish (result\<lparr>decision := Known CN_KOSYNC_SYNC_NO_STATE\<rparr>) CN_KOSYNC_SYNC_STATUS_OK, s, n)
      else if local_present result = 0 then (case sync_import config identity result s of (r, s) \<Rightarrow> (r, s, n))
      else if remote_present result = 0 then sync_upload underflow config document client (position local) result s n
      else (sync_finish (result\<lparr>decision := Known
              (if cstr (the (location (position local))) = cstr (the (logical_position (remote_progress result)))
               then CN_KOSYNC_SYNC_NO_CHANGE else CN_KOSYNC_SYNC_AMBIGUOUS)\<rparr>) CN_KOSYNC_SYNC_STATUS_OK, s, n))"

text \<open>From the session on: the server is asked for its record.\<close>

definition sync_ask :: "(rat \<Rightarrow> bool) \<Rightarrow> cn_kosync_sync_config \<Rightarrow> bytes option \<Rightarrow> bytes \<Rightarrow> cn_progress_record \<Rightarrow>
    cn_kosync_sync_result \<Rightarrow> os \<Rightarrow> network \<Rightarrow> cn_kosync_sync_result \<times> os \<times> network" where
  "sync_ask underflow config identity document local result s n = (case open_session config n of
     (Untrusted_time t, n) \<Rightarrow> (sync_finish (result\<lparr>time_result := Known t\<rparr>) CN_KOSYNC_SYNC_STATUS_TRUSTED_TIME_FAILED, s, n)
   | (Unresolved d, n) \<Rightarrow>
       (sync_finish (result\<lparr>time_result := Known CN_TIME_OK, dns_result := Known d\<rparr>) CN_KOSYNC_SYNC_STATUS_DNS_FAILED, s, n)
   | (Session k client, n) \<Rightarrow>
       let result = result\<lparr>time_result := Known CN_TIME_OK, dns_result := Known CN_DNS_OK, kosync_result := Known k\<rparr>
       in if k \<noteq> CN_KOSYNC_OK then (sync_finish result (map_kosync k), s, n)
          else case cn_kosync_get_progress underflow (Some client) (Some document) (Some (remote_progress result)) s n of
            (((k, remote), outcome'), s, n) \<Rightarrow>
              let result = result\<lparr>kosync_result := Known k, remote_progress := the remote, kosync_outcome := outcome'\<rparr>
              in if k = CN_KOSYNC_OK
                 then sync_decide underflow config identity document client local (result\<lparr>remote_present := 1\<rparr>) s n
                 else if k = CN_KOSYNC_NOT_FOUND
                 then sync_decide underflow config identity document client local result s n
                 else (sync_finish result (map_kosync k), s, n))"

text \<open>The C function returns the status of the result, and \<open>INVALID\<close> where there is no result.\<close>

definition cn_kosync_sync_once :: "(bytes \<Rightarrow> stdio_file option) \<Rightarrow> (rat \<Rightarrow> bool) \<Rightarrow> cn_kosync_sync_config option \<Rightarrow>
    cn_kosync_sync_result option \<Rightarrow> os \<Rightarrow> network \<Rightarrow> cn_kosync_sync_result option \<times> os \<times> network" where
  "cn_kosync_sync_once files underflow config result s n = (case cn_kosync_sync_result_clear result of
     None \<Rightarrow> (None, s, n)
   | Some result \<Rightarrow>
     if config = None \<or> \<not> sync_config_ok (the config) then (Some (sync_finish result CN_KOSYNC_SYNC_STATUS_INVALID), s, n)
     else let c = the config in case local_identity c of (identity, rc) \<Rightarrow>
       let result = result\<lparr>local_identity_ok := (rc = 0)\<rparr>
       in if rc \<noteq> 0 then (Some (sync_finish result CN_KOSYNC_SYNC_STATUS_IDENTITY_FAILED), s, n)
          else case remote_identity files c of (ir, document) \<Rightarrow>
            let result = result\<lparr>identity_result := ir, koreader_document_id := the document\<rparr>
            in if ir \<noteq> CN_KOREADER_IDENTITY_OK \<or> cn_koreader_document_id_text document = None
               then (Some (sync_finish result CN_KOSYNC_SYNC_STATUS_IDENTITY_FAILED), s, n)
               else case cn_progress_store_load (cfg_progress_store c) identity (Some blank_record) s of (lr, local, s) \<Rightarrow>
                 let result = result\<lparr>local_load_result := lr\<rparr>
                 in if lr \<noteq> CN_PROGRESS_OK \<and> lr \<noteq> CN_PROGRESS_MISSING
                    then (Some (sync_finish result (if lr = CN_PROGRESS_NO_MEMORY then CN_KOSYNC_SYNC_STATUS_NO_MEMORY
                            else CN_KOSYNC_SYNC_STATUS_LOCAL_FAILED)), s, n)
                    else map_prod Some id (sync_ask underflow c identity (the (cn_koreader_document_id_text document)) (the local)
                           (if lr = CN_PROGRESS_OK then result\<lparr>local_present := 1\<rparr> else result) s n))"

section \<open>Pulling the server's record\<close>

datatype cn_kosync_pull_status =
  CN_KOSYNC_PULL_INVALID | CN_KOSYNC_PULL_REMOTE_MISSING | CN_KOSYNC_PULL_PERSISTED | CN_KOSYNC_PULL_IDENTITY_FAILED
  | CN_KOSYNC_PULL_TRUSTED_TIME_FAILED | CN_KOSYNC_PULL_DNS_FAILED | CN_KOSYNC_PULL_AUTH_FAILED | CN_KOSYNC_PULL_HTTPS_FAILED
  | CN_KOSYNC_PULL_PROTOCOL_FAILED | CN_KOSYNC_PULL_LOCAL_FAILED | CN_KOSYNC_PULL_NO_MEMORY

record cn_kosync_pull_result =
  pull_status :: cn_kosync_pull_status
  pull_identity_result :: cn_koreader_identity_result
  pull_time_result :: cn_time_result
  pull_dns_result :: cn_dns_result
  pull_kosync_result :: cn_kosync_result
  pull_outcome :: cn_kosync_outcome
  pull_save_result :: cn_progress_result
  get_attempted :: bool
  pull_save_attempted :: bool
  pull_saved :: bool

definition pull_blank :: cn_kosync_pull_result where
  "pull_blank = \<lparr>pull_status = CN_KOSYNC_PULL_INVALID, pull_identity_result = CN_KOREADER_IDENTITY_INVALID,
     pull_time_result = CN_TIME_INVALID, pull_dns_result = CN_DNS_INVALID, pull_kosync_result = CN_KOSYNC_INVALID,
     pull_outcome = \<lparr>http_status = 0, transport_result = Known CN_NETSIMPLE_INVALID\<rparr>,
     pull_save_result = CN_PROGRESS_INVALID, get_attempted = False, pull_save_attempted = False, pull_saved = False\<rparr>"

definition cn_kosync_pull_result_init :: "cn_kosync_pull_result option \<Rightarrow> cn_kosync_pull_result option" where
  "cn_kosync_pull_result_init result = map_option (\<lambda>_. pull_blank) result"

definition pull_failure :: "cn_kosync_result \<Rightarrow> cn_kosync_pull_status" where
  "pull_failure k =
     (if k = CN_KOSYNC_AUTH_FAILED then CN_KOSYNC_PULL_AUTH_FAILED
      else if k = CN_KOSYNC_TRANSPORT_ERROR then CN_KOSYNC_PULL_HTTPS_FAILED
      else if k = CN_KOSYNC_NO_MEMORY then CN_KOSYNC_PULL_NO_MEMORY
      else if k = CN_KOSYNC_INVALID then CN_KOSYNC_PULL_INVALID else CN_KOSYNC_PULL_PROTOCOL_FAILED)"

text \<open>The request and the save.\<close>

definition pull_get :: "(rat \<Rightarrow> bool) \<Rightarrow> cn_kosync_pull_config \<Rightarrow> bytes option \<Rightarrow> bytes \<Rightarrow> cn_kosync_client \<Rightarrow>
    cn_kosync_pull_result \<Rightarrow> os \<Rightarrow> network \<Rightarrow> cn_kosync_pull_result \<times> os \<times> network" where
  "pull_get underflow config identity document client result s n =
     (case cn_kosync_get_progress underflow (Some client) (Some document) (Some blank_progress) s n of
        (((k, remote), outcome'), s, n) \<Rightarrow>
          let result = result\<lparr>get_attempted := True, pull_kosync_result := k, pull_outcome := outcome'\<rparr>
          in if k = CN_KOSYNC_NOT_FOUND then (result\<lparr>pull_status := CN_KOSYNC_PULL_REMOTE_MISSING\<rparr>, s, n)
             else if k = CN_KOSYNC_OK then
               (case cn_progress_store_save (cfg_progress_store config) identity (Some (record_of_remote (the remote))) s of
                  (saved, s) \<Rightarrow>
                    let result = result\<lparr>pull_save_attempted := True, pull_save_result := saved\<rparr>
                    in if saved = CN_PROGRESS_OK
                       then (result\<lparr>pull_saved := True, pull_status := CN_KOSYNC_PULL_PERSISTED\<rparr>, s, n)
                       else (result\<lparr>pull_status := CN_KOSYNC_PULL_LOCAL_FAILED\<rparr>, s, n))
             else (result\<lparr>pull_status := pull_failure k\<rparr>, s, n))"

definition pull_session :: "(rat \<Rightarrow> bool) \<Rightarrow> cn_kosync_pull_config \<Rightarrow> bytes option \<Rightarrow> bytes \<Rightarrow>
    cn_kosync_pull_result \<Rightarrow> os \<Rightarrow> network \<Rightarrow> cn_kosync_pull_result \<times> os \<times> network" where
  "pull_session underflow config identity document result s n = (case open_session config n of
     (Untrusted_time t, n) \<Rightarrow> (result\<lparr>pull_time_result := t, pull_status := CN_KOSYNC_PULL_TRUSTED_TIME_FAILED\<rparr>, s, n)
   | (Unresolved d, n) \<Rightarrow>
       (result\<lparr>pull_time_result := CN_TIME_OK, pull_dns_result := d, pull_status := CN_KOSYNC_PULL_DNS_FAILED\<rparr>, s, n)
   | (Session k client, n) \<Rightarrow>
       let result = result\<lparr>pull_time_result := CN_TIME_OK, pull_dns_result := CN_DNS_OK, pull_kosync_result := k\<rparr>
       in if k \<noteq> CN_KOSYNC_OK then (result\<lparr>pull_status := CN_KOSYNC_PULL_INVALID\<rparr>, s, n)
          else pull_get underflow config identity document client result s n)"

definition cn_kosync_pull_remote_once :: "(bytes \<Rightarrow> stdio_file option) \<Rightarrow> (rat \<Rightarrow> bool) \<Rightarrow> cn_kosync_pull_config option \<Rightarrow>
    cn_kosync_pull_result option \<Rightarrow> os \<Rightarrow> network \<Rightarrow> cn_kosync_pull_result option \<times> os \<times> network" where
  "cn_kosync_pull_remote_once files underflow config result s n = (case cn_kosync_pull_result_init result of
     None \<Rightarrow> (None, s, n)
   | Some result \<Rightarrow>
     if config = None \<or> \<not> session_config_ok (the config) \<or> ca_path (the (cfg_tls (the config))) = None then (Some result, s, n)
     else let c = the config in case local_identity c of (identity, rc) \<Rightarrow>
       if rc \<noteq> 0 then (Some (result\<lparr>pull_status := CN_KOSYNC_PULL_IDENTITY_FAILED\<rparr>), s, n)
       else case remote_identity files c of (ir, document) \<Rightarrow>
         let result = result\<lparr>pull_identity_result := ir\<rparr>
         in if ir \<noteq> CN_KOREADER_IDENTITY_OK \<or> cn_koreader_document_id_text document = None
            then (Some (result\<lparr>pull_status := CN_KOSYNC_PULL_IDENTITY_FAILED\<rparr>), s, n)
            else map_prod Some id
              (pull_session underflow c identity (the (cn_koreader_document_id_text document)) result s n))"

section \<open>Pushing the local record\<close>

datatype cn_kosync_push_status =
  CN_KOSYNC_PUSH_INVALID | CN_KOSYNC_PUSH_UPLOADED | CN_KOSYNC_PUSH_IDENTITY_FAILED | CN_KOSYNC_PUSH_LOCAL_MISSING
  | CN_KOSYNC_PUSH_LOCAL_FAILED | CN_KOSYNC_PUSH_LOCAL_UNSUPPORTED | CN_KOSYNC_PUSH_TRUSTED_TIME_FAILED
  | CN_KOSYNC_PUSH_DNS_FAILED | CN_KOSYNC_PUSH_AUTH_FAILED | CN_KOSYNC_PUSH_HTTPS_FAILED | CN_KOSYNC_PUSH_PROTOCOL_FAILED
  | CN_KOSYNC_PUSH_NO_MEMORY

record cn_kosync_push_result =
  push_status :: cn_kosync_push_status
  push_identity_result :: cn_koreader_identity_result
  push_load_result :: cn_progress_result
  push_time_result :: cn_time_result
  push_dns_result :: cn_dns_result
  push_kosync_result :: cn_kosync_result
  push_outcome :: cn_kosync_outcome
  put_invoked :: bool
  push_uploaded :: bool
  push_local_mutation :: cn_kosync_mutation_state
  push_remote_mutation :: cn_kosync_mutation_state

definition push_blank :: cn_kosync_push_result where
  "push_blank = \<lparr>push_status = CN_KOSYNC_PUSH_INVALID, push_identity_result = CN_KOREADER_IDENTITY_INVALID,
     push_load_result = CN_PROGRESS_INVALID, push_time_result = CN_TIME_INVALID, push_dns_result = CN_DNS_INVALID,
     push_kosync_result = CN_KOSYNC_INVALID, push_outcome = \<lparr>http_status = 0, transport_result = Known CN_NETSIMPLE_INVALID\<rparr>,
     put_invoked = False, push_uploaded = False, push_local_mutation = CN_KOSYNC_MUTATION_NONE,
     push_remote_mutation = CN_KOSYNC_MUTATION_NONE\<rparr>"

definition cn_kosync_push_result_init :: "cn_kosync_push_result option \<Rightarrow> cn_kosync_push_result option" where
  "cn_kosync_push_result_init result = map_option (\<lambda>_. push_blank) result"

definition proven_pre_send :: "cn_netsimple_result enum_value \<Rightarrow> bool" where
  "proven_pre_send transport = (case transport of
       Known CN_NETSIMPLE_RESOLVE_ERROR \<Rightarrow> True
     | Known CN_NETSIMPLE_CONNECT_REFUSED \<Rightarrow> True
     | Known CN_NETSIMPLE_NETWORK_UNREACHABLE \<Rightarrow> True
     | Known CN_NETSIMPLE_HOST_UNREACHABLE \<Rightarrow> True
     | Known CN_NETSIMPLE_CONNECT_TIMEOUT \<Rightarrow> True
     | Known CN_NETSIMPLE_CONNECT_ERROR \<Rightarrow> True
     | Known CN_NETSIMPLE_TLS_ENTROPY_FAILED \<Rightarrow> True
     | Known CN_NETSIMPLE_TLS_INVALID_CA \<Rightarrow> True
     | Known CN_NETSIMPLE_TLS_HANDSHAKE_FAILED \<Rightarrow> True
     | Known CN_NETSIMPLE_TLS_HANDSHAKE_TIMEOUT \<Rightarrow> True
     | Known CN_NETSIMPLE_TLS_TRUST_FAILED \<Rightarrow> True
     | Known CN_NETSIMPLE_TLS_HOSTNAME_MISMATCH \<Rightarrow> True
     | Known CN_NETSIMPLE_TLS_CERT_TIME_FAILED \<Rightarrow> True
     | Known CN_NETSIMPLE_TLS_CERT_INVALID \<Rightarrow> True
     | _ \<Rightarrow> False)"

definition push_failure :: "cn_kosync_result \<Rightarrow> cn_kosync_push_status" where
  "push_failure k = (case k of
       CN_KOSYNC_AUTH_FAILED \<Rightarrow> CN_KOSYNC_PUSH_AUTH_FAILED
     | CN_KOSYNC_TRANSPORT_ERROR \<Rightarrow> CN_KOSYNC_PUSH_HTTPS_FAILED
     | CN_KOSYNC_NO_MEMORY \<Rightarrow> CN_KOSYNC_PUSH_NO_MEMORY
     | CN_KOSYNC_INVALID \<Rightarrow> CN_KOSYNC_PUSH_INVALID
     | _ \<Rightarrow> CN_KOSYNC_PUSH_PROTOCOL_FAILED)"

definition push_put :: "(rat \<Rightarrow> bool) \<Rightarrow> cn_kosync_client \<Rightarrow> cn_kosync_progress option \<Rightarrow> cn_kosync_push_result \<Rightarrow> os \<Rightarrow> network \<Rightarrow>
    cn_kosync_push_result \<times> os \<times> network" where
  "push_put underflow client upload result s n = (case cn_kosync_put_progress underflow (Some client) upload s n of
     (((k, _), outcome'), s, n) \<Rightarrow>
       let result = result\<lparr>put_invoked := True, push_kosync_result := k, push_outcome := outcome'\<rparr>
       in if k = CN_KOSYNC_OK
          then (result\<lparr>push_uploaded := True, push_remote_mutation := CN_KOSYNC_MUTATION_CONFIRMED,
                  push_status := CN_KOSYNC_PUSH_UPLOADED\<rparr>, s, n)
          else (result\<lparr>push_remote_mutation :=
                   (if k = CN_KOSYNC_TRANSPORT_ERROR \<and> proven_pre_send (transport_result outcome')
                    then CN_KOSYNC_MUTATION_NONE else CN_KOSYNC_MUTATION_POSSIBLE),
                  push_status := push_failure k\<rparr>, s, n))"

definition push_session :: "(rat \<Rightarrow> bool) \<Rightarrow> cn_kosync_push_config \<Rightarrow> cn_kosync_progress option \<Rightarrow> cn_kosync_push_result \<Rightarrow>
    os \<Rightarrow> network \<Rightarrow> cn_kosync_push_result \<times> os \<times> network" where
  "push_session underflow config upload result s n = (case open_session config n of
     (Untrusted_time t, n) \<Rightarrow> (result\<lparr>push_time_result := t, push_status := CN_KOSYNC_PUSH_TRUSTED_TIME_FAILED\<rparr>, s, n)
   | (Unresolved d, n) \<Rightarrow>
       (result\<lparr>push_time_result := CN_TIME_OK, push_dns_result := d, push_status := CN_KOSYNC_PUSH_DNS_FAILED\<rparr>, s, n)
   | (Session k client, n) \<Rightarrow>
       let result = result\<lparr>push_time_result := CN_TIME_OK, push_dns_result := CN_DNS_OK, push_kosync_result := k\<rparr>
       in if k \<noteq> CN_KOSYNC_OK then (result\<lparr>push_status := CN_KOSYNC_PUSH_INVALID\<rparr>, s, n)
          else push_put underflow client upload result s n)"

definition cn_kosync_push_local_once :: "(bytes \<Rightarrow> stdio_file option) \<Rightarrow> (rat \<Rightarrow> bool) \<Rightarrow> cn_kosync_push_config option \<Rightarrow>
    cn_kosync_push_result option \<Rightarrow> os \<Rightarrow> network \<Rightarrow> cn_kosync_push_result option \<times> os \<times> network" where
  "cn_kosync_push_local_once files underflow config result s n = (case cn_kosync_push_result_init result of
     None \<Rightarrow> (None, s, n)
   | Some result \<Rightarrow>
     if config = None \<or> \<not> session_config_ok (the config) \<or> ca_path (the (cfg_tls (the config))) = None \<or>
        cfg_device (the config) = None \<or> cfg_device_id (the config) = None then (Some result, s, n)
     else let c = the config in case local_identity c of (identity, rc) \<Rightarrow>
       if rc \<noteq> 0 then (Some (result\<lparr>push_status := CN_KOSYNC_PUSH_IDENTITY_FAILED\<rparr>), s, n)
       else case remote_identity files c of (ir, document) \<Rightarrow>
         let result = result\<lparr>push_identity_result := ir\<rparr>
         in if ir \<noteq> CN_KOREADER_IDENTITY_OK \<or> cn_koreader_document_id_text document = None
            then (Some (result\<lparr>push_status := CN_KOSYNC_PUSH_IDENTITY_FAILED\<rparr>), s, n)
            else case cn_progress_store_load (cfg_progress_store c) identity (Some blank_record) s of (lr, local, s) \<Rightarrow>
              let result = result\<lparr>push_load_result := lr\<rparr>; pos = position (the local)
              in if lr \<noteq> CN_PROGRESS_OK
                 then (Some (result\<lparr>push_status := (if lr = CN_PROGRESS_MISSING then CN_KOSYNC_PUSH_LOCAL_MISSING
                         else if lr = CN_PROGRESS_NO_MEMORY then CN_KOSYNC_PUSH_NO_MEMORY else CN_KOSYNC_PUSH_LOCAL_FAILED)\<rparr>), s, n)
                 else if progress_10000 pos < 0 then (Some (result\<lparr>push_status := CN_KOSYNC_PUSH_LOCAL_UNSUPPORTED\<rparr>), s, n)
                 else case cn_kosync_progress_set (Some blank_progress) (cn_koreader_document_id_text document) (location pos)
                     (progress_10000 pos) (cfg_device c) (cfg_device_id c) s of ((k, upload), s) \<Rightarrow>
                   let result = result\<lparr>push_kosync_result := k\<rparr>
                   in if k \<noteq> CN_KOSYNC_OK
                      then (Some (result\<lparr>push_status := (if k = CN_KOSYNC_NO_MEMORY then CN_KOSYNC_PUSH_NO_MEMORY
                              else CN_KOSYNC_PUSH_INVALID)\<rparr>), s, n)
                      else map_prod Some id (push_session underflow c upload result s n))"

end
