(* ===== verification/Sync_Evidence.thy ===== *)
theory Sync_Evidence
  imports Kosync_Sync
begin

text \<open>
  What a synchronisation, a pull and a push do to the record file and to the server, and that their
  results say so: the composition of the record store, the clock, name resolution, the client's
  exchanges and the product policy.
\<close>

section \<open>The session\<close>

definition off_wire :: "network \<Rightarrow> network \<Rightarrow> bool" where
  "off_wire n n' \<longleftrightarrow> wf_net n' \<and> sockets n' = sockets n \<and> outgoing n' = outgoing n"

lemma off_wire_refl: "wf_net n \<Longrightarrow> off_wire n n"
  by (simp add: off_wire_def)

lemma off_wire_trans: "off_wire a b \<Longrightarrow> off_wire b c \<Longrightarrow> off_wire a c"
  by (simp add: off_wire_def)

lemma returns_off_wire: "returns n ds n' \<Longrightarrow> wf_net n \<Longrightarrow> off_wire n n'"
  using returns_wf by (auto simp: off_wire_def returns_def)

lemma resolve_off_wire:
  assumes "cn_dnssimple_resolve_a config h a n = (x, n')" "wf_net n"
  shows "off_wire n n'"
proof -
  define servers where "servers = take (dns_server_count (the config)) (dns_servers (the config))"
  show ?thesis
  proof (cases "\<exists>p t y. dns_servers_loop servers 0 CN_DNS_INVALID p t (cstr (the h)) n = (y, n')")
    case True
    then obtain p t r answer where "dns_servers_loop servers 0 CN_DNS_INVALID p t (cstr (the h)) n = ((r, answer), n')" by auto
    from dns_servers_loop_effect[OF assms(2) this] show ?thesis using returns_off_wire[OF _ assms(2)] by auto
  next
    case False
    then have "n' = n" using assms(1)
      by (auto simp: cn_dnssimple_resolve_a_def Let_def servers_def split: if_splits prod.splits)
    then show ?thesis using off_wire_refl assms(2) by simp
  qed
qed

lemma time_query_off_wire:
  assumes "cn_timesimple_query config out n = (q, n')" "wf_net n"
  shows "off_wire n n' \<and> q \<noteq> Inl CN_TIME_OK"
proof -
  define servers where "servers = take (time_server_count (the config)) (time_servers (the config))"
  show ?thesis
  proof (cases "\<exists>p t. time_servers_loop servers 0 CN_TIME_INVALID p t n = (q, n')")
    case True
    then obtain p t where "time_servers_loop servers 0 CN_TIME_INVALID p t n = (q, n')" by blast
    from time_servers_loop_effect[OF assms(2) this] show ?thesis using returns_off_wire[OF _ assms(2)] by auto
  next
    case False
    then have "n' = n" "q = Inl CN_TIME_INVALID" using assms(1)
      by (auto simp: cn_timesimple_query_def Let_def servers_def split: if_splits)
    then show ?thesis using off_wire_refl assms(2) by simp
  qed
qed

lemma settime_off_wire: "sys_settime a b n = (ok, n') \<Longrightarrow> wf_net n \<Longrightarrow> off_wire n n'"
  by (auto simp: sys_settime_def off_wire_def spend_def wf_net_def split: if_splits)

lemma time_sync_off_wire:
  assumes "cn_timesimple_sync config n = (q, n')" "wf_net n"
  shows "off_wire n n' \<and> q \<noteq> Inl CN_TIME_OK"
proof -
  obtain x n1 where x: "cn_timesimple_query config True n = (x, n1)" by (cases "cn_timesimple_query config True n")
  note X = time_query_off_wire[OF x assms(2)]
  then have w: "wf_net n1" by (simp add: off_wire_def)
  show ?thesis
  proof (cases x)
    case (Inl e)
    then show ?thesis using assms(1) x X by (auto simp: cn_timesimple_sync_def)
  next
    case (Inr sample)
    obtain ok n2 where "sys_settime (unix_seconds sample) (nanoseconds sample) n1 = (ok, n2)"
      by (cases "sys_settime (unix_seconds sample) (nanoseconds sample) n1")
    from settime_off_wire[OF this w] this show ?thesis using assms(1) x X Inr off_wire_trans
      by (auto simp: cn_timesimple_sync_def split: bool.splits)
  qed
qed

text \<open>Opening a session sends no byte of a request; what is not a session names a failure, and the client of a
  session is a copy that uses TLS.\<close>

definition wire_client :: "'a cn_kosync_pull_config_scheme \<Rightarrow> bytes \<Rightarrow> cn_kosync_client" where
  "wire_client config h = (the (cfg_client config))\<lparr>client_connect_host := h, client_tls := cfg_tls config\<rparr>"

lemma session_effect:
  assumes "open_session config n = (session, n')" "wf_net n" "session_config_ok config"
  shows "off_wire n n' \<and> (case session of Untrusted_time t \<Rightarrow> t \<noteq> CN_TIME_OK | Unresolved d \<Rightarrow> d \<noteq> CN_DNS_OK
    | Session k client \<Rightarrow> k \<in> {CN_KOSYNC_OK, CN_KOSYNC_INVALID} \<and>
        (k = CN_KOSYNC_OK \<longrightarrow> use_tls client \<and> client_tls client \<noteq> None \<and> (\<exists>h. client = wire_client config h)))"
proof -
  obtain t n1 where t: "establish_time config n = (t, n1)" by (cases "establish_time config n")
  have o1: "off_wire n n1"
    using t time_sync_off_wire[of "cfg_time config" n, OF _ assms(2)] off_wire_refl[OF assms(2)]
    by (auto simp: establish_time_def split: if_splits prod.splits)
  then have w1: "wf_net n1" by (simp add: off_wire_def)
  obtain d answer n2 where d: "resolve_client config n1 = ((d, answer), n2)" by (cases "resolve_client config n1") auto
  have o2: "off_wire n n2"
    using off_wire_trans[OF o1] resolve_off_wire[OF _ w1] d by (auto simp: resolve_client_def split: prod.splits)
  obtain c where c: "cfg_client config = Some c" "use_tls c" using assms(3) by (auto simp: session_config_ok_def)
  have k: "k \<in> {CN_KOSYNC_OK, CN_KOSYNC_INVALID} \<and>
      (k = CN_KOSYNC_OK \<longrightarrow> use_tls (the client) \<and> client_tls (the client) \<noteq> None \<and> (\<exists>h. the client = wire_client config h))"
    if "cn_kosync_client_set_tls (Some c) (cfg_tls config) (Some h) = (k, client)" for k client h
    using that c by (auto simp: cn_kosync_client_set_tls_def wire_client_def Let_def split: if_splits option.splits)
  show ?thesis using assms(1) t d o1 o2 k c(1)
    by (auto simp: open_session_def split: if_splits prod.splits)
qed

section \<open>The requests\<close>

lemma malloc_calm: "sys_malloc s = (ok, s') \<Longrightarrow> calm s0 s \<Longrightarrow> calm s0 s'"
  using sys_malloc_quiet[of s ok s'] by (auto simp: calm_def quiet_def)

lemma calm_refl: "wf_os s \<Longrightarrow> calm s s"
  by (simp add: calm_def)

lemma calm_trans: "calm a b \<Longrightarrow> calm b c \<Longrightarrow> calm a c"
  by (simp add: calm_def)

lemma parse_member_calm: "parse_member u key r parsed s = (x, s') \<Longrightarrow> calm s0 s \<Longrightarrow> calm s0 s' \<and>
    (\<forall>e. x = Inl e \<longrightarrow> e \<in> {CN_KOSYNC_BAD_JSON, CN_KOSYNC_NO_MEMORY})"
  using malloc_calm[of s _ _ s0]
  by (auto simp: parse_member_def checked_def position_member_def reader_skip_scalar_def Let_def
      split: if_splits option.splits prod.splits bool.splits)

lemma parse_members_calm: "parse_members u first r parsed s = (x, s') \<Longrightarrow> calm s0 s \<Longrightarrow> calm s0 s' \<and>
    (\<forall>e. x = Inl e \<longrightarrow> e \<in> {CN_KOSYNC_BAD_JSON, CN_KOSYNC_NO_MEMORY})"
proof (induction u first r parsed s rule: parse_members.induct)
  case (1 u first r parsed s)
  show ?case
  proof (cases "r = [] \<or> member_key first r = None")
    case True
    then show ?thesis using "1.prems" by (subst (asm) parse_members.simps) (auto split: if_splits)
  next
    case False
    then obtain key r1 where k: "member_key first r = Some (key, r1)" by auto
    obtain y s1 where y: "parse_member u key r1 parsed s = (y, s1)" by (cases "parse_member u key r1 parsed s")
    note C = parse_member_calm[OF y "1.prems"(2)]
    show ?thesis
    proof (cases y)
      case (Inl e)
      then show ?thesis using "1.prems"(1) False k y C by (subst (asm) parse_members.simps) auto
    next
      case (Inr z)
      obtain r2 parsed2 where z: "z = (r2, parsed2)" by (cases z)
      show ?thesis
      proof (cases "starts [of_char CHR ''}''] (reader_space r2)")
        case True
        then show ?thesis using "1.prems"(1) False k y C Inr z by (subst (asm) parse_members.simps) (auto split: if_splits)
      next
        case more: False
        have n: "r \<noteq> []" using False by simp
        have "parse_members u False (reader_space r2) parsed2 s1 = (x, s')"
          using "1.prems"(1) False k y Inr z more by (subst (asm) parse_members.simps) auto
        then show ?thesis using "1.IH"[OF n k refl y[symmetric] Inr z[symmetric] more] C by blast
      qed
    qed
  qed
qed

lemma parse_object_calm: "parse_object u json s = (x, s') \<Longrightarrow> calm s0 s \<Longrightarrow> calm s0 s' \<and>
    (\<forall>e. x = Inl e \<longrightarrow> e \<in> {CN_KOSYNC_BAD_JSON, CN_KOSYNC_NO_MEMORY}) \<and> (\<forall>p. x = Inr p \<longrightarrow> json \<noteq> None \<and> the json \<noteq> [])"
  using parse_members_calm[of u True _ _ s x s' s0]
  by (auto simp: parse_object_def Let_def split: if_splits option.splits)

text \<open>The bytes of a request of the client, and what a request does whatever it answers.\<close>

definition wire_bytes :: "cn_kosync_client \<Rightarrow> bytes \<Rightarrow> bytes option \<Rightarrow> bytes" where
  "wire_bytes client suffix json = request_bytes (Some (client_request client (base_path client @ suffix) json))"

definition get_wire :: "cn_kosync_client \<Rightarrow> bytes \<Rightarrow> bytes" where
  "get_wire client document = wire_bytes client (get_suffix document) None"

definition put_wire :: "cn_kosync_client \<Rightarrow> cn_kosync_progress option \<Rightarrow> bytes" where
  "put_wire client upload = (case cn_kosync_serialize_progress upload True (kosync_json_max + 1) of Inl _ \<Rightarrow> []
     | Inr json \<Rightarrow> wire_bytes client (str ''/syncs/progress'') (Some json))"

definition talks :: "network \<Rightarrow> bytes \<Rightarrow> network \<Rightarrow> bool" where
  "talks n wire n' \<longleftrightarrow> wf_net n' \<and> sockets n' = sockets n \<and> (\<exists>k. outgoing n' = outgoing n @ take k wire)"

lemma off_wire_talks: "off_wire n n' \<Longrightarrow> talks n wire n'"
  by (auto simp: off_wire_def talks_def intro: exI[of _ 0])

lemma off_wire_then_talks: "off_wire n n1 \<Longrightarrow> talks n1 wire n' \<Longrightarrow> talks n wire n'"
  by (auto simp: off_wire_def talks_def)

lemma endpoint_path_Some: "endpoint_path c suffix cap = Some p \<Longrightarrow> p = base_path c @ suffix"
  by (auto simp: endpoint_path_def split: if_splits)

lemma client_exchange_effect:
  assumes "client_exchange c (base_path c @ suffix) json cap n = ((t, response, buffer), n')" "wf_net n"
  shows "talks n (wire_bytes c suffix json) n' \<and> (transport_is_pre_put t \<longrightarrow> off_wire n n') \<and>
    (use_tls c \<and> client_tls c \<noteq> None \<and> t = CN_NETSIMPLE_OK \<and> buffer \<noteq> [] \<longrightarrow>
       outgoing n' = outgoing n @ wire_bytes c suffix json)"
proof -
  have "settled n (wire_bytes c suffix json) cap (use_tls c \<and> client_tls c \<noteq> None) ((t, response, buffer), n')"
    using exchange_settled[OF assms(2)] assms(1) by (fastforce simp: client_exchange_def wire_bytes_def client_request_def)
  then show ?thesis by (auto simp: settled_def talks_def off_wire_def)
qed

lemma map_response_facts:
  "map_response t response = (k, outcome') \<Longrightarrow> transport_result outcome' = Known t \<and>
     (k = CN_KOSYNC_TRANSPORT_ERROR \<longleftrightarrow> t \<noteq> CN_NETSIMPLE_OK) \<and>
     k \<in> {CN_KOSYNC_OK, CN_KOSYNC_TRANSPORT_ERROR, CN_KOSYNC_AUTH_FAILED, CN_KOSYNC_HTTP_ERROR}"
  by (auto simp: map_response_def split: if_splits)

text \<open>What a request of the client keeps and says: memory only on the device, a prefix of its bytes on the wire,
  nothing where it refuses its arguments or the connection fails before them.\<close>

definition answers :: "network \<Rightarrow> bytes \<Rightarrow> cn_kosync_result \<Rightarrow> cn_kosync_outcome \<Rightarrow> network \<Rightarrow> bool" where
  "answers n wire k outcome' n' \<longleftrightarrow> talks n wire n' \<and> (k = CN_KOSYNC_INVALID \<longrightarrow> off_wire n n') \<and>
     (k = CN_KOSYNC_TRANSPORT_ERROR \<longrightarrow> (\<exists>t. transport_result outcome' = Known t \<and> t \<noteq> CN_NETSIMPLE_OK \<and>
        (transport_is_pre_put t \<longrightarrow> off_wire n n')))"

lemma answers_early: "wf_net n \<Longrightarrow> k \<noteq> CN_KOSYNC_TRANSPORT_ERROR \<Longrightarrow> answers n wire k outcome' n"
  using off_wire_refl[of n] off_wire_talks[of n n] by (simp add: answers_def)

lemma answers_exchange:
  assumes "client_exchange c (base_path c @ suffix) json cap n = ((t, response, buffer), n')" "wf_net n"
    and "map_response t response = (k, outcome')" "k' \<noteq> CN_KOSYNC_INVALID" "k' = CN_KOSYNC_TRANSPORT_ERROR \<longrightarrow> k' = k"
  shows "answers n (wire_bytes c suffix json) k' outcome' n'"
  using client_exchange_effect[OF assms(1,2)] map_response_facts[OF assms(3)] assms(4,5)
  by (auto simp: answers_def)

lemma get_effect:
  assumes "cn_kosync_get_progress u (Some c) (Some d) (Some old) s n = (((k, remote), outcome'), s', n')"
    and "wf_net n" "calm s0 s"
  shows "calm s0 s' \<and> answers n (get_wire c d) k outcome' n' \<and> (\<exists>r. remote = Some r \<and> (k = CN_KOSYNC_OK \<longrightarrow> document_id r = cstr d))"
proof (cases "\<not> document_id_ok (Some d) \<or> client_unusable (Some c) \<or> length (get_suffix d) \<ge> 64 \<or>
    endpoint_path c (get_suffix d) (netsimple_path_max + 1) = None")
  case True
  then have "k = CN_KOSYNC_INVALID" "remote = Some old" "s' = s" "n' = n" using assms(1)
    by (auto simp: cn_kosync_get_progress_def split: if_splits)
  then show ?thesis using assms(2,3) answers_early by simp
next
  case False
  then have p: "endpoint_path c (get_suffix d) (netsimple_path_max + 1) = Some (base_path c @ get_suffix d)"
    using endpoint_path_Some by fastforce
  obtain ok s1 where m: "sys_malloc s = (ok, s1)" by (cases "sys_malloc s")
  have c1: "calm s0 s1" using malloc_calm[OF m assms(3)] .
  obtain t response buffer n1 where e: "client_exchange c (base_path c @ get_suffix d) None response_capacity n = ((t, response, buffer), n1)"
    by (cases "client_exchange c (base_path c @ get_suffix d) None response_capacity n") auto
  obtain k1 o1 where mr: "map_response t response = (k1, o1)" by (cases "map_response t response")
  obtain x s2 where x: "cn_kosync_parse_progress u (response_body response buffer) True s1 = (x, s2)"
    by (cases "cn_kosync_parse_progress u (response_body response buffer) True s1")
  have c2: "calm s0 s2" and xe: "\<And>e. x = Inl e \<Longrightarrow> e \<in> {CN_KOSYNC_BAD_JSON, CN_KOSYNC_NO_MEMORY, CN_KOSYNC_NOT_FOUND, CN_KOSYNC_BAD_PROTOCOL}"
    using x parse_object_calm[OF _ c1, of u "response_body response buffer"]
    by (auto simp: cn_kosync_parse_progress_def split: prod.splits sum.splits if_splits)
  note A = answers_exchange[OF e assms(2) mr, folded get_wire_def]
  show ?thesis
  proof (cases "\<not> ok")
    case True
    then have "k = CN_KOSYNC_NO_MEMORY" "remote = Some old" "s' = s1" "n' = n"
      using assms(1) False p m by (auto simp: cn_kosync_get_progress_def)
    then show ?thesis using c1 assms(2) answers_early by simp
  next
    case okm: False
    show ?thesis
    proof (cases "k1 = CN_KOSYNC_OK")
      case bad: False
      then have "k = k1" "remote = Some old" "s' = s1" "n' = n1" "outcome' = o1"
        using assms(1) False p m okm e mr by (auto simp: cn_kosync_get_progress_def)
      then show ?thesis using c1 A[of k1] map_response_facts[OF mr] bad by auto
    next
      case True
      have "s' = s2" "n' = n1" "outcome' = o1" "\<exists>r. remote = Some r \<and> (k = CN_KOSYNC_OK \<longrightarrow> document_id r = cstr d)"
        "k \<in> {CN_KOSYNC_OK, CN_KOSYNC_BAD_PROTOCOL, CN_KOSYNC_BAD_JSON, CN_KOSYNC_NO_MEMORY, CN_KOSYNC_NOT_FOUND}"
        using assms(1) False p m okm e mr x True xe
        by (auto simp: cn_kosync_get_progress_def cn_kosync_progress_clear_def cn_kosync_progress_init_def split: sum.splits if_splits)
      then show ?thesis using c2 A[of k] by auto
    qed
  qed
qed

lemma put_effect:
  assumes "cn_kosync_put_progress u (Some c) (Some p) s n = (((k, t), outcome'), s', n')"
    and "wf_net n" "calm s0 s"
  shows "calm s0 s' \<and> answers n (put_wire c (Some p)) k outcome' n' \<and> k \<noteq> CN_KOSYNC_NOT_FOUND \<and>
    (k = CN_KOSYNC_OK \<and> use_tls c \<and> client_tls c \<noteq> None \<longrightarrow> outgoing n' = outgoing n @ put_wire c (Some p))"
proof (cases "client_unusable (Some c)")
  case True
  then show ?thesis using assms answers_early by (auto simp: cn_kosync_put_progress_def)
next
  case usable: False
  obtain ok1 s1 where m1: "sys_malloc s = (ok1, s1)" by (cases "sys_malloc s")
  obtain ok2 s2 where m2: "sys_malloc s1 = (ok2, s2)" by (cases "sys_malloc s1")
  have c2: "calm s0 s2" using malloc_calm[OF m2 malloc_calm[OF m1 assms(3)]] .
  show ?thesis
  proof (cases "\<not> ok1 \<or> \<not> ok2")
    case True
    then have "k = CN_KOSYNC_NO_MEMORY" "s' = s2" "n' = n" using assms(1) usable m1 m2 by (auto simp: cn_kosync_put_progress_def)
    then show ?thesis using c2 assms(2) answers_early by simp
  next
    case ok: False
    show ?thesis
    proof (cases "cn_kosync_serialize_progress (Some p) True (kosync_json_max + 1)")
      case (Inl e)
      then have "e = CN_KOSYNC_INVALID" by (auto simp: cn_kosync_serialize_progress_def split: if_splits option.splits)
      then have "k = CN_KOSYNC_INVALID" "s' = s2" "n' = n" using assms(1) usable m1 m2 ok Inl by (auto simp: cn_kosync_put_progress_def)
      then show ?thesis using c2 assms(2) answers_early by simp
    next
      case (Inr json)
      show ?thesis
      proof (cases "endpoint_path c (str ''/syncs/progress'') (netsimple_path_max + 1)")
        case None
        then have "k = CN_KOSYNC_INVALID" "s' = s2" "n' = n" using assms(1) usable m1 m2 ok Inr by (auto simp: cn_kosync_put_progress_def)
        then show ?thesis using c2 assms(2) answers_early by simp
      next
        case (Some path')
        then have path: "path' = base_path c @ str ''/syncs/progress''" using endpoint_path_Some by blast
        obtain tr response buffer n1 where e: "client_exchange c (base_path c @ str ''/syncs/progress'') (Some json) response_capacity n = ((tr, response, buffer), n1)"
          by (cases "client_exchange c (base_path c @ str ''/syncs/progress'') (Some json) response_capacity n") auto
        obtain k1 o1 where mr: "map_response tr response = (k1, o1)" by (cases "map_response tr response")
        obtain x s3 where x: "put_acknowledged u p (response_body response buffer) s2 = (x, s3)"
          by (cases "put_acknowledged u p (response_body response buffer) s2")
        obtain y s4 where y: "parse_object u (response_body response buffer) s2 = (y, s4)"
          by (cases "parse_object u (response_body response buffer) s2")
        note Y = parse_object_calm[OF y c2]
        have s3: "s3 = s4" using x y by (cases y) (auto simp: put_acknowledged_def split: if_splits)
        have c3: "calm s0 s3" using Y s3 by simp
        have xe: "e \<in> {CN_KOSYNC_BAD_JSON, CN_KOSYNC_NO_MEMORY, CN_KOSYNC_BAD_PROTOCOL}" if inl: "x = Inl e" for e
          using x y Y inl by (cases y) (auto simp: put_acknowledged_def split: if_splits)
        have xb: "buffer \<noteq> []" if inr: "x = Inr v" for v
          using x y Y inr by (cases y) (auto simp: put_acknowledged_def response_body_def split: if_splits)
        have w: "put_wire c (Some p) = wire_bytes c (str ''/syncs/progress'') (Some json)" using Inr by (simp add: put_wire_def)
        note A = answers_exchange[OF e assms(2) mr, folded w]
        note X = client_exchange_effect[OF e assms(2), folded w]
        show ?thesis
        proof (cases "k1 = CN_KOSYNC_OK")
          case bad: False
          then have "k = k1" "s' = s2" "n' = n1" "outcome' = o1"
            using assms(1) usable m1 m2 ok Inr Some path e mr by (auto simp: cn_kosync_put_progress_def)
          then show ?thesis using c2 A[of k1] map_response_facts[OF mr] bad by auto
        next
          case True
          have r: "s' = s3" "n' = n1" "outcome' = o1" "k = (case x of Inl e \<Rightarrow> e | Inr _ \<Rightarrow> CN_KOSYNC_OK)"
            using assms(1) usable m1 m2 ok Inr Some path e mr x True by (auto simp: cn_kosync_put_progress_def split: sum.splits)
          have tr: "tr = CN_NETSIMPLE_OK" using map_response_facts[OF mr] True by auto
          show ?thesis
          proof (cases x)
            case (Inl e)
            then have k: "k = e" "k \<noteq> CN_KOSYNC_INVALID" "k \<noteq> CN_KOSYNC_TRANSPORT_ERROR" "k \<noteq> CN_KOSYNC_NOT_FOUND" "k \<noteq> CN_KOSYNC_OK"
              using r(4) xe[of e] by auto
            then show ?thesis using r(1,2,3) c3 A[of k] by simp
          next
            case (Inr v)
            then have k: "k = CN_KOSYNC_OK" "buffer \<noteq> []" using r(4) xb by simp_all
            then show ?thesis using r(1,2,3) c3 A[of CN_KOSYNC_OK] X tr by simp
          qed
        qed
      qed
    qed
  qed
qed

text \<open>The contract that the requests of the client share, and what a caller concludes from it.\<close>

locale client_call =
  fixes call :: "os \<Rightarrow> network \<Rightarrow> ((cn_kosync_result \<times> 'a) \<times> cn_kosync_outcome) \<times> os \<times> network"
    and wire :: bytes
  assumes effect: "call s n = (((k, x), outcome'), s', n') \<Longrightarrow> wf_net n \<Longrightarrow> calm s0 s \<Longrightarrow>
    calm s0 s' \<and> answers n wire k outcome' n'"
begin

lemma keeps_files: "call s n = (((k, x), outcome'), s', n') \<Longrightarrow> wf_net n \<Longrightarrow> wf_os s \<Longrightarrow> calm s s'"
  using effect[OF _ _ calm_refl, of s n k x outcome' s' n'] by simp

lemma one_request: "call s n = (((k, x), outcome'), s', n') \<Longrightarrow> wf_net n \<Longrightarrow> wf_os s \<Longrightarrow> talks n wire n'"
  using effect[OF _ _ calm_refl, of s n k x outcome' s' n'] by (simp add: answers_def)

lemma transport_named: "call s n = (((k, x), outcome'), s', n') \<Longrightarrow> wf_net n \<Longrightarrow> wf_os s \<Longrightarrow>
    k = CN_KOSYNC_TRANSPORT_ERROR \<Longrightarrow> \<exists>t. transport_result outcome' = Known t \<and> t \<noteq> CN_NETSIMPLE_OK"
  using effect[OF _ _ calm_refl, of s n k x outcome' s' n'] by (auto simp: answers_def)

lemma nothing_sent: "call s n = (((k, x), outcome'), s', n') \<Longrightarrow> wf_net n \<Longrightarrow> wf_os s \<Longrightarrow>
    k = CN_KOSYNC_INVALID \<or> k = CN_KOSYNC_TRANSPORT_ERROR \<and> known_pre_put (transport_result outcome') \<Longrightarrow> off_wire n n'"
  using effect[OF _ _ calm_refl, of s n k x outcome' s' n'] by (auto simp: answers_def known_pre_put_def)

end

interpretation getting: client_call "cn_kosync_get_progress u (Some c) (Some d) (Some old)" "get_wire c d"
  by unfold_locales (use get_effect in blast)

interpretation putting: client_call "cn_kosync_put_progress u (Some c) (Some p)" "put_wire c (Some p)"
  by unfold_locales (use put_effect in blast)

section \<open>Synchronisation\<close>

text \<open>What every result of a synchronisation satisfies: known constants, agreeing flags, and the evidence that its
  status stands for.\<close>

definition coherent :: "cn_kosync_sync_result \<Rightarrow> bool" where
  "coherent r \<longleftrightarrow> boolean_fields_valid r \<and> is_known (decision r) \<and> flags_agree r \<and> (case sync_status r of
     Unknown _ \<Rightarrow> False | Known status' \<Rightarrow> (case status' of
       CN_KOSYNC_SYNC_STATUS_OK \<Rightarrow> success_invariants_hold r
     | CN_KOSYNC_SYNC_STATUS_TRUSTED_TIME_FAILED \<Rightarrow> (\<exists>t. time_result r = Known t \<and> t \<noteq> CN_TIME_OK)
     | CN_KOSYNC_SYNC_STATUS_DNS_FAILED \<Rightarrow> (\<exists>d. dns_result r = Known d \<and> d \<noteq> CN_DNS_OK)
     | CN_KOSYNC_SYNC_STATUS_HTTPS_FAILED \<Rightarrow> (\<exists>t. transport_result (kosync_outcome r) = Known t \<and> t \<noteq> CN_NETSIMPLE_OK)
     | CN_KOSYNC_SYNC_STATUS_PROTOCOL_FAILED \<Rightarrow>
         (\<exists>k \<in> {CN_KOSYNC_HTTP_ERROR, CN_KOSYNC_BAD_JSON, CN_KOSYNC_BAD_PROTOCOL}. kosync_result r = Known k)
     | _ \<Rightarrow> True))"

lemma coherent_classified:
  assumes "coherent r"
  shows "\<exists>p. cn_kosync_policy_classify 1 (Some r) (Some old) = (0, Some p) \<and>
    local_mutation p = local_mutation (mutation_report r) \<and> remote_mutation p = remote_mutation (mutation_report r) \<and>
    (outcome p \<in> synced_outcomes \<longleftrightarrow> sync_status r = Known CN_KOSYNC_SYNC_STATUS_OK) \<and>
    (outcome p = CN_KOSYNC_PRODUCT_INTERNAL_FAILURE \<longleftrightarrow> sync_status r = Known CN_KOSYNC_SYNC_STATUS_NO_MEMORY \<or>
       sync_status r = Known CN_KOSYNC_SYNC_STATUS_DNS_FAILED \<and> dns_result r = Known CN_DNS_ENTROPY_FAILED \<or>
       sync_status r = Known CN_KOSYNC_SYNC_STATUS_HTTPS_FAILED \<and>
         transport_result (kosync_outcome r) \<in> Known ` {CN_NETSIMPLE_TLS_ENTROPY_FAILED, CN_NETSIMPLE_TLS_INTERNAL})"
proof -
  obtain st where st: "sync_status r = Known st" using assms by (auto simp: coherent_def split: enum_value.splits)
  obtain d where d: "decision r = Known d" using assms by (cases "decision r") (auto simp: coherent_def)
  have j: "judged r" "flags_agree r"
    using assms st d by (auto simp: coherent_def judged_def policy_evidence_valid_def transport_valid_def)
  define m where "m = mutation_report r"
  obtain x where x: "policy_switch r m = (0, x)"
    using policy_switch_code[of r m] st by (cases "policy_switch r m") simp
  have c: "cn_kosync_policy_classify 1 (Some r) (Some old) = (0, Some x)"
    using j x unfolding policy_cases m_def by simp
  have cases: "local_mutation x = local_mutation m \<and> remote_mutation x = remote_mutation m \<and>
    (outcome x \<in> synced_outcomes \<longleftrightarrow> st = CN_KOSYNC_SYNC_STATUS_OK) \<and>
    (outcome x = CN_KOSYNC_PRODUCT_INTERNAL_FAILURE \<longleftrightarrow> st = CN_KOSYNC_SYNC_STATUS_NO_MEMORY \<or>
       st = CN_KOSYNC_SYNC_STATUS_DNS_FAILED \<and> dns_result r = Known CN_DNS_ENTROPY_FAILED \<or>
       st = CN_KOSYNC_SYNC_STATUS_HTTPS_FAILED \<and>
         transport_result (kosync_outcome r) \<in> Known ` {CN_NETSIMPLE_TLS_ENTROPY_FAILED, CN_NETSIMPLE_TLS_INTERNAL})"
  proof (cases st)
    case CN_KOSYNC_SYNC_STATUS_OK
    then have s: "success_invariants_hold r" "x = classify_success r m" using assms st x by (auto simp: coherent_def policy_switch_def)
    show ?thesis using s CN_KOSYNC_SYNC_STATUS_OK d
      by (cases d) (auto simp: classify_success_def synced_outcomes_def success_invariants_hold_def Let_def split: if_splits)
  next
    case CN_KOSYNC_SYNC_STATUS_TRUSTED_TIME_FAILED
    then obtain t where t: "time_result r = Known t" "t \<noteq> CN_TIME_OK" "x = classify_time r m" using assms st x by (auto simp: coherent_def policy_switch_def)
    show ?thesis using t CN_KOSYNC_SYNC_STATUS_TRUSTED_TIME_FAILED
      by (cases t) (simp_all add: classify_time_def synced_outcomes_def Let_def)
  next
    case CN_KOSYNC_SYNC_STATUS_DNS_FAILED
    then obtain t where t: "dns_result r = Known t" "t \<noteq> CN_DNS_OK" "x = classify_dns r m" using assms st x by (auto simp: coherent_def policy_switch_def)
    show ?thesis using t CN_KOSYNC_SYNC_STATUS_DNS_FAILED
      by (cases t) (simp_all add: classify_dns_def verdict_def synced_outcomes_def Let_def)
  next
    case CN_KOSYNC_SYNC_STATUS_HTTPS_FAILED
    then obtain t where t: "transport_result (kosync_outcome r) = Known t" "t \<noteq> CN_NETSIMPLE_OK" "x = classify_https r m"
      using assms st x by (auto simp: coherent_def policy_switch_def)
    show ?thesis using t CN_KOSYNC_SYNC_STATUS_HTTPS_FAILED
      by (cases t) (simp_all add: classify_https_def transport_valid_def verdict_def synced_outcomes_def Let_def)
  next
    case CN_KOSYNC_SYNC_STATUS_PROTOCOL_FAILED
    then have t: "\<exists>k \<in> {CN_KOSYNC_HTTP_ERROR, CN_KOSYNC_BAD_JSON, CN_KOSYNC_BAD_PROTOCOL}. kosync_result r = Known k" "x = classify_protocol r m"
      using assms st x by (auto simp: coherent_def policy_switch_def)
    show ?thesis using t CN_KOSYNC_SYNC_STATUS_PROTOCOL_FAILED
      by (auto simp: classify_protocol_def verdict_def synced_outcomes_def Let_def)
  qed (use st x in \<open>auto simp: policy_switch_def verdict_def synced_outcomes_def\<close>)
  show ?thesis unfolding c m_def[symmetric] using cases st by simp
qed

text \<open>What the record file holds, and what the server was sent, by the flags of a result.\<close>

definition disk_report :: "bytes \<Rightarrow> bytes option \<Rightarrow> cn_kosync_sync_result \<Rightarrow> os \<Rightarrow> os \<Rightarrow> bool" where
  "disk_report dest identity r s s' \<longleftrightarrow> wf_os s' \<and> (local_save_attempted r = 0 \<longrightarrow> fs s' = fs s) \<and>
     (if local_saved r \<noteq> 0 then file_at (fs s') dest = Some (progress_image identity (record_of_remote (remote_progress r)), True)
      else bytes_at (fs s') dest = bytes_at (fs s) dest)"

definition wire_report :: "bytes \<Rightarrow> cn_kosync_sync_result \<Rightarrow> network \<Rightarrow> network \<Rightarrow> bool" where
  "wire_report put r n n' \<longleftrightarrow> wf_net n' \<and> sockets n' = sockets n \<and> (\<exists>k. outgoing n' = outgoing n @ take k put \<and>
     (policy_remote_mutation r = CN_KOSYNC_MUTATION_NONE \<and> sync_status r \<noteq> Known CN_KOSYNC_SYNC_STATUS_AUTH_FAILED \<longrightarrow> k = 0) \<and>
     (policy_remote_mutation r = CN_KOSYNC_MUTATION_CONFIRMED \<longrightarrow> take k put = put))"

definition true_report :: "bytes \<Rightarrow> bytes option \<Rightarrow> bytes \<Rightarrow> cn_kosync_sync_result \<Rightarrow> os \<times> network \<Rightarrow> os \<times> network \<Rightarrow> bool" where
  "true_report dest identity put r w w' \<longleftrightarrow> coherent r \<and> disk_report dest identity r (fst w) (fst w') \<and> wire_report put r (snd w) (snd w')"

lemma untouched: "calm s s' \<Longrightarrow> off_wire n n' \<Longrightarrow> local_save_attempted r = 0 \<Longrightarrow> local_saved r = 0 \<Longrightarrow> remote_uploaded r = 0 \<Longrightarrow>
    coherent r \<Longrightarrow> true_report dest identity put r (s, n) (s', n')"
  by (auto simp: true_report_def disk_report_def wire_report_def calm_def off_wire_def policy_remote_mutation_def
      bytes_at_def split: if_splits intro!: exI[of _ 0])

text \<open>A result before anything has been saved or sent.\<close>

definition fresh_result :: "cn_kosync_sync_result \<Rightarrow> bool" where
  "fresh_result r \<longleftrightarrow> local_present r \<in> {0, 1} \<and> remote_present r \<in> {0, 1} \<and> local_save_attempted r = 0 \<and> remote_put_attempted r = 0 \<and>
     local_saved r = 0 \<and> remote_uploaded r = 0 \<and> is_known (decision r)"

lemmas coherent_simps = coherent_def fresh_result_def boolean_fields_valid_def flags_agree_def sync_finish_def

lemma fresh_coherent:
  assumes "fresh_result r"
  shows "coherent (sync_finish r CN_KOSYNC_SYNC_STATUS_INVALID)" "coherent (sync_finish r CN_KOSYNC_SYNC_STATUS_IDENTITY_FAILED)"
    "coherent (sync_finish r CN_KOSYNC_SYNC_STATUS_LOCAL_FAILED)" "coherent (sync_finish r CN_KOSYNC_SYNC_STATUS_LOCAL_UNSUPPORTED)"
    "coherent (sync_finish r CN_KOSYNC_SYNC_STATUS_NO_MEMORY)" "coherent (sync_finish r CN_KOSYNC_SYNC_STATUS_AUTH_FAILED)"
    "t \<noteq> CN_TIME_OK \<Longrightarrow> coherent (sync_finish (r\<lparr>time_result := Known t\<rparr>) CN_KOSYNC_SYNC_STATUS_TRUSTED_TIME_FAILED)"
    "d \<noteq> CN_DNS_OK \<Longrightarrow> coherent (sync_finish (r\<lparr>time_result := Known t, dns_result := Known d\<rparr>) CN_KOSYNC_SYNC_STATUS_DNS_FAILED)"
  using assms by (auto simp: coherent_simps)

lemma map_kosync_coherent:
  assumes "boolean_fields_valid r" "is_known (decision r)" "local_saved r = 0" "remote_uploaded r = 0" "k \<noteq> CN_KOSYNC_OK" "kosync_result r = Known k"
    and "k = CN_KOSYNC_TRANSPORT_ERROR \<longrightarrow> (\<exists>t. transport_result (kosync_outcome r) = Known t \<and> t \<noteq> CN_NETSIMPLE_OK)"
  shows "coherent (sync_finish r (map_kosync k))"
  using assms by (cases k) (auto simp: coherent_def flags_agree_def sync_finish_def map_kosync_def boolean_fields_valid_def)

lemma sync_import_report:
  assumes "sync_import c identity result s = (r, s')" "wf_os s" "fresh_result result" "local_present result = 0" "remote_present result = 1"
    and "cfg_progress_store c = Some st" "dest = progress_path (directory st) (the (cn_book_identity_token identity))" "wf_net n"
  shows "true_report dest identity put r (s, n) (s', n)"
proof -
  obtain saved s1 where save: "cn_progress_store_save (Some st) identity (Some (record_of_remote (remote_progress result))) s = (saved, s1)" by fastforce
  define tmp where "tmp = progress_temporary dest s"
  have out: "progress_outcome tmp dest (progress_image identity (record_of_remote (remote_progress result))) s (saved, s1)"
    using save_effect[OF assms(2,7) tmp_def, of "record_of_remote (remote_progress result)"] save by (simp add: ends_def)
  have fresh: "tmp \<noteq> dest" unfolding tmp_def using progress_temporary_fresh assms(7) by simp
  have w: "wf_os s1" using out by (auto simp: progress_outcome_def committed_def replacing_def idle_def outside_def split: if_splits)
  have b: "saved \<noteq> CN_PROGRESS_OK \<Longrightarrow> bytes_at (fs s1) dest = bytes_at (fs s) dest"
    using out idle_unchanged[OF _ fresh] by (simp add: progress_outcome_def)
  have f: "saved = CN_PROGRESS_OK \<Longrightarrow>
      file_at (fs s1) dest = Some (progress_image identity (record_of_remote (remote_progress result)), True)"
    using out by (simp add: progress_outcome_def committed_def)
  have s': "s' = s1" using assms(1,6) save by (auto simp: sync_import_def Let_def split: if_splits)
  have r: "r = (if saved = CN_PROGRESS_OK
      then sync_finish (result\<lparr>decision := Known CN_KOSYNC_SYNC_REMOTE_SELECTED, local_save_attempted := 1, local_save_result := saved, local_saved := 1\<rparr>) CN_KOSYNC_SYNC_STATUS_OK
      else sync_finish (result\<lparr>decision := Known CN_KOSYNC_SYNC_REMOTE_SELECTED, local_save_attempted := 1, local_save_result := saved\<rparr>)
        (if saved = CN_PROGRESS_NO_MEMORY then CN_KOSYNC_SYNC_STATUS_NO_MEMORY else CN_KOSYNC_SYNC_STATUS_LOCAL_FAILED))"
    using assms(1,6) save by (auto simp: sync_import_def Let_def split: if_splits)
  have "coherent r" using assms(3,4,5) unfolding r by (auto simp: coherent_simps success_invariants_hold_def)
  moreover have "disk_report dest identity r s s'" using assms(3) w b f unfolding r s' by (auto simp: disk_report_def sync_finish_def fresh_result_def)
  moreover have "wire_report put r n n" using assms(3,8) unfolding r
    by (auto simp: wire_report_def sync_finish_def fresh_result_def policy_remote_mutation_def intro!: exI[of _ 0])
  ultimately show ?thesis by (simp add: true_report_def)
qed

text \<open>The record that is uploaded.\<close>

definition upload_of :: "cn_kosync_sync_config \<Rightarrow> bytes \<Rightarrow> cn_reader_position \<Rightarrow> cn_kosync_progress" where
  "upload_of c document pos = \<lparr>document_id = cstr document, logical_position = Some (cstr (the (location pos))),
     scaled_progress = progress_10000 pos, device = cstr (the (cfg_device c)), device_id = cstr (the (cfg_device_id c)),
     timestamp = 0, has_timestamp = False\<rparr>"

lemma progress_set_effect:
  assumes "cn_kosync_progress_set (Some blank_progress) (Some document) (location pos) (progress_10000 pos)
    (cfg_device c) (cfg_device_id c) s = ((k, upload), s')" "calm s0 s"
  shows "calm s0 s' \<and> k \<in> {CN_KOSYNC_OK, CN_KOSYNC_INVALID, CN_KOSYNC_NO_MEMORY} \<and> (k = CN_KOSYNC_OK \<longrightarrow> upload = Some (upload_of c document pos))"
  using assms malloc_calm[OF _ assms(2)]
  by (auto simp: cn_kosync_progress_set_def upload_of_def split: if_splits prod.splits bool.splits)

lemma true_report_after: "fs s1 = fs s \<Longrightarrow> off_wire n n1 \<Longrightarrow> true_report dest identity put r (s1, n1) w \<Longrightarrow>
    true_report dest identity put r (s, n) w"
  by (auto simp: true_report_def disk_report_def wire_report_def off_wire_def)

lemma sync_upload_report:
  assumes "sync_upload u c document client pos result s n = (r, s', n')" "wf_os s" "wf_net n" "fresh_result result"
    and "local_present result = 1" "remote_present result = 0" "use_tls client" "client_tls client \<noteq> None"
  shows "true_report dest identity (put_wire client (Some (upload_of c document pos))) r (s, n) (s', n')"
proof (cases "progress_10000 pos < 0")
  case True
  then have "r = sync_finish (result\<lparr>decision := Known CN_KOSYNC_SYNC_LOCAL_SELECTED\<rparr>) CN_KOSYNC_SYNC_STATUS_LOCAL_UNSUPPORTED"
    "s' = s" "n' = n" using assms(1) by (auto simp: sync_upload_def Let_def)
  then show ?thesis using assms(2-6) fresh_coherent(4)[of "result\<lparr>decision := Known CN_KOSYNC_SYNC_LOCAL_SELECTED\<rparr>"]
    by (intro untouched) (auto simp: calm_refl off_wire_refl fresh_result_def sync_finish_def)
next
  case nonneg: False
  obtain k upload s1 where set: "cn_kosync_progress_set (Some blank_progress) (Some document) (location pos) (progress_10000 pos)
      (cfg_device c) (cfg_device_id c) s = ((k, upload), s1)"
    by (cases "cn_kosync_progress_set (Some blank_progress) (Some document) (location pos) (progress_10000 pos)
      (cfg_device c) (cfg_device_id c) s") auto
  note S = progress_set_effect[OF set calm_refl[OF assms(2)]]
  define result1 where "result1 = result\<lparr>decision := Known CN_KOSYNC_SYNC_LOCAL_SELECTED, kosync_result := Known k\<rparr>"
  show ?thesis
  proof (cases "k = CN_KOSYNC_OK")
    case False
    then have r: "r = sync_finish result1 (map_kosync k)" "s' = s1" "n' = n"
      using assms(1) nonneg set by (auto simp: sync_upload_def Let_def result1_def)
    have "coherent r" unfolding r using S False assms(4)
      by (intro map_kosync_coherent) (auto simp: result1_def fresh_result_def boolean_fields_valid_def)
    then show ?thesis using S assms(3,4) r by (intro untouched) (auto simp: off_wire_refl fresh_result_def sync_finish_def result1_def)
  next
    case True
    define up where "up = upload_of c document pos"
    obtain k2 t outcome' s2 n2 where put: "cn_kosync_put_progress u (Some client) (Some up) s1 n = (((k2, t), outcome'), s2, n2)"
      by (cases "cn_kosync_put_progress u (Some client) (Some up) s1 n") auto
    have w1: "wf_os s1" using S by (simp add: calm_def)
    note P = put_effect[OF put assms(3) calm_refl[OF w1]]
    have calm: "calm s s2" using S P calm_trans by blast
    define result2 where "result2 = result1\<lparr>remote_put_attempted := 1, kosync_result := Known k2, kosync_outcome := outcome'\<rparr>"
    have res: "s' = s2" "n' = n2" "r = (if k2 \<noteq> CN_KOSYNC_OK then sync_finish result2 (map_kosync k2)
        else sync_finish (result2\<lparr>put_timestamp := the t, remote_uploaded := 1, has_put_timestamp := True\<rparr>) CN_KOSYNC_SYNC_STATUS_OK)"
      using assms(1) nonneg set True S put by (auto simp: sync_upload_def Let_def result1_def result2_def up_def split: if_splits)
    have fr: "boolean_fields_valid result2" "is_known (decision result2)" "local_saved result2 = 0" "remote_uploaded result2 = 0"
      "kosync_result result2 = Known k2" "kosync_outcome result2 = outcome'" "local_save_attempted result2 = 0" "remote_put_attempted result2 = 1"
      "decision result2 = Known CN_KOSYNC_SYNC_LOCAL_SELECTED" "local_present result2 = 1" "remote_present result2 = 0"
      using assms(4,5,6) by (auto simp: result2_def result1_def fresh_result_def boolean_fields_valid_def)
    note A = P[unfolded answers_def]
    have "coherent r"
    proof (cases "k2 = CN_KOSYNC_OK")
      case True
      then show ?thesis using res(3) fr by (auto simp: coherent_def flags_agree_def sync_finish_def boolean_fields_valid_def success_invariants_hold_def)
    next
      case False
      then show ?thesis using res(3) fr A by (auto intro!: map_kosync_coherent)
    qed
    moreover have "disk_report dest identity r s s'"
      using res(1,3) calm fr by (auto simp: disk_report_def calm_def sync_finish_def bytes_at_def)
    moreover have "wire_report (put_wire client (Some up)) r n n'"
    proof (cases "k2 = CN_KOSYNC_OK")
      case True
      have "outgoing n2 = outgoing n @ put_wire client (Some up)" using P True assms(7,8) by simp
      then show ?thesis using res(2,3) fr True A
        by (auto simp: wire_report_def talks_def sync_finish_def policy_remote_mutation_def
            intro!: exI[of _ "length (put_wire client (Some up))"])
    next
      case False
      have st: "sync_status r = Known (map_kosync k2)" "remote_uploaded r = 0" "remote_put_attempted r = 1" "kosync_outcome r = outcome'"
        using False res(3) fr by (auto simp: sync_finish_def)
      show ?thesis
      proof (cases "policy_remote_mutation r = CN_KOSYNC_MUTATION_NONE \<and> sync_status r \<noteq> Known CN_KOSYNC_SYNC_STATUS_AUTH_FAILED")
        case none: True
        then have "k2 = CN_KOSYNC_INVALID \<or> k2 = CN_KOSYNC_TRANSPORT_ERROR \<and> known_pre_put (transport_result outcome')"
          using st False P unfolding policy_remote_mutation_def by (cases k2) (simp_all add: map_kosync_def split: if_splits)
        then have "off_wire n n2"
        proof
          assume "k2 = CN_KOSYNC_INVALID"
          then show ?thesis using A by simp
        next
          assume "k2 = CN_KOSYNC_TRANSPORT_ERROR \<and> known_pre_put (transport_result outcome')"
          then show ?thesis using A by (auto simp: known_pre_put_def)
        qed
        then show ?thesis using none res(2) by (auto simp: wire_report_def off_wire_def intro!: exI[of _ 0])
      next
        case open': False
        have unsure: "policy_remote_mutation r \<noteq> CN_KOSYNC_MUTATION_CONFIRMED" using st by (simp add: policy_remote_mutation_def)
        obtain j where j: "outgoing n2 = outgoing n @ take j (put_wire client (Some up))" "wf_net n2" "sockets n2 = sockets n"
          using A unfolding talks_def by blast
        show ?thesis unfolding wire_report_def res(2) using open' unsure j by (intro conjI exI[of _ j]) auto
      qed
    qed
    ultimately show ?thesis by (simp add: true_report_def up_def)
  qed
qed

lemma sync_decide_report:
  assumes "sync_decide u c identity document client local result s n = (r, s', n')" "wf_os s" "wf_net n" "fresh_result result"
    and "use_tls client" "client_tls client \<noteq> None" "cfg_progress_store c = Some st"
    and "dest = progress_path (directory st) (the (cn_book_identity_token identity))"
  shows "true_report dest identity (put_wire client (Some (upload_of c document (position local)))) r (s, n) (s', n')"
proof -
  have p: "local_present result = 0 \<or> local_present result = 1" "remote_present result = 0 \<or> remote_present result = 1"
    using assms(4) by (auto simp: fresh_result_def)
  consider (neither) "local_present result = 0" "remote_present result = 0" | (remote) "local_present result = 0" "remote_present result = 1"
    | (local) "local_present result = 1" "remote_present result = 0" | (both) "local_present result = 1" "remote_present result = 1"
    using p by blast
  then show ?thesis
  proof cases
    case neither
    then have "r = sync_finish (result\<lparr>decision := Known CN_KOSYNC_SYNC_NO_STATE\<rparr>) CN_KOSYNC_SYNC_STATUS_OK" "s' = s" "n' = n"
      using assms(1) by (auto simp: sync_decide_def)
    then show ?thesis using assms(2-4) neither
      by (intro untouched) (auto simp: calm_refl off_wire_refl coherent_simps success_invariants_hold_def)
  next
    case both
    then have "\<exists>d \<in> {CN_KOSYNC_SYNC_NO_CHANGE, CN_KOSYNC_SYNC_AMBIGUOUS}.
        r = sync_finish (result\<lparr>decision := Known d\<rparr>) CN_KOSYNC_SYNC_STATUS_OK" "s' = s" "n' = n"
      using assms(1) by (auto simp: sync_decide_def)
    then show ?thesis using assms(2-4) both
      by (intro untouched) (auto simp: calm_refl off_wire_refl coherent_simps success_invariants_hold_def)
  next
    case remote
    then have "sync_import c identity result s = (r, s')" "n' = n" using assms(1) by (auto simp: sync_decide_def split: prod.splits)
    then show ?thesis using sync_import_report[OF _ assms(2,4) remote assms(7,8,3)] by simp
  next
    case local
    then have "sync_upload u c document client (position local) result s n = (r, s', n')" using assms(1) by (auto simp: sync_decide_def)
    then show ?thesis using sync_upload_report[OF _ assms(2,3,4) local assms(5,6)] by simp
  qed
qed

text \<open>From the session on: a prefix of the bytes of the GET, then what the report says.\<close>

definition full_report :: "cn_kosync_sync_config \<Rightarrow> bytes \<Rightarrow> bytes option \<Rightarrow> bytes \<Rightarrow> cn_reader_position \<Rightarrow> cn_kosync_sync_result \<Rightarrow>
    os \<times> network \<Rightarrow> os \<times> network \<Rightarrow> bool" where
  "full_report c dest identity document pos r w w' \<longleftrightarrow> (\<exists>h between. talks (snd w) (get_wire (wire_client c h) document) between \<and>
     true_report dest identity (put_wire (wire_client c h) (Some (upload_of c document pos))) r (fst w, between) w')"

lemma full_report_untouched: "calm s s' \<Longrightarrow> talks n (get_wire (wire_client c h) document) n' \<Longrightarrow> local_save_attempted r = 0 \<Longrightarrow>
    local_saved r = 0 \<Longrightarrow> remote_uploaded r = 0 \<Longrightarrow> coherent r \<Longrightarrow> full_report c dest identity document pos r (s, n) (s', n')"
  using untouched[of s s' n' n' r dest identity "put_wire (wire_client c h) (Some (upload_of c document pos))"] off_wire_refl[of n']
  by (auto simp: full_report_def talks_def intro!: exI[of _ h] exI[of _ n'])

lemma full_report_idle: "calm s s' \<Longrightarrow> off_wire n n' \<Longrightarrow> local_save_attempted r = 0 \<Longrightarrow> local_saved r = 0 \<Longrightarrow>
    remote_uploaded r = 0 \<Longrightarrow> coherent r \<Longrightarrow> full_report c dest identity document pos r (s, n) (s', n')"
  using full_report_untouched[of s s' n c "[]" document n' r] off_wire_talks[of n n'] by blast

lemma sync_ask_report:
  assumes "sync_ask u c identity document local result s n = (r, s', n')" "wf_os s" "wf_net n" "fresh_result result"
    and "session_config_ok c" "cfg_progress_store c = Some st" "remote_present result = 0"
    and "dest = progress_path (directory st) (the (cn_book_identity_token identity))"
  shows "full_report c dest identity document (position local) r (s, n) (s', n')"
proof -
  obtain session n1 where o: "open_session c n = (session, n1)" by (cases "open_session c n")
  note O = session_effect[OF o assms(3,5)]
  show ?thesis
  proof (cases session)
    case (Untrusted_time t)
    then have "r = sync_finish (result\<lparr>time_result := Known t\<rparr>) CN_KOSYNC_SYNC_STATUS_TRUSTED_TIME_FAILED" "s' = s" "n' = n1" "t \<noteq> CN_TIME_OK"
      using assms(1) o O by (auto simp: sync_ask_def)
    then show ?thesis using O fresh_coherent(7)[OF assms(4)] assms(4)
      by (intro full_report_idle) (auto simp: calm_refl[OF assms(2)] fresh_result_def sync_finish_def)
  next
    case (Unresolved d)
    then have "r = sync_finish (result\<lparr>time_result := Known CN_TIME_OK, dns_result := Known d\<rparr>) CN_KOSYNC_SYNC_STATUS_DNS_FAILED"
      "s' = s" "n' = n1" "d \<noteq> CN_DNS_OK"
      using assms(1) o O by (auto simp: sync_ask_def)
    then show ?thesis using O fresh_coherent(8)[OF assms(4)] assms(4)
      by (intro full_report_idle) (auto simp: calm_refl[OF assms(2)] fresh_result_def sync_finish_def)
  next
    case (Session k client)
    define result1 where "result1 = result\<lparr>time_result := Known CN_TIME_OK, dns_result := Known CN_DNS_OK, kosync_result := Known k\<rparr>"
    have f1: "fresh_result result1" "remote_present result1 = 0" using assms(4,7) by (simp_all add: result1_def fresh_result_def)
    show ?thesis
    proof (cases "k = CN_KOSYNC_OK")
      case False
      then have r: "r = sync_finish result1 CN_KOSYNC_SYNC_STATUS_INVALID" "s' = s" "n' = n1"
        using assms(1) o O Session by (auto simp: sync_ask_def Let_def result1_def map_kosync_def)
      then show ?thesis using O fresh_coherent(1)[OF f1(1)] f1
        by (intro full_report_idle) (auto simp: calm_refl[OF assms(2)] fresh_result_def sync_finish_def)
    next
      case True
      then obtain h where h: "client = wire_client c h" "use_tls client" "client_tls client \<noteq> None" using O Session by auto
      obtain k2 remote outcome' s2 n2 where g: "cn_kosync_get_progress u (Some client) (Some document) (Some (remote_progress result1)) s n1 =
          (((k2, remote), outcome'), s2, n2)"
        by (cases "cn_kosync_get_progress u (Some client) (Some document) (Some (remote_progress result1)) s n1") auto
      have w1: "wf_net n1" "off_wire n n1" using O by (simp_all add: off_wire_def)
      note G = get_effect[OF g w1(1) calm_refl[OF assms(2)]]
      define result2 where "result2 = result1\<lparr>kosync_result := Known k2, remote_progress := the remote, kosync_outcome := outcome'\<rparr>"
      have f2: "fresh_result result2" "remote_present result2 = 0" using f1 by (simp_all add: result2_def fresh_result_def)
      have t: "talks n (get_wire (wire_client c h) document) n2"
        using G off_wire_then_talks[OF w1(2)] h(1) by (simp add: answers_def)
      have s2: "wf_os s2" "fs s2 = fs s" "wf_net n2" using G t by (auto simp: calm_def talks_def)
      have decide: ?thesis if d: "sync_decide u c identity document client local result3 s2 n2 = (r, s', n')" "fresh_result result3" for result3
        using sync_decide_report[OF d(1) s2(1,3) d(2) h(2,3) assms(6,8)] t h(1) s2(2)
          true_report_after[OF s2(2) off_wire_refl[OF s2(3)]]
        unfolding full_report_def fst_conv snd_conv by metis
      have steps: "(r, s', n') = (if k2 = CN_KOSYNC_OK
          then sync_decide u c identity document client local (result2\<lparr>remote_present := 1\<rparr>) s2 n2
          else if k2 = CN_KOSYNC_NOT_FOUND then sync_decide u c identity document client local result2 s2 n2
          else (sync_finish result2 (map_kosync k2), s2, n2))"
        using assms(1) o Session True g by (auto simp: sync_ask_def Let_def result1_def result2_def)
      show ?thesis
      proof (cases "k2 = CN_KOSYNC_OK \<or> k2 = CN_KOSYNC_NOT_FOUND")
        case True
        moreover have "fresh_result (result2\<lparr>remote_present := 1\<rparr>)" using f2 by (simp add: fresh_result_def)
        ultimately show ?thesis using steps decide[OF _ f2(1)] decide[of "result2\<lparr>remote_present := 1\<rparr>"] by (auto split: if_splits)
      next
        case False
        then have r: "r = sync_finish result2 (map_kosync k2)" "s' = s2" "n' = n2" using steps by auto
        have tr: "\<exists>t. transport_result outcome' = Known t \<and> t \<noteq> CN_NETSIMPLE_OK" if "k2 = CN_KOSYNC_TRANSPORT_ERROR"
          using getting.transport_named[OF g w1(1) assms(2) that] .
        have "coherent r" unfolding r using False f2 tr
          by (intro map_kosync_coherent) (auto simp: result2_def fresh_result_def boolean_fields_valid_def)
        then show ?thesis using r G t f2 by (intro full_report_untouched) (auto simp: sync_finish_def fresh_result_def)
      qed
    qed
  qed
qed

text \<open>The record file of the book, the document id it is known by, and the position that the device has for it.\<close>

definition book_file :: "'a cn_kosync_pull_config_scheme \<Rightarrow> bytes" where
  "book_file c = progress_path (directory (the (cfg_progress_store c))) (the (cn_book_identity_token (fst (local_identity c))))"

definition book_document :: "(bytes \<Rightarrow> stdio_file option) \<Rightarrow> 'a cn_kosync_pull_config_scheme \<Rightarrow> bytes" where
  "book_document files c = the (snd (remote_identity files c))"

definition book_position :: "'a cn_kosync_pull_config_scheme \<Rightarrow> os \<Rightarrow> cn_reader_position" where
  "book_position c s = position (the (fst (snd (cn_progress_store_load (cfg_progress_store c) (fst (local_identity c)) (Some blank_record) s))))"

lemma local_identity_token:
  "local_identity c = (identity, 0) \<Longrightarrow> \<exists>token. cn_book_identity_token identity = Some token"
proof -
  assume a: "local_identity c = (identity, 0)"
  show ?thesis
  proof (cases "cfg_document_path c = None \<or> strlen (the (cfg_document_path c)) = 0 \<or> strlen (the (cfg_document_path c)) > path_max_bytes")
    case True
    from from_path_fails[OF this, of "replicate token_bytes 0"] a show ?thesis
      by (simp add: local_identity_def cn_book_identity_init_def)
  next
    case False
    then obtain q where q: "cfg_document_path c = Some q" "1 \<le> strlen q" "strlen q \<le> path_max_bytes" by (cases "cfg_document_path c") auto
    then show ?thesis using a from_path_ok[OF q(2,3), of "replicate token_bytes 0"] token_of_valid[of "cstr q"]
      by (auto simp: local_identity_def cn_book_identity_init_def cn_book_identity_token_def)
  qed
qed

lemma document_text_same: "cn_koreader_document_id_text d \<noteq> None \<Longrightarrow> the (cn_koreader_document_id_text d) = the d"
  by (auto simp: cn_koreader_document_id_text_def split: option.splits if_splits)

lemma sync_once_report:
  assumes "cn_kosync_sync_once files u (Some c) (Some old) s n = (Some r, s', n')" "wf_os s" "wf_net n"
  shows "full_report c (book_file c) (fst (local_identity c)) (book_document files c) (book_position c s) r (s, n) (s', n')"
proof -
  have blank: "fresh_result sync_blank" "remote_present sync_blank = 0" by (simp_all add: sync_blank_def fresh_result_def)
  have early: ?thesis if "r = sync_finish result status'" "calm s s'" "n' = n" "fresh_result result" "coherent r" for result status'
    using that assms(3) by (intro full_report_idle) (auto simp: off_wire_refl fresh_result_def sync_finish_def)
  note still = calm_refl[OF assms(2)]
  show ?thesis
  proof (cases "sync_config_ok c")
    case False
    then have "r = sync_finish sync_blank CN_KOSYNC_SYNC_STATUS_INVALID" "s' = s" "n' = n"
      using assms(1) by (auto simp: cn_kosync_sync_once_def cn_kosync_sync_result_clear_def cn_kosync_sync_result_init_def)
    then show ?thesis using early fresh_coherent(1)[OF blank(1)] blank still by simp
  next
    case ok: True
    obtain identity rc where i: "local_identity c = (identity, rc)" by (cases "local_identity c")
    obtain ir document where d: "remote_identity files c = (ir, document)" by (cases "remote_identity files c")
    define result1 where "result1 = sync_blank\<lparr>local_identity_ok := (rc = 0)\<rparr>"
    define result2 where "result2 = result1\<lparr>identity_result := ir, koreader_document_id := the document\<rparr>"
    have f1: "fresh_result result1" "fresh_result result2" "remote_present result2 = 0"
      using blank by (simp_all add: result1_def result2_def fresh_result_def)
    show ?thesis
    proof (cases "rc = 0")
      case False
      then have "r = sync_finish result1 CN_KOSYNC_SYNC_STATUS_IDENTITY_FAILED" "s' = s" "n' = n"
        using assms(1) ok i d by (auto simp: cn_kosync_sync_once_def cn_kosync_sync_result_clear_def cn_kosync_sync_result_init_def
            Let_def result1_def)
      then show ?thesis using early fresh_coherent(2)[OF f1(1)] f1 still by simp
    next
      case rc: True
      show ?thesis
      proof (cases "ir \<noteq> CN_KOREADER_IDENTITY_OK \<or> cn_koreader_document_id_text document = None")
        case True
        then have "r = sync_finish result2 CN_KOSYNC_SYNC_STATUS_IDENTITY_FAILED" "s' = s" "n' = n"
          using assms(1) ok i d rc by (auto simp: cn_kosync_sync_once_def cn_kosync_sync_result_clear_def cn_kosync_sync_result_init_def
              Let_def result1_def result2_def)
        then show ?thesis using early fresh_coherent(2)[OF f1(2)] f1 still by simp
      next
        case False
        then obtain text' where ids: "ir = CN_KOREADER_IDENTITY_OK" and text': "cn_koreader_document_id_text document = Some text'" by auto
        obtain st where st: "cfg_progress_store c = Some st" using ok by (auto simp: sync_config_ok_def session_config_ok_def)
        obtain lr local s1 where l: "cn_progress_store_load (Some st) identity (Some blank_record) s = (lr, local, s1)"
          by (metis prod_cases3)
        obtain token where tok: "cn_book_identity_token identity = Some token" using local_identity_token i rc by blast
        note L = load_frame[OF l assms(2) tok]
        have c1: "calm s s1" using L by (simp add: calm_def)
        define result3 where "result3 = result2\<lparr>local_load_result := lr\<rparr>"
        have f3: "fresh_result result3" "remote_present result3 = 0" using f1 by (simp_all add: result3_def fresh_result_def)
        have run: "cn_kosync_sync_once files u (Some c) (Some old) s n = (if lr \<noteq> CN_PROGRESS_OK \<and> lr \<noteq> CN_PROGRESS_MISSING
            then (Some (sync_finish result3 (if lr = CN_PROGRESS_NO_MEMORY then CN_KOSYNC_SYNC_STATUS_NO_MEMORY
                else CN_KOSYNC_SYNC_STATUS_LOCAL_FAILED)), s1, n)
            else map_prod Some id (sync_ask u c identity (the (cn_koreader_document_id_text document)) (the local)
                (if lr = CN_PROGRESS_OK then result3\<lparr>local_present := 1\<rparr> else result3) s1 n))"
          using ok i d rc ids(1) text' l st
          by (simp add: cn_kosync_sync_once_def cn_kosync_sync_result_clear_def cn_kosync_sync_result_init_def
              Let_def result1_def result2_def result3_def)
        note steps = run[unfolded assms(1)]
        show ?thesis
        proof (cases "lr \<noteq> CN_PROGRESS_OK \<and> lr \<noteq> CN_PROGRESS_MISSING")
          case True
          then show ?thesis using steps early c1 f3 fresh_coherent(3,5)[OF f3(1)] by (auto split: if_splits)
        next
          case False
          define result4 where "result4 = (if lr = CN_PROGRESS_OK then result3\<lparr>local_present := 1\<rparr> else result3)"
          have f4: "fresh_result result4" "remote_present result4 = 0" using f3 by (simp_all add: result4_def fresh_result_def)
          obtain r1 s2 n2 where a: "sync_ask u c identity (the document) (the local) result4 s1 n = (r1, s2, n2)"
            by (metis prod_cases3)
          have eq: "r1 = r" "s2 = s'" "n2 = n'" using steps False a text' document_text_same[of document] by (auto simp: result4_def)
          have "full_report c (book_file c) identity (the document) (position (the local)) r (s1, n) (s', n')"
            using sync_ask_report[OF a[unfolded eq] _ assms(3) f4(1) _ st f4(2)] ok L i st
            by (simp add: sync_config_ok_def book_file_def)
          moreover have "book_position c s = position (the local)" using l st i by (simp add: book_position_def)
          ultimately show ?thesis using L i d true_report_after[OF _ off_wire_refl]
            unfolding full_report_def book_document_def fst_conv snd_conv talks_def by (metis fst_conv snd_conv)
        qed
      qed
    qed
  qed
qed

section \<open>Pulling\<close>

text \<open>What a pull did: the wire carries at most the GET, and the record file is the server's record or as it was.\<close>

definition pull_report :: "'a cn_kosync_pull_config_scheme \<Rightarrow> bytes option \<Rightarrow> bytes \<Rightarrow> cn_kosync_pull_result \<Rightarrow> os \<Rightarrow> network \<Rightarrow> os \<Rightarrow> network \<Rightarrow> bool" where
  "pull_report c identity document r s n s' n' \<longleftrightarrow> (\<exists>h. talks n (get_wire (wire_client c h) document) n') \<and> wf_os s' \<and>
     (pull_status r = CN_KOSYNC_PULL_PERSISTED \<longleftrightarrow> pull_saved r) \<and> (\<not> get_attempted r \<longrightarrow> outgoing n' = outgoing n) \<and>
     (\<not> pull_save_attempted r \<longrightarrow> fs s' = fs s) \<and>
     (if pull_saved r then \<exists>remote. document_id remote = cstr document \<and>
          file_at (fs s') (book_file c) = Some (progress_image identity (record_of_remote remote), True)
      else bytes_at (fs s') (book_file c) = bytes_at (fs s) (book_file c))"

lemma pull_untouched: "calm s s' \<Longrightarrow> off_wire n n' \<Longrightarrow> pull_status r \<noteq> CN_KOSYNC_PULL_PERSISTED \<Longrightarrow> \<not> pull_saved r \<Longrightarrow>
    pull_report c identity document r s n s' n'"
  using off_wire_talks[of n n'] by (auto simp: pull_report_def calm_def off_wire_def bytes_at_def)

lemma pull_get_report:
  assumes "pull_get u c identity document client pull_blank' s n = (r, s', n')" "wf_os s" "wf_net n"
    and "client = wire_client c h" "cfg_progress_store c = Some st" "fst (local_identity c) = identity"
    and "\<not> pull_saved pull_blank'" "\<not> pull_save_attempted pull_blank'"
  shows "pull_report c identity document r s n s' n'"
proof -
  obtain k remote outcome' s1 n1 where g: "cn_kosync_get_progress u (Some client) (Some document) (Some blank_progress) s n = (((k, remote), outcome'), s1, n1)"
    by (cases "cn_kosync_get_progress u (Some client) (Some document) (Some blank_progress) s n") auto
  note G = get_effect[OF g assms(3) calm_refl[OF assms(2)]]
  have t: "talks n (get_wire (wire_client c h) document) n1" using G assms(4) by (simp add: answers_def)
  define result1 where "result1 = pull_blank'\<lparr>get_attempted := True, pull_kosync_result := k, pull_outcome := outcome'\<rparr>"
  show ?thesis
  proof (cases "k = CN_KOSYNC_OK")
    case False
    then have "s' = s1" "n' = n1" "get_attempted r" "\<not> pull_saved r" "\<not> pull_save_attempted r" "pull_status r \<noteq> CN_KOSYNC_PULL_PERSISTED"
      using assms(1,7,8) g by (auto simp: pull_get_def Let_def pull_failure_def split: if_splits)
    then show ?thesis using t G by (auto simp: pull_report_def calm_def bytes_at_def)
  next
    case True
    obtain rem where rem: "remote = Some rem" "document_id rem = cstr document" using G True by blast
    obtain saved s2 where save: "cn_progress_store_save (Some st) identity (Some (record_of_remote rem)) s1 = (saved, s2)" by fastforce
    define tmp where "tmp = progress_temporary (book_file c) s1"
    have w1: "wf_os s1" "fs s1 = fs s" using G by (simp_all add: calm_def)
    have dest: "book_file c = progress_path (directory st) (the (cn_book_identity_token identity))"
      using assms(5,6) by (simp add: book_file_def)
    note S = save_effect[OF w1(1) dest tmp_def, of "record_of_remote rem", unfolded ends_def save]
    have fresh: "tmp \<noteq> book_file c" unfolding tmp_def using progress_temporary_fresh dest by simp
    have r: "s' = s2" "n' = n1" "get_attempted r" "pull_save_attempted r" "pull_saved r \<longleftrightarrow> saved = CN_PROGRESS_OK"
      "pull_status r = (if saved = CN_PROGRESS_OK then CN_KOSYNC_PULL_PERSISTED else CN_KOSYNC_PULL_LOCAL_FAILED)"
      using assms(1,5,7) g True rem(1) save by (auto simp: pull_get_def Let_def split: if_splits)
    show ?thesis
    proof (cases "saved = CN_PROGRESS_OK")
      case True
      then have "wf_os s2" "file_at (fs s2) (book_file c) = Some (progress_image identity (record_of_remote rem), True)"
        using S by (auto simp: progress_outcome_def committed_def replacing_def)
      then show ?thesis using r True t rem(2) by (auto simp: pull_report_def)
    next
      case False
      then have "wf_os s2" "bytes_at (fs s2) (book_file c) = bytes_at (fs s) (book_file c)"
        using S idle_unchanged[OF _ fresh, of s1 s2] w1(2) by (auto simp: progress_outcome_def idle_def outside_def)
      then show ?thesis using r False t by (auto simp: pull_report_def)
    qed
  qed
qed

lemma pull_session_report:
  assumes "pull_session u c identity document result s n = (r, s', n')" "wf_os s" "wf_net n" "session_config_ok c"
    and "cfg_progress_store c = Some st" "fst (local_identity c) = identity" "\<not> pull_saved result" "\<not> pull_save_attempted result"
  shows "pull_report c identity document r s n s' n'"
proof -
  obtain session n1 where o: "open_session c n = (session, n1)" by (cases "open_session c n")
  note O = session_effect[OF o assms(3,4)]
  show ?thesis
  proof (cases "\<exists>client. session = Session CN_KOSYNC_OK client")
    case False
    then have "s' = s" "n' = n1" "pull_status r \<noteq> CN_KOSYNC_PULL_PERSISTED" "\<not> pull_saved r"
      using assms(1,7) o by (cases session; auto simp: pull_session_def Let_def split: if_splits)+
    then show ?thesis using O by (intro pull_untouched) (auto simp: calm_refl[OF assms(2)])
  next
    case True
    then obtain client h where h: "session = Session CN_KOSYNC_OK client" "client = wire_client c h" using O by auto
    define result1 where "result1 = result\<lparr>pull_time_result := CN_TIME_OK, pull_dns_result := CN_DNS_OK, pull_kosync_result := CN_KOSYNC_OK\<rparr>"
    have g: "pull_get u c identity document client result1 s n1 = (r, s', n')"
      using assms(1) o h(1) by (simp add: pull_session_def Let_def result1_def)
    have w: "wf_net n1" "off_wire n n1" using O by (simp_all add: off_wire_def)
    have "pull_report c identity document r s n1 s' n'"
      using pull_get_report[OF g assms(2) w(1) h(2) assms(5,6)] assms(7,8) by (simp add: result1_def)
    then show ?thesis using w(2) off_wire_then_talks[OF w(2)] by (auto simp: pull_report_def off_wire_def)
  qed
qed

lemma pull_report_final:
  assumes "cn_kosync_pull_remote_once files u (Some c) (Some old) s n = (Some r, s', n')" "wf_os s" "wf_net n"
  shows "pull_report c (fst (local_identity c)) (book_document files c) r s n s' n'"
proof -
  obtain identity rc where i: "local_identity c = (identity, rc)" by (cases "local_identity c")
  obtain ir document where d: "remote_identity files c = (ir, document)" by (cases "remote_identity files c")
  show ?thesis
  proof (cases "session_config_ok c \<and> ca_path (the (cfg_tls c)) \<noteq> None \<and> rc = 0 \<and> ir = CN_KOREADER_IDENTITY_OK \<and>
      cn_koreader_document_id_text document \<noteq> None")
    case False
    then have "s' = s" "n' = n" "pull_status r \<noteq> CN_KOSYNC_PULL_PERSISTED" "\<not> pull_saved r"
      using assms(1) i d by (auto simp: cn_kosync_pull_remote_once_def cn_kosync_pull_result_init_def pull_blank_def Let_def split: if_splits)
    then show ?thesis using assms(3) by (intro pull_untouched) (auto simp: calm_refl[OF assms(2)] off_wire_refl)
  next
    case True
    then obtain text' st where ok: "session_config_ok c" "ca_path (the (cfg_tls c)) \<noteq> None" "rc = 0" "ir = CN_KOREADER_IDENTITY_OK"
      "cn_koreader_document_id_text document = Some text'" "cfg_progress_store c = Some st"
      by (auto simp: session_config_ok_def)
    have t: "text' = the document" using ok(5) document_text_same[of document] by simp
    have run: "cn_kosync_pull_remote_once files u (Some c) (Some old) s n =
        map_prod Some id (pull_session u c identity text' (pull_blank\<lparr>pull_identity_result := ir\<rparr>) s n)"
      using i d ok(1-5) by (auto simp: cn_kosync_pull_remote_once_def cn_kosync_pull_result_init_def Let_def)
    then have p: "pull_session u c identity text' (pull_blank\<lparr>pull_identity_result := ir\<rparr>) s n = (r, s', n')"
      using assms(1) by (cases "pull_session u c identity text' (pull_blank\<lparr>pull_identity_result := ir\<rparr>) s n") auto
    from pull_session_report[OF p assms(2,3) ok(1,6)] show ?thesis using i d t by (simp add: pull_blank_def book_document_def)
  qed
qed

section \<open>Pushing\<close>

text \<open>What a push did: the record file is as it was, and the wire carries what the report says of the PUT.\<close>

definition push_report :: "cn_kosync_push_config \<Rightarrow> bytes \<Rightarrow> cn_reader_position \<Rightarrow> cn_kosync_push_result \<Rightarrow> os \<Rightarrow> network \<Rightarrow> os \<Rightarrow> network \<Rightarrow> bool" where
  "push_report c document pos r s n s' n' \<longleftrightarrow> fs s' = fs s \<and> wf_os s' \<and> wf_net n' \<and> sockets n' = sockets n \<and>
     push_local_mutation r = CN_KOSYNC_MUTATION_NONE \<and>
     (push_status r = CN_KOSYNC_PUSH_UPLOADED \<longleftrightarrow> push_remote_mutation r = CN_KOSYNC_MUTATION_CONFIRMED) \<and>
     (\<exists>h k. outgoing n' = outgoing n @ take k (put_wire (wire_client c h) (Some (upload_of c document pos))) \<and>
        (\<not> put_invoked r \<or> push_remote_mutation r = CN_KOSYNC_MUTATION_NONE \<longrightarrow> k = 0) \<and>
        (push_remote_mutation r = CN_KOSYNC_MUTATION_CONFIRMED \<longrightarrow>
           outgoing n' = outgoing n @ put_wire (wire_client c h) (Some (upload_of c document pos))))"

lemma push_untouched: "calm s s' \<Longrightarrow> off_wire n n' \<Longrightarrow> push_status r \<noteq> CN_KOSYNC_PUSH_UPLOADED \<Longrightarrow>
    push_local_mutation r = CN_KOSYNC_MUTATION_NONE \<Longrightarrow> push_remote_mutation r = CN_KOSYNC_MUTATION_NONE \<Longrightarrow>
    push_report c document pos r s n s' n'"
  by (auto simp: push_report_def calm_def off_wire_def intro!: exI[of _ 0])

lemma proven_pre_send_pre_put: "proven_pre_send t \<Longrightarrow> known_pre_put t"
  by (cases t) (auto simp: proven_pre_send_def known_pre_put_def transport_is_pre_put_def split: cn_netsimple_result.splits)

lemma push_put_report:
  assumes "push_put u client (Some (upload_of c document pos)) result s n = (r, s', n')" "wf_os s" "wf_net n"
    and "client = wire_client c h" "use_tls client" "client_tls client \<noteq> None" "push_local_mutation result = CN_KOSYNC_MUTATION_NONE"
  shows "push_report c document pos r s n s' n'"
proof -
  define up where "up = upload_of c document pos"
  obtain k t outcome' s1 n1 where put: "cn_kosync_put_progress u (Some client) (Some up) s n = (((k, t), outcome'), s1, n1)"
    by (cases "cn_kosync_put_progress u (Some client) (Some up) s n") auto
  note P = put_effect[OF put assms(3) calm_refl[OF assms(2)]]
  obtain j where j: "outgoing n1 = outgoing n @ take j (put_wire client (Some up))" "wf_net n1" "sockets n1 = sockets n"
    using P unfolding answers_def talks_def by blast
  have calm: "wf_os s1" "fs s1 = fs s" using P by (simp_all add: calm_def)
  have eq: "s' = s1" "n' = n1" using assms(1) put by (auto simp: push_put_def Let_def up_def split: if_splits)
  show ?thesis
  proof (cases "k = CN_KOSYNC_OK")
    case True
    have "outgoing n1 = outgoing n @ put_wire client (Some up)" using P True assms(5,6) by simp
    moreover have "push_status r = CN_KOSYNC_PUSH_UPLOADED" "push_remote_mutation r = CN_KOSYNC_MUTATION_CONFIRMED"
      "push_local_mutation r = CN_KOSYNC_MUTATION_NONE" "put_invoked r"
      using assms(1,7) put True by (auto simp: push_put_def Let_def up_def)
    ultimately show ?thesis using calm j eq unfolding push_report_def assms(4) up_def
      by (intro conjI exI[of _ h] exI[of _ "length (put_wire (wire_client c h) (Some (upload_of c document pos)))"]) simp_all
  next
    case False
    have r: "push_status r = push_failure k" "push_local_mutation r = CN_KOSYNC_MUTATION_NONE" "put_invoked r"
      "push_remote_mutation r = (if k = CN_KOSYNC_TRANSPORT_ERROR \<and> proven_pre_send (transport_result outcome')
         then CN_KOSYNC_MUTATION_NONE else CN_KOSYNC_MUTATION_POSSIBLE)"
      using assms(1,7) put False by (auto simp: push_put_def Let_def up_def)
    have f: "push_failure k \<noteq> CN_KOSYNC_PUSH_UPLOADED" by (cases k) (simp_all add: push_failure_def)
    show ?thesis
    proof (cases "k = CN_KOSYNC_TRANSPORT_ERROR \<and> proven_pre_send (transport_result outcome')")
      case True
      then have "off_wire n n1" using putting.nothing_sent[OF put assms(3,2)] proven_pre_send_pre_put by blast
      then show ?thesis using calm eq r f True unfolding push_report_def off_wire_def
        by (intro conjI exI[of _ h] exI[of _ 0]) simp_all
    next
      case False
      then show ?thesis using calm eq r f j unfolding push_report_def assms(4) up_def
        by (intro conjI exI[of _ h] exI[of _ j]) auto
    qed
  qed
qed

lemma push_session_report:
  assumes "push_session u c (Some (upload_of c document pos)) result s n = (r, s', n')" "wf_os s" "wf_net n" "session_config_ok c"
    and "push_local_mutation result = CN_KOSYNC_MUTATION_NONE" "push_remote_mutation result = CN_KOSYNC_MUTATION_NONE"
  shows "push_report c document pos r s n s' n'"
proof -
  obtain session n1 where o: "open_session c n = (session, n1)" by (cases "open_session c n")
  note O = session_effect[OF o assms(3,4)]
  show ?thesis
  proof (cases "\<exists>client. session = Session CN_KOSYNC_OK client")
    case False
    then have "s' = s" "n' = n1" "push_status r \<noteq> CN_KOSYNC_PUSH_UPLOADED" "push_local_mutation r = CN_KOSYNC_MUTATION_NONE"
      "push_remote_mutation r = CN_KOSYNC_MUTATION_NONE"
      using assms(1,5,6) o by (cases session; auto simp: push_session_def Let_def split: if_splits)+
    then show ?thesis using O by (intro push_untouched) (auto simp: calm_refl[OF assms(2)])
  next
    case True
    then obtain client h where h: "session = Session CN_KOSYNC_OK client" "client = wire_client c h" "use_tls client" "client_tls client \<noteq> None"
      using O by auto
    define result1 where "result1 = result\<lparr>push_time_result := CN_TIME_OK, push_dns_result := CN_DNS_OK, push_kosync_result := CN_KOSYNC_OK\<rparr>"
    have g: "push_put u client (Some (upload_of c document pos)) result1 s n1 = (r, s', n')"
      using assms(1) o h(1) by (simp add: push_session_def Let_def result1_def)
    have w: "wf_net n1" "off_wire n n1" using O by (simp_all add: off_wire_def)
    have "push_report c document pos r s n1 s' n'"
      using push_put_report[OF g assms(2) w(1) h(2,3,4)] assms(5) by (simp add: result1_def)
    then show ?thesis using w(2) by (auto simp: push_report_def off_wire_def)
  qed
qed

lemma push_report_final:
  assumes "cn_kosync_push_local_once files u (Some c) (Some old) s n = (Some r, s', n')" "wf_os s" "wf_net n"
  shows "push_report c (book_document files c) (book_position c s) r s n s' n'"
proof -
  obtain identity rc where i: "local_identity c = (identity, rc)" by (cases "local_identity c")
  obtain ir document where d: "remote_identity files c = (ir, document)" by (cases "remote_identity files c")
  note still = calm_refl[OF assms(2)] off_wire_refl[OF assms(3)]
  show ?thesis
  proof (cases "session_config_ok c \<and> ca_path (the (cfg_tls c)) \<noteq> None \<and> cfg_device c \<noteq> None \<and> cfg_device_id c \<noteq> None \<and> rc = 0 \<and>
      ir = CN_KOREADER_IDENTITY_OK \<and> cn_koreader_document_id_text document \<noteq> None")
    case False
    then have "s' = s" "n' = n" "push_status r \<noteq> CN_KOSYNC_PUSH_UPLOADED" "push_local_mutation r = CN_KOSYNC_MUTATION_NONE"
      "push_remote_mutation r = CN_KOSYNC_MUTATION_NONE"
      using assms(1) i d by (auto simp: cn_kosync_push_local_once_def cn_kosync_push_result_init_def push_blank_def Let_def split: if_splits)
    then show ?thesis using still by (intro push_untouched) simp_all
  next
    case True
    then obtain text' st ca dev id' where ok: "session_config_ok c" "ca_path (the (cfg_tls c)) = Some ca" "cfg_device c = Some dev" "cfg_device_id c = Some id'"
      "rc = 0" "ir = CN_KOREADER_IDENTITY_OK" "cn_koreader_document_id_text document = Some text'" "cfg_progress_store c = Some st"
      by (auto simp: session_config_ok_def)
    have t: "text' = the document" using ok(7) document_text_same[of document] by simp
    obtain lr local s1 where l: "cn_progress_store_load (Some st) identity (Some blank_record) s = (lr, local, s1)" by (metis prod_cases3)
    obtain token where tok: "cn_book_identity_token identity = Some token" using local_identity_token i ok(5) by blast
    note L = load_frame[OF l assms(2) tok]
    have c1: "calm s s1" using L by (simp add: calm_def)
    define pos where "pos = position (the local)"
    have pos: "book_position c s = pos" using l ok(8) i by (simp add: book_position_def pos_def)
    obtain k upload s2 where set: "cn_kosync_progress_set (Some blank_progress) (Some text') (location pos) (progress_10000 pos)
        (cfg_device c) (cfg_device_id c) s1 = ((k, upload), s2)"
      by (cases "cn_kosync_progress_set (Some blank_progress) (Some text') (location pos) (progress_10000 pos)
        (cfg_device c) (cfg_device_id c) s1") auto
    note S = progress_set_effect[OF set c1]
    define r1 where "r1 = push_blank\<lparr>push_identity_result := ir, push_load_result := lr\<rparr>"
    have run: "cn_kosync_push_local_once files u (Some c) (Some old) s n =
        (if lr \<noteq> CN_PROGRESS_OK then (Some (r1\<lparr>push_status := (if lr = CN_PROGRESS_MISSING then CN_KOSYNC_PUSH_LOCAL_MISSING
             else if lr = CN_PROGRESS_NO_MEMORY then CN_KOSYNC_PUSH_NO_MEMORY else CN_KOSYNC_PUSH_LOCAL_FAILED)\<rparr>), s1, n)
         else if progress_10000 pos < 0 then (Some (r1\<lparr>push_status := CN_KOSYNC_PUSH_LOCAL_UNSUPPORTED\<rparr>), s1, n)
         else if k \<noteq> CN_KOSYNC_OK then (Some (r1\<lparr>push_kosync_result := k, push_status :=
             (if k = CN_KOSYNC_NO_MEMORY then CN_KOSYNC_PUSH_NO_MEMORY else CN_KOSYNC_PUSH_INVALID)\<rparr>), s2, n)
         else map_prod Some id (push_session u c upload (r1\<lparr>push_kosync_result := k\<rparr>) s2 n))"
      using i d ok l set by (simp add: cn_kosync_push_local_once_def cn_kosync_push_result_init_def Let_def r1_def pos_def)
    have q: "calm s s2" using S by simp
    show ?thesis
    proof (cases "lr \<noteq> CN_PROGRESS_OK \<or> progress_10000 pos < 0 \<or> k \<noteq> CN_KOSYNC_OK")
      case True
      then have "calm s s'" "n' = n" "push_status r \<noteq> CN_KOSYNC_PUSH_UPLOADED" "push_local_mutation r = CN_KOSYNC_MUTATION_NONE"
        "push_remote_mutation r = CN_KOSYNC_MUTATION_NONE"
        using run[unfolded assms(1)] c1 q by (auto simp: r1_def push_blank_def split: if_splits)
      then show ?thesis using still by (intro push_untouched) simp_all
    next
      case False
      then have u: "upload = Some (upload_of c text' pos)" using S by simp
      obtain x s3 n3 where p: "push_session u c (Some (upload_of c text' pos)) (r1\<lparr>push_kosync_result := k\<rparr>) s2 n = (x, s3, n3)"
        by (metis prod_cases3)
      have eq: "x = r" "s3 = s'" "n3 = n'" using run[unfolded assms(1)] False u p by auto
      have "push_report c text' pos r s2 n s' n'"
        using push_session_report[OF p[unfolded eq] _ assms(3) ok(1)] q by (simp add: r1_def push_blank_def calm_def)
      then show ?thesis using q pos d t by (auto simp: push_report_def calm_def book_document_def)
    qed
  qed
qed

section \<open>A sample run\<close>

text \<open>A device without a record for its book, on which no random bytes can be read: the query for the server's address is
  not sent.\<close>

definition sample_client :: cn_kosync_client where
  "sample_client = \<lparr>client_host = str ''k'', client_port = str ''443'', base_path = [], username = str ''u'', userkey = str ''key'',
     client_connect_host = [], client_tls = None, use_tls = True, connect_ms = 0, recv_ms = 0\<rparr>"

definition sample_sync :: cn_kosync_sync_config where
  "sample_sync = \<lparr>cfg_document_path = Some (str ''/books/a.epub''), cfg_progress_store = Some sample_store,
     cfg_time_policy = Known CN_KOSYNC_SYNC_TIME_CALLER_ESTABLISHED, cfg_time = None, cfg_dns = Some sample_dns_config,
     cfg_tls = Some \<lparr>ca_path = Some (str ''/ca''), own_clock = False\<rparr>, cfg_client = Some sample_client,
     cfg_device = Some (str ''d''), cfg_device_id = Some (str ''i'')\<rparr>"

definition sample_pull :: cn_kosync_pull_config where
  "sample_pull = cn_kosync_pull_config.truncate sample_sync"

definition sample_book :: "bytes \<Rightarrow> stdio_file option" where
  "sample_book = (\<lambda>_. Some \<lparr>contents = [], seek_fails = \<lambda>_. False, read_fails = \<lambda>_. False, close_fails = False\<rparr>)"

lemmas sample_sync_defs = sample_sync_def sample_pull_def sample_client_def cn_kosync_pull_config.truncate_def

lemma sample_local: "local_identity sample_sync = (sample_identity, 0)" "local_identity sample_pull = (sample_identity, 0)"
proof -
  have "1 \<le> strlen (str ''/books/a.epub'') \<and> strlen (str ''/books/a.epub'') \<le> path_max_bytes" by (simp add: path_max_bytes_def)
  from from_path_ok[OF conjunct1[OF this] conjunct2[OF this], of "replicate token_bytes 0"]
  show "local_identity sample_sync = (sample_identity, 0)" "local_identity sample_pull = (sample_identity, 0)"
    by (simp_all add: local_identity_def cn_book_identity_init_def sample_sync_defs sample_identity_def)
qed

lemma sample_remote: "\<exists>d. remote_identity sample_book sample_sync = (CN_KOREADER_IDENTITY_OK, Some d) \<and>
    remote_identity sample_book sample_pull = (CN_KOREADER_IDENTITY_OK, Some d) \<and> cn_koreader_document_id_text (Some d) = Some d"
  using document_id_text_digest[of "snd (cn_md5_final (cn_md5_init fresh_md5))"]
  by (simp add: remote_identity_def cn_book_identity_koreader_binary_def sample_sync_defs sample_book_def bounded_length_eq
      koreader_path_max_bytes_def zero_document_id_def sample_offsets_def cn_md5_final_def Let_def)

lemma sample_load: "\<exists>s. cn_progress_store_load (Some sample_store) sample_identity (Some blank_record) (empty_disk []) =
    (CN_PROGRESS_MISSING, Some blank_record, s) \<and> wf_os s"
proof -
  define path' where "path' = progress_path (directory sample_store) (token_of (str ''/books/a.epub'') @ [0])"
  have rp: "record_path (Some sample_store) sample_identity (empty_disk []) = (Some path', leave (empty_disk []))"
    using sample_directory sample_token
    by (simp add: record_path_def Let_def malloc_clean path'_def progress_path_def not_less sample_identity_def)
  obtain a s where o: "sys_open_read False False path' (leave (empty_disk [])) = (a, s)" by fastforce
  have "resolve link_limit (fs (empty_disk [])) path' = Inl ENOENT"
    using resolve.simps(2)[of 7 "fs (empty_disk [])" path'] by (simp add: empty_disk_def link_limit_def)
  then have "a = Inl ENOENT \<and> s = leave (leave (empty_disk []))"
    using o by (simp add: sys_open_read_def call_clean)
  then show ?thesis using rp o sample_token by (simp add: cn_progress_store_load_def sample_identity_def)
qed

lemma sample_session: "\<exists>n. open_session sample_sync (idle_network []) = (Unresolved CN_DNS_ENTROPY_FAILED, n) \<and>
    open_session sample_pull (idle_network []) = (Unresolved CN_DNS_ENTROPY_FAILED, n)"
proof -
  have h: "hostname_ok (Some (str ''k''))" by (simp add: hostname_ok_def label_ok_def ascii_alnum_def dns_host_max_def)
  have p: "inet_pton (Some (str ''9.9.9.9'')) = Some [9, 9, 9, 9]"
    by (simp add: inet_pton_def pton_octet_def decimal_byte_def decimal_value_def)
  show ?thesis using h p
    by (simp add: open_session_def establish_time_def resolve_client_def sample_sync_defs cn_dnssimple_resolve_a_def sample_dns_config_def
        dns_max_servers_def dns_default_port_def dns_default_timeout_ms_def dns_query_server_def build_query_def read_transaction_id_def
        sys_open_random_def sys_socket_def sys_read_random_def sys_recv_def sys_close_socket_def next_reply_def spend_def last_reply_def
        idle_network_def Let_def dns_result_is_final_def)
qed

lemma sample_session_ok: "session_config_ok sample_sync" "session_config_ok sample_pull" "sync_config_ok sample_sync"
  by (simp_all add: sync_config_ok_def session_config_ok_def sample_sync_defs)

lemma idle_network_wf: "wf_net (idle_network replies)"
  by (simp add: wf_net_def idle_network_def)

lemma sample_run: "\<exists>r s' n'. cn_kosync_sync_once sample_book (\<lambda>_. False) (Some sample_sync) (Some sync_blank) (empty_disk []) (idle_network []) =
    (Some r, s', n') \<and> sync_status r = Known CN_KOSYNC_SYNC_STATUS_DNS_FAILED \<and> dns_result r = Known CN_DNS_ENTROPY_FAILED \<and> coherent r \<and>
    local_mutation (mutation_report r) = CN_KOSYNC_MUTATION_NONE"
proof -
  obtain d where d: "remote_identity sample_book sample_sync = (CN_KOREADER_IDENTITY_OK, Some d)" "cn_koreader_document_id_text (Some d) = Some d"
    using sample_remote by blast
  obtain s n where l: "cn_progress_store_load (Some sample_store) sample_identity (Some blank_record) (empty_disk []) =
      (CN_PROGRESS_MISSING, Some blank_record, s)" and o: "open_session sample_sync (idle_network []) = (Unresolved CN_DNS_ENTROPY_FAILED, n)"
    using sample_load sample_session by blast
  have st: "cfg_progress_store sample_sync = Some sample_store" by (simp add: sample_sync_defs)
  show ?thesis using d l o st sample_local sample_session_ok
    by (simp add: cn_kosync_sync_once_def cn_kosync_sync_result_clear_def cn_kosync_sync_result_init_def Let_def sync_ask_def
        sync_finish_def sync_blank_def coherent_def boolean_fields_valid_def flags_agree_def mutation_report_def)
qed

section \<open>What the three leave behind\<close>

text \<open>The two sides by what a product result reports of them: a prefix of the GET, then a prefix of the PUT, and
  the record file.  Remote change NONE: no byte of the PUT was sent, unless the server refused the account.
  Local change CONFIRMED: the file is the synced image of \<open>remote\<close>; POSSIBLE: it has its old bytes.\<close>

definition sides_as_reported :: "(bytes \<Rightarrow> stdio_file option) \<Rightarrow> cn_kosync_sync_config \<Rightarrow> cn_kosync_product_result \<Rightarrow> bool \<Rightarrow>
    cn_kosync_progress \<Rightarrow> os \<times> network \<Rightarrow> os \<times> network \<Rightarrow> bool" where
  "sides_as_reported files c p refused remote w w' \<longleftrightarrow> (\<exists>h j k. let client = wire_client c h;
      put = put_wire client (Some (upload_of c (book_document files c) (book_position c (fst w)))) in
    sockets (snd w') = sockets (snd w) \<and>
    outgoing (snd w') = outgoing (snd w) @ take j (get_wire client (book_document files c)) @ take k put \<and>
    (case remote_mutation p of
       CN_KOSYNC_MUTATION_NONE \<Rightarrow> refused \<or> k = 0
     | CN_KOSYNC_MUTATION_CONFIRMED \<Rightarrow> take k put = put | CN_KOSYNC_MUTATION_POSSIBLE \<Rightarrow> True) \<and>
    (case local_mutation p of
       CN_KOSYNC_MUTATION_NONE \<Rightarrow> fs (fst w') = fs (fst w)
     | CN_KOSYNC_MUTATION_CONFIRMED \<Rightarrow>
         file_at (fs (fst w')) (book_file c) = Some (progress_image (fst (local_identity c)) (record_of_remote remote), True)
     | CN_KOSYNC_MUTATION_POSSIBLE \<Rightarrow> bytes_at (fs (fst w')) (book_file c) = bytes_at (fs (fst w)) (book_file c)))"

lemma sync_sides:
  assumes "cn_kosync_sync_once files u (Some c) (Some old) s n = (Some r, s', n')" "wf_os s" "wf_net n"
    and "cn_kosync_policy_classify 1 (Some r) (Some any) = (code, Some p)"
  shows "sides_as_reported files c p (sync_status r = Known CN_KOSYNC_SYNC_STATUS_AUTH_FAILED) (remote_progress r) (s, n) (s', n')"
proof -
  obtain h between where f: "talks n (get_wire (wire_client c h) (book_document files c)) between"
    "true_report (book_file c) (fst (local_identity c)) (put_wire (wire_client c h) (Some (upload_of c (book_document files c) (book_position c s))))
       r (s, between) (s', n')"
    using sync_once_report[OF assms(1-3)] by (auto simp: full_report_def)
  note T = f(2)[unfolded true_report_def disk_report_def wire_report_def fst_conv snd_conv]
  have m: "local_mutation p = local_mutation (mutation_report r)" "remote_mutation p = policy_remote_mutation r"
    using coherent_classified[of r any] T assms(4) by (auto simp: mutation_report_def)
  have l: "case local_mutation p of
       CN_KOSYNC_MUTATION_NONE \<Rightarrow> fs s' = fs s
     | CN_KOSYNC_MUTATION_CONFIRMED \<Rightarrow> file_at (fs s') (book_file c) =
         Some (progress_image (fst (local_identity c)) (record_of_remote (remote_progress r)), True)
     | CN_KOSYNC_MUTATION_POSSIBLE \<Rightarrow> bytes_at (fs s') (book_file c) = bytes_at (fs s) (book_file c)"
    using T unfolding m(1) by (simp add: mutation_report_def split: if_splits)
  obtain j where j: "outgoing between = outgoing n @ take j (get_wire (wire_client c h) (book_document files c))" "sockets between = sockets n"
    using f(1) by (auto simp: talks_def)
  obtain k where k: "outgoing n' = outgoing between @
      take k (put_wire (wire_client c h) (Some (upload_of c (book_document files c) (book_position c s))))" "sockets n' = sockets between"
    "remote_mutation p = CN_KOSYNC_MUTATION_NONE \<and> sync_status r \<noteq> Known CN_KOSYNC_SYNC_STATUS_AUTH_FAILED \<longrightarrow> k = 0"
    "remote_mutation p = CN_KOSYNC_MUTATION_CONFIRMED \<longrightarrow>
       take k (put_wire (wire_client c h) (Some (upload_of c (book_document files c) (book_position c s)))) =
         put_wire (wire_client c h) (Some (upload_of c (book_document files c) (book_position c s)))"
    using T m(2) by auto
  show ?thesis unfolding sides_as_reported_def fst_conv snd_conv using l j k by (intro exI[of _ h] exI[of _ j] exI[of _ k]) (auto simp: Let_def split: cn_kosync_mutation_state.split)
qed

text \<open>Every synchronisation that ran is understood by the product policy.  Whatever the files, memory and
  the network do, the policy accepts its result; it reports a completed synchronisation exactly when the
  status is OK, and an internal failure only for missing memory, missing entropy or a failure inside TLS:
  the branches in which the policy fails closed are never reached from here.\<close>

lemma sync_result_is_classified:
  assumes "cn_kosync_sync_once files u (Some c) (Some old) s n = (Some r, s', n')" "wf_os s" "wf_net n"
  shows "\<exists>p. cn_kosync_policy_classify 1 (Some r) (Some any) = (0, Some p) \<and>
    (outcome p \<in> synced_outcomes \<longleftrightarrow> sync_status r = Known CN_KOSYNC_SYNC_STATUS_OK) \<and>
    (outcome p = CN_KOSYNC_PRODUCT_INTERNAL_FAILURE \<longleftrightarrow> sync_status r = Known CN_KOSYNC_SYNC_STATUS_NO_MEMORY \<or>
       sync_status r = Known CN_KOSYNC_SYNC_STATUS_DNS_FAILED \<and> dns_result r = Known CN_DNS_ENTROPY_FAILED \<or>
       sync_status r = Known CN_KOSYNC_SYNC_STATUS_HTTPS_FAILED \<and>
         transport_result (kosync_outcome r) \<in> Known ` {CN_NETSIMPLE_TLS_ENTROPY_FAILED, CN_NETSIMPLE_TLS_INTERNAL})"
proof -
  have "coherent r" using sync_once_report[OF assms] by (auto simp: full_report_def true_report_def)
  from coherent_classified[OF this, of any] show ?thesis by blast
qed

text \<open>A pull only reads the server: all it sends is a prefix of one GET.  It answers PERSISTED exactly when the
  record file is the synced image of the record that the server answered for this document, and otherwise
  the record file has its old bytes; before the save no file changes.\<close>

lemma pull_writes_only_what_it_reports:
  assumes "cn_kosync_pull_remote_once files u (Some c) (Some old) s n = (Some r, s', n')" "wf_os s" "wf_net n"
  shows "(\<exists>h j. outgoing n' = outgoing n @ take j (get_wire (wire_client c h) (book_document files c))) \<and> sockets n' = sockets n \<and>
    (\<not> get_attempted r \<longrightarrow> outgoing n' = outgoing n) \<and> (\<not> pull_save_attempted r \<longrightarrow> fs s' = fs s) \<and>
    (if pull_status r = CN_KOSYNC_PULL_PERSISTED
     then \<exists>remote. document_id remote = cstr (book_document files c) \<and>
       file_at (fs s') (book_file c) = Some (progress_image (fst (local_identity c)) (record_of_remote remote), True)
     else bytes_at (fs s') (book_file c) = bytes_at (fs s) (book_file c))"
  using pull_report_final[OF assms] by (auto simp: pull_report_def talks_def)

text \<open>A push never changes a file, and reports the upload truthfully: UPLOADED goes with a confirmed change, and then the
  whole PUT was sent and nothing else; where it reports no change, or never came to the PUT, not a byte of a
  request was sent.\<close>

lemma push_reports_its_upload:
  assumes "cn_kosync_push_local_once files u (Some c) (Some old) s n = (Some r, s', n')" "wf_os s" "wf_net n"
  shows "fs s' = fs s \<and> sockets n' = sockets n \<and> push_local_mutation r = CN_KOSYNC_MUTATION_NONE \<and>
    (push_status r = CN_KOSYNC_PUSH_UPLOADED \<longleftrightarrow> push_remote_mutation r = CN_KOSYNC_MUTATION_CONFIRMED) \<and>
    (\<exists>h k. let put = put_wire (wire_client c h) (Some (upload_of c (book_document files c) (book_position c s))) in
       outgoing n' = outgoing n @ take k put \<and>
       (\<not> put_invoked r \<or> push_remote_mutation r = CN_KOSYNC_MUTATION_NONE \<longrightarrow> outgoing n' = outgoing n) \<and>
       (push_status r = CN_KOSYNC_PUSH_UPLOADED \<longrightarrow> outgoing n' = outgoing n @ put))"
proof -
  note P = push_report_final[OF assms, unfolded push_report_def]
  then obtain h k where k: "outgoing n' = outgoing n @ take k (put_wire (wire_client c h) (Some (upload_of c (book_document files c) (book_position c s))))"
    "\<not> put_invoked r \<or> push_remote_mutation r = CN_KOSYNC_MUTATION_NONE \<longrightarrow> k = 0"
    "push_remote_mutation r = CN_KOSYNC_MUTATION_CONFIRMED \<longrightarrow>
       outgoing n' = outgoing n @ put_wire (wire_client c h) (Some (upload_of c (book_document files c) (book_position c s)))"
    by blast
  have "\<exists>h k. let put = put_wire (wire_client c h) (Some (upload_of c (book_document files c) (book_position c s))) in
       outgoing n' = outgoing n @ take k put \<and>
       (\<not> put_invoked r \<or> push_remote_mutation r = CN_KOSYNC_MUTATION_NONE \<longrightarrow> outgoing n' = outgoing n) \<and>
       (push_status r = CN_KOSYNC_PUSH_UPLOADED \<longrightarrow> outgoing n' = outgoing n @ put)"
    using k P by (intro exI[of _ h] exI[of _ k]) (auto simp: Let_def)
  then show ?thesis using P by simp
qed

end
