(* ===== verification/Settings_Store.thy ===== *)
theory Settings_Store
  imports Posix Crc32 Utf8
begin

text \<open>
  The application settings, src/settings/settings_store.c: three values in a text file of five lines,
  the last of which is the CRC-32 of the others, replaced through a synced scratch file.

  \<open>system_errno\<close> is an output of the operations; here it is the last component of the outcome, with
  \<open>None\<close> for the value 0.  A NULL pointer for it only drops that component.  The character arrays
  are byte lists read up to their NUL.
\<close>

section \<open>Types\<close>

datatype cn_settings_result =
  CN_SETTINGS_OK | CN_SETTINGS_MISSING | CN_SETTINGS_INVALID_ARGUMENT | CN_SETTINGS_INVALID_SETTINGS
  | CN_SETTINGS_CORRUPT | CN_SETTINGS_UNSUPPORTED_VERSION | CN_SETTINGS_PATH_TOO_LONG
  | CN_SETTINGS_NOT_FOUND | CN_SETTINGS_NOT_DIRECTORY | CN_SETTINGS_SYMLINK | CN_SETTINGS_NON_REGULAR
  | CN_SETTINGS_PERMISSION_DENIED | CN_SETTINGS_READ_ONLY | CN_SETTINGS_NO_SPACE | CN_SETTINGS_IO_ERROR
  | CN_SETTINGS_DURABILITY_UNCERTAIN

record cn_settings =
  kosync_enabled :: int
  kosync_base_url :: bytes
  kosync_device_name :: bytes

record cn_settings_store =
  config_directory :: bytes
  config_directory_length :: nat

definition settings_path_capacity :: nat where "settings_path_capacity = 4096"
definition settings_url_capacity :: nat where "settings_url_capacity = 1297"
definition settings_device_name_capacity :: nat where "settings_device_name_capacity = 256"
definition settings_file_max_bytes :: nat where "settings_file_max_bytes = 2048"
definition settings_file_name :: bytes where "settings_file_name = str ''settings.conf''"

definition settings_bounded_length :: "bytes option \<Rightarrow> nat \<Rightarrow> nat" where
  "settings_bounded_length text' capacity = (case text' of None \<Rightarrow> capacity | Some s \<Rightarrow> scan_nul s capacity)"

definition filesystem_error :: "errno \<Rightarrow> cn_settings_result" where
  "filesystem_error error = (case error of
     ENOENT \<Rightarrow> CN_SETTINGS_NOT_FOUND
   | ENOTDIR \<Rightarrow> CN_SETTINGS_NOT_DIRECTORY
   | ELOOP \<Rightarrow> CN_SETTINGS_SYMLINK
   | EACCES \<Rightarrow> CN_SETTINGS_PERMISSION_DENIED
   | EPERM \<Rightarrow> CN_SETTINGS_PERMISSION_DENIED
   | EROFS \<Rightarrow> CN_SETTINGS_READ_ONLY
   | ENOSPC \<Rightarrow> CN_SETTINGS_NO_SPACE
   | EDQUOT \<Rightarrow> CN_SETTINGS_NO_SPACE
   | ENAMETOOLONG \<Rightarrow> CN_SETTINGS_PATH_TOO_LONG
   | _ \<Rightarrow> CN_SETTINGS_IO_ERROR)"

section \<open>Validation\<close>

definition digit :: "byte \<Rightarrow> bool" where
  "digit c \<longleftrightarrow> of_char CHR ''0'' \<le> c \<and> c \<le> of_char CHR ''9''"

fun port_value :: "nat \<Rightarrow> bytes \<Rightarrow> nat option" where
  "port_value value [] = Some value"
| "port_value value (p # text) =
     (if \<not> digit p then None else port_value (value * 10 + (unat p - 48)) text)"

definition decimal_port_valid :: "bytes \<Rightarrow> bool" where
  "decimal_port_valid text' =
     (if text' = [] \<or> length text' > 5 then False
      else case port_value 0 text' of None \<Rightarrow> False | Some value \<Rightarrow> value > 0 \<and> value \<le> 65535)"

definition url_byte :: "byte \<Rightarrow> bool" where
  "url_byte b \<longleftrightarrow> \<not> (b < 0x21 \<or> b > 0x7e \<or> b = of_char CHR ''@'' \<or> b = of_char CHR ''?'' \<or>
     b = of_char CHR ''#'' \<or> b = 0x5c)"

text \<open>The scan of the authority: where its one colon is, and where it ends.\<close>

fun authority_scan :: "nat \<Rightarrow> nat option \<Rightarrow> bytes \<Rightarrow> (nat option \<times> nat) option" where
  "authority_scan i colon [] = Some (colon, i)"
| "authority_scan i colon (c # text) =
     (if c = of_char CHR ''/'' then Some (colon, i)
      else if c = of_char CHR '':'' then
        (if colon \<noteq> None then None else authority_scan (i + 1) (Some i) text)
      else authority_scan (i + 1) colon text)"

definition base_url_valid :: "bytes \<Rightarrow> bool" where
  "base_url_valid url =
     (if length url < 9 \<or> take 8 url \<noteq> str ''https://'' then False
      else if \<not> list_all url_byte url then False
      else let authority = drop 8 url in
        case authority_scan 0 None authority of
          None \<Rightarrow> False
        | Some (colon, authority_end) \<Rightarrow>
            let host_length = (case colon of None \<Rightarrow> authority_end | Some c \<Rightarrow> c) in
            if host_length = 0 \<or> host_length > 255 then False
            else if (case colon of None \<Rightarrow> False
                     | Some c \<Rightarrow> \<not> decimal_port_valid (drop (c + 1) (take authority_end authority))) then False
            else length authority - authority_end \<le> 1024)"

definition cn_settings_defaults :: cn_settings where
  "cn_settings_defaults = \<lparr>kosync_enabled = 0, kosync_base_url = [], kosync_device_name = str ''CrossNook''\<rparr>"

definition cn_settings_validate :: "cn_settings option \<Rightarrow> cn_settings_result" where
  "cn_settings_validate settings = (case settings of
     None \<Rightarrow> CN_SETTINGS_INVALID_ARGUMENT
   | Some s \<Rightarrow>
       if kosync_enabled s \<noteq> 0 \<and> kosync_enabled s \<noteq> 1 then CN_SETTINGS_INVALID_SETTINGS
       else let url_length = settings_bounded_length (Some (kosync_base_url s)) settings_url_capacity;
                device_length = settings_bounded_length (Some (kosync_device_name s)) settings_device_name_capacity
       in if url_length \<ge> settings_url_capacity \<or> device_length = 0 \<or>
             device_length \<ge> settings_device_name_capacity \<or>
             \<not> utf8_device_name_valid (take device_length (kosync_device_name s))
          then CN_SETTINGS_INVALID_SETTINGS
          else if url_length = 0 then
            (if kosync_enabled s \<noteq> 0 then CN_SETTINGS_INVALID_SETTINGS else CN_SETTINGS_OK)
          else if base_url_valid (take url_length (kosync_base_url s)) then CN_SETTINGS_OK
          else CN_SETTINGS_INVALID_SETTINGS)"

section \<open>The store and its paths\<close>

definition store_valid :: "cn_settings_store option \<Rightarrow> bool" where
  "store_valid store = (case store of None \<Rightarrow> False
     | Some st \<Rightarrow>
         if config_directory_length st = 0 \<or> config_directory_length st \<ge> settings_path_capacity then False
         else settings_bounded_length (Some (config_directory st)) settings_path_capacity =
                config_directory_length st \<and>
              char_at (config_directory st) 0 = of_char CHR ''/'')"

definition inspect_config_directory :: "cn_settings_store \<Rightarrow> os \<Rightarrow> (cn_settings_result \<times> errno option) \<times> os" where
  "inspect_config_directory st s = (case sys_lstat (cstr (config_directory st)) s of
     (r, s) \<Rightarrow> (case r of
       Inl error \<Rightarrow> ((filesystem_error error, Some error), s)
     | Inr info \<Rightarrow>
         if (case st_node info of Link _ \<Rightarrow> True | _ \<Rightarrow> False) then ((CN_SETTINGS_SYMLINK, None), s)
         else if st_node info \<noteq> Directory then ((CN_SETTINGS_NOT_DIRECTORY, None), s)
         else ((CN_SETTINGS_OK, None), s)))"

text \<open>The final and the scratch path, or the reason there are none.\<close>

definition build_paths :: "cn_settings_store option \<Rightarrow> os \<Rightarrow> cn_settings_result + (bytes \<times> bytes)" where
  "build_paths store s =
     (if \<not> store_valid store then Inl CN_SETTINGS_INVALID_ARGUMENT
      else let st = the store;
               separator = (if config_directory_length st = 1 then [] else str ''/'');
               final_length = config_directory_length st + length separator + length settings_file_name;
               final = cstr (config_directory st) @ separator @ settings_file_name;
               temporary = final @ str ''.tmp.'' @ pid s
           in if final_length \<ge> settings_path_capacity then Inl CN_SETTINGS_PATH_TOO_LONG
              else if length final \<ge> settings_path_capacity then Inl CN_SETTINGS_PATH_TOO_LONG
              else if length temporary \<ge> settings_path_capacity then Inl CN_SETTINGS_PATH_TOO_LONG
              else Inr (final, temporary))"

text \<open>Trailing slashes go, but not the first.\<close>

function strip_slashes :: "bytes \<Rightarrow> bytes" where
  "strip_slashes path =
     (if length path > 1 \<and> last path = of_char CHR ''/'' then strip_slashes (butlast path) else path)"
  by pat_completeness auto
termination by (relation "measure length") auto

declare strip_slashes.simps [simp del]

definition cn_settings_store_init ::
  "bool \<Rightarrow> bytes option \<Rightarrow> os \<Rightarrow> (cn_settings_result \<times> errno option \<times> cn_settings_store) \<times> os" where
  "cn_settings_store_init store config_directory' s =
     (let blank = \<lparr>config_directory = [], config_directory_length = 0\<rparr> in
      if \<not> store then ((CN_SETTINGS_INVALID_ARGUMENT, None, blank), s)
      else let length' = settings_bounded_length config_directory' settings_path_capacity in
      if config_directory' = None \<or> length' = 0 \<or> char_at (the config_directory') 0 \<noteq> of_char CHR ''/''
      then ((CN_SETTINGS_INVALID_ARGUMENT, None, blank), s)
      else if length' \<ge> settings_path_capacity then ((CN_SETTINGS_PATH_TOO_LONG, None, blank), s)
      else let dir = strip_slashes (take length' (the config_directory'));
               candidate = \<lparr>config_directory = dir, config_directory_length = length dir\<rparr>
      in case build_paths (Some candidate) s of
           Inl result \<Rightarrow> ((result, None, blank), s)
         | Inr _ \<Rightarrow>
             (case inspect_config_directory candidate s of
                ((result, error), s) \<Rightarrow>
                  if result \<noteq> CN_SETTINGS_OK then ((result, error, blank), s)
                  else ((CN_SETTINGS_OK, error, candidate), s)))"

section \<open>The file format\<close>

definition newline :: byte where "newline = 10"

definition settings_crc32 :: "bytes \<Rightarrow> u32" where
  "settings_crc32 data = crc32 data"

text \<open>One line off the front of the remaining bytes; a last line without its newline is refused.\<close>

fun next_line :: "bytes \<Rightarrow> (bytes \<times> bytes) option" where
  "next_line [] = None"
| "next_line (c # data) =
     (if c = newline then Some ([], data)
      else case next_line data of None \<Rightarrow> None | Some (line, rest) \<Rightarrow> Some (c # line, rest))"

definition line_value :: "bytes \<Rightarrow> bytes \<Rightarrow> bytes option" where
  "line_value line key =
     (if length line < length key + 1 \<or> take (length key) line \<noteq> key \<or>
         line ! length key \<noteq> of_char CHR ''='' then None
      else Some (drop (length key + 1) line))"

definition settings_format_version :: nat where "settings_format_version = 1"

definition parse_version :: "bytes \<Rightarrow> nat option" where
  "parse_version value =
     (if value = [] \<or> (length value > 1 \<and> value ! 0 = of_char CHR ''0'') then None
      else if \<not> list_all digit value then None
      else Some (if length value = 1 \<and> value ! 0 = of_char CHR ''1''
                 then settings_format_version else settings_format_version + 1))"

fun crc_digits :: "u32 \<Rightarrow> bytes \<Rightarrow> u32 option" where
  "crc_digits parsed [] = Some parsed"
| "crc_digits parsed (c # value) = (case hex_value c of
     None \<Rightarrow> None
   | Some d \<Rightarrow> crc_digits (push_bit 4 parsed OR of_nat d) value)"

definition parse_crc :: "bytes \<Rightarrow> u32 option" where
  "parse_crc value = (if length value \<noteq> 8 then None else crc_digits 0 value)"

text \<open>The four lines after the first, and what follows them.\<close>

fun more_lines :: "nat \<Rightarrow> bytes \<Rightarrow> (bytes list \<times> bytes) option" where
  "more_lines 0 data = Some ([], data)"
| "more_lines (Suc n) data = (case next_line data of
     None \<Rightarrow> None
   | Some (line, rest) \<Rightarrow> (case more_lines n rest of
       None \<Rightarrow> None
     | Some (lines, rest') \<Rightarrow> Some (line # lines, rest')))"

definition parse_enabled :: "bytes \<Rightarrow> int option" where
  "parse_enabled value =
     (if value = str ''true'' then Some 1 else if value = str ''false'' then Some 0 else None)"

definition parse_settings :: "bytes \<Rightarrow> cn_settings_result + cn_settings" where
  "parse_settings data =
     (if data = [] \<or> length data > settings_file_max_bytes \<or> 0 \<in> set data then Inl CN_SETTINGS_CORRUPT
      else case next_line data of None \<Rightarrow> Inl CN_SETTINGS_CORRUPT
      | Some (line0, rest0) \<Rightarrow>
     (case Option.bind (line_value line0 (str ''crossnook-settings'')) parse_version of
        None \<Rightarrow> Inl CN_SETTINGS_CORRUPT
      | Some version \<Rightarrow>
     if version \<noteq> settings_format_version then Inl CN_SETTINGS_UNSUPPORTED_VERSION
     else case more_lines 4 rest0 of None \<Rightarrow> Inl CN_SETTINGS_CORRUPT
      | Some (lines, rest) \<Rightarrow>
     if rest \<noteq> [] then Inl CN_SETTINGS_CORRUPT
     else case Option.bind (line_value (lines ! 0) (str ''kosync.enabled'')) parse_enabled of
        None \<Rightarrow> Inl CN_SETTINGS_CORRUPT
      | Some enabled \<Rightarrow>
     (case line_value (lines ! 1) (str ''kosync.base_url'') of None \<Rightarrow> Inl CN_SETTINGS_CORRUPT
      | Some url \<Rightarrow>
     if length url \<ge> settings_url_capacity then Inl CN_SETTINGS_CORRUPT
     else case line_value (lines ! 2) (str ''kosync.device_name'') of None \<Rightarrow> Inl CN_SETTINGS_CORRUPT
      | Some name \<Rightarrow>
     if length name \<ge> settings_device_name_capacity then Inl CN_SETTINGS_CORRUPT
     else case Option.bind (line_value (lines ! 3) (str ''crc32'')) parse_crc of
        None \<Rightarrow> Inl CN_SETTINGS_CORRUPT
      | Some stored_crc \<Rightarrow>
     let crc_offset = length data - (length (lines ! 3) + 1);
         parsed = \<lparr>kosync_enabled = enabled, kosync_base_url = url, kosync_device_name = name\<rparr>
     in if settings_crc32 (take crc_offset data) \<noteq> stored_crc \<or> cn_settings_validate (Some parsed) \<noteq> CN_SETTINGS_OK
        then Inl CN_SETTINGS_CORRUPT
        else Inr parsed)))"

text \<open>The writer: the bytes so far, or \<open>None\<close> once a text did not fit.\<close>

definition writer_append :: "bytes \<Rightarrow> bytes \<Rightarrow> bytes option" where
  "writer_append data' writer =
     (if length data' > settings_file_max_bytes - length writer then None else Some (writer @ data'))"

definition writer_text :: "bytes \<Rightarrow> bytes \<Rightarrow> bytes option" where
  "writer_text text' writer = writer_append (cstr text') writer"

definition crc_hex :: "u32 \<Rightarrow> bytes" where
  "crc_hex crc = map (\<lambda>i. hex_digit (unat (drop_bit (28 - 4 * i) crc AND 0x0f))) [0..<8]"

definition crc_line :: "u32 \<Rightarrow> bytes" where
  "crc_line crc = str ''crc32='' @ crc_hex crc @ [newline]"

definition serialize_settings :: "cn_settings \<Rightarrow> cn_settings_result + bytes" where
  "serialize_settings settings =
     (case Option.bind (Option.bind (Option.bind (Option.bind (Option.bind (Option.bind (Option.bind (Option.bind
        (writer_text (str ''crossnook-settings=1'' @ [newline]) [])
        (writer_text (str ''kosync.enabled='')))
        (writer_text ((if kosync_enabled settings \<noteq> 0 then str ''true'' else str ''false'') @ [newline])))
        (writer_text (str ''kosync.base_url='')))
        (writer_text (kosync_base_url settings)))
        (writer_text [newline]))
        (writer_text (str ''kosync.device_name='')))
        (writer_text (kosync_device_name settings)))
        (writer_text [newline]) of
        None \<Rightarrow> Inl CN_SETTINGS_INVALID_SETTINGS
      | Some body \<Rightarrow>
          (case writer_append (crc_line (settings_crc32 body)) body of
             None \<Rightarrow> Inl CN_SETTINGS_INVALID_SETTINGS
           | Some data \<Rightarrow> Inr data))"

section \<open>Loading\<close>

definition inspect_settings_file :: "bytes \<Rightarrow> os \<Rightarrow> (cn_settings_result \<times> errno option \<times> stat option) \<times> os" where
  "inspect_settings_file path s = (case sys_lstat path s of
     (r, s) \<Rightarrow> (case r of
       Inl error \<Rightarrow> ((if error = ENOENT then CN_SETTINGS_MISSING else filesystem_error error, Some error, None), s)
     | Inr info \<Rightarrow>
         (case st_node info of
            Link _ \<Rightarrow> ((CN_SETTINGS_SYMLINK, None, Some info), s)
          | Regular _ _ \<Rightarrow> ((CN_SETTINGS_OK, None, Some info), s)
          | _ \<Rightarrow> ((CN_SETTINGS_NON_REGULAR, None, Some info), s))))"

function settings_read_loop :: "nat \<Rightarrow> bytes \<Rightarrow> nat \<Rightarrow> os \<Rightarrow> ((cn_settings_result \<times> errno option) + bytes) \<times> os" where
  "settings_read_loop fd data size' s =
     (if length data < size' then
        case sys_read fd (size' - length data) s of
          (Inl error, s') \<Rightarrow>
            if error = EINTR then settings_read_loop fd data size' s'
            else (Inl (filesystem_error error, Some error), s')
        | (Inr got, s') \<Rightarrow>
            if length got = 0 then (Inl (CN_SETTINGS_CORRUPT, None), s')
            else settings_read_loop fd (data @ got) size' s'
      else (Inr data, s))"
  by pat_completeness auto
termination
  by (relation "measure (\<lambda>(fd, data, n, s). length (faults s) + (n - length data))")
    (auto dest!: sys_read_progress [OF sym] intro: read_measure)

text \<open>The read of one byte past the end, repeated while it is interrupted.\<close>

function settings_read_extra :: "nat \<Rightarrow> os \<Rightarrow> bytes answer" where
  "settings_read_extra fd s = (case sys_read fd 1 s of
     (Inl error, s') \<Rightarrow> if error = EINTR then settings_read_extra fd s' else (Inl error, s')
   | (Inr got, s') \<Rightarrow> (Inr got, s'))"
  by pat_completeness auto
termination
  by (relation "measure (\<lambda>(fd, s). length (faults s))") (auto dest!: sys_read_progress [OF sym])

declare settings_read_loop.simps [simp del] settings_read_extra.simps [simp del]

definition settings_close_with :: "nat \<Rightarrow> cn_settings_result \<Rightarrow> errno option \<Rightarrow> os \<Rightarrow>
    ((cn_settings_result \<times> errno option) + bytes) \<times> os" where
  "settings_close_with fd result error s = (Inl (result, error), snd (sys_close fd s))"

definition settings_read_file :: "nat \<Rightarrow> stat \<Rightarrow> os \<Rightarrow> ((cn_settings_result \<times> errno option) + bytes) \<times> os" where
  "settings_read_file fd before s =
     (case sys_fstat fd s of
        (Inl error, s) \<Rightarrow> settings_close_with fd (filesystem_error error) (Some error) s
      | (Inr opened', s) \<Rightarrow>
          if (case st_node opened' of Regular _ _ \<Rightarrow> False | _ \<Rightarrow> True)
          then settings_close_with fd CN_SETTINGS_NON_REGULAR None s
          else if st_size opened' = 0 \<or> st_size opened' > settings_file_max_bytes
          then settings_close_with fd CN_SETTINGS_CORRUPT None s
          else if st_ino opened' \<noteq> st_ino before then settings_close_with fd CN_SETTINGS_IO_ERROR None s
          else (case settings_read_loop fd [] (st_size opened') s of
            (Inl (result, error), s) \<Rightarrow> settings_close_with fd result error s
          | (Inr data, s) \<Rightarrow>
              (case settings_read_extra fd s of
                 (Inl error, s) \<Rightarrow> settings_close_with fd (filesystem_error error) (Some error) s
               | (Inr extra, s) \<Rightarrow>
                   if length extra \<noteq> 0 then settings_close_with fd CN_SETTINGS_CORRUPT None s
                   else (case sys_close fd s of
                     (Inl error, s) \<Rightarrow> (Inl (filesystem_error error, Some error), s)
                   | (Inr _, s) \<Rightarrow> (Inr data, s)))))"

text \<open>The outcome is the result, the settings (defaults unless it is OK) and the error number.\<close>

definition cn_settings_load ::
  "cn_settings_store option \<Rightarrow> cn_settings option \<Rightarrow> os \<Rightarrow>
     (cn_settings_result \<times> cn_settings option \<times> errno option) \<times> os" where
  "cn_settings_load store settings s =
     (if store = None \<or> settings = None then ((CN_SETTINGS_INVALID_ARGUMENT, settings, None), s)
      else let defaults = Some cn_settings_defaults in
      if \<not> store_valid store then ((CN_SETTINGS_INVALID_ARGUMENT, defaults, None), s)
      else case inspect_config_directory (the store) s of
        ((result, error), s) \<Rightarrow>
          if result \<noteq> CN_SETTINGS_OK then ((result, defaults, error), s)
          else (case build_paths store s of
            Inl result \<Rightarrow> ((result, defaults, error), s)
          | Inr (path, temporary) \<Rightarrow>
              (case inspect_settings_file path s of
                 ((result, error, before), s) \<Rightarrow>
                   if result \<noteq> CN_SETTINGS_OK then ((result, defaults, error), s)
                   else if st_size (the before) = 0 \<or> st_size (the before) > settings_file_max_bytes
                   then ((CN_SETTINGS_CORRUPT, defaults, None), s)
                   else (case sys_open_read True False path s of
                     (Inl error, s) \<Rightarrow> ((filesystem_error error, defaults, Some error), s)
                   | (Inr fd, s) \<Rightarrow>
                       (case settings_read_file fd (the before) s of
                          (Inl (result, error), s) \<Rightarrow> ((result, defaults, error), s)
                        | (Inr data, s) \<Rightarrow>
                            (case parse_settings data of
                               Inl result \<Rightarrow> ((result, defaults, None), s)
                             | Inr parsed \<Rightarrow> ((CN_SETTINGS_OK, Some parsed, None), s)))))))"

section \<open>Saving\<close>

function settings_write_all :: "nat \<Rightarrow> bytes \<Rightarrow> os \<Rightarrow> (cn_settings_result \<times> errno option) \<times> os" where
  "settings_write_all fd data s =
     (if length data \<noteq> 0 then
        case sys_write fd data s of
          (Inl error, s') \<Rightarrow>
            if error = EINTR then settings_write_all fd data s'
            else ((filesystem_error error, Some error), s')
        | (Inr count, s') \<Rightarrow>
            if count = 0 then ((filesystem_error EIO, Some EIO), s')
            else settings_write_all fd (drop count data) s'
      else ((CN_SETTINGS_OK, None), s))"
  by pat_completeness auto
termination
  by (relation "measure (\<lambda>(fd, data, s). length (faults s) + length data)")
    (auto dest!: sys_write_progress [OF sym] intro: write_measure)

declare settings_write_all.simps [simp del]

text \<open>The label \<open>done\<close>, reached only before the rename: a failing removal replaces the result.\<close>

definition settings_give_up ::
  "nat option \<Rightarrow> bytes \<Rightarrow> cn_settings_result \<times> errno option \<Rightarrow> os \<Rightarrow> (cn_settings_result \<times> errno option) \<times> os" where
  "settings_give_up fd temporary outcome s =
     (let s = (case fd of None \<Rightarrow> s | Some fd \<Rightarrow> snd (sys_close fd s)) in
      case sys_unlink temporary s of
        (r, s) \<Rightarrow> (case r of
          Inl error \<Rightarrow> if error \<noteq> ENOENT then ((filesystem_error error, Some error), s) else (outcome, s)
        | Inr _ \<Rightarrow> (outcome, s)))"

definition settings_sync_directory :: "bytes \<Rightarrow> os \<Rightarrow> (cn_settings_result \<times> errno option) \<times> os" where
  "settings_sync_directory directory' s =
     (case sys_open_read False True directory' s of
        (Inl error, s) \<Rightarrow> ((CN_SETTINGS_DURABILITY_UNCERTAIN, Some error), s)
      | (Inr fd, s) \<Rightarrow>
          (case sys_fsync fd s of
             (Inl error, s) \<Rightarrow> ((CN_SETTINGS_DURABILITY_UNCERTAIN, Some error), snd (sys_close fd s))
           | (Inr _, s) \<Rightarrow>
               (case sys_close fd s of
                  (Inl error, s) \<Rightarrow> ((CN_SETTINGS_DURABILITY_UNCERTAIN, Some error), s)
                | (Inr _, s) \<Rightarrow> ((CN_SETTINGS_OK, None), s))))"

definition settings_replace ::
  "bytes \<Rightarrow> bytes \<Rightarrow> bytes \<Rightarrow> bytes \<Rightarrow> os \<Rightarrow> (cn_settings_result \<times> errno option) \<times> os" where
  "settings_replace directory' temporary path data s =
     (case sys_unlink temporary s of (r, s) \<Rightarrow>
      if r \<noteq> Inr () \<and> r \<noteq> Inl ENOENT then ((filesystem_error (projl r), Some (projl r)), s)
      else case sys_create temporary s of
        (Inl error, s) \<Rightarrow> ((filesystem_error error, Some error), s)
      | (Inr fd, s) \<Rightarrow>
          (case settings_write_all fd data s of (outcome, s) \<Rightarrow>
           if fst outcome \<noteq> CN_SETTINGS_OK then settings_give_up (Some fd) temporary outcome s
           else case sys_fsync fd s of
             (Inl error, s) \<Rightarrow> settings_give_up (Some fd) temporary (filesystem_error error, Some error) s
           | (Inr _, s) \<Rightarrow>
               (case sys_close fd s of
                  (Inl error, s) \<Rightarrow> settings_give_up None temporary (filesystem_error error, Some error) s
                | (Inr _, s) \<Rightarrow>
                    (case sys_rename temporary path s of
                       (Inl error, s) \<Rightarrow> settings_give_up None temporary (filesystem_error error, Some error) s
                     | (Inr _, s) \<Rightarrow> settings_sync_directory directory' s))))"

definition cn_settings_save ::
  "cn_settings_store option \<Rightarrow> cn_settings option \<Rightarrow> os \<Rightarrow> (cn_settings_result \<times> errno option) \<times> os" where
  "cn_settings_save store settings s =
     (if store = None \<or> settings = None \<or> \<not> store_valid store then ((CN_SETTINGS_INVALID_ARGUMENT, None), s)
      else if cn_settings_validate settings \<noteq> CN_SETTINGS_OK then ((cn_settings_validate settings, None), s)
      else case serialize_settings (the settings) of
        Inl result \<Rightarrow> ((result, None), s)
      | Inr data \<Rightarrow>
          (case inspect_config_directory (the store) s of ((result, error), s) \<Rightarrow>
           if result \<noteq> CN_SETTINGS_OK then ((result, error), s)
           else (case build_paths store s of
             Inl result \<Rightarrow> ((result, error), s)
           | Inr (path, temporary) \<Rightarrow>
               (case inspect_settings_file path s of ((result, error, info), s) \<Rightarrow>
                if result \<noteq> CN_SETTINGS_OK \<and> result \<noteq> CN_SETTINGS_MISSING then ((result, error), s)
                else settings_replace (cstr (config_directory (the store))) temporary path data s))))"

section \<open>Replacing the settings file\<close>

definition settings_writes :: "nat \<Rightarrow> bytes \<Rightarrow> os \<Rightarrow> bool \<times> os" where
  "settings_writes fd data s = (case settings_write_all fd data s of (outcome, t) \<Rightarrow> (fst outcome = CN_SETTINGS_OK, t))"

lemma filesystem_error_not_ok [simp]: "filesystem_error e \<noteq> CN_SETTINGS_OK"
  by (simp add: filesystem_error_def split: errno.splits)

lemma filesystem_error_certain [simp]: "filesystem_error e \<noteq> CN_SETTINGS_DURABILITY_UNCERTAIN"
  by (simp add: filesystem_error_def split: errno.splits)

lemma settings_write_all_runs:
  "settings_write_all fd data s = (outcome, s') \<Longrightarrow> write_run fd data s (fst outcome = CN_SETTINGS_OK) s' \<and>
     fst outcome \<noteq> CN_SETTINGS_DURABILITY_UNCERTAIN"
proof (induction fd data s rule: settings_write_all.induct)
  case (1 fd data s)
  obtain r s1 where w: "sys_write fd data s = (r, s1)" by fastforce
  show ?case
    using "1.prems" "1.IH" w
    by (subst (asm) settings_write_all.simps)
      (auto split: if_splits sum.splits intro: write_run.intros)
qed

lemma settings_writes_runs: "settings_writes fd data s = (ok, s') \<Longrightarrow> write_run fd data s ok s'"
  using settings_write_all_runs [of fd data s] by (auto simp: settings_writes_def split: prod.splits)

interpretation settings_writer: full_writer settings_writes
  by unfold_locales (rule write_run_law [OF settings_writes_runs])

text \<open>Where a save ends: the new file is in place, with or without its directory synced, or nothing happened.\<close>

definition settings_outcome ::
  "bytes \<Rightarrow> bytes \<Rightarrow> bytes \<Rightarrow> os \<Rightarrow> (cn_settings_result \<times> errno option) \<times> os \<Rightarrow> bool" where
  "settings_outcome tmp path d s0 x \<longleftrightarrow>
     (if fst (fst x) \<in> {CN_SETTINGS_OK, CN_SETTINGS_DURABILITY_UNCERTAIN}
      then committed tmp path d s0 (snd x) else idle tmp s0 (snd x))"

lemma ends_settings_write_all:
  assumes "filled tmp fd [] s0 s"
    and "\<And>r e t. opened tmp fd s0 t \<Longrightarrow> r \<noteq> CN_SETTINGS_OK \<Longrightarrow> r \<noteq> CN_SETTINGS_DURABILITY_UNCERTAIN \<Longrightarrow> ends P (f (r, e) t)"
    and "\<And>o' t. filled tmp fd d s0 t \<Longrightarrow> ends P (g o' t)"
  shows "ends P (case settings_write_all fd d s of (o', t) \<Rightarrow> if fst o' \<noteq> CN_SETTINGS_OK then f o' t else g o' t)"
proof -
  obtain r e t where w: "settings_write_all fd d s = ((r, e), t)" by (metis prod.collapse)
  have ws: "settings_writes fd d s = (r = CN_SETTINGS_OK, t)" by (simp add: settings_writes_def w)
  have "opened tmp fd s0 t" using settings_writer.write_opened [OF assms(1) ws] .
  moreover have "r = CN_SETTINGS_OK \<Longrightarrow> filled tmp fd d s0 t"
    using settings_writer.write_filled [OF assms(1)] ws by simp
  ultimately show ?thesis using assms(2,3) settings_write_all_runs [OF w] by (simp add: w)
qed

lemma ends_settings_give_up:
  assumes "r \<noteq> CN_SETTINGS_OK" "r \<noteq> CN_SETTINGS_DURABILITY_UNCERTAIN"
  shows "idle tmp s0 s \<Longrightarrow> ends (settings_outcome tmp path d s0) (settings_give_up None tmp (r, e) s)"
    and "opened tmp fd s0 s \<Longrightarrow> ends (settings_outcome tmp path d s0) (settings_give_up (Some fd) tmp (r, e) s)"
  using assms idle_unlink [of tmp s0] opened_give_up [of tmp fd s0 s]
  by (auto simp: ends_def settings_outcome_def settings_give_up_def Let_def split: prod.splits sum.splits)

lemma ends_settings_sync:
  "committed tmp path d s0 s \<Longrightarrow> ends (settings_outcome tmp path d s0) (settings_sync_directory dir s)"
  unfolding settings_sync_directory_def
  by (rule ends_open_dir, assumption; (rule ends_fsync_dir, assumption)?; (rule ends_close_dir, assumption)?)
    (auto simp: ends_def settings_outcome_def intro: give_up)

lemma ends_settings_failed:
  "idle tmp s0 s \<Longrightarrow> r \<noteq> CN_SETTINGS_OK \<Longrightarrow> r \<noteq> CN_SETTINGS_DURABILITY_UNCERTAIN \<Longrightarrow>
     ends (settings_outcome tmp path d s0) ((r, e), s)"
  by (simp add: ends_def settings_outcome_def)

lemma settings_replace_effect:
  assumes "idle tmp s0 s" "tmp \<noteq> path"
  shows "ends (settings_outcome tmp path data s0) (settings_replace dir tmp path data s)"
  unfolding settings_replace_def
  by (rule ends_unlink [OF assms(1)])
    (intro ends_if; (assumption | rule ends_settings_failed ends_settings_give_up filesystem_error_not_ok
      filesystem_error_certain ends_create ends_settings_write_all ends_fsync ends_close ends_rename
      ends_settings_sync assms(2))+)

section \<open>Writing and parsing the file\<close>

lemma next_line_append: "newline \<notin> set line \<Longrightarrow> next_line (line @ newline # rest) = Some (line, rest)"
  by (induction line) auto

lemma next_line_Some: "next_line data = Some (line, rest) \<Longrightarrow> data = line @ newline # rest \<and> newline \<notin> set line"
  by (induction data arbitrary: line) (auto split: if_splits option.splits)

lemma line_value_append: "line_value (key @ of_char CHR ''='' # value) key = Some value"
  by (simp add: line_value_def)

lemma line_value_Some: "line_value line key = Some value \<Longrightarrow> line = key @ of_char CHR ''='' # value"
proof -
  assume "line_value line key = Some value"
  then have l: "length key < length line" "take (length key) line = key" "line ! length key = of_char CHR ''=''"
    "value = drop (Suc (length key)) line" by (auto simp: line_value_def split: if_splits)
  then show ?thesis using id_take_nth_drop [OF l(1)] by simp
qed

definition settings_body :: "int \<Rightarrow> bytes \<Rightarrow> bytes \<Rightarrow> bytes" where
  "settings_body enabled url name =
     str ''crossnook-settings=1'' @ newline # (str ''kosync.enabled='' @
       (if enabled \<noteq> 0 then str ''true'' else str ''false'')) @ newline # (str ''kosync.base_url='' @ url) @
       newline # (str ''kosync.device_name='' @ name) @ [newline]"

definition settings_image :: "cn_settings \<Rightarrow> bytes" where
  "settings_image s = (let body = settings_body (kosync_enabled s) (cstr (kosync_base_url s)) (cstr (kosync_device_name s))
     in body @ crc_line (settings_crc32 body))"

lemma length_crc_hex [simp]: "length (crc_hex crc) = 8"
  by (simp add: crc_hex_def)

lemma length_crc_line [simp]: "length (crc_line crc) = 15"
  by (simp add: crc_line_def)

lemma newline_terminated [simp]: "newline \<noteq> 0"
  by (simp add: newline_def)

lemma writer_append_fits:
  "length writer + length d \<le> settings_file_max_bytes \<Longrightarrow> writer_append d writer = Some (writer @ d)"
  by (simp add: writer_append_def)

lemma writer_text_fits:
  "length writer + length (cstr t) \<le> settings_file_max_bytes \<Longrightarrow> writer_text t writer = Some (writer @ cstr t)"
  by (simp add: writer_text_def writer_append_fits)

lemma serialize_image:
  assumes "strlen (kosync_base_url s) \<le> 1296" "strlen (kosync_device_name s) \<le> 255"
  shows "serialize_settings s = Inr (settings_image s)"
  using assms
  by (simp add: serialize_settings_def writer_text_fits writer_append_fits settings_file_max_bytes_def
      settings_image_def settings_body_def Let_def strlen_def)

text \<open>The checksum line reads back as the checksum.\<close>

lemma crc_digits_append: "crc_digits v (xs @ ys) = Option.bind (crc_digits v xs) (\<lambda>w. crc_digits w ys)"
  by (induction v xs rule: crc_digits.induct) (auto split: option.splits)

lemma crc_nibble_less: "unat ((w :: u32) AND 0x0f) < 16"
  using unat_and_mask [of w 4] by (simp add: mask_eq_exp_minus_1)

lemma push_nibble: "push_bit 4 (drop_bit (n + 4) v) OR (drop_bit n v AND 0x0f) = drop_bit n (v :: u32)"
proof (rule bit_eqI)
  fix i :: nat
  have m: "(0x0f :: u32) = mask 4" by (simp add: mask_eq_exp_minus_1)
  show "bit (push_bit 4 (drop_bit (n + 4) v) OR (drop_bit n v AND 0x0f)) i = bit (drop_bit n v) i"
    unfolding m by (cases "i < 4") (auto simp: bit_simps ac_simps dest: bit_imp_le_length)
qed

lemma crc_digits_hex:
  "k \<le> 8 \<Longrightarrow> crc_digits 0 (map (\<lambda>i. hex_digit (unat (drop_bit (28 - 4 * i) v AND 0x0f))) [0..<k]) =
     Some (drop_bit (32 - 4 * k) (v :: u32))"
proof (induction k)
  case 0
  have "drop_bit 32 v = 0" by (rule bit_eqI) (auto simp: bit_simps dest: bit_imp_le_length)
  then show ?case by simp
next
  case (Suc k)
  define n where "n = 28 - 4 * k"
  have n: "32 - 4 * k = n + 4" "32 - 4 * Suc k = n" using Suc(2) by (simp_all add: n_def)
  have "of_nat (unat (drop_bit n v AND 0x0f)) = drop_bit n v AND 0x0f" by simp
  moreover have "crc_digits 0 (map (\<lambda>i. hex_digit (unat (drop_bit (28 - 4 * i) v AND 0x0f))) [0..<k]) =
      Some (drop_bit (n + 4) v)" using Suc n by simp
  ultimately show ?case
    using push_nibble [of n v] n(2)
    by (simp only: upt_Suc_append zero_le map_append list.map crc_digits_append n_def [symmetric])
      (simp add: hex_value_digit crc_nibble_less)
qed

lemma parse_crc_hex: "parse_crc (crc_hex v) = Some v"
  using crc_digits_hex [of 8 v] by (simp add: parse_crc_def crc_hex_def)

lemma crc_hex_inj: "crc_hex v = crc_hex w \<Longrightarrow> v = w"
  by (metis parse_crc_hex option.inject)

interpretation settings_trailer: crc_trailer crc_line 15
  by unfold_locales (auto simp: crc_line_def dest: crc_hex_inj)

section \<open>A saved file reads back\<close>

definition canonical :: "cn_settings \<Rightarrow> cn_settings" where
  "canonical s = \<lparr>kosync_enabled = kosync_enabled s, kosync_base_url = cstr (kosync_base_url s),
     kosync_device_name = cstr (kosync_device_name s)\<rparr>"

lemma cstr_idem [simp]: "cstr (cstr x) = cstr x"
  by simp

lemma strlen_cstr [simp]: "strlen (cstr x) = strlen x"
  by (simp add: strlen_def)

lemma take_bounded: "n < k \<Longrightarrow> n = min k (strlen x) \<Longrightarrow> take n x = cstr x"
  by (simp add: take_strlen)

lemma settings_valid_facts:
  assumes "cn_settings_validate (Some s) = CN_SETTINGS_OK"
  shows "kosync_enabled s = 0 \<or> kosync_enabled s = 1"
    and "strlen (kosync_base_url s) \<le> 1296" and "strlen (kosync_device_name s) \<le> 255"
    and "kosync_base_url s = [] \<or> cstr (kosync_base_url s) = [] \<or> base_url_valid (cstr (kosync_base_url s))"
    and "cstr (kosync_base_url s) = [] \<Longrightarrow> kosync_enabled s = 0"
    and "utf8_device_name_valid (cstr (kosync_device_name s))" and "cstr (kosync_device_name s) \<noteq> []"
proof -
  have b: "settings_bounded_length (Some x) n = min n (strlen x)" for x n
    by (simp add: settings_bounded_length_def scan_nul_eq)
  have l: "strlen (kosync_base_url s) \<le> 1296" "strlen (kosync_device_name s) \<le> 255"
    using assms by (auto simp: cn_settings_validate_def Let_def b settings_url_capacity_def
        settings_device_name_capacity_def split: if_splits)
  then show "strlen (kosync_base_url s) \<le> 1296" "strlen (kosync_device_name s) \<le> 255" .
  have m: "min settings_url_capacity (strlen (kosync_base_url s)) = strlen (kosync_base_url s)"
    "min settings_device_name_capacity (strlen (kosync_device_name s)) = strlen (kosync_device_name s)"
    using l by (simp_all add: settings_url_capacity_def settings_device_name_capacity_def)
  show "kosync_enabled s = 0 \<or> kosync_enabled s = 1"
    "kosync_base_url s = [] \<or> cstr (kosync_base_url s) = [] \<or> base_url_valid (cstr (kosync_base_url s))"
    "cstr (kosync_base_url s) = [] \<Longrightarrow> kosync_enabled s = 0"
    "utf8_device_name_valid (cstr (kosync_device_name s))" "cstr (kosync_device_name s) \<noteq> []"
    using assms by (auto simp: cn_settings_validate_def Let_def b m take_strlen split: if_splits) (simp_all add: strlen_def)
qed

lemma settings_bounded_cstr:
  "settings_bounded_length (Some (cstr x)) n = settings_bounded_length (Some x) n"
  "take (settings_bounded_length (Some x) n) (cstr x) = take (settings_bounded_length (Some x) n) x"
proof -
  show "settings_bounded_length (Some (cstr x)) n = settings_bounded_length (Some x) n"
    by (simp add: settings_bounded_length_def scan_nul_eq)
  have "take (min n (strlen x)) (take (strlen x) x) = take (min n (strlen x)) x" by simp
  then show "take (settings_bounded_length (Some x) n) (cstr x) = take (settings_bounded_length (Some x) n) x"
    by (simp add: settings_bounded_length_def scan_nul_eq take_strlen)
qed

lemma settings_validate_canonical: "cn_settings_validate (Some (canonical s)) = cn_settings_validate (Some s)"
  unfolding cn_settings_validate_def canonical_def option.case cn_settings.select_convs Let_def
  by (simp only: settings_bounded_cstr)

lemma url_bytes_plain: "list_all url_byte u \<Longrightarrow> newline \<notin> set u"
  by (induction u) (auto simp: url_byte_def newline_def)

lemma base_url_plain: "base_url_valid u \<Longrightarrow> newline \<notin> set u"
  by (rule url_bytes_plain) (auto simp: base_url_valid_def split: if_splits)

lemma device_name_plain: "utf8_device_name_valid n \<Longrightarrow> newline \<notin> set n"
  using device_name_bytes [of n newline] by (auto simp: newline_def)

lemma settings_lines_plain:
  assumes "cn_settings_validate (Some s) = CN_SETTINGS_OK"
  shows "newline \<notin> set (cstr (kosync_base_url s))" "newline \<notin> set (cstr (kosync_device_name s))"
  using settings_valid_facts [OF assms] base_url_plain device_name_plain by auto

lemma hex_digit_plain: "n < 16 \<Longrightarrow> hex_digit n \<noteq> newline \<and> hex_digit n \<noteq> 0"
  by (drule nibble_cases) (auto simp: hex_digit_def char_at_def newline_def)

lemma crc_hex_plain: "newline \<notin> set (crc_hex v)" "terminated (crc_hex v)"
proof -
  have "c \<noteq> newline \<and> c \<noteq> 0" if "c \<in> set (crc_hex v)" for c
    using that hex_digit_plain [OF crc_nibble_less] by (simp only: crc_hex_def set_map image_iff) metis
  then show "newline \<notin> set (crc_hex v)" "terminated (crc_hex v)" by (auto simp: terminated_def)
qed

lemma settings_image_terminated: "terminated (settings_image s)"
  using crc_hex_plain(2) by (simp add: settings_image_def settings_body_def crc_line_def Let_def)

lemma settings_image_length:
  "strlen (kosync_base_url s) \<le> 1296 \<Longrightarrow> strlen (kosync_device_name s) \<le> 255 \<Longrightarrow>
     length (settings_image s) \<le> settings_file_max_bytes"
  by (simp add: settings_image_def settings_body_def Let_def settings_file_max_bytes_def strlen_def)

lemma parse_version_one: "parse_version (str ''1'') = Some settings_format_version"
  by (simp add: parse_version_def digit_def)

lemma parse_enabled_back: "e = 0 \<or> e = 1 \<Longrightarrow> parse_enabled (if e \<noteq> 0 then str ''true'' else str ''false'') = Some e"
  by (auto simp: parse_enabled_def)

lemma more_lines_step:
  "newline \<notin> set line \<Longrightarrow> more_lines (Suc n) (line @ newline # rest) =
     (case more_lines n rest of None \<Rightarrow> None | Some (lines, rest') \<Rightarrow> Some (line # lines, rest'))"
  by (simp add: next_line_append)

text \<open>The five lines of a file.\<close>

definition enabled_line :: "int \<Rightarrow> bytes" where
  "enabled_line e = str ''kosync.enabled='' @ (if e \<noteq> 0 then str ''true'' else str ''false'')"

definition url_line :: "bytes \<Rightarrow> bytes" where "url_line url = str ''kosync.base_url='' @ url"

definition name_line :: "bytes \<Rightarrow> bytes" where "name_line name = str ''kosync.device_name='' @ name"

definition check_line :: "u32 \<Rightarrow> bytes" where "check_line crc = str ''crc32='' @ crc_hex crc"

lemma settings_lines:
  "settings_body e url name @ crc_line crc =
     str ''crossnook-settings=1'' @ newline # enabled_line e @ newline # url_line url @ newline #
     name_line name @ newline # check_line crc @ newline # []"
  by (simp add: settings_body_def crc_line_def enabled_line_def url_line_def name_line_def check_line_def)

lemma line_values:
  "line_value (str ''crossnook-settings=1'') (str ''crossnook-settings'') = Some (str ''1'')"
  "line_value (enabled_line e) (str ''kosync.enabled'') = Some (if e \<noteq> 0 then str ''true'' else str ''false'')"
  "line_value (url_line url) (str ''kosync.base_url'') = Some url"
  "line_value (name_line name) (str ''kosync.device_name'') = Some name"
  "line_value (check_line crc) (str ''crc32'') = Some (crc_hex crc)"
  by (simp_all add: line_value_def enabled_line_def url_line_def name_line_def check_line_def)

lemma settings_lines_split:
  assumes "newline \<notin> set url" "newline \<notin> set name"
  shows "next_line (settings_body e url name @ crc_line crc) = Some (str ''crossnook-settings=1'',
      enabled_line e @ newline # url_line url @ newline # name_line name @ newline # check_line crc @ newline # [])"
    and "more_lines 4 (enabled_line e @ newline # url_line url @ newline # name_line name @ newline #
      check_line crc @ newline # []) = Some ([enabled_line e, url_line url, name_line name, check_line crc], [])"
proof -
  have p: "newline \<notin> set (str ''crossnook-settings=1'')" "newline \<notin> set (enabled_line e)"
    "newline \<notin> set (url_line url)" "newline \<notin> set (name_line name)" "newline \<notin> set (check_line crc)"
    using assms crc_hex_plain(1) [of crc]
    by (simp_all add: newline_def enabled_line_def url_line_def name_line_def check_line_def)
  have four: "(4 :: nat) = Suc (Suc (Suc (Suc 0)))" by simp
  show "next_line (settings_body e url name @ crc_line crc) = Some (str ''crossnook-settings=1'',
      enabled_line e @ newline # url_line url @ newline # name_line name @ newline # check_line crc @ newline # [])"
    unfolding settings_lines by (rule next_line_append [OF p(1)])
  show "more_lines 4 (enabled_line e @ newline # url_line url @ newline # name_line name @ newline #
      check_line crc @ newline # []) = Some ([enabled_line e, url_line url, name_line name, check_line crc], [])"
    unfolding four using p by (simp only: more_lines_step option.case prod.case more_lines.simps(1) not_False_eq_True)
qed

lemma parse_image:
  assumes v: "cn_settings_validate (Some s) = CN_SETTINGS_OK"
  shows "parse_settings (settings_image s) = Inr (canonical s)"
proof -
  define e url name where d: "e = kosync_enabled s" "url = cstr (kosync_base_url s)" "name = cstr (kosync_device_name s)"
  define crc where "crc = settings_crc32 (settings_body e url name)"
  note f = settings_valid_facts [OF v]
  have img: "settings_image s = settings_body e url name @ crc_line crc"
    by (simp add: settings_image_def d crc_def Let_def)
  have nonempty: "settings_image s \<noteq> []" by (simp add: img settings_body_def)
  have short: "length url < settings_url_capacity" "length name < settings_device_name_capacity"
    using f(2,3) by (simp_all add: d strlen_def settings_url_capacity_def settings_device_name_capacity_def)
  have split: "next_line (settings_image s) = Some (str ''crossnook-settings=1'',
      enabled_line e @ newline # url_line url @ newline # name_line name @ newline # check_line crc @ newline # [])"
    unfolding img d by (rule settings_lines_split(1) [OF settings_lines_plain [OF v]])
  note more = settings_lines_split(2) [OF settings_lines_plain [OF v], of e crc, folded d]
  have off: "take (length (settings_image s) - (length (check_line crc) + 1)) (settings_image s) = settings_body e url name"
    by (simp add: img check_line_def)
  have cc: "cn_settings_validate (Some \<lparr>kosync_enabled = e, kosync_base_url = url, kosync_device_name = name\<rparr>) = CN_SETTINGS_OK"
    using settings_validate_canonical [of s] v by (simp add: canonical_def d)
  have en: "parse_enabled (if e \<noteq> 0 then str ''true'' else str ''false'') = Some e"
    using f(1) d by (intro parse_enabled_back) simp
  have z: "0 \<notin> set (settings_image s)" using settings_image_terminated [of s] by (simp add: terminated_def)
  note len = settings_image_length [OF f(2,3)]
  have n: "[a, b, c, x] ! 0 = a" "[a, b, c, x] ! 1 = b" "[a, b, c, x] ! 2 = c" "[a, b, c, x] ! 3 = x" for a b c x :: bytes
    by simp_all
  show ?thesis
    unfolding parse_settings_def split option.case prod.case line_values n more off en parse_version_one
      parse_crc_hex bind.bind_lunit Let_def
    using nonempty len z short cc
    by (simp add: crc_def [symmetric] canonical_def d [symmetric])
qed


text \<open>No other bytes than the image of the settings parse to them.\<close>

lemma hex_digit_value: "hex_value c = Some d \<Longrightarrow> hex_digit d = c \<and> d < 16"
proof -
  assume h: "hex_value c = Some d"
  have u: "c = word_of_nat (unat c)" by simp
  have d: "d < 16 \<and> (d < 10 \<and> unat c = 48 + d \<or> 10 \<le> d \<and> unat c = 87 + d)"
    using h by (auto simp: hex_value_def word_le_nat_alt split: if_splits)
  then have "d < 10 \<and> c = word_of_nat (48 + d) \<or> 10 \<le> d \<and> c = word_of_nat (87 + d)" using u by metis
  with nibble_cases [of d] d show ?thesis by (auto simp: hex_digit_def char_at_def)
qed

lemma crc_hex_digits:
  "crc_digits 0 xs = Some c \<Longrightarrow> length xs \<le> 8 \<Longrightarrow> unat c < 16 ^ length xs \<and>
     map (\<lambda>i. hex_digit (unat (drop_bit (4 * (length xs - 1 - i)) c AND 0x0f))) [0..<length xs] = xs"
proof (induction xs arbitrary: c rule: rev_induct)
  case (snoc x xs)
  obtain v d where v: "crc_digits 0 xs = Some v" "hex_value x = Some d" "c = push_bit 4 v OR of_nat d"
    using snoc.prems(1) by (auto simp: crc_digits_append split: bind_splits option.splits)
  note d = hex_digit_value [OF v(2)]
  have ih: "unat v < 16 ^ length xs"
    "map (\<lambda>i. hex_digit (unat (drop_bit (4 * (length xs - 1 - i)) v AND 0x0f))) [0..<length xs] = xs"
    using snoc.IH [OF v(1)] snoc.prems(2) by simp_all
  have ud: "unat (of_nat d :: u32) = d" using d by (simp add: unat_of_nat take_bit_nat_eq_self)
  have "(16 :: nat) ^ length xs \<le> 16 ^ 7" using snoc.prems(2) by (intro power_increasing) simp_all
  then have "unat v < 2 ^ (LENGTH(32) - 4)" using ih(1) by simp
  then have uc: "unat c = unat v * 16 + d"
    using unat_or_disjoint [of v 4 "of_nat d"] ud d v(3) by simp
  have hi: "drop_bit 4 c = v" using uc d by (simp add: word_unat_eq_iff unat_drop_bit)
  have lo: "unat (c AND 0x0f) = d" using uc d unat_and_mask [of c 4] by (simp add: mask_eq_exp_minus_1)
  have "drop_bit (4 * (length xs - i)) c = drop_bit (4 * (length xs - 1 - i)) v" if "i < length xs" for i
  proof -
    have "4 * (length xs - i) = 4 * (length xs - 1 - i) + 4" using that by simp
    then show ?thesis unfolding hi [symmetric] by (simp only: drop_bit_drop_bit)
  qed
  then have "map (\<lambda>i. hex_digit (unat (drop_bit (4 * (length xs - i)) c AND 0x0f))) [0..<length xs] = xs"
    using ih(2) by (subst (asm) map_cong [OF refl, where g = "\<lambda>i. hex_digit (unat (drop_bit (4 * (length xs - i)) c AND 0x0f))"]) simp_all
  moreover have "unat c < 16 ^ length (xs @ [x])" using uc ih(1) d by simp
  ultimately show ?case using lo d by simp
qed simp

lemma parse_crc_Some: "parse_crc value = Some c \<Longrightarrow> value = crc_hex c"
proof -
  assume "parse_crc value = Some c"
  then have l: "length value = 8" "crc_digits 0 value = Some c" by (auto simp: parse_crc_def split: if_splits)
  have "4 * (8 - 1 - i) = 28 - 4 * i" for i :: nat by simp
  then show ?thesis using crc_hex_digits [OF l(2)] l(1) by (simp add: crc_hex_def)
qed

lemma parse_version_Some: "parse_version value = Some settings_format_version \<Longrightarrow> value = str ''1''"
  by (cases "value") (auto simp: parse_version_def settings_format_version_def split: if_splits)

lemma parse_enabled_Some:
  "parse_enabled value = Some e \<Longrightarrow> (e = 0 \<or> e = 1) \<and> value = (if e \<noteq> 0 then str ''true'' else str ''false'')"
  by (auto simp: parse_enabled_def split: if_splits)

lemma more_lines_Suc: "more_lines (Suc n) data = Some (ls, rest) \<Longrightarrow>
    \<exists>l ls' mid. data = l @ newline # mid \<and> ls = l # ls' \<and> more_lines n mid = Some (ls', rest)"
  by (cases "next_line data") (auto split: option.splits dest!: next_line_Some)

lemma more_lines_four:
  assumes "more_lines 4 data = Some (ls, rest)"
  obtains a b c d where "ls = [a, b, c, d]" "data = a @ newline # b @ newline # c @ newline # d @ newline # rest"
proof -
  have four: "(4 :: nat) = Suc (Suc (Suc (Suc 0)))" by simp
  from more_lines_Suc [OF assms [unfolded four]] obtain a l1 m1 where
    1: "data = a @ newline # m1" "ls = a # l1" "more_lines (Suc (Suc (Suc 0))) m1 = Some (l1, rest)" by blast
  from more_lines_Suc [OF 1(3)] obtain b l2 m2 where
    2: "m1 = b @ newline # m2" "l1 = b # l2" "more_lines (Suc (Suc 0)) m2 = Some (l2, rest)" by blast
  from more_lines_Suc [OF 2(3)] obtain c l3 m3 where
    3: "m2 = c @ newline # m3" "l2 = c # l3" "more_lines (Suc 0) m3 = Some (l3, rest)" by blast
  from more_lines_Suc [OF 3(3)] obtain d l4 m4 where
    4: "m3 = d @ newline # m4" "l3 = d # l4" "more_lines 0 m4 = Some (l4, rest)" by blast
  show ?thesis by (rule that [of a b c d]) (use 1 2 3 4 in simp_all)
qed

lemma parse_settings_Inr:
  assumes "parse_settings data = Inr s"
  shows "data = settings_image s" and "cn_settings_validate (Some s) = CN_SETTINGS_OK" and "canonical s = s"
proof -
  from assms obtain l0 r0 v where 0: "0 \<notin> set data" "next_line data = Some (l0, r0)"
    "line_value l0 (str ''crossnook-settings'') = Some v" "parse_version v = Some settings_format_version"
    and rest: "more_lines 4 r0 \<noteq> None"
    by (auto simp: parse_settings_def split: if_splits option.splits bind_splits)
  from rest obtain ls r where ls: "more_lines 4 r0 = Some (ls, r)" by (cases "more_lines 4 r0") auto
  from more_lines_four [OF ls] obtain a b c d where
    m: "ls = [a, b, c, d]" "r0 = a @ newline # b @ newline # c @ newline # d @ newline # r" by blast
  have n: "[a, b, c, d] ! 0 = a" "[a, b, c, d] ! 1 = b" "[a, b, c, d] ! 2 = c" "[a, b, c, d] ! 3 = d" by simp_all
  from assms 0 ls m obtain x e url name y crc where
    1: "r = []" "line_value a (str ''kosync.enabled'') = Some x" "parse_enabled x = Some e"
      "line_value b (str ''kosync.base_url'') = Some url" "line_value c (str ''kosync.device_name'') = Some name"
      "line_value d (str ''crc32'') = Some y" "parse_crc y = Some crc"
      "settings_crc32 (take (length data - (length d + 1)) data) = crc"
      "s = \<lparr>kosync_enabled = e, kosync_base_url = url, kosync_device_name = name\<rparr>"
      "cn_settings_validate (Some s) = CN_SETTINGS_OK"
    unfolding parse_settings_def
    by (simp only: 0 ls m(1) n option.case prod.case bind.bind_lunit Let_def)
      (auto split: if_splits option.splits bind_splits)
  have v: "v = str ''1''" using parse_version_Some [OF 0(4)] .
  note lines = line_value_Some [OF 0(3)] line_value_Some [OF 1(2)] line_value_Some [OF 1(4)]
    line_value_Some [OF 1(5)] line_value_Some [OF 1(6)]
  note x = conjunct2 [OF parse_enabled_Some [OF 1(3)]]
  have body: "data = settings_body e url name @ crc_line crc"
    using next_line_Some [OF 0(2)] m(2) 1(1) lines v x parse_crc_Some [OF 1(7)]
    by (simp add: settings_body_def crc_line_def)
  have "length d + 1 = length (crc_line crc)" using lines(5) parse_crc_Some [OF 1(7)] by simp
  then have "crc = settings_crc32 (settings_body e url name)" using 1(8) by (simp add: body)
  moreover have t: "terminated url" "terminated name"
    using 0(1) unfolding body settings_body_def by (auto simp: terminated_def)
  ultimately show "data = settings_image s" "canonical s = s"
    by (simp_all add: body settings_image_def 1(9) canonical_def Let_def)
  show "cn_settings_validate (Some s) = CN_SETTINGS_OK" by (rule 1(10))
qed

section \<open>Loading reads the file as it is\<close>

lemma settings_read_loop_reads:
  "settings_read_loop fd data n s = (r, s') \<Longrightarrow> wf_os s \<Longrightarrow> reads fd s s'"
proof (induction fd data n s rule: settings_read_loop.induct)
  case (1 fd data n s)
  obtain a s1 where rd: "sys_read fd (n - length data) s = (a, s1)" by fastforce
  note q = sys_read_reads [OF rd "1.prems"(2)]
  show ?case
    using "1.prems" "1.IH"(1) [OF _ rd [symmetric]] "1.IH"(2) [OF _ rd [symmetric]] q rd
    by (subst (asm) settings_read_loop.simps) (auto simp: reads_def split: if_splits sum.splits)
qed

lemma settings_read_loop_tracks:
  "settings_read_loop fd data n s = (Inr all, s') \<Longrightarrow> tracks fd i d (length data) s \<Longrightarrow>
    take (length data) d = data \<Longrightarrow> take (length all) d = all \<and> tracks fd i d (length all) s'"
proof (induction fd data n s rule: settings_read_loop.induct)
  case (1 fd data n s)
  obtain a s1 where rd: "sys_read fd (n - length data) s = (a, s1)" by fastforce
  show ?case
  proof (cases "length data < n")
    case False
    then show ?thesis using "1.prems" by (subst (asm) settings_read_loop.simps) simp
  next
    case True
    show ?thesis
    proof (cases a)
      case (Inl e)
      then show ?thesis
        using "1.prems" "1.IH"(1) [OF True rd [symmetric] Inl] tracks_failed [of fd "n - length data" s e s1] rd True
        by (subst (asm) settings_read_loop.simps) (auto split: if_splits)
    next
      case (Inr got)
      note t = tracks_read [OF rd [unfolded Inr] "1.prems"(2)]
      have "take (length data + length got) d = data @ got"
        using t(1) "1.prems"(3) by (simp add: take_add)
      then show ?thesis
        using "1.prems"(1) "1.IH"(2) [OF True rd [symmetric] Inr] t(2) rd Inr True
        by (subst (asm) settings_read_loop.simps) (auto split: if_splits)
    qed
  qed
qed

lemma settings_read_extra_reads: "settings_read_extra fd s = (r, s') \<Longrightarrow> wf_os s \<Longrightarrow> reads fd s s'"
proof (induction fd s rule: settings_read_extra.induct)
  case (1 fd s)
  obtain a s1 where rd: "sys_read fd 1 s = (a, s1)" by fastforce
  note q = sys_read_reads [OF rd "1.prems"(2)]
  show ?case
    using "1.prems" "1.IH" [OF rd [symmetric]] q rd
    by (subst (asm) settings_read_extra.simps) (auto simp: reads_def split: if_splits sum.splits)
qed

lemma settings_read_extra_end:
  "settings_read_extra fd s = (Inr [], s') \<Longrightarrow> tracks fd i d k s \<Longrightarrow> length d \<le> k"
proof (induction fd s rule: settings_read_extra.induct)
  case (1 fd s)
  obtain a s1 where rd: "sys_read fd 1 s = (a, s1)" by fastforce
  show ?case
    using "1.prems" "1.IH" [OF rd [symmetric]] tracks_failed [of fd 1 s _ s1] tracks_read(3) [of fd 1 s _ s1] rd
    by (subst (asm) settings_read_extra.simps) (auto split: if_splits sum.splits)
qed

definition settings_read_outcome :: "nat \<Rightarrow> nat \<Rightarrow> os \<Rightarrow> ((cn_settings_result \<times> errno option) + bytes) \<times> os \<Rightarrow> bool" where
  "settings_read_outcome fd i s0 x \<longleftrightarrow> calm s0 (snd x) \<and>
     (case fst x of Inl (r, _) \<Rightarrow> r \<noteq> CN_SETTINGS_OK | Inr d \<Rightarrow> \<exists>b. inodes (fs s0) i = Regular d b)"

lemma ends_settings_close_with:
  "reading fd s0 s \<Longrightarrow> r \<noteq> CN_SETTINGS_OK \<Longrightarrow> ends (settings_read_outcome fd i s0) (settings_close_with fd r e s)"
  by (simp add: ends_def settings_read_outcome_def settings_close_with_def reading_give_up)

lemma settings_read_loop_not_ok: "settings_read_loop fd data n s = (Inl (r, e), s') \<Longrightarrow> r \<noteq> CN_SETTINGS_OK"
proof (induction fd data n s rule: settings_read_loop.induct)
  case (1 fd data n s)
  obtain a s1 where rd: "sys_read fd (n - length data) s = (a, s1)" by fastforce
  show ?case
    using "1.prems" "1.IH"(1) [OF _ rd [symmetric]] "1.IH"(2) [OF _ rd [symmetric]] rd
    by (subst (asm) settings_read_loop.simps) (auto split: if_splits sum.splits)
qed

lemma settings_read_file_effect:
  assumes "reading fd s0 s" "fds s fd = Some (i, 0)"
  shows "ends (settings_read_outcome fd i s0) (settings_read_file fd before s)"
proof -
  obtain a s1 where f: "sys_fstat fd s = (a, s1)" by fastforce
  note q = sys_fstat_quiet [OF f]
  have r1: "reading fd s0 s1" using reading_quiet [OF assms(1) q] .
  obtain b s2 where l: "settings_read_loop fd [] (st_size (projr a)) s1 = (b, s2)" by fastforce
  have r2: "reading fd s0 s2"
    using reading_reads [OF r1 settings_read_loop_reads [OF l]] r1 by (simp add: reading_def)
  obtain c s3 where x: "settings_read_extra fd s2 = (c, s3)" by fastforce
  have r3: "reading fd s0 s3"
    using reading_reads [OF r2 settings_read_extra_reads [OF x]] r2 by (simp add: reading_def)
  have node: "st_node info = inodes (fs s0) i" if "a = Inr info" for info
    using f assms that unfolding sys_fstat_def
    by (auto elim!: call_cases simp: make_stat_def reading_def)
  have good: "inodes (fs s0) i = Regular d w" if "inodes (fs s0) i = Regular D w" "b = Inr d" "c = Inr []" for d D w
  proof -
    have "tracks fd i D 0 s1" using that(1) assms q by (simp add: tracks_def reading_def quiet_def)
    then have "take (length d) D = d \<and> tracks fd i D (length d) s2"
      using settings_read_loop_tracks [of fd "[]" _ s1 d s2 i D] l that(2) by simp
    then show ?thesis using settings_read_extra_end [of fd s2 s3 i D "length d"] x that by simp
  qed
  have cl: "calm s0 (snd (sys_close fd s3))" using reading_give_up [OF r3] .
  show ?thesis
  proof (cases a)
    case (Inl e)
    then show ?thesis using ends_settings_close_with [OF r1] f by (simp add: settings_read_file_def)
  next
    case (Inr info)
    show ?thesis
    proof (cases "st_node info")
      case (Regular D w)
      then have D: "inodes (fs s0) i = Regular D w" using node [OF Inr] by simp
      have "ends (settings_read_outcome fd i s0)
        (case sys_close fd s3 of (Inl e, t) \<Rightarrow> (Inl (filesystem_error e, Some e), t) | (Inr _, t) \<Rightarrow> (Inr d, t))"
        if "b = Inr d" "c = Inr []" for d
        using good [OF D that] cl by (auto simp: ends_def settings_read_outcome_def split: prod.splits sum.splits)
      then show ?thesis
        using ends_settings_close_with [OF r1] ends_settings_close_with [OF r2] ends_settings_close_with [OF r3]
          settings_read_loop_not_ok [of fd "[]"] f l x Inr Regular
        by (auto simp: settings_read_file_def split: sum.splits)
    qed (use ends_settings_close_with [OF r1] f Inr in \<open>simp_all add: settings_read_file_def\<close>)
  qed
qed


definition settings_path :: "cn_settings_store \<Rightarrow> bytes" where
  "settings_path st = cstr (config_directory st) @
     (if config_directory_length st = 1 then [] else str ''/'') @ settings_file_name"

definition settings_temporary :: "cn_settings_store \<Rightarrow> os \<Rightarrow> bytes" where
  "settings_temporary st s = settings_path st @ str ''.tmp.'' @ pid s"

lemma build_paths_Inr: "build_paths (Some st) s = Inr (path, tmp) \<Longrightarrow>
    path = settings_path st \<and> tmp = settings_temporary st s"
  by (auto simp: build_paths_def settings_path_def settings_temporary_def Let_def split: if_splits)

lemma settings_temporary_fresh: "settings_temporary st s \<noteq> settings_path st"
  by (simp add: settings_temporary_def)

definition settings_load_outcome ::
  "bytes \<Rightarrow> os \<Rightarrow> (cn_settings_result \<times> cn_settings option \<times> errno option) \<times> os \<Rightarrow> bool" where
  "settings_load_outcome path s0 x \<longleftrightarrow> calm s0 (snd x) \<and>
     (if fst (fst x) = CN_SETTINGS_OK
      then \<exists>loaded. fst (snd (fst x)) = Some loaded \<and> bytes_at (fs s0) path = Some (settings_image loaded) \<and>
        cn_settings_validate (Some loaded) = CN_SETTINGS_OK \<and> canonical loaded = loaded
      else fst (snd (fst x)) = Some cn_settings_defaults)"

lemma ends_settings_refused:
  "calm s0 s \<Longrightarrow> r \<noteq> CN_SETTINGS_OK \<Longrightarrow> ends (settings_load_outcome path s0) ((r, Some cn_settings_defaults, e), s)"
  by (simp add: ends_def settings_load_outcome_def)

lemma parse_settings_Inl: "parse_settings d = Inl r \<Longrightarrow> r \<noteq> CN_SETTINGS_OK"
  by (auto simp: parse_settings_def Let_def split: if_splits option.splits prod.splits)

lemma settings_load_open_effect:
  assumes "calm s0 s"
  shows "ends (settings_load_outcome path s0)
    (case sys_open_read True False path s of
       (Inl error, s) \<Rightarrow> ((filesystem_error error, Some cn_settings_defaults, Some error), s)
     | (Inr fd, s) \<Rightarrow>
         (case settings_read_file fd before s of
            (Inl (result, error), s) \<Rightarrow> ((result, Some cn_settings_defaults, error), s)
          | (Inr data, s) \<Rightarrow>
              (case parse_settings data of
                 Inl result \<Rightarrow> ((result, Some cn_settings_defaults, None), s)
               | Inr parsed \<Rightarrow> ((CN_SETTINGS_OK, Some parsed, None), s))))"
proof -
  obtain a s1 where o: "sys_open_read True False path s = (a, s1)" by fastforce
  show ?thesis
  proof (cases a)
    case (Inl e)
    then show ?thesis
      using o ends_settings_refused [OF calm_open_failed [OF assms, of True False path e s1]] by simp
  next
    case (Inr fd)
    note o' = o [unfolded Inr]
    from tracks_open [OF o'] obtain i where i: "names (fs s) path = Some i" "fds s1 fd = Some (i, 0)" .
    obtain b s2 where r: "settings_read_file fd before s1 = (b, s2)" by fastforce
    have out: "settings_read_outcome fd i s0 (b, s2)"
      using settings_read_file_effect [OF calm_open [OF assms o'] i(2), of before] by (simp add: r ends_def)
    have "bytes_at (fs s0) path = Some d" if "b = Inr d" for d
      using out that i(1) assms by (auto simp: settings_read_outcome_def calm_def bytes_at_def file_at_def)
    then show ?thesis
      using o' r out ends_settings_refused [of s0 s2] parse_settings_Inl parse_settings_Inr
      by (cases b)
        (auto simp: settings_read_outcome_def ends_def settings_load_outcome_def split: sum.splits)
  qed
qed

lemma settings_load_effect:
  assumes "wf_os s"
  shows "ends (settings_load_outcome (settings_path st) s) (cn_settings_load (Some st) (Some old) s)"
proof -
  obtain r1 e1 s1 where d: "inspect_config_directory st s = ((r1, e1), s1)" by (metis prod.collapse)
  have c1: "calm s s1"
    using d calm_quiet [OF calm_start [OF assms] sys_lstat_quiet]
    by (auto simp: inspect_config_directory_def split: prod.splits sum.splits if_splits node.splits)
  obtain r2 e2 i2 s2 where f: "inspect_settings_file (settings_path st) s1 = ((r2, e2, i2), s2)" by (metis prod.collapse)
  have c2: "calm s s2"
    using f calm_quiet [OF c1 sys_lstat_quiet]
    by (auto simp: inspect_settings_file_def split: prod.splits sum.splits if_splits node.splits)
  have inl: "build_paths (Some st) s1 = Inl r \<Longrightarrow> r \<noteq> CN_SETTINGS_OK" for r
    by (auto simp: build_paths_def Let_def split: if_splits)
  show ?thesis
    unfolding cn_settings_load_def
    using ends_settings_refused [OF calm_start [OF assms], of _ "settings_path st"]
      ends_settings_refused [OF c1, of _ "settings_path st"] ends_settings_refused [OF c2, of _ "settings_path st"]
      settings_load_open_effect [OF c2, of "settings_path st" "the i2"] build_paths_Inr [of st s1] inl d f
    by (auto simp: Let_def split: sum.splits)
qed

section \<open>Saving\<close>

lemma settings_save_effect:
  assumes "wf_os s"
  shows "ends (settings_outcome (settings_temporary st s) (settings_path st) (settings_image settings) s)
    (cn_settings_save (Some st) (Some settings) s)"
proof -
  let ?tmp = "settings_temporary st s"
  obtain r1 e1 s1 where d: "inspect_config_directory st s = ((r1, e1), s1)" by (metis prod.collapse)
  have c1: "idle ?tmp s s1" and u1: "r1 \<noteq> CN_SETTINGS_DURABILITY_UNCERTAIN"
    using d idle_quiet [OF idle_start [OF assms] sys_lstat_quiet]
    by (auto simp: inspect_config_directory_def split: prod.splits sum.splits if_splits node.splits)
  obtain r2 e2 i2 s2 where f: "inspect_settings_file (settings_path st) s1 = ((r2, e2, i2), s2)" by (metis prod.collapse)
  have c2: "idle ?tmp s s2" and u2: "r2 \<noteq> CN_SETTINGS_DURABILITY_UNCERTAIN"
    using f idle_quiet [OF c1 sys_lstat_quiet]
    by (auto simp: inspect_settings_file_def split: prod.splits sum.splits if_splits node.splits)
  have inl: "build_paths (Some st) s1 = Inl r \<Longrightarrow> r \<noteq> CN_SETTINGS_OK \<and> r \<noteq> CN_SETTINGS_DURABILITY_UNCERTAIN" for r
    by (auto simp: build_paths_def Let_def split: if_splits)
  have val: "cn_settings_validate (Some settings) \<noteq> CN_SETTINGS_DURABILITY_UNCERTAIN"
    by (auto simp: cn_settings_validate_def Let_def)
  have ser: "cn_settings_validate (Some settings) = CN_SETTINGS_OK \<Longrightarrow> serialize_settings settings = Inr (settings_image settings)"
    using settings_valid_facts(2,3) by (intro serialize_image) auto
  have pid: "settings_temporary st s1 = ?tmp" using c1 by (simp add: idle_def settings_temporary_def)
  note idle0 = idle_start [OF assms, of ?tmp]
  show ?thesis
    unfolding cn_settings_save_def
    using ends_settings_failed [OF idle0, of _ "settings_path st"]
      ends_settings_failed [OF c1, of _ "settings_path st"] ends_settings_failed [OF c2, of _ "settings_path st"]
      settings_replace_effect [OF c2 settings_temporary_fresh] build_paths_Inr [of st s1] inl d f val ser u1 u2
    by (auto simp: pid split: sum.splits)
qed


section \<open>A schedule with no faults\<close>

lemma settings_write_all_clean:
  assumes "faults s = []" "writing tmp fd d s"
  shows "\<exists>s'. settings_writes fd data s = (True, s') \<and> faults s' = []"
proof (cases "data = []")
  case False
  have "\<exists>s'. sys_write fd data s = (Inr (length data), s') \<and> faults s' = []"
    using assms by (auto simp: sys_write_def call_clean writing_def Let_def)
  then show ?thesis
    using False unfolding settings_writes_def
    by (subst settings_write_all.simps) (auto simp: settings_write_all.simps)
qed (use assms in \<open>simp add: settings_writes_def settings_write_all.simps\<close>)

interpretation settings_clean_writer: clean_writer settings_writes
  by unfold_locales (rule settings_write_all_clean)

lemma settings_writes_outcome: "settings_writes fd data s = (True, s') \<Longrightarrow>
    \<exists>e. settings_write_all fd data s = ((CN_SETTINGS_OK, e), s')"
  by (auto simp: settings_writes_def split: prod.splits)

lemma settings_sync_clean:
  assumes "faults s = []" "directory_at (fs s) dir"
  shows "\<exists>s' e. settings_sync_directory dir s = ((CN_SETTINGS_OK, e), s') \<and> faults s' = []"
proof -
  obtain i where i: "names (fs s) dir = Some i" "inodes (fs s) i = Directory"
    using assms(2) by (auto simp: directory_at_def split: option.splits)
  have r: "resolve link_limit (fs s) dir = Inr i" using i by (simp add: link_limit_def eval_nat_numeral)
  define s1 where "s1 = leave (s\<lparr>fds := (fds s)(next_fd s \<mapsto> (i, 0)), next_fd := Suc (next_fd s)\<rparr>)"
  have o: "sys_open_read False True dir s = (Inr (next_fd s), s1)"
    using i r assms(1) by (simp add: sys_open_read_def call_clean allocate_fd_def s1_def)
  have y: "sys_fsync (next_fd s) s1 = (Inr (), leave s1)"
    using i assms(1) by (simp add: sys_fsync_def call_clean s1_def)
  show ?thesis
    using o y close_clean [of "leave s1" "next_fd s" "(i, 0)"] assms(1)
    by (simp add: settings_sync_directory_def s1_def)
qed

lemma settings_replace_clean:
  assumes "faults s = []" "wf_os s" "tmp \<noteq> path" "no_directory (fs s) tmp" "no_directory (fs s) path"
    and "directory_at (fs s) dir" "dir \<noteq> tmp" "dir \<noteq> path"
  shows "\<exists>s' e. settings_replace dir tmp path data s = ((CN_SETTINGS_OK, e), s') \<and> faults s' = [] \<and>
    committed tmp path data s s'"
proof (rule settings_clean_writer.replace_steps [OF assms(1-5), of data])
  fix r1 s1 fd s2 s3 s4 s5 s6
  assume c: "sys_unlink tmp s = (r1, s1)" "r1 = Inr () \<or> r1 = Inl ENOENT"
    "sys_create tmp s1 = (Inr fd, s2)" "settings_writes fd data s2 = (True, s3)" "sys_fsync fd s3 = (Inr (), s4)"
    "sys_close fd s4 = (Inr (), s5)" "sys_rename tmp path s5 = (Inr (), s6)" "faults s6 = []"
    "committed tmp path data s s6"
  have "same_at dir (fs s) (fs s6)"
    using c(9) assms(7,8) by (simp add: committed_def replacing_def old_or_new_def)
  from settings_sync_clean [OF c(8) same_at_directory [OF this assms(6)]] obtain s' e where
    y: "settings_sync_directory dir s6 = ((CN_SETTINGS_OK, e), s')" "faults s' = []" by blast
  have r: "settings_replace dir tmp path data s = ((CN_SETTINGS_OK, e), s')"
    using c y settings_writes_outcome [OF c(4)] by (auto simp: settings_replace_def)
  have "committed tmp path data s s'"
    using settings_replace_effect [OF idle_start [OF assms(2)] assms(3), of data dir] r
    by (simp add: ends_def settings_outcome_def)
  with r y(2) show ?thesis by blast
qed

text \<open>A disk that can take a save: the directory is one, and what the two paths hold is no obstacle.\<close>

definition settings_home :: "cn_settings_store \<Rightarrow> os \<Rightarrow> bool" where
  "settings_home st s \<longleftrightarrow> store_valid (Some st) \<and> build_paths (Some st) s = Inr (settings_path st, settings_temporary st s) \<and>
     directory_at (fs s) (cstr (config_directory st))"

definition settings_place :: "cn_settings_store \<Rightarrow> os \<Rightarrow> bool" where
  "settings_place st s \<longleftrightarrow> wf_os s \<and> settings_home st s \<and>
     (names (fs s) (settings_path st) = None \<or> file_at (fs s) (settings_path st) \<noteq> None) \<and>
     no_directory (fs s) (settings_temporary st s)"

lemma config_directory_apart:
  "cstr (config_directory st) \<noteq> settings_path st" "cstr (config_directory st) \<noteq> settings_temporary st s"
  by (simp_all add: settings_path_def settings_temporary_def settings_file_name_def)

lemma inspect_directory_clean:
  "faults s = [] \<Longrightarrow> directory_at (fs s) (cstr (config_directory st)) \<Longrightarrow>
     inspect_config_directory st s = ((CN_SETTINGS_OK, None), leave s)"
  by (auto simp: inspect_config_directory_def sys_lstat_def call_clean directory_at_def make_stat_def split: option.splits)

lemma inspect_file_clean:
  assumes "faults s = []"
  shows "names (fs s) path = None \<Longrightarrow> \<exists>e i. inspect_settings_file path s = ((CN_SETTINGS_MISSING, e, i), leave s)"
    and "file_at (fs s) path = Some (d, b) \<Longrightarrow> \<exists>i. names (fs s) path = Some i \<and> inodes (fs s) i = Regular d b \<and>
      inspect_settings_file path s = ((CN_SETTINGS_OK, None, Some (make_stat (fs s) i)), leave s)"
  using assms
  by (auto simp: inspect_settings_file_def sys_lstat_def call_clean make_stat_def file_at_def split: option.splits node.splits)

lemma settings_save_clean:
  assumes "faults s = []" "settings_place st s" "cn_settings_validate (Some settings) = CN_SETTINGS_OK"
  shows "\<exists>s' e. cn_settings_save (Some st) (Some settings) s = ((CN_SETTINGS_OK, e), s') \<and> faults s' = [] \<and>
    committed (settings_temporary st s) (settings_path st) (settings_image settings) s s'"
proof -
  note p = assms(2) [unfolded settings_place_def settings_home_def]
  define s2 where "s2 = leave (leave s)"
  obtain r e i where f: "inspect_settings_file (settings_path st) (leave s) = ((r, e, i), s2)"
    "r = CN_SETTINGS_OK \<or> r = CN_SETTINGS_MISSING"
    using inspect_file_clean [of "leave s" "settings_path st"] p assms(1) by (fastforce simp: s2_def)
  have same: "build_paths (Some st) (leave s) = build_paths (Some st) s"
    "settings_temporary st s2 = settings_temporary st s" by (simp_all add: build_paths_def settings_temporary_def s2_def)
  have "\<exists>s' e. settings_replace (cstr (config_directory st)) (settings_temporary st s) (settings_path st)
      (settings_image settings) s2 = ((CN_SETTINGS_OK, e), s') \<and> faults s' = [] \<and>
      committed (settings_temporary st s) (settings_path st) (settings_image settings) s2 s'"
    using p assms(1) config_directory_apart settings_temporary_fresh
    by (intro settings_replace_clean) (auto simp: s2_def no_directory_def file_at_def split: option.splits node.splits)
  then obtain s' e' where r: "settings_replace (cstr (config_directory st)) (settings_temporary st s) (settings_path st)
      (settings_image settings) s2 = ((CN_SETTINGS_OK, e'), s')" "faults s' = []" by blast
  have ser: "serialize_settings settings = Inr (settings_image settings)"
    using settings_valid_facts(2,3) [OF assms(3)] by (intro serialize_image)
  have save: "cn_settings_save (Some st) (Some settings) s = ((CN_SETTINGS_OK, e'), s')"
    using p f r ser assms inspect_directory_clean [of s st] same by (auto simp: cn_settings_save_def)
  then show ?thesis
    using settings_save_effect [of s st settings] p r(2) by (simp add: ends_def settings_outcome_def)
qed

lemma settings_read_loop_clean:
  assumes "faults s = []" "tracks fd i d 0 s"
  shows "\<exists>s'. settings_read_loop fd [] (length d) s = (Inr d, s') \<and> faults s' = [] \<and> tracks fd i d (length d) s'"
proof (cases "d = []")
  case False
  have "\<exists>s'. sys_read fd (length d) s = (Inr d, s') \<and> faults s' = [] \<and> tracks fd i d (length d) s'"
    using assms by (auto simp: sys_read_def call_clean tracks_def Let_def)
  then show ?thesis
    using False by (subst settings_read_loop.simps) (auto simp: settings_read_loop.simps)
qed (use assms in \<open>simp add: settings_read_loop.simps\<close>)

lemma settings_read_file_clean:
  assumes "faults s = []" "tracks fd i d 0 s" "st_ino before = i" "d \<noteq> []" "length d \<le> settings_file_max_bytes"
  shows "\<exists>s'. settings_read_file fd before s = (Inr d, s') \<and> faults s' = []"
proof -
  have f: "sys_fstat fd s = (Inr (make_stat (fs s) i), leave s)"
    using assms by (simp add: sys_fstat_def call_clean tracks_def)
  have "tracks fd i d 0 (leave s)" using assms(2) by (simp add: tracks_def)
  from settings_read_loop_clean [OF _ this] assms(1) obtain s2 where
    l: "settings_read_loop fd [] (length d) (leave s) = (Inr d, s2)" "faults s2 = []" "tracks fd i d (length d) s2" by auto
  have x: "\<exists>s3. settings_read_extra fd s2 = (Inr [], s3) \<and> faults s3 = [] \<and> fds s3 fd \<noteq> None"
    using l(2,3) by (subst settings_read_extra.simps) (auto simp: sys_read_def call_clean tracks_def Let_def)
  then obtain s3 where x: "settings_read_extra fd s2 = (Inr [], s3)" "faults s3 = []" "fds s3 fd \<noteq> None" by blast
  then obtain s4 where "sys_close fd s3 = (Inr (), s4)" "faults s4 = []" using close_clean [of s3 fd] by fastforce
  then show ?thesis
    using f l x assms by (auto simp: settings_read_file_def tracks_def make_stat_def)
qed

lemma settings_load_clean:
  assumes "faults s = []" "settings_home st s" "bytes_at (fs s) (settings_path st) = Some (settings_image settings)"
    and "cn_settings_validate (Some settings) = CN_SETTINGS_OK"
  shows "\<exists>s' e. cn_settings_load (Some st) (Some old) s = ((CN_SETTINGS_OK, Some (canonical settings), e), s') \<and> faults s' = []"
proof -
  note p = assms(2) [unfolded settings_home_def]
  obtain b where d: "file_at (fs s) (settings_path st) = Some (settings_image settings, b)"
    using assms(3) by (auto simp: bytes_at_def)
  have "faults (leave s) = []" "file_at (fs (leave s)) (settings_path st) = Some (settings_image settings, b)"
    using assms(1) d by simp_all
  from inspect_file_clean(2) [OF this] obtain i where i: "names (fs s) (settings_path st) = Some i"
    "inodes (fs s) i = Regular (settings_image settings) b"
    "inspect_settings_file (settings_path st) (leave s) = ((CN_SETTINGS_OK, None, Some (make_stat (fs s) i)), leave (leave s))"
    by auto
  define s3 where "s3 = snd (sys_open_read True False (settings_path st) (leave (leave s)))"
  have o: "sys_open_read True False (settings_path st) (leave (leave s)) = (Inr (next_fd s), s3)"
    and t: "tracks (next_fd s) i (settings_image settings) 0 s3" "faults s3 = []"
    using i assms(1) by (simp_all add: sys_open_read_def call_clean allocate_fd_def s3_def tracks_def)
  have len: "length (settings_image settings) \<le> settings_file_max_bytes"
    using settings_valid_facts(2,3) [OF assms(4)] by (rule settings_image_length)
  have ne: "settings_image settings \<noteq> []" by (simp add: settings_image_def settings_body_def Let_def)
  from settings_read_file_clean [OF t(2,1) _ ne len, of "make_stat (fs s) i"] obtain s4 where
    r: "settings_read_file (next_fd s) (make_stat (fs s) i) s3 = (Inr (settings_image settings), s4)" "faults s4 = []"
    by (auto simp: make_stat_def)
  have same: "build_paths (Some st) (leave s) = build_paths (Some st) s" by (simp add: build_paths_def)
  show ?thesis
    using p inspect_directory_clean [of s st] assms(1) i o r same len ne parse_image [OF assms(4)]
    by (auto simp: cn_settings_load_def Let_def make_stat_def)
qed


section \<open>Properties\<close>

text \<open>The concrete inputs of the witnesses: a directory and the default settings.\<close>

definition sample_config :: cn_settings_store where
  "sample_config = \<lparr>config_directory = str ''/cfg'', config_directory_length = 4\<rparr>"

lemma sample_config_paths: "settings_path sample_config = str ''/cfg/settings.conf''"
  by (simp add: settings_path_def sample_config_def cstr_def settings_file_name_def)

lemma sample_config_place: "settings_place sample_config (directory_disk (str ''/cfg'') schedule)"
  by (simp add: settings_place_def settings_home_def sample_config_paths settings_temporary_def no_directory_def)
    (simp add: sample_config_def store_valid_def settings_bounded_length_def scan_nul_eq strlen_def cstr_def
      settings_path_capacity_def build_paths_def settings_file_name_def char_at_def)

lemma defaults_valid: "cn_settings_validate (Some cn_settings_defaults) = CN_SETTINGS_OK"
  by (simp add: cn_settings_validate_def cn_settings_defaults_def settings_bounded_length_def scan_nul_eq strlen_def
      cstr_def settings_url_capacity_def settings_device_name_capacity_def Let_def utf8_device_name_valid.simps
      settings_lead_def codepoint_refused_def)

text \<open>C9. Saving the settings is atomic at every moment.  Whatever calls fail, are cut short or are
  interrupted, at every moment the settings file holds its old bytes or the complete, synced image of
  the new settings and no other file but the scratch file changes; every descriptor is given back.  The
  new image is in place exactly when the save answers OK or that only its durability is uncertain.\<close>

theorem settings_save_is_atomic:
  assumes "wf_os s"
  shows "case cn_settings_save (Some st) (Some settings) s of ((result, error), s') \<Rightarrow>
    (let path = settings_path st; tmp = settings_temporary st s; image = settings_image settings
     in wf_os s' \<and> fds s' = fds s \<and> old_or_new tmp path image (fs s) (fs s') \<and>
        always (old_or_new tmp path image (fs s)) s s' \<and>
        (if result = CN_SETTINGS_OK \<or> result = CN_SETTINGS_DURABILITY_UNCERTAIN
         then file_at (fs s') path = Some (image, True)
         else bytes_at (fs s') path = bytes_at (fs s) path))"
proof -
  obtain result e s' where save: "cn_settings_save (Some st) (Some settings) s = ((result, e), s')"
    by (metis prod.collapse)
  have out: "settings_outcome (settings_temporary st s) (settings_path st) (settings_image settings) s ((result, e), s')"
    using settings_save_effect [OF assms, of st settings] by (simp add: ends_def save)
  have "replacing (settings_temporary st s) (settings_path st) (settings_image settings) s s' \<and> fds s' = fds s \<and>
      (if result = CN_SETTINGS_OK \<or> result = CN_SETTINGS_DURABILITY_UNCERTAIN
       then file_at (fs s') (settings_path st) = Some (settings_image settings, True)
       else bytes_at (fs s') (settings_path st) = bytes_at (fs s) (settings_path st))"
    using out idle_unchanged [OF _ settings_temporary_fresh] by (auto simp: settings_outcome_def committed_def)
  then show ?thesis by (auto simp: save replacing_def Let_def)
qed

theorem settings_save_is_atomic_witness:
  "case cn_settings_save (Some sample_config) (Some cn_settings_defaults)
      (directory_disk (str ''/cfg'') [Normal, Normal, Normal, Normal, Short 3, Fail EINTR, Fail ENOSPC]) of ((result, error), s') \<Rightarrow>
    bytes_at (fs s') (str ''/cfg/settings.conf'') = None \<or> result = CN_SETTINGS_OK \<or> result = CN_SETTINGS_DURABILITY_UNCERTAIN"
  using settings_save_is_atomic [of "directory_disk (str ''/cfg'') [Normal, Normal, Normal, Normal, Short 3, Fail EINTR, Fail ENOSPC]"
      sample_config cn_settings_defaults]
  by (auto simp: Let_def sample_config_paths bytes_at_def file_at_def split: prod.splits if_splits)

text \<open>C10. The parser accepts exactly what the serializer writes: a text parses to given settings if
  and only if those settings are valid, stand in their own fields without a NUL and are serialized to
  that very text.\<close>

theorem settings_parse_exact:
  "parse_settings data = Inr s \<longleftrightarrow>
     cn_settings_validate (Some s) = CN_SETTINGS_OK \<and> canonical s = s \<and> serialize_settings s = Inr data"
proof -
  have "cn_settings_validate (Some s) = CN_SETTINGS_OK \<Longrightarrow> serialize_settings s = Inr (settings_image s)"
    using settings_valid_facts(2,3) by (intro serialize_image)
  then show ?thesis using parse_settings_Inr [of data s] parse_image [of s] by auto
qed

text \<open>No change of one byte of a serialized settings file goes unnoticed.\<close>

lemma settings_damage_is_detected:
  assumes "cn_settings_validate (Some s) = CN_SETTINGS_OK" "serialize_settings s = Inr (xs @ a # ys)" "b \<noteq> a"
  shows "\<exists>r. parse_settings (xs @ b # ys) = Inl r"
proof (cases "parse_settings (xs @ b # ys)")
  case (Inr s')
  have "settings_image s = xs @ a # ys"
    using assms(1,2) settings_valid_facts(2,3) [OF assms(1)] serialize_image [of s] by simp
  then have False
    using parse_settings_Inr(1) [OF Inr] settings_trailer.one_byte_apart assms(3)
    by (metis settings_image_def settings_crc32_def)
  then show ?thesis ..
qed simp

text \<open>C11. Loading is safe whatever calls fail, are cut short or are interrupted: no file changes, every
  descriptor is given back, a load that answers OK delivers valid settings of which the file holds the
  exact image, and every other load delivers the defaults.\<close>

theorem settings_load_is_exact:
  assumes "wf_os s"
  shows "case cn_settings_load (Some st) (Some old) s of ((result, settings, error), s') \<Rightarrow>
    fs s' = fs s \<and> fds s' = fds s \<and>
    (if result = CN_SETTINGS_OK
     then \<exists>loaded. settings = Some loaded \<and> cn_settings_validate (Some loaded) = CN_SETTINGS_OK \<and>
       bytes_at (fs s) (settings_path st) = Some (settings_image loaded)
     else settings = Some cn_settings_defaults)"
  using settings_load_effect [OF assms, of st old]
  by (auto simp: ends_def settings_load_outcome_def calm_def split: prod.splits)

theorem settings_load_is_exact_witness:
  "fst (snd (fst (cn_settings_load (Some sample_config) (Some cn_settings_defaults) (directory_disk (str ''/cfg'') [])))) =
     Some cn_settings_defaults"
  using settings_load_is_exact [of "directory_disk (str ''/cfg'') []" sample_config cn_settings_defaults]
  by (auto simp: sample_config_paths bytes_at_def file_at_def split: prod.splits if_splits)

text \<open>C12. A load after a save that put the new file in place gives back the saved settings, or an error:
  under no schedule of failures does it answer OK with other settings.\<close>

theorem settings_save_load_roundtrip:
  assumes "wf_os s" "cn_settings_validate (Some settings) = CN_SETTINGS_OK"
    and "cn_settings_save (Some st) (Some settings) s = ((saved, error), s')"
    and "saved = CN_SETTINGS_OK \<or> saved = CN_SETTINGS_DURABILITY_UNCERTAIN"
    and "cn_settings_load (Some st) (Some old) (s'\<lparr>faults := schedule\<rparr>) = ((CN_SETTINGS_OK, loaded, error'), s'')"
  shows "loaded = Some (canonical settings)"
proof -
  have out: "committed (settings_temporary st s) (settings_path st) (settings_image settings) s s'"
    using settings_save_effect [OF assms(1), of st settings] assms(3,4) by (auto simp: ends_def settings_outcome_def)
  then have w: "wf_os (s'\<lparr>faults := schedule\<rparr>)" using committed_wf by (simp add: wf_os_def)
  obtain l where l: "loaded = Some l" "bytes_at (fs s') (settings_path st) = Some (settings_image l)"
    "cn_settings_validate (Some l) = CN_SETTINGS_OK" "canonical l = l"
    using settings_load_effect [OF w, of st old] assms(5) by (auto simp: ends_def settings_load_outcome_def)
  have "settings_image l = settings_image settings"
    using l(2) out by (simp add: committed_def bytes_at_def)
  then show ?thesis using parse_image [OF l(3)] parse_image [OF assms(2)] l(1,4) by simp
qed

lemma settings_home_kept:
  assumes "settings_home st s" "committed (settings_temporary st s) (settings_path st) d s s'"
  shows "settings_home st s'"
proof -
  have "same_at (cstr (config_directory st)) (fs s) (fs s')"
    using assms(2) config_directory_apart [of st] by (simp add: committed_def replacing_def old_or_new_def)
  moreover have "build_paths (Some st) s' = build_paths (Some st) s" "settings_temporary st s' = settings_temporary st s"
    using assms(2) by (simp_all add: committed_def build_paths_def settings_temporary_def)
  ultimately show ?thesis using assms(1) by (auto simp: settings_home_def intro: same_at_directory)
qed

text \<open>With no fault, saving valid settings into a directory succeeds.\<close>

theorem settings_save_succeeds:
  assumes "faults s = []" "settings_place st s" "cn_settings_validate (Some settings) = CN_SETTINGS_OK"
  shows "fst (fst (cn_settings_save (Some st) (Some settings) s)) = CN_SETTINGS_OK"
  using settings_save_clean [OF assms] by auto

theorem settings_save_succeeds_witness:
  "fst (fst (cn_settings_save (Some sample_config) (Some cn_settings_defaults) (directory_disk (str ''/cfg'') []))) = CN_SETTINGS_OK"
  by (rule settings_save_succeeds [OF _ sample_config_place defaults_valid]) simp

theorem settings_save_load_roundtrip_witness:
  "\<exists>s' s'' e. cn_settings_load (Some sample_config) (Some cn_settings_defaults) s' =
     ((CN_SETTINGS_OK, Some (canonical cn_settings_defaults), e), s'')"
proof -
  define s where "s = directory_disk (str ''/cfg'') []"
  have place: "settings_place sample_config s" unfolding s_def by (rule sample_config_place)
  then have wf: "wf_os s" and home: "settings_home sample_config s" by (simp_all add: settings_place_def)
  from settings_save_clean [OF _ place defaults_valid] obtain s' e where
    save: "cn_settings_save (Some sample_config) (Some cn_settings_defaults) s = ((CN_SETTINGS_OK, e), s')" "faults s' = []"
    and c: "committed (settings_temporary sample_config s) (settings_path sample_config) (settings_image cn_settings_defaults) s s'"
    by (auto simp: s_def)
  have "bytes_at (fs s') (settings_path sample_config) = Some (settings_image cn_settings_defaults)"
    using c by (simp add: committed_def bytes_at_def)
  from settings_load_clean [OF save(2) settings_home_kept [OF home c] this defaults_valid] obtain l s'' e' where
    load: "cn_settings_load (Some sample_config) (Some cn_settings_defaults) s' = ((CN_SETTINGS_OK, l, e'), s'')" by blast
  have "s'\<lparr>faults := []\<rparr> = s'" using save(2) by (cases s') simp
  then have "cn_settings_load (Some sample_config) (Some cn_settings_defaults) (s'\<lparr>faults := []\<rparr>) = ((CN_SETTINGS_OK, l, e'), s'')"
    using load by simp
  from settings_save_load_roundtrip [OF wf defaults_valid save(1) _ this] load show ?thesis by blast
qed

end
