(* ===== verification/Checked_File.thy ===== *)
theory Checked_File
  imports Posix
begin

text \<open>
  The parts that credentials/credential_store.c and identity/device_identity.c have in common: reading
  a small file whose size and inode were inspected first, writing a buffer completely, and syncing a
  directory after making sure that it is still the directory that was inspected.  Each routine of the
  code turns the reason for a refusal into its own result.
\<close>

section \<open>Reading\<close>

function read_all :: "nat \<Rightarrow> bytes \<Rightarrow> nat \<Rightarrow> os \<Rightarrow> (errno option + bytes) \<times> os" where
  "read_all fd data size' s =
     (if length data < size' then
        case sys_read fd (size' - length data) s of
          (Inl error, s') \<Rightarrow> if error = EINTR then read_all fd data size' s' else (Inl (Some error), s')
        | (Inr got, s') \<Rightarrow> if length got = 0 then (Inl None, s') else read_all fd (data @ got) size' s'
      else (Inr data, s))"
  by pat_completeness auto
termination
  by (relation "measure (\<lambda>(fd, data, n, s). length (faults s) + (n - length data))")
    (auto dest!: sys_read_progress [OF sym] intro: read_measure)

function read_end :: "nat \<Rightarrow> os \<Rightarrow> bytes answer" where
  "read_end fd s = (case sys_read fd 1 s of
     (Inl error, s') \<Rightarrow> if error = EINTR then read_end fd s' else (Inl error, s')
   | (Inr got, s') \<Rightarrow> (Inr got, s'))"
  by pat_completeness auto
termination
  by (relation "measure (\<lambda>(fd, s). length (faults s))") (auto dest!: sys_read_progress [OF sym])

declare read_all.simps [simp del] read_end.simps [simp del]

datatype refusal = Refused errno | Not_regular | Other_file | Bad_size | Ended_early | Too_long

definition regular :: "node \<Rightarrow> bool" where
  "regular n = (case n of Regular _ _ \<Rightarrow> True | _ \<Rightarrow> False)"

text \<open>The descriptor stays open: the callers close it at different moments.\<close>

definition read_checked :: "nat \<Rightarrow> stat \<Rightarrow> nat \<Rightarrow> os \<Rightarrow> (refusal + bytes) \<times> os" where
  "read_checked fd before limit s = (case sys_fstat fd s of
     (Inl error, s) \<Rightarrow> (Inl (Refused error), s)
   | (Inr info, s) \<Rightarrow>
       if \<not> regular (st_node info) then (Inl Not_regular, s)
       else if st_ino info \<noteq> st_ino before then (Inl Other_file, s)
       else if st_size info = 0 \<or> st_size info > limit then (Inl Bad_size, s)
       else (case read_all fd [] (st_size info) s of
         (Inl (Some error), s) \<Rightarrow> (Inl (Refused error), s)
       | (Inl None, s) \<Rightarrow> (Inl Ended_early, s)
       | (Inr data, s) \<Rightarrow>
           (case read_end fd s of
              (Inl error, s) \<Rightarrow> (Inl (Refused error), s)
            | (Inr extra, s) \<Rightarrow> if length extra \<noteq> 0 then (Inl Too_long, s) else (Inr data, s))))"

lemma read_all_reads: "read_all fd data n s = (r, s') \<Longrightarrow> wf_os s \<Longrightarrow> reads fd s s'"
proof (induction fd data n s rule: read_all.induct)
  case (1 fd data n s)
  obtain a s1 where rd: "sys_read fd (n - length data) s = (a, s1)" by fastforce
  note q = sys_read_reads [OF rd "1.prems"(2)]
  show ?case
    using "1.prems" "1.IH"(1) [OF _ rd [symmetric]] "1.IH"(2) [OF _ rd [symmetric]] q rd
    by (subst (asm) read_all.simps) (auto simp: reads_def split: if_splits sum.splits)
qed

lemma read_all_tracks:
  "read_all fd data n s = (Inr all, s') \<Longrightarrow> tracks fd i d (length data) s \<Longrightarrow>
    take (length data) d = data \<Longrightarrow> take (length all) d = all \<and> tracks fd i d (length all) s'"
proof (induction fd data n s rule: read_all.induct)
  case (1 fd data n s)
  obtain a s1 where rd: "sys_read fd (n - length data) s = (a, s1)" by fastforce
  show ?case
  proof (cases "length data < n")
    case False
    then show ?thesis using "1.prems" by (subst (asm) read_all.simps) simp
  next
    case True
    show ?thesis
    proof (cases a)
      case (Inl e)
      then show ?thesis
        using "1.prems" "1.IH"(1) [OF True rd [symmetric] Inl] tracks_failed [of fd "n - length data" s e s1] rd True
        by (subst (asm) read_all.simps) (auto split: if_splits)
    next
      case (Inr got)
      note t = tracks_read [OF rd [unfolded Inr] "1.prems"(2)]
      have "take (length data + length got) d = data @ got"
        using t(1) "1.prems"(3) by (simp add: take_add)
      then show ?thesis
        using "1.prems"(1) "1.IH"(2) [OF True rd [symmetric] Inr] t(2) rd Inr True
        by (subst (asm) read_all.simps) (auto split: if_splits)
    qed
  qed
qed

lemma read_end_reads: "read_end fd s = (r, s') \<Longrightarrow> wf_os s \<Longrightarrow> reads fd s s'"
proof (induction fd s rule: read_end.induct)
  case (1 fd s)
  obtain a s1 where rd: "sys_read fd 1 s = (a, s1)" by fastforce
  note q = sys_read_reads [OF rd "1.prems"(2)]
  show ?case
    using "1.prems" "1.IH" [OF rd [symmetric]] q rd
    by (subst (asm) read_end.simps) (auto simp: reads_def split: if_splits sum.splits)
qed

lemma read_end_reached: "read_end fd s = (Inr [], s') \<Longrightarrow> tracks fd i d k s \<Longrightarrow> length d \<le> k"
proof (induction fd s rule: read_end.induct)
  case (1 fd s)
  obtain a s1 where rd: "sys_read fd 1 s = (a, s1)" by fastforce
  show ?case
    using "1.prems" "1.IH" [OF rd [symmetric]] tracks_failed [of fd 1 s _ s1] tracks_read(3) [of fd 1 s _ s1] rd
    by (subst (asm) read_end.simps) (auto split: if_splits sum.splits)
qed

lemma reading_wf: "reading fd s0 s \<Longrightarrow> wf_os s"
  by (simp add: reading_def)

lemma reading_reads_all: "reading fd s0 s \<Longrightarrow> read_all fd data n s = (r, s') \<Longrightarrow> reading fd s0 s'"
  using reading_reads [of fd s0 s s'] read_all_reads [of fd data n s r s'] reading_wf [of fd s0 s] by blast

lemma reading_reads_end: "reading fd s0 s \<Longrightarrow> read_end fd s = (r, s') \<Longrightarrow> reading fd s0 s'"
  using reading_reads [of fd s0 s s'] read_end_reads [of fd s r s'] reading_wf [of fd s0 s] by blast

text \<open>Whatever happens the descriptor can still be given up, and bytes that are delivered are the file.\<close>

lemma read_checked_effect:
  assumes "reading fd s0 s" "fds s fd = Some (i, 0)" "read_checked fd before limit s = (r, s')"
  shows "reading fd s0 s'" and "r = Inr d \<Longrightarrow> \<exists>b. inodes (fs s0) i = Regular d b"
proof -
  obtain a s1 where f: "sys_fstat fd s = (a, s1)" by fastforce
  note q = sys_fstat_quiet [OF f]
  have r1: "reading fd s0 s1" using reading_quiet [OF assms(1) q] .
  obtain b s2 where l: "read_all fd [] (st_size (projr a)) s1 = (b, s2)" by fastforce
  note r2 = reading_reads_all [OF r1 l]
  obtain c s3 where x: "read_end fd s2 = (c, s3)" by fastforce
  note r3 = reading_reads_end [OF r2 x]
  have node: "st_node info = inodes (fs s0) i" if "a = Inr info" for info
    using f assms(1,2) that unfolding sys_fstat_def
    by (auto elim!: call_cases simp: make_stat_def reading_def)
  show "reading fd s0 s'"
    using assms(3) f l x r1 r2 r3 by (auto simp: read_checked_def split: sum.splits option.splits if_splits)
  show "\<exists>b. inodes (fs s0) i = Regular d b" if rd: "r = Inr d"
  proof -
    obtain info where i: "a = Inr info" "regular (st_node info)" "b = Inr d" "c = Inr []"
      using assms(3) rd f l x by (auto simp: read_checked_def split: sum.splits option.splits if_splits)
    then obtain D w where D: "inodes (fs s0) i = Regular D w"
      using node [OF i(1)] by (auto simp: regular_def split: node.splits)
    have "tracks fd i D 0 s1" using D assms(1,2) q by (simp add: tracks_def reading_def quiet_def)
    then have "take (length d) D = d \<and> tracks fd i D (length d) s2"
      using read_all_tracks [of fd "[]" _ s1 d s2 i D] l i(3) by simp
    then show ?thesis using read_end_reached [of fd s2 s3 i D "length d"] x i(4) D by simp
  qed
qed

lemma read_checked_clean:
  assumes "faults s = []" "tracks fd i d 0 s" "st_ino before = i" "d \<noteq> []" "length d \<le> limit"
  shows "\<exists>s'. read_checked fd before limit s = (Inr d, s') \<and> faults s' = [] \<and> fds s' fd \<noteq> None"
proof -
  have f: "sys_fstat fd s = (Inr (make_stat (fs s) i), leave s)"
    using assms by (simp add: sys_fstat_def call_clean tracks_def)
  have t: "tracks fd i d 0 (leave s)" "faults (leave s) = []" using assms by (simp_all add: tracks_def)
  have "\<exists>s'. sys_read fd (length d) (leave s) = (Inr d, s') \<and> faults s' = [] \<and> tracks fd i d (length d) s'"
    using t by (auto simp: sys_read_def call_clean tracks_def Let_def)
  then have "\<exists>s'. read_all fd [] (length d) (leave s) = (Inr d, s') \<and> faults s' = [] \<and> tracks fd i d (length d) s'"
    using assms(4) by (subst read_all.simps) (auto simp: read_all.simps)
  then obtain s2 where l: "read_all fd [] (length d) (leave s) = (Inr d, s2)" "faults s2 = []" "tracks fd i d (length d) s2"
    by blast
  have "\<exists>s3. read_end fd s2 = (Inr [], s3) \<and> faults s3 = [] \<and> fds s3 fd \<noteq> None"
    using l(2,3) by (subst read_end.simps) (auto simp: sys_read_def call_clean tracks_def Let_def)
  then show ?thesis
    using f l assms by (auto simp: read_checked_def tracks_def make_stat_def regular_def)
qed

section \<open>Writing\<close>

function write_bytes :: "nat \<Rightarrow> bytes \<Rightarrow> os \<Rightarrow> errno option \<times> os" where
  "write_bytes fd data s =
     (if data \<noteq> [] then
        case sys_write fd data s of
          (Inl error, s') \<Rightarrow> if error = EINTR then write_bytes fd data s' else (Some error, s')
        | (Inr n, s') \<Rightarrow> if n = 0 then (Some EIO, s') else write_bytes fd (drop n data) s'
      else (None, s))"
  by pat_completeness auto
termination
  by (relation "measure (\<lambda>(fd, data, s). length (faults s) + length data)")
    (auto dest!: sys_write_progress [OF sym] intro: write_measure)

declare write_bytes.simps [simp del]

definition writes_bytes :: "nat \<Rightarrow> bytes \<Rightarrow> os \<Rightarrow> bool \<times> os" where
  "writes_bytes fd data s = (case write_bytes fd data s of (r, t) \<Rightarrow> (r = None, t))"

lemma write_bytes_runs: "write_bytes fd data s = (r, s') \<Longrightarrow> write_run fd data s (r = None) s'"
proof (induction fd data s rule: write_bytes.induct)
  case (1 fd data s)
  obtain a s1 where w: "sys_write fd data s = (a, s1)" by fastforce
  show ?case
    using "1.prems" "1.IH" w
    by (subst (asm) write_bytes.simps) (auto split: if_splits sum.splits intro: write_run.intros)
qed

lemma writes_bytes_runs: "writes_bytes fd data s = (ok, s') \<Longrightarrow> write_run fd data s ok s'"
  using write_bytes_runs [of fd data s] by (auto simp: writes_bytes_def split: prod.splits)

interpretation bytes_writer: full_writer writes_bytes
  by unfold_locales (rule write_run_law [OF writes_bytes_runs])

lemma write_bytes_clean:
  assumes "faults s = []" "writing tmp fd d s"
  shows "\<exists>s'. writes_bytes fd data s = (True, s') \<and> faults s' = []"
proof (cases "data = []")
  case False
  have "\<exists>s'. sys_write fd data s = (Inr (length data), s') \<and> faults s' = []"
    using assms by (auto simp: sys_write_def call_clean writing_def Let_def)
  then show ?thesis
    using False unfolding writes_bytes_def
    by (subst write_bytes.simps) (auto simp: write_bytes.simps)
qed (use assms in \<open>simp add: writes_bytes_def write_bytes.simps\<close>)

interpretation bytes_clean_writer: clean_writer writes_bytes
  by unfold_locales (rule write_bytes_clean)

lemma write_bytes_opened: "filled tmp fd [] s0 s \<Longrightarrow> write_bytes fd data s = (r, s') \<Longrightarrow> opened tmp fd s0 s'"
  and write_bytes_filled: "filled tmp fd [] s0 s \<Longrightarrow> write_bytes fd data s = (None, s'') \<Longrightarrow> filled tmp fd data s0 s''"
  using bytes_writer.write_opened [of tmp fd s0 s data] bytes_writer.write_filled [of tmp fd s0 s data]
  by (auto simp: writes_bytes_def split: prod.splits)

section \<open>Syncing the directory\<close>

text \<open>\<open>Unsynced None\<close> means that another directory has taken the place of the inspected one.\<close>

datatype directory_sync = Synced | Unsynced "errno option"

definition sync_checked :: "bytes \<Rightarrow> stat \<Rightarrow> os \<Rightarrow> directory_sync \<times> os" where
  "sync_checked directory' before s = (case sys_open_read True True directory' s of
     (Inl error, s) \<Rightarrow> (Unsynced (Some error), s)
   | (Inr fd, s) \<Rightarrow>
       (case sys_fstat fd s of
          (Inl error, s) \<Rightarrow> (Unsynced (Some error), snd (sys_close fd s))
        | (Inr after, s) \<Rightarrow>
            if st_node after \<noteq> Directory \<or> st_ino before \<noteq> st_ino after
            then (Unsynced None, snd (sys_close fd s))
            else (case sys_fsync fd s of
              (Inl error, s) \<Rightarrow> (Unsynced (Some error), snd (sys_close fd s))
            | (Inr _, s) \<Rightarrow>
                (case sys_close fd s of
                   (Inl error, s) \<Rightarrow> (Unsynced (Some error), s)
                 | (Inr _, s) \<Rightarrow> (Synced, s)))))"

text \<open>Steps in which every file keeps its kind and its bytes, at every moment.\<close>

definition keeps :: "os \<Rightarrow> os \<Rightarrow> bool" where
  "keeps s s' \<longleftrightarrow> wf_os s' \<and> pid s' = pid s \<and> (\<forall>q. same_at q (fs s) (fs s')) \<and>
     always (\<lambda>f. \<forall>q. same_at q (fs s) f) s s'"

lemma keeps_step:
  "wf_os s' \<Longrightarrow> pid s' = pid s \<Longrightarrow> history s' = fs s' # history s \<Longrightarrow> (\<And>q. same_at q (fs s) (fs s')) \<Longrightarrow> keeps s s'"
  by (simp add: keeps_def always_def)

lemma always_then:
  assumes "always P s s1" "always Q s1 s2" "\<And>f. Q f \<Longrightarrow> P f"
  shows "always P s s2"
proof -
  obtain h1 h2 where "history s1 = h1 @ history s" "list_all P h1" "history s2 = h2 @ history s1" "list_all Q h2"
    using assms(1,2) by (auto simp: always_def)
  then show ?thesis
    using assms(3) unfolding always_def by (intro exI [of _ "h2 @ h1"]) (auto simp: list_all_iff)
qed

lemma keeps_trans:
  assumes "keeps s s1" "keeps s1 s2"
  shows "keeps s s2"
proof -
  have t: "\<forall>q. same_at q (fs s) f" if "\<forall>q. same_at q (fs s1) f" for f
    using assms(1) that by (auto simp: keeps_def intro: same_at_trans)
  moreover have "always (\<lambda>f. \<forall>q. same_at q (fs s) f) s s2"
    using assms t by (auto simp: keeps_def intro: always_then)
  ultimately show ?thesis using assms by (simp add: keeps_def)
qed

lemma keeps_quiet: "quiet s s' \<Longrightarrow> wf_os s \<Longrightarrow> keeps s s'"
  by (intro keeps_step) (simp_all add: quiet_def)

lemma keeps_open: "sys_open_read nf dir path s = (r, s') \<Longrightarrow> wf_os s \<Longrightarrow> keeps s s'"
  using sys_open_read_spec [of nf dir path s r s'] by (intro keeps_step) (auto simp: touches_def)

lemma keeps_fsync: "sys_fsync fd s = (r, s') \<Longrightarrow> wf_os s \<Longrightarrow> keeps s s'"
  using sys_fsync_frame [of fd s r s'] by (intro keeps_step) auto

lemma keeps_close: "sys_close fd s = (r, s') \<Longrightarrow> wf_os s \<Longrightarrow> keeps s s'"
  using sys_close_spec [of fd s r s'] by (intro keeps_step) (auto simp: touches_def)

lemma keeps_wf: "keeps s s' \<Longrightarrow> wf_os s'"
  by (simp add: keeps_def)

lemma sync_checked_keeps:
  assumes "sync_checked dir before s = (r, s')" "wf_os s"
  shows "keeps s s'" and "fds s' = fds s"
proof -
  obtain a s1 where o: "sys_open_read True True dir s = (a, s1)" by fastforce
  note k1 = keeps_open [OF o assms(2)] and f1 = sys_open_read_spec(4,5) [OF o assms(2)]
  note w1 = keeps_wf [OF k1]
  obtain b s2 where f: "sys_fstat (projr a) s1 = (b, s2)" by fastforce
  note q2 = sys_fstat_quiet [OF f]
  note k2 = keeps_trans [OF k1 keeps_quiet [OF q2 w1]] note w2 = keeps_wf [OF k2]
  obtain c s3 where y: "sys_fsync (projr a) s2 = (c, s3)" by fastforce
  note k3 = keeps_trans [OF k2 keeps_fsync [OF y w2]] and f3 = sys_fsync_frame(3) [OF y w2] note w3 = keeps_wf [OF k3]
  have cl: "keeps s (snd (sys_close fd t)) \<and> fds (snd (sys_close fd t)) = (fds t)(fd := None)"
    if "keeps s t" for fd t
    using keeps_trans [OF that keeps_close [OF _ keeps_wf [OF that]]] sys_close_spec(3) [OF _ keeps_wf [OF that]]
    by (metis prod.collapse)
  have "keeps s s' \<and> fds s' = fds s"
  proof (cases a)
    case (Inl e)
    then show ?thesis using assms(1) o k1 f1(1) by (auto simp: sync_checked_def)
  next
    case (Inr fd)
    have d: "(fds s1)(fd := None) = fds s" "(fds s2)(fd := None) = fds s" "(fds s3)(fd := None) = fds s"
      using f1(2) [OF Inr] q2 f3 by (simp_all add: quiet_def)
    show ?thesis
      using assms(1) o f y Inr d cl [OF k2, of fd] cl [OF k3, of fd]
      by (auto simp: sync_checked_def split: sum.splits if_splits prod.splits)
  qed
  then show "keeps s s'" "fds s' = fds s" by auto
qed

lemma idle_keeps: "idle tmp s0 s \<Longrightarrow> keeps s s' \<Longrightarrow> fds s' = fds s \<Longrightarrow> idle tmp s0 s'"
proof -
  assume i: "idle tmp s0 s" and k: "keeps s s'" and f: "fds s' = fds s"
  have t: "\<forall>q. q \<noteq> tmp \<longrightarrow> same_at q (fs s0) g" if "\<forall>q. same_at q (fs s) g" for g
    using i that by (auto simp: idle_def outside_def intro: same_at_trans)
  have "always (\<lambda>f. \<forall>q. q \<noteq> tmp \<longrightarrow> same_at q (fs s0) f) s0 s'"
    by (rule always_then [of _ s0 s "\<lambda>f. \<forall>q. same_at q (fs s) f"]) (use i k t in \<open>simp_all add: idle_def outside_def keeps_def\<close>)
  then show ?thesis using i k f t by (simp add: idle_def outside_def keeps_def)
qed

lemma committed_keeps:
  assumes "committed tmp path d s0 s" "keeps s s'" "fds s' = fds s"
  shows "committed tmp path d s0 s'"
proof -
  have c: "old_or_new tmp path d (fs s0) (fs s)" "file_at (fs s) path = Some (d, True)"
    using assms(1) by (simp_all add: committed_def replacing_def)
  have new: "old_or_new tmp path d (fs s0) f \<and> file_at f path = Some (d, True)" if "\<forall>q. same_at q (fs s) f" for f
    using c that same_at_synced [of path "fs s" f d] unfolding old_or_new_def by (blast intro: same_at_trans)
  have "always (old_or_new tmp path d (fs s0)) s0 s'"
    by (rule always_then [of _ s0 s "\<lambda>f. \<forall>q. same_at q (fs s) f"])
      (use assms new in \<open>simp_all add: committed_def replacing_def keeps_def\<close>)
  then show ?thesis
    using assms new by (auto simp: committed_def replacing_def keeps_def)
qed

lemma sync_checked_clean:
  assumes "faults s = []" "names (fs s) dir = Some i" "inodes (fs s) i = Directory" "st_ino before = i"
  shows "\<exists>s'. sync_checked dir before s = (Synced, s') \<and> faults s' = []"
proof -
  define s1 where "s1 = leave (s\<lparr>fds := (fds s)(next_fd s \<mapsto> (i, 0)), next_fd := Suc (next_fd s)\<rparr>)"
  have o: "sys_open_read True True dir s = (Inr (next_fd s), s1)"
    using assms by (simp add: sys_open_read_def call_clean allocate_fd_def s1_def)
  have f: "sys_fstat (next_fd s) s1 = (Inr (make_stat (fs s1) i), leave s1)"
    using assms by (simp add: sys_fstat_def call_clean s1_def)
  have y: "sys_fsync (next_fd s) (leave s1) = (Inr (), leave (leave s1))"
    using assms by (simp add: sys_fsync_def call_clean s1_def)
  show ?thesis
    using o f y close_clean [of "leave (leave s1)" "next_fd s" "(i, 0)"] assms
    by (simp add: sync_checked_def s1_def make_stat_def)
qed

section \<open>Creating, and chains of refusals\<close>

lemma sys_create_failed_quiet: "sys_create path s = (Inl e, s') \<Longrightarrow> quiet s s'"
  unfolding sys_create_def by (erule call_cases) (auto simp: allocate_fd_def split: option.splits)

lemma sys_create_fresh: "sys_create path s = (Inr fd, s') \<Longrightarrow> names (fs s) path = None"
  unfolding sys_create_def by (erule call_cases) (auto split: option.splits)

text \<open>What a chain of refusals that ended well has passed.\<close>

lemma if_InrE: "(if c then Inl a else x) = Inr y \<Longrightarrow> (\<not> c \<Longrightarrow> x = Inr y \<Longrightarrow> P) \<Longrightarrow> P"
  by (simp split: if_splits)

lemma option_InrE: "(case opt of None \<Rightarrow> Inl a | Some v \<Rightarrow> f v) = Inr y \<Longrightarrow> (\<And>v. opt = Some v \<Longrightarrow> f v = Inr y \<Longrightarrow> P) \<Longrightarrow> P"
  by (cases opt) simp_all

lemma bind_SomeE: "Option.bind opt f = Some y \<Longrightarrow> (\<And>v. opt = Some v \<Longrightarrow> f v = Some y \<Longrightarrow> P) \<Longrightarrow> P"
  by (cases opt) simp_all

end
