(* ===== verification/Credential_Store.thy ===== *)
theory Credential_Store
  imports Settings_Store Checked_File
begin

text \<open>
  The user name and the key of the synchronisation account, src/credentials/credential_store.c: a text
  file of four lines, the last of which is the CRC-32 of the others, replaced through a synced scratch
  file.  The scratch file is created under a name that no file has, so a save never removes a file it
  did not make.  The helpers that the code repeats from settings_store.c (\<open>next_line\<close>, \<open>field\<close>, the
  digits of the version and of the checksum) are those of Settings_Store.

  \<open>system_errno\<close> is the last component of an outcome, \<open>None\<close> for the value 0.  The static counter of
  \<open>cn_credential_store_save\<close> is an argument and a result.
\<close>

section \<open>Types\<close>

datatype cn_credential_result =
  CN_CREDENTIAL_OK | CN_CREDENTIAL_MISSING | CN_CREDENTIAL_INVALID | CN_CREDENTIAL_CORRUPT
  | CN_CREDENTIAL_UNSUPPORTED_VERSION | CN_CREDENTIAL_PATH_TOO_LONG | CN_CREDENTIAL_NOT_FOUND
  | CN_CREDENTIAL_NOT_DIRECTORY | CN_CREDENTIAL_SYMLINK | CN_CREDENTIAL_NON_REGULAR
  | CN_CREDENTIAL_PERMISSION_DENIED | CN_CREDENTIAL_READ_ONLY | CN_CREDENTIAL_NO_SPACE
  | CN_CREDENTIAL_IO_ERROR | CN_CREDENTIAL_DURABILITY_UNCERTAIN

record cn_credentials =
  credential_username :: bytes
  credential_userkey :: bytes

record cn_credential_store =
  credential_directory :: bytes
  credential_directory_length :: nat

definition credential_username_max :: nat where "credential_username_max = 255"
definition credential_userkey_max :: nat where "credential_userkey_max = 255"
definition credential_path_capacity :: nat where "credential_path_capacity = 4096"
definition credential_file_max_bytes :: nat where "credential_file_max_bytes = 1024"
definition credential_file_name :: bytes where "credential_file_name = str ''/credentials''"

definition cn_credentials_clear :: cn_credentials where
  "cn_credentials_clear = \<lparr>credential_username = [], credential_userkey = []\<rparr>"

definition credential_bounded_length :: "bytes option \<Rightarrow> nat \<Rightarrow> nat" where
  "credential_bounded_length s capacity = (case s of None \<Rightarrow> capacity | Some t \<Rightarrow> scan_nul t capacity)"

definition credential_fs_error :: "errno \<Rightarrow> cn_credential_result" where
  "credential_fs_error error = (case error of
     ENOENT \<Rightarrow> CN_CREDENTIAL_NOT_FOUND
   | ENOTDIR \<Rightarrow> CN_CREDENTIAL_NOT_DIRECTORY
   | ELOOP \<Rightarrow> CN_CREDENTIAL_SYMLINK
   | ENAMETOOLONG \<Rightarrow> CN_CREDENTIAL_PATH_TOO_LONG
   | EACCES \<Rightarrow> CN_CREDENTIAL_PERMISSION_DENIED
   | EPERM \<Rightarrow> CN_CREDENTIAL_PERMISSION_DENIED
   | EROFS \<Rightarrow> CN_CREDENTIAL_READ_ONLY
   | ENOSPC \<Rightarrow> CN_CREDENTIAL_NO_SPACE
   | EDQUOT \<Rightarrow> CN_CREDENTIAL_NO_SPACE
   | _ \<Rightarrow> CN_CREDENTIAL_IO_ERROR)"

definition credential_byte :: "byte \<Rightarrow> bool" where
  "credential_byte c \<longleftrightarrow> \<not> (c < 0x20 \<or> c = 0x7f)"

definition credential_valid_text :: "bytes \<Rightarrow> nat \<Rightarrow> bool" where
  "credential_valid_text text' limit =
     (let len = credential_bounded_length (Some text') (limit + 1) in
      if len = 0 \<or> len > limit then False else list_all credential_byte (take len text'))"

section \<open>The store and its directory\<close>

definition credential_inspect_directory :: "bytes \<Rightarrow> os \<Rightarrow> (cn_credential_result \<times> errno option) \<times> os" where
  "credential_inspect_directory path s = (case sys_lstat path s of
     (Inl error, s) \<Rightarrow> ((credential_fs_error error, Some error), s)
   | (Inr info, s) \<Rightarrow>
       (case st_node info of
          Link _ \<Rightarrow> ((CN_CREDENTIAL_SYMLINK, None), s)
        | Directory \<Rightarrow> ((CN_CREDENTIAL_OK, None), s)
        | _ \<Rightarrow> ((CN_CREDENTIAL_NOT_DIRECTORY, None), s)))"

definition credential_store_valid :: "cn_credential_store option \<Rightarrow> bool" where
  "credential_store_valid store = (case store of None \<Rightarrow> False
     | Some st \<Rightarrow>
         credential_directory_length st > 1 \<and>
         credential_directory_length st < credential_path_capacity - 48 \<and>
         credential_bounded_length (Some (credential_directory st)) credential_path_capacity =
           credential_directory_length st \<and>
         char_at (credential_directory st) 0 = of_char CHR ''/'' \<and>
         char_at (credential_directory st) (credential_directory_length st - 1) \<noteq> of_char CHR ''/'')"

definition credential_home :: "cn_credential_store \<Rightarrow> bytes" where
  "credential_home st = take (credential_directory_length st) (credential_directory st)"

definition credential_final_path :: "cn_credential_store \<Rightarrow> bytes" where
  "credential_final_path st = credential_home st @ credential_file_name"

text \<open>A component of a path that the code refuses: nothing, one dot or two.\<close>

definition bad_component :: "bytes \<Rightarrow> bool" where
  "bad_component c \<longleftrightarrow> c = [] \<or> c = str ''.'' \<or> c = str ''..''"

fun components_good :: "bytes \<Rightarrow> bytes \<Rightarrow> bool" where
  "components_good component [] = (\<not> bad_component component)"
| "components_good component (c # rest) =
     (if c = of_char CHR ''/'' then (if bad_component component then False else components_good [] rest)
      else components_good (component @ [c]) rest)"

definition cn_credential_store_init ::
  "bool \<Rightarrow> bytes option \<Rightarrow> os \<Rightarrow> (cn_credential_result \<times> errno option \<times> cn_credential_store) \<times> os" where
  "cn_credential_store_init store directory' s =
     (let blank = \<lparr>credential_directory = [], credential_directory_length = 0\<rparr>;
          len = credential_bounded_length directory' credential_path_capacity in
      if \<not> store then ((CN_CREDENTIAL_INVALID, None, blank), s)
      else if len \<ge> credential_path_capacity - 48 then ((CN_CREDENTIAL_PATH_TOO_LONG, None, blank), s)
      else if len < 2 \<or> char_at (the directory') 0 \<noteq> of_char CHR ''/''
      then ((CN_CREDENTIAL_INVALID, None, blank), s)
      else let dir = strip_slashes (take len (the directory')) in
      if \<not> components_good [] (drop 1 dir) then ((CN_CREDENTIAL_INVALID, None, blank), s)
      else (case credential_inspect_directory dir s of
        ((result, error), s) \<Rightarrow>
          if result \<noteq> CN_CREDENTIAL_OK then ((result, error, blank), s)
          else ((CN_CREDENTIAL_OK, error,
            \<lparr>credential_directory = dir, credential_directory_length = length dir\<rparr>), s)))"

definition credential_inspect_file :: "bytes \<Rightarrow> os \<Rightarrow> (cn_credential_result \<times> errno option \<times> stat option) \<times> os" where
  "credential_inspect_file path s = (case sys_lstat path s of
     (Inl error, s) \<Rightarrow>
       if error = ENOENT then ((CN_CREDENTIAL_MISSING, None, None), s)
       else ((credential_fs_error error, Some error, None), s)
   | (Inr info, s) \<Rightarrow>
       (case st_node info of
          Link _ \<Rightarrow> ((CN_CREDENTIAL_SYMLINK, None, Some info), s)
        | Regular _ _ \<Rightarrow> ((CN_CREDENTIAL_OK, None, Some info), s)
        | _ \<Rightarrow> ((CN_CREDENTIAL_NON_REGULAR, None, Some info), s)))"

section \<open>The file format\<close>

definition parse_credentials :: "bytes \<Rightarrow> cn_credential_result + cn_credentials" where
  "parse_credentials data =
     (if data = [] \<or> length data > credential_file_max_bytes \<or> 0 \<in> set data then Inl CN_CREDENTIAL_CORRUPT
      else case more_lines 4 data of None \<Rightarrow> Inl CN_CREDENTIAL_CORRUPT
      | Some (lines, rest) \<Rightarrow>
     if rest \<noteq> [] then Inl CN_CREDENTIAL_CORRUPT
     else case Option.bind (line_value (lines ! 0) (str ''crossnook-credentials'')) parse_version of
        None \<Rightarrow> Inl CN_CREDENTIAL_CORRUPT
      | Some version \<Rightarrow>
     if version \<noteq> settings_format_version then Inl CN_CREDENTIAL_UNSUPPORTED_VERSION
     else case line_value (lines ! 1) (str ''username'') of None \<Rightarrow> Inl CN_CREDENTIAL_CORRUPT
      | Some user \<Rightarrow>
     (if user = [] \<or> length user > credential_username_max then Inl CN_CREDENTIAL_CORRUPT
     else case line_value (lines ! 2) (str ''userkey'') of None \<Rightarrow> Inl CN_CREDENTIAL_CORRUPT
      | Some key \<Rightarrow>
     if key = [] \<or> length key > credential_userkey_max then Inl CN_CREDENTIAL_CORRUPT
     else if \<not> credential_valid_text user credential_username_max \<or>
         \<not> credential_valid_text key credential_userkey_max then Inl CN_CREDENTIAL_CORRUPT
     else case Option.bind (line_value (lines ! 3) (str ''crc32'')) parse_crc of
        None \<Rightarrow> Inl CN_CREDENTIAL_CORRUPT
      | Some actual \<Rightarrow>
     if actual \<noteq> crc32 (take (length data - (length (lines ! 3) + 1)) data) then Inl CN_CREDENTIAL_CORRUPT
     else Inr \<lparr>credential_username = user, credential_userkey = key\<rparr>))"

definition serialize_credentials :: "cn_credentials option \<Rightarrow> cn_credential_result + bytes" where
  "serialize_credentials credentials = (case credentials of None \<Rightarrow> Inl CN_CREDENTIAL_INVALID
     | Some c \<Rightarrow>
         if \<not> credential_valid_text (credential_username c) credential_username_max \<or>
            \<not> credential_valid_text (credential_userkey c) credential_userkey_max
         then Inl CN_CREDENTIAL_INVALID
         else let data = str ''crossnook-credentials=1'' @ [newline] @ str ''username='' @
                    cstr (credential_username c) @ [newline] @ str ''userkey='' @
                    cstr (credential_userkey c) @ [newline]
              in Inr (data @ str ''crc32='' @ crc_hex (crc32 data) @ [newline]))"

section \<open>Loading\<close>

definition credential_refusal :: "refusal \<Rightarrow> cn_credential_result \<times> errno option" where
  "credential_refusal r = (case r of
     Refused error \<Rightarrow> (credential_fs_error error, Some error)
   | Not_regular \<Rightarrow> (CN_CREDENTIAL_NON_REGULAR, None)
   | Other_file \<Rightarrow> (CN_CREDENTIAL_IO_ERROR, None)
   | _ \<Rightarrow> (CN_CREDENTIAL_CORRUPT, None))"

definition credential_read_file :: "bytes \<Rightarrow> stat \<Rightarrow> os \<Rightarrow> ((cn_credential_result \<times> errno option) + cn_credentials) \<times> os" where
  "credential_read_file path before s = (case sys_open_read True False path s of
     (Inl error, s) \<Rightarrow> (Inl (credential_fs_error error, Some error), s)
   | (Inr fd, s) \<Rightarrow>
       (case read_checked fd before credential_file_max_bytes s of
          (Inl r, s) \<Rightarrow> (Inl (credential_refusal r), snd (sys_close fd s))
        | (Inr data, s) \<Rightarrow>
            (case sys_close fd s of
               (Inl error, s) \<Rightarrow> (Inl (credential_fs_error error, Some error), s)
             | (Inr _, s) \<Rightarrow>
                 (case parse_credentials data of
                    Inl result \<Rightarrow> (Inl (result, None), s)
                  | Inr parsed \<Rightarrow> (Inr parsed, s)))))"

text \<open>The outcome: the result, the credentials (cleared unless it is OK) and the error number.\<close>

definition cn_credential_store_load :: "cn_credential_store option \<Rightarrow> cn_credentials option \<Rightarrow> os \<Rightarrow>
    (cn_credential_result \<times> cn_credentials option \<times> errno option) \<times> os" where
  "cn_credential_store_load store credentials s =
     (if credentials = None then ((CN_CREDENTIAL_INVALID, None, None), s)
      else let cleared = Some cn_credentials_clear in
      if \<not> credential_store_valid store then ((CN_CREDENTIAL_INVALID, cleared, None), s)
      else case credential_inspect_directory (credential_home (the store)) s of
        ((result, error), s) \<Rightarrow>
          if result \<noteq> CN_CREDENTIAL_OK then ((result, cleared, error), s)
          else let path = credential_final_path (the store) in
          (case credential_inspect_file path s of
             ((result, error, before), s) \<Rightarrow>
               if result \<noteq> CN_CREDENTIAL_OK then ((result, cleared, error), s)
               else if st_size (the before) = 0 \<or> st_size (the before) > credential_file_max_bytes
               then ((CN_CREDENTIAL_CORRUPT, cleared, None), s)
               else (case credential_read_file path (the before) s of
                 (Inl (result, error), s) \<Rightarrow> ((result, cleared, error), s)
               | (Inr parsed, s) \<Rightarrow> ((CN_CREDENTIAL_OK, Some parsed, None), s))))"

section \<open>Saving\<close>

definition credential_temporary :: "cn_credential_store \<Rightarrow> bytes \<Rightarrow> u32 \<Rightarrow> bytes" where
  "credential_temporary st process sequence =
     credential_home st @ credential_file_name @ str ''.tmp.'' @ process @ str ''.'' @ decimal_text (unat sequence)"

text \<open>The search for a free scratch name: the descriptor and the name, or why there is none.\<close>

fun credential_create :: "nat \<Rightarrow> cn_credential_store \<Rightarrow> u32 \<Rightarrow> os \<Rightarrow>
    (((cn_credential_result \<times> errno option) + (nat \<times> bytes)) \<times> u32) \<times> os" where
  "credential_create 0 st sequence s = ((Inl (CN_CREDENTIAL_IO_ERROR, None), sequence), s)"
| "credential_create (Suc tries) st sequence s =
     (let sequence = sequence + 1; temp = credential_temporary st (pid s) sequence in
      if length temp - credential_directory_length st \<ge> credential_path_capacity - credential_directory_length st
      then ((Inl (CN_CREDENTIAL_PATH_TOO_LONG, None), sequence), s)
      else case sys_create temp s of
        (Inr fd, s) \<Rightarrow> ((Inr (fd, temp), sequence), s)
      | (Inl error, s) \<Rightarrow>
          if error \<noteq> EEXIST then ((Inl (credential_fs_error error, Some error), sequence), s)
          else credential_create tries st sequence s)"

text \<open>The label \<open>done\<close> before the rename: a failing removal replaces the result.\<close>

definition credential_give_up :: "nat option \<Rightarrow> bytes \<Rightarrow> cn_credential_result \<times> errno option \<Rightarrow> os \<Rightarrow>
    (cn_credential_result \<times> errno option) \<times> os" where
  "credential_give_up fd temp outcome s =
     (let s = (case fd of None \<Rightarrow> s | Some fd \<Rightarrow> snd (sys_close fd s)) in
      case sys_unlink temp s of
        (Inl error, s) \<Rightarrow> if error \<noteq> ENOENT then ((credential_fs_error error, Some error), s) else (outcome, s)
      | (Inr _, s) \<Rightarrow> (outcome, s))"

definition credential_sync :: "bytes \<Rightarrow> stat \<Rightarrow> os \<Rightarrow> (cn_credential_result \<times> errno option) \<times> os" where
  "credential_sync directory' before s = (case sync_checked directory' before s of
     (Synced, s) \<Rightarrow> ((CN_CREDENTIAL_OK, None), s)
   | (Unsynced error, s) \<Rightarrow> ((CN_CREDENTIAL_DURABILITY_UNCERTAIN, error), s))"

definition credential_replace :: "bytes \<Rightarrow> stat \<Rightarrow> bytes \<Rightarrow> bytes \<Rightarrow> nat \<Rightarrow> bytes \<Rightarrow> os \<Rightarrow>
    (cn_credential_result \<times> errno option) \<times> os" where
  "credential_replace directory' before path temp fd data s = (case write_bytes fd data s of
     (Some error, s) \<Rightarrow> credential_give_up (Some fd) temp (credential_fs_error error, Some error) s
   | (None, s) \<Rightarrow>
       (case sys_fsync fd s of
          (Inl error, s) \<Rightarrow> credential_give_up (Some fd) temp (credential_fs_error error, Some error) s
        | (Inr _, s) \<Rightarrow>
            (case sys_close fd s of
               (Inl error, s) \<Rightarrow> credential_give_up None temp (credential_fs_error error, Some error) s
             | (Inr _, s) \<Rightarrow>
                 (case credential_inspect_file path s of
                    ((result, error, _), s) \<Rightarrow>
                      if result \<noteq> CN_CREDENTIAL_OK \<and> result \<noteq> CN_CREDENTIAL_MISSING
                      then credential_give_up None temp (result, error) s
                      else (case sys_rename temp path s of
                        (Inl error, s) \<Rightarrow> credential_give_up None temp (credential_fs_error error, Some error) s
                      | (Inr _, s) \<Rightarrow> credential_sync directory' before s)))))"

definition cn_credential_store_save :: "cn_credential_store option \<Rightarrow> cn_credentials option \<Rightarrow> u32 \<Rightarrow> os \<Rightarrow>
    (cn_credential_result \<times> errno option \<times> u32) \<times> os" where
  "cn_credential_store_save store credentials sequence s =
     (if \<not> credential_store_valid store then ((CN_CREDENTIAL_INVALID, None, sequence), s)
      else case serialize_credentials credentials of
        Inl result \<Rightarrow> ((result, None, sequence), s)
      | Inr data \<Rightarrow>
     (let st = the store; directory' = credential_home st in
      case credential_inspect_directory directory' s of
        ((result, error), s) \<Rightarrow>
      if result \<noteq> CN_CREDENTIAL_OK then ((result, error, sequence), s)
      else case sys_lstat directory' s of
        (Inl error, s) \<Rightarrow> ((credential_fs_error error, Some error, sequence), s)
      | (Inr before, s) \<Rightarrow>
      (case credential_inspect_file (credential_final_path st) s of
        ((result, error, _), s) \<Rightarrow>
      if result \<noteq> CN_CREDENTIAL_OK \<and> result \<noteq> CN_CREDENTIAL_MISSING then ((result, error, sequence), s)
      else (case credential_create 32 st sequence s of
        ((Inl (result, error), sequence), s) \<Rightarrow> ((result, error, sequence), s)
      | ((Inr (fd, temp), sequence), s) \<Rightarrow>
          (case credential_replace directory' before (credential_final_path st) temp fd data s of
             ((result, error), s) \<Rightarrow> ((result, error, sequence), s))))))"


section \<open>Writing and parsing the file\<close>

definition credentials_valid :: "cn_credentials \<Rightarrow> bool" where
  "credentials_valid c \<longleftrightarrow> credential_valid_text (credential_username c) credential_username_max \<and>
     credential_valid_text (credential_userkey c) credential_userkey_max"

definition plain_credentials :: "cn_credentials \<Rightarrow> cn_credentials" where
  "plain_credentials c = \<lparr>credential_username = cstr (credential_username c),
     credential_userkey = cstr (credential_userkey c)\<rparr>"

definition credential_body :: "bytes \<Rightarrow> bytes \<Rightarrow> bytes" where
  "credential_body user key = str ''crossnook-credentials=1'' @ newline # (str ''username='' @ user) @
     newline # (str ''userkey='' @ key) @ [newline]"

definition credential_image :: "cn_credentials \<Rightarrow> bytes" where
  "credential_image c = (let body = credential_body (cstr (credential_username c)) (cstr (credential_userkey c))
     in body @ crc_line (crc32 body))"

lemma credential_valid_text_iff:
  "credential_valid_text t n \<longleftrightarrow> cstr t \<noteq> [] \<and> strlen t \<le> n \<and> list_all credential_byte (cstr t)"
proof -
  have b: "credential_bounded_length (Some t) (n + 1) = min (n + 1) (strlen t)"
    by (simp add: credential_bounded_length_def scan_nul_eq)
  have e: "strlen t = 0 \<longleftrightarrow> cstr t = []" by (simp add: strlen_def)
  show ?thesis
  proof (cases "strlen t \<le> n")
    case True
    then have "min (n + 1) (strlen t) = strlen t" by simp
    then show ?thesis using True e unfolding credential_valid_text_def b Let_def by (auto simp: take_strlen)
  next
    case False
    then have "min (n + 1) (strlen t) = n + 1" by simp
    then show ?thesis using False unfolding credential_valid_text_def b Let_def by simp
  qed
qed

lemma credential_valid_text_plain: "credential_valid_text (cstr t) n = credential_valid_text t n"
  by (simp add: credential_valid_text_iff)

lemma credentials_valid_plain: "credentials_valid (plain_credentials c) = credentials_valid c"
  by (simp add: credentials_valid_def plain_credentials_def credential_valid_text_plain)

lemma credential_bytes_plain: "list_all credential_byte t \<Longrightarrow> newline \<notin> set t"
  by (induction t) (auto simp: credential_byte_def newline_def)

lemma serialize_credentials_image:
  "serialize_credentials (Some c) = (if credentials_valid c then Inr (credential_image c) else Inl CN_CREDENTIAL_INVALID)"
  by (simp add: serialize_credentials_def credentials_valid_def credential_image_def credential_body_def
      crc_line_def Let_def)

definition user_line :: "bytes \<Rightarrow> bytes" where "user_line user = str ''username='' @ user"

definition key_line :: "bytes \<Rightarrow> bytes" where "key_line key = str ''userkey='' @ key"

lemma credential_line_values:
  "line_value (str ''crossnook-credentials=1'') (str ''crossnook-credentials'') = Some (str ''1'')"
  "line_value (user_line user) (str ''username'') = Some user"
  "line_value (key_line key) (str ''userkey'') = Some key"
  by (simp_all add: line_value_def user_line_def key_line_def)

lemma credential_lines:
  "credential_body user key @ crc_line crc = str ''crossnook-credentials=1'' @ newline # user_line user @
     newline # key_line key @ newline # check_line crc @ newline # []"
  by (simp add: credential_body_def crc_line_def user_line_def key_line_def check_line_def)

lemma credential_lines_split:
  assumes "newline \<notin> set user" "newline \<notin> set key"
  shows "more_lines 4 (credential_body user key @ crc_line crc) =
    Some ([str ''crossnook-credentials=1'', user_line user, key_line key, check_line crc], [])"
proof -
  have p: "newline \<notin> set (str ''crossnook-credentials=1'')" "newline \<notin> set (user_line user)"
    "newline \<notin> set (key_line key)" "newline \<notin> set (check_line crc)"
    using assms crc_hex_plain(1) [of crc] by (simp_all add: newline_def user_line_def key_line_def check_line_def)
  have four: "(4 :: nat) = Suc (Suc (Suc (Suc 0)))" by simp
  show ?thesis
    unfolding four credential_lines
    using p by (simp only: more_lines_step option.case prod.case more_lines.simps(1) not_False_eq_True)
qed

lemma credential_image_facts:
  assumes "credentials_valid c"
  shows "credential_image c \<noteq> []" and "length (credential_image c) \<le> credential_file_max_bytes"
    and "0 \<notin> set (credential_image c)"
proof -
  have l: "strlen (credential_username c) \<le> 255" "strlen (credential_userkey c) \<le> 255"
    using assms by (simp_all add: credentials_valid_def credential_valid_text_iff credential_username_max_def
        credential_userkey_max_def)
  show "credential_image c \<noteq> []" by (simp add: credential_image_def credential_body_def Let_def)
  show "length (credential_image c) \<le> credential_file_max_bytes"
    using l by (simp add: credential_image_def credential_body_def Let_def credential_file_max_bytes_def strlen_def)
  have "terminated (credential_image c)"
    using crc_hex_plain(2) by (simp add: credential_image_def credential_body_def crc_line_def Let_def)
  then show "0 \<notin> set (credential_image c)" by (simp add: terminated_def)
qed

lemma parse_credentials_image:
  assumes v: "credentials_valid c"
  shows "parse_credentials (credential_image c) = Inr (plain_credentials c)"
proof -
  define user key where d: "user = cstr (credential_username c)" "key = cstr (credential_userkey c)"
  define crc where "crc = crc32 (credential_body user key)"
  have img: "credential_image c = credential_body user key @ crc_line crc"
    by (simp add: credential_image_def d crc_def Let_def)
  have f: "user \<noteq> []" "length user \<le> credential_username_max" "list_all credential_byte user"
    "key \<noteq> []" "length key \<le> credential_userkey_max" "list_all credential_byte key"
    using v by (simp_all add: credentials_valid_def credential_valid_text_iff d strlen_def)
  have t: "credential_valid_text user credential_username_max" "credential_valid_text key credential_userkey_max"
    using v by (simp_all add: d credential_valid_text_plain credentials_valid_def)
  note more = credential_lines_split [OF credential_bytes_plain [OF f(3)] credential_bytes_plain [OF f(6)], of crc, folded img]
  have off: "take (length (credential_image c) - (length (check_line crc) + 1)) (credential_image c) = credential_body user key"
    by (simp add: img check_line_def)
  have n: "[a, b, x, y] ! 0 = a" "[a, b, x, y] ! 1 = b" "[a, b, x, y] ! 2 = x" "[a, b, x, y] ! 3 = y" for a b x y :: bytes
    by simp_all
  show ?thesis
    unfolding parse_credentials_def more option.case prod.case n credential_line_values line_values(5) off
      parse_version_one parse_crc_hex bind.bind_lunit
    using credential_image_facts [OF v] f t by (simp add: crc_def [symmetric] plain_credentials_def d [symmetric])
qed

lemma parse_credentials_Inr:
  assumes "parse_credentials data = Inr c"
  shows "data = credential_image c" and "credentials_valid c" and "plain_credentials c = c"
proof -
  from assms obtain ls where z: "0 \<notin> set data" and ls: "more_lines 4 data = Some (ls, [])"
    by (auto simp: parse_credentials_def split: if_splits option.splits)
  from more_lines_four [OF ls] obtain l0 l1 l2 l3 where
    m: "ls = [l0, l1, l2, l3]" "data = l0 @ newline # l1 @ newline # l2 @ newline # l3 @ newline # []" by blast
  have n: "[a, b, x, y] ! 0 = a" "[a, b, x, y] ! 1 = b" "[a, b, x, y] ! 2 = x" "[a, b, x, y] ! 3 = y" for a b x y :: bytes
    by simp_all
  obtain v user key y crc where
    1: "line_value l0 (str ''crossnook-credentials'') = Some v" "parse_version v = Some settings_format_version"
      "line_value l1 (str ''username'') = Some user" "line_value l2 (str ''userkey'') = Some key"
      "credential_valid_text user credential_username_max" "credential_valid_text key credential_userkey_max"
      "line_value l3 (str ''crc32'') = Some y" "parse_crc y = Some crc"
      "crc = crc32 (take (length data - (length l3 + 1)) data)"
      "c = \<lparr>credential_username = user, credential_userkey = key\<rparr>"
    using assms [unfolded parse_credentials_def ls m(1) option.case prod.case n]
    by (elim if_InrE option_InrE bind_SomeE) (rule that, auto)
  note lines = line_value_Some [OF 1(1)] line_value_Some [OF 1(3)] line_value_Some [OF 1(4)] line_value_Some [OF 1(7)]
  have body: "data = credential_body user key @ crc_line crc"
    using m(2) lines parse_version_Some [OF 1(2)] parse_crc_Some [OF 1(8)]
    by (simp add: credential_body_def crc_line_def)
  have "length l3 + 1 = length (crc_line crc)" using lines(4) parse_crc_Some [OF 1(8)] by simp
  then have "take (length data - (length l3 + 1)) data = credential_body user key" by (simp add: body)
  then have crc: "crc = crc32 (credential_body user key)" using 1(9) by (simp only:)
  have t: "terminated user" "terminated key"
    using z unfolding body credential_body_def by (auto simp: terminated_def)
  show "data = credential_image c"
    unfolding body crc using t by (simp add: 1(10) credential_image_def Let_def)
  show "plain_credentials c = c" "credentials_valid c"
    using t 1(5,6) by (simp_all add: 1(10) plain_credentials_def credentials_valid_def)
qed

lemma credential_image_inj:
  "credential_image a = credential_image b \<Longrightarrow> credentials_valid a \<Longrightarrow> credentials_valid b \<Longrightarrow>
     plain_credentials a = plain_credentials b"
  using parse_credentials_image [of a] parse_credentials_image [of b] by simp


section \<open>What a load does\<close>

lemma credential_fs_error_simps [simp]:
  "credential_fs_error e \<noteq> CN_CREDENTIAL_OK" "credential_fs_error e \<noteq> CN_CREDENTIAL_DURABILITY_UNCERTAIN"
  by (simp_all add: credential_fs_error_def split: errno.splits)

lemma credential_refusal_not_ok [simp]: "fst (credential_refusal r) \<noteq> CN_CREDENTIAL_OK"
  by (simp add: credential_refusal_def split: refusal.splits)

lemma credential_inspect_directory_quiet:
  "credential_inspect_directory path s = ((r, e), s') \<Longrightarrow> quiet s s' \<and> r \<noteq> CN_CREDENTIAL_DURABILITY_UNCERTAIN"
  using sys_lstat_quiet [of path s]
  by (auto simp: credential_inspect_directory_def split: prod.splits sum.splits node.splits)

lemma credential_inspect_file_quiet:
  "credential_inspect_file path s = ((r, e, i), s') \<Longrightarrow> quiet s s' \<and> r \<noteq> CN_CREDENTIAL_DURABILITY_UNCERTAIN"
  using sys_lstat_quiet [of path s]
  by (auto simp: credential_inspect_file_def split: prod.splits sum.splits node.splits if_splits)

lemma parse_credentials_Inl: "parse_credentials d = Inl r \<Longrightarrow> r \<noteq> CN_CREDENTIAL_OK"
  by (auto simp: parse_credentials_def split: if_splits option.splits)

lemma credential_read_file_effect:
  assumes "calm s0 s" "credential_read_file path before s = (r, s')"
  shows "calm s0 s'" and "r = Inl (x, e) \<Longrightarrow> x \<noteq> CN_CREDENTIAL_OK"
    and "r = Inr c \<Longrightarrow> bytes_at (fs s0) path = Some (credential_image c) \<and> credentials_valid c \<and> plain_credentials c = c"
proof -
  obtain a s1 where o: "sys_open_read True False path s = (a, s1)" by fastforce
  have "calm s0 s' \<and> (\<forall>x e. r = Inl (x, e) \<longrightarrow> x \<noteq> CN_CREDENTIAL_OK) \<and> (\<forall>c. r = Inr c \<longrightarrow>
    bytes_at (fs s0) path = Some (credential_image c) \<and> credentials_valid c \<and> plain_credentials c = c)"
  proof (cases a)
    case (Inl e)
    then show ?thesis
      using o assms(2) calm_open_failed [OF assms(1), of True False path e s1] by (auto simp: credential_read_file_def)
  next
    case (Inr fd)
    note o' = o [unfolded Inr]
    from tracks_open [OF o'] obtain i where i: "names (fs s) path = Some i" "fds s1 fd = Some (i, 0)" .
    obtain b s2 where l: "read_checked fd before credential_file_max_bytes s1 = (b, s2)" by fastforce
    note eff = read_checked_effect [OF calm_open [OF assms(1) o'] i(2) l]
    have cl: "sys_close fd s2 = (z, s3) \<Longrightarrow> calm s0 s3" for z s3 using reading_close [OF eff(1)] .
    have at: "bytes_at (fs s0) path = Some d" if "b = Inr d" for d
      using eff(2) [OF that] i(1) assms(1) by (auto simp: calm_def bytes_at_def file_at_def)
    have ref: "credential_refusal w = (x, e) \<Longrightarrow> x \<noteq> CN_CREDENTIAL_OK" for w x e
      using credential_refusal_not_ok [of w] by simp
    obtain z s3 where c: "sys_close fd s2 = (z, s3)" by fastforce
    show ?thesis
    proof (cases b)
      case (Inl w)
      then show ?thesis using assms(2) o' l c cl [OF c] ref by (auto simp: credential_read_file_def)
    next
      case (Inr d)
      then show ?thesis
        using assms(2) o' l c cl [OF c] at [OF Inr] parse_credentials_Inl [of d] parse_credentials_Inr [of d]
        by (auto simp: credential_read_file_def split: sum.splits)
    qed
  qed
  then show "calm s0 s'" "r = Inl (x, e) \<Longrightarrow> x \<noteq> CN_CREDENTIAL_OK"
    "r = Inr c \<Longrightarrow> bytes_at (fs s0) path = Some (credential_image c) \<and> credentials_valid c \<and> plain_credentials c = c"
    by blast+
qed

definition credential_load_outcome ::
  "bytes \<Rightarrow> os \<Rightarrow> (cn_credential_result \<times> cn_credentials option \<times> errno option) \<times> os \<Rightarrow> bool" where
  "credential_load_outcome path s0 x \<longleftrightarrow> calm s0 (snd x) \<and>
     (if fst (fst x) = CN_CREDENTIAL_OK
      then \<exists>c. fst (snd (fst x)) = Some c \<and> bytes_at (fs s0) path = Some (credential_image c) \<and>
        credentials_valid c \<and> plain_credentials c = c
      else fst (snd (fst x)) = Some cn_credentials_clear)"

lemma credential_load_effect:
  assumes "wf_os s"
  shows "credential_load_outcome (credential_final_path st) s (cn_credential_store_load (Some st) (Some old) s)"
proof -
  let ?path = "credential_final_path st"
  obtain r1 e1 s1 where d: "credential_inspect_directory (credential_home st) s = ((r1, e1), s1)" by (metis prod.collapse)
  note c1 = calm_quiet [OF calm_start [OF assms] conjunct1 [OF credential_inspect_directory_quiet [OF d]]]
  obtain r2 e2 i2 s2 where f: "credential_inspect_file ?path s1 = ((r2, e2, i2), s2)" by (metis prod.collapse)
  note c2 = calm_quiet [OF c1 conjunct1 [OF credential_inspect_file_quiet [OF f]]]
  obtain r3 s3 where l: "credential_read_file ?path (the i2) s2 = (r3, s3)" by fastforce
  note e3 = credential_read_file_effect [OF c2 l]
  show ?thesis
    using calm_start [OF assms] c1 c2 d f l e3
    by (auto simp: cn_credential_store_load_def credential_load_outcome_def Let_def split: sum.splits)
qed

section \<open>What a save does\<close>

text \<open>A name that was taken when the save began keeps its file; \<open>path\<close> has its old bytes or the new ones.\<close>

definition spares :: "bytes \<Rightarrow> bytes \<Rightarrow> filesystem \<Rightarrow> filesystem \<Rightarrow> bool" where
  "spares path d f0 f \<longleftrightarrow> (\<forall>q. q \<noteq> path \<and> names f0 q \<noteq> None \<longrightarrow> same_at q f0 f) \<and>
     (bytes_at f path = bytes_at f0 path \<or> file_at f path = Some (d, True))"

definition undisturbed :: "os \<Rightarrow> os \<Rightarrow> bool" where
  "undisturbed s0 s \<longleftrightarrow> keeps s0 s \<and> fs s = fs s0 \<and> fds s = fds s0"

lemma undisturbed_start: "wf_os s \<Longrightarrow> undisturbed s s"
  by (simp add: undisturbed_def keeps_def always_def)

lemma undisturbed_quiet: "undisturbed s0 s \<Longrightarrow> quiet s s' \<Longrightarrow> undisturbed s0 s'"
  using keeps_trans [of s0 s s'] keeps_quiet [of s s'] keeps_wf [of s0 s] by (simp add: undisturbed_def quiet_def)

lemma undisturbed_idle: "undisturbed s0 s \<Longrightarrow> wf_os s0 \<Longrightarrow> idle tmp s0 s"
  unfolding undisturbed_def by (auto intro: idle_keeps [OF idle_start])

lemma credential_temporary_fresh: "credential_temporary st p q \<noteq> credential_final_path st"
  by (simp add: credential_temporary_def credential_final_path_def)

definition credential_scratch :: "cn_credential_store \<Rightarrow> os \<Rightarrow> bytes \<Rightarrow> bool" where
  "credential_scratch st s0 tmp \<longleftrightarrow> names (fs s0) tmp = None \<and> tmp \<noteq> credential_final_path st"

lemma credential_create_effect:
  assumes "credential_create n st q s = ((r, q'), s')" "undisturbed s0 s" "wf_os s0"
  shows "r = Inl (x, e) \<Longrightarrow> undisturbed s0 s' \<and> x \<notin> {CN_CREDENTIAL_OK, CN_CREDENTIAL_DURABILITY_UNCERTAIN}"
    and "r = Inr (fd, tmp) \<Longrightarrow> credential_scratch st s0 tmp \<and> filled tmp fd [] s0 s'"
proof -
  have "(\<forall>x e. r = Inl (x, e) \<longrightarrow> undisturbed s0 s' \<and> x \<notin> {CN_CREDENTIAL_OK, CN_CREDENTIAL_DURABILITY_UNCERTAIN}) \<and>
    (\<forall>fd tmp. r = Inr (fd, tmp) \<longrightarrow> credential_scratch st s0 tmp \<and> filled tmp fd [] s0 s')"
    using assms(1,2)
  proof (induction n st q s rule: credential_create.induct)
    case (2 n st q s)
    define q1 where "q1 = q + 1"
    define tmp where "tmp = credential_temporary st (pid s) q1"
    obtain a s1 where c: "sys_create tmp s = (a, s1)" by fastforce
    have n: "names (fs s0) = names (fs s)" using "2.prems"(2) by (simp add: undisturbed_def)
    show ?case
    proof (cases a)
      case (Inl e)
      note u = undisturbed_quiet [OF "2.prems"(2) sys_create_failed_quiet [OF c [unfolded Inl]]]
      show ?thesis
        using "2.prems" "2.IH" [OF q1_def tmp_def _ c [symmetric] Inl _ _ u] u c Inl
        by (auto simp: q1_def [symmetric] tmp_def [symmetric] Let_def split: if_splits)
    next
      case (Inr fd)
      have "credential_scratch st s0 tmp"
        using sys_create_fresh [OF c [unfolded Inr]] n credential_temporary_fresh
        by (simp add: credential_scratch_def tmp_def)
      moreover have "filled tmp fd [] s0 s1"
        using idle_create [OF undisturbed_idle [OF "2.prems"(2) assms(3)] c [unfolded Inr]] .
      ultimately show ?thesis
        using "2.prems" c Inr by (auto simp: q1_def [symmetric] tmp_def [symmetric] Let_def split: if_splits)
    qed
  qed auto
  then show "r = Inl (x, e) \<Longrightarrow> undisturbed s0 s' \<and> x \<notin> {CN_CREDENTIAL_OK, CN_CREDENTIAL_DURABILITY_UNCERTAIN}"
    "r = Inr (fd, tmp) \<Longrightarrow> credential_scratch st s0 tmp \<and> filled tmp fd [] s0 s'" by blast+
qed

definition credential_outcome :: "bytes \<Rightarrow> bytes \<Rightarrow> bytes \<Rightarrow> os \<Rightarrow> (cn_credential_result \<times> errno option) \<times> os \<Rightarrow> bool" where
  "credential_outcome tmp path d s0 x \<longleftrightarrow>
     (if fst (fst x) \<in> {CN_CREDENTIAL_OK, CN_CREDENTIAL_DURABILITY_UNCERTAIN}
      then committed tmp path d s0 (snd x) else idle tmp s0 (snd x))"

lemma credential_give_up_effect:
  assumes "r \<notin> {CN_CREDENTIAL_OK, CN_CREDENTIAL_DURABILITY_UNCERTAIN}"
  shows "idle tmp s0 s \<Longrightarrow> credential_outcome tmp path d s0 (credential_give_up None tmp (r, e) s)"
    and "opened tmp fd s0 s \<Longrightarrow> credential_outcome tmp path d s0 (credential_give_up (Some fd) tmp (r, e) s)"
  using assms idle_unlink [of tmp s0] opened_give_up [of tmp fd s0 s]
  by (auto simp: credential_outcome_def credential_give_up_def Let_def split: prod.splits sum.splits)

lemma credential_sync_effect:
  assumes "committed tmp path d s0 s"
  shows "credential_outcome tmp path d s0 (credential_sync dir before s)"
proof -
  obtain r s' where y: "sync_checked dir before s = (r, s')" by fastforce
  note k = committed_keeps [OF assms sync_checked_keeps [OF y committed_wf [OF assms]]]
  show ?thesis using k y by (cases r) (simp_all add: credential_sync_def credential_outcome_def)
qed

lemma credential_replace_effect:
  assumes "filled tmp fd [] s0 s" "tmp \<noteq> path"
  shows "credential_outcome tmp path d s0 (credential_replace dir before path tmp fd d s)"
proof -
  obtain w s1 where w: "write_bytes fd d s = (w, s1)" by fastforce
  note o1 = write_bytes_opened [OF assms(1) w]
  show ?thesis
  proof (cases w)
    case (Some e)
    then show ?thesis using w o1 by (simp add: credential_replace_def credential_give_up_effect(2))
  next
    case None
    note f1 = write_bytes_filled [OF assms(1) w [unfolded None]]
    obtain y s2 where y: "sys_fsync fd s1 = (y, s2)" by fastforce
    show ?thesis
    proof (cases y)
      case (Inl e)
      then show ?thesis
        using w None y filled_fsync_failed [OF f1 y [unfolded Inl]] by (simp add: credential_replace_def credential_give_up_effect(2))
    next
      case (Inr u)
      note f2 = filled_fsync [OF f1 y [unfolded Inr]]
      obtain c s3 where c: "sys_close fd s2 = (c, s3)" by fastforce
      note f3 = flushed_close [OF f2 c]
      obtain r e i s4 where l: "credential_inspect_file path s3 = ((r, e, i), s4)" by (metis prod.collapse)
      have q: "quiet s3 s4" "r \<noteq> CN_CREDENTIAL_DURABILITY_UNCERTAIN" using credential_inspect_file_quiet [OF l] by auto
      have f4: "ready tmp d s0 s4" using f3 idle_quiet [OF ready_idle [OF f3] q(1)] q(1) by (simp add: ready_def quiet_def)
      obtain m s5 where m: "sys_rename tmp path s4 = (m, s5)" by fastforce
      have done': "m = Inr v \<Longrightarrow> committed tmp path d s0 s5" "m = Inl e' \<Longrightarrow> idle tmp s0 s5" for v e'
        using ready_rename [OF f4 _ assms(2)] ready_rename_failed [OF f4 _ assms(2)] m by auto
      show ?thesis
        using w None y Inr c l m q(2) credential_give_up_effect(1) [OF _ ready_idle [OF f3], of _ path d]
          credential_give_up_effect(1) [OF _ ready_idle [OF f4], of _ path d]
          credential_give_up_effect(1) [OF _ done'(2), of _ _ path d] credential_sync_effect [OF done'(1)]
        by (auto simp: credential_replace_def split: sum.splits)
    qed
  qed
qed


definition credential_safe :: "bytes \<Rightarrow> bytes \<Rightarrow> os \<Rightarrow> cn_credential_result \<Rightarrow> os \<Rightarrow> bool" where
  "credential_safe path d s result s' \<longleftrightarrow> wf_os s' \<and> fds s' = fds s \<and> spares path d (fs s) (fs s') \<and>
     always (spares path d (fs s)) s s' \<and>
     (if result = CN_CREDENTIAL_OK \<or> result = CN_CREDENTIAL_DURABILITY_UNCERTAIN
      then file_at (fs s') path = Some (d, True) else bytes_at (fs s') path = bytes_at (fs s) path)"

lemma spares_old_or_new: "old_or_new tmp path d f0 f \<Longrightarrow> names f0 tmp = None \<Longrightarrow> spares path d f0 f"
  unfolding old_or_new_def spares_def by (metis option.distinct(1))

lemma spares_same: "\<forall>q. same_at q f0 f \<Longrightarrow> spares path d f0 f"
  by (simp add: spares_def same_at_bytes)

lemma always_mono: "always P s s' \<Longrightarrow> (\<And>f. P f \<Longrightarrow> Q f) \<Longrightarrow> always Q s s'"
  by (auto simp: always_def intro: list.pred_mono_strong)

lemma credential_safe_untouched:
  "undisturbed s s' \<Longrightarrow> result \<notin> {CN_CREDENTIAL_OK, CN_CREDENTIAL_DURABILITY_UNCERTAIN} \<Longrightarrow> credential_safe path d s result s'"
  by (auto simp: credential_safe_def undisturbed_def keeps_def intro: spares_same always_mono)

lemma credential_safe_outcome:
  assumes "credential_outcome tmp path d s ((result, e), s')" "names (fs s) tmp = None" "tmp \<noteq> path"
  shows "credential_safe path d s result s'"
proof -
  have "replacing tmp path d s s' \<and> fds s' = fds s \<and>
    (if result = CN_CREDENTIAL_OK \<or> result = CN_CREDENTIAL_DURABILITY_UNCERTAIN
      then file_at (fs s') path = Some (d, True) else bytes_at (fs s') path = bytes_at (fs s) path)"
    using assms(1) idle_unchanged [OF _ assms(3), of s s' d]
    by (auto simp: credential_outcome_def committed_def split: if_splits)
  then show ?thesis
    using assms(2) spares_old_or_new [of tmp path d "fs s"] always_mono [of "old_or_new tmp path d (fs s)" s s']
    by (simp add: credential_safe_def replacing_def)
qed

lemma credential_save_effect:
  assumes "wf_os s" "cn_credential_store_save (Some st) (Some c) q s = ((result, e, q'), s')"
  shows "credential_safe (credential_final_path st) (credential_image c) s result s'"
    and "result = CN_CREDENTIAL_OK \<or> result = CN_CREDENTIAL_DURABILITY_UNCERTAIN \<Longrightarrow> credentials_valid c"
proof -
  let ?path = "credential_final_path st"
  let ?bad = "\<lambda>r. r \<notin> {CN_CREDENTIAL_OK, CN_CREDENTIAL_DURABILITY_UNCERTAIN}"
  note u0 = undisturbed_start [OF assms(1)]
  obtain r1 e1 s1 where d: "credential_inspect_directory (credential_home st) s = ((r1, e1), s1)" by (metis prod.collapse)
  note d' = credential_inspect_directory_quiet [OF d]
  note u1 = undisturbed_quiet [OF u0 conjunct1 [OF d']]
  obtain b s2 where l: "sys_lstat (credential_home st) s1 = (b, s2)" by fastforce
  note u2 = undisturbed_quiet [OF u1 sys_lstat_quiet [OF l]]
  obtain r3 e3 i3 s3 where f: "credential_inspect_file ?path s2 = ((r3, e3, i3), s3)" by (metis prod.collapse)
  note f' = credential_inspect_file_quiet [OF f]
  note u3 = undisturbed_quiet [OF u2 conjunct1 [OF f']]
  obtain cr q4 s4 where c: "credential_create 32 st q s3 = ((cr, q4), s4)" by (metis prod.collapse)
  have failed: "credential_safe ?path d s x s4" if "cr = Inl (x, e')" for x e' d
    using credential_create_effect(1) [OF c u3 assms(1) that] by (auto intro: credential_safe_untouched)
  have bad: "?bad x" if "cr = Inl (x, e')" for x e'
    using credential_create_effect(1) [OF c u3 assms(1) that] by blast
  have replaced: "credential_safe ?path d s x s5"
    if "cr = Inr (fd, tmp)" "credential_replace dir before ?path tmp fd d s4 = ((x, e'), s5)" for fd tmp dir before d x e' s5
  proof -
    note k = credential_create_effect(2) [OF c u3 assms(1) that(1), unfolded credential_scratch_def]
    show ?thesis
      using credential_safe_outcome [of tmp ?path d s x e' s5] credential_replace_effect [of tmp fd s s4 ?path d dir before] k that(2)
      by simp
  qed
  show v: "result = CN_CREDENTIAL_OK \<or> result = CN_CREDENTIAL_DURABILITY_UNCERTAIN \<Longrightarrow> credentials_valid c"
    using assms(2) by (auto simp: cn_credential_store_save_def serialize_credentials_image split: if_splits)
  show "credential_safe ?path (credential_image c) s result s'"
  proof (cases "credential_store_valid (Some st) \<and> credentials_valid c \<and> r1 = CN_CREDENTIAL_OK")
    case False
    then show ?thesis
      using assms(2) d d' credential_safe_untouched [OF u0] credential_safe_untouched [OF u1]
      by (auto simp: cn_credential_store_save_def serialize_credentials_image Let_def split: if_splits)
  next
    case True
    note run = assms(2) [unfolded cn_credential_store_save_def serialize_credentials_image Let_def option.sel d l]
    show ?thesis
    proof (cases b)
      case (Inl x)
      then show ?thesis using run True credential_safe_untouched [OF u2] by (auto simp: d l)
    next
      case (Inr before)
      show ?thesis
      proof (cases "r3 \<noteq> CN_CREDENTIAL_OK \<and> r3 \<noteq> CN_CREDENTIAL_MISSING")
        case bad3: True
        then show ?thesis using run True Inr f f' credential_safe_untouched [OF u3] by (auto simp: d l)
      next
        case False
        then show ?thesis
          using run True Inr f c failed replaced by (cases cr) (auto simp: d l split: prod.splits if_splits)
      qed
    qed
  qed
qed


section \<open>A schedule with no faults\<close>

text \<open>A disk that can take a save whose scratch file gets the next number.\<close>

definition credential_place :: "cn_credential_store \<Rightarrow> u32 \<Rightarrow> os \<Rightarrow> bool" where
  "credential_place st q s \<longleftrightarrow> wf_os s \<and> credential_store_valid (Some st) \<and> directory_at (fs s) (credential_home st) \<and>
     (names (fs s) (credential_final_path st) = None \<or> file_at (fs s) (credential_final_path st) \<noteq> None) \<and>
     names (fs s) (credential_temporary st (pid s) (q + 1)) = None \<and>
     length (credential_temporary st (pid s) (q + 1)) < credential_path_capacity"

lemma credential_inspect_directory_clean:
  "faults s = [] \<Longrightarrow> directory_at (fs s) dir \<Longrightarrow> credential_inspect_directory dir s = ((CN_CREDENTIAL_OK, None), leave s)"
  by (auto simp: credential_inspect_directory_def sys_lstat_def call_clean directory_at_def make_stat_def split: option.splits)

lemma credential_inspect_file_clean:
  assumes "faults s = []" "names (fs s) path = None \<or> file_at (fs s) path \<noteq> None"
  shows "\<exists>r i. credential_inspect_file path s = ((r, None, i), leave s) \<and>
    (r = CN_CREDENTIAL_OK \<or> r = CN_CREDENTIAL_MISSING)"
  using assms
  by (auto simp: credential_inspect_file_def sys_lstat_def call_clean make_stat_def file_at_def split: option.splits node.splits)

lemma credential_create_clean:
  assumes "faults s = []" "names (fs s) (credential_temporary st (pid s) (q + 1)) = None"
    and "length (credential_temporary st (pid s) (q + 1)) < credential_path_capacity" "credential_directory_length st < credential_path_capacity"
  shows "\<exists>fd s'. sys_create (credential_temporary st (pid s) (q + 1)) s = (Inr fd, s') \<and> faults s' = [] \<and>
    credential_create 32 st q s = ((Inr (fd, credential_temporary st (pid s) (q + 1)), q + 1), s')"
proof -
  obtain fd s' where c: "sys_create (credential_temporary st (pid s) (q + 1)) s = (Inr fd, s')" "faults s' = []"
    using assms(1,2) by (auto simp: sys_create_def call_clean allocate_fd_def)
  have n: "(32 :: nat) = Suc 31" by simp
  show ?thesis
    unfolding n credential_create.simps(2) using c assms(3,4) by (auto simp: Let_def)
qed

lemma credential_replace_clean:
  assumes "filled tmp fd [] s0 s" "faults s = []" "tmp \<noteq> path"
    and "names (fs s0) path = None \<or> file_at (fs s0) path \<noteq> None" "names (fs s0) dir = Some i" "inodes (fs s0) i = Directory"
    and "st_ino before = i" "dir \<noteq> tmp" "dir \<noteq> path"
  shows "\<exists>s'. credential_replace dir before path tmp fd d s = ((CN_CREDENTIAL_OK, None), s') \<and> faults s' = []"
proof -
  obtain s1 where w: "write_bytes fd d s = (None, s1)" "faults s1 = []"
    using write_bytes_clean [OF assms(2), of tmp fd "[]" d] assms(1) by (auto simp: filled_def writes_bytes_def split: prod.splits)
  note f1 = write_bytes_filled [OF assms(1) w(1)]
  obtain s2 where y: "sys_fsync fd s1 = (Inr (), s2)" "faults s2 = []"
    using fsync_clean [OF w(2), of tmp fd d] f1 by (auto simp: filled_def)
  note f2 = filled_fsync [OF f1 y(1)]
  have "fds s2 fd \<noteq> None"
    using sys_fsync_spec(3) [OF y(1) opened_wf [OF filled_opened [OF f1]], of tmp d] f1 by (auto simp: filled_def writing_def)
  then obtain s3 where c: "sys_close fd s2 = (Inr (), s3)" "faults s3 = []" using close_clean [OF y(2), of fd] y(2) by fastforce
  note f3 = flushed_close [OF f2 c(1)]
  have same: "same_at q (fs s0) (fs s3)" if "q \<noteq> tmp" for q
    using f3 that by (simp add: ready_def idle_def outside_def)
  have at: "names (fs s3) path = None \<or> file_at (fs s3) path \<noteq> None"
    using same [of path] assms(3,4) same_at_bytes [of path "fs s0" "fs s3"] by (auto simp: same_at_def bytes_at_def)
  obtain r e where l: "credential_inspect_file path s3 = ((r, None, e), leave s3)" "r = CN_CREDENTIAL_OK \<or> r = CN_CREDENTIAL_MISSING"
    using credential_inspect_file_clean [OF c(2) at] by blast
  have f4: "ready tmp d s0 (leave s3)" using f3 idle_quiet [OF ready_idle [OF f3], of "leave s3"] by (simp add: ready_def)
  have "file_at (fs s3) tmp \<noteq> None" using f3 by (simp add: ready_def)
  then obtain s5 where m: "sys_rename tmp path (leave s3) = (Inr (), s5)" "faults s5 = []"
    using c(2) at by (fastforce simp: sys_rename_def call_clean file_at_def split: option.splits node.splits)
  note f5 = ready_rename [OF f4 m(1) assms(3)]
  have "same_at dir (fs s0) (fs s5)" using f5 assms(8,9) by (simp add: committed_def replacing_def old_or_new_def)
  then have "names (fs s5) dir = Some i" "inodes (fs s5) i = Directory"
    using assms(5,6) by (auto simp: same_at_def settles_def)
  then obtain s6 where "sync_checked dir before s5 = (Synced, s6)" "faults s6 = []"
    using sync_checked_clean [OF m(2) _ _ assms(7)] by blast
  then show ?thesis using w y c l m by (auto simp: credential_replace_def credential_sync_def)
qed

lemma credential_save_clean:
  assumes "faults s = []" "credential_place st q s" "credentials_valid c"
  shows "\<exists>s'. cn_credential_store_save (Some st) (Some c) q s = ((CN_CREDENTIAL_OK, None, q + 1), s') \<and> faults s' = []"
proof -
  note p = assms(2) [unfolded credential_place_def]
  define tmp where "tmp = credential_temporary st (pid s) (q + 1)"
  define s3 where "s3 = leave (leave (leave s))"
  have f3: "faults s3 = []" "fs s3 = fs s" "pid s3 = pid s" using assms(1) by (simp_all add: s3_def)
  obtain i where i: "names (fs s) (credential_home st) = Some i" "inodes (fs s) i = Directory"
    using p by (auto simp: directory_at_def split: option.splits)
  have l: "sys_lstat (credential_home st) (leave s) = (Inr (make_stat (fs s) i), leave (leave s))"
    using assms(1) i by (simp add: sys_lstat_def call_clean)
  have "names (fs (leave (leave s))) (credential_final_path st) = None \<or> file_at (fs (leave (leave s))) (credential_final_path st) \<noteq> None"
    "faults (leave (leave s)) = []" using p assms(1) by auto
  then obtain r2 i2 where f: "credential_inspect_file (credential_final_path st) (leave (leave s)) = ((r2, None, i2), s3)"
    "r2 = CN_CREDENTIAL_OK \<or> r2 = CN_CREDENTIAL_MISSING"
    using credential_inspect_file_clean unfolding s3_def by blast
  have len: "credential_directory_length st < credential_path_capacity"
    using p by (auto simp: credential_store_valid_def)
  obtain fd s4 where c: "sys_create tmp s3 = (Inr fd, s4)" "faults s4 = []"
    "credential_create 32 st q s3 = ((Inr (fd, tmp), q + 1), s4)"
    using credential_create_clean [of s3 st q] p f3 len by (auto simp: tmp_def)
  have w3: "wf_os s3" using p by (simp add: s3_def)
  have fl: "filled tmp fd [] s3 s4" using idle_create [OF idle_start [OF w3] c(1)] .
  have apart: "tmp \<noteq> credential_final_path st" "credential_home st \<noteq> tmp" "credential_home st \<noteq> credential_final_path st"
    by (simp_all add: tmp_def credential_temporary_def credential_final_path_def credential_file_name_def)
  have "st_ino (make_stat (fs s) i) = i" by (simp add: make_stat_def)
  then obtain s5 where rp: "credential_replace (credential_home st) (make_stat (fs s) i) (credential_final_path st) tmp fd (credential_image c) s4 =
      ((CN_CREDENTIAL_OK, None), s5)" "faults s5 = []"
    using credential_replace_clean [OF fl c(2) apart(1), of "credential_home st" i] p i f3 apart(2,3) by auto
  show ?thesis
    using p assms l f c(3) rp credential_inspect_directory_clean [OF assms(1)]
    by (auto simp: cn_credential_store_save_def serialize_credentials_image Let_def)
qed

lemma credential_load_clean:
  assumes "faults s = []" "credential_store_valid (Some st)" "directory_at (fs s) (credential_home st)"
    and "bytes_at (fs s) (credential_final_path st) = Some (credential_image c)" "credentials_valid c"
  shows "\<exists>s'. cn_credential_store_load (Some st) (Some old) s = ((CN_CREDENTIAL_OK, Some (plain_credentials c), None), s') \<and> faults s' = []"
proof -
  let ?path = "credential_final_path st"
  define s2 where "s2 = leave (leave s)"
  obtain i b where i: "names (fs s) ?path = Some i" "inodes (fs s) i = Regular (credential_image c) b"
    using assms(4) by (auto simp: bytes_at_def file_at_def split: option.splits node.splits)
  have f: "credential_inspect_file ?path (leave s) = ((CN_CREDENTIAL_OK, None, Some (make_stat (fs s) i)), s2)"
    using i assms(1) by (simp add: credential_inspect_file_def sys_lstat_def call_clean make_stat_def s2_def)
  define s3 where "s3 = snd (sys_open_read True False ?path s2)"
  have o: "sys_open_read True False ?path s2 = (Inr (next_fd s), s3)"
    and t: "tracks (next_fd s) i (credential_image c) 0 s3" "faults s3 = []"
    using i assms(1) by (simp_all add: sys_open_read_def call_clean allocate_fd_def s2_def s3_def tracks_def)
  note img = credential_image_facts [OF assms(5)]
  have "st_ino (make_stat (fs s) i) = i" by (simp add: make_stat_def)
  then obtain s4 where r: "read_checked (next_fd s) (make_stat (fs s) i) credential_file_max_bytes s3 = (Inr (credential_image c), s4)"
      "faults s4 = []" "fds s4 (next_fd s) \<noteq> None"
    using read_checked_clean [OF t(2,1) _ img(1,2)] by blast
  then obtain s5 where cl: "sys_close (next_fd s) s4 = (Inr (), s5)" "faults s5 = []" using close_clean [of s4 "next_fd s"] by fastforce
  have sz: "st_size (make_stat (fs s) i) = length (credential_image c)" using i by (simp add: make_stat_def)
  show ?thesis
    using credential_inspect_directory_clean [OF assms(1,3)] assms(2) f o r cl sz img(1,2) parse_credentials_image [OF assms(5)]
    by (auto simp: cn_credential_store_load_def credential_read_file_def Let_def)
qed

section \<open>Properties\<close>

text \<open>The concrete inputs of the witnesses.\<close>

definition sample_credential_store :: cn_credential_store where
  "sample_credential_store = \<lparr>credential_directory = str ''/cfg'', credential_directory_length = 4\<rparr>"

definition sample_credentials :: cn_credentials where
  "sample_credentials = \<lparr>credential_username = str ''reader'', credential_userkey = str ''0f''\<rparr>"

lemma sample_credentials_valid: "credentials_valid sample_credentials"
  by (simp add: credentials_valid_def credential_valid_text_iff sample_credentials_def credential_username_max_def
      credential_userkey_max_def credential_byte_def strlen_def cstr_def)

lemma sample_credential_paths:
  "credential_home sample_credential_store = str ''/cfg''"
  "credential_final_path sample_credential_store = str ''/cfg/credentials''"
  by (simp_all add: credential_home_def credential_final_path_def sample_credential_store_def credential_file_name_def)

lemma sample_credential_place: "credential_place sample_credential_store 0 (directory_disk (str ''/cfg'') schedule)"
  by (simp add: credential_place_def sample_credential_paths credential_temporary_def credential_file_name_def
      credential_path_capacity_def decimal_text.simps)
    (simp add: credential_store_valid_def sample_credential_store_def credential_bounded_length_def scan_nul_eq
      strlen_def cstr_def credential_path_capacity_def char_at_def)

text \<open>C31. Saving the credentials is atomic and harms no other file.  Whatever calls fail, are cut short or
  are interrupted, at every moment every file that existed keeps its bytes, except that the credentials
  file holds its old bytes or the complete, synced image of the new credentials; every descriptor is
  given back.  The new image is in place exactly when the save answers OK or that only its durability is
  uncertain.\<close>

theorem credential_save_is_atomic:
  assumes "wf_os s"
  shows "case cn_credential_store_save (Some st) (Some c) sequence s of ((result, error, sequence'), s') \<Rightarrow>
    (let path = credential_final_path st; image = credential_image c;
         safe = (\<lambda>f. (\<forall>q. q \<noteq> path \<and> names (fs s) q \<noteq> None \<longrightarrow> same_at q (fs s) f) \<and>
           (bytes_at f path = bytes_at (fs s) path \<or> file_at f path = Some (image, True)))
     in wf_os s' \<and> fds s' = fds s \<and> safe (fs s') \<and> always safe s s' \<and>
        (if result = CN_CREDENTIAL_OK \<or> result = CN_CREDENTIAL_DURABILITY_UNCERTAIN
         then file_at (fs s') path = Some (image, True)
         else bytes_at (fs s') path = bytes_at (fs s) path))"
proof -
  obtain result e q' s' where save: "cn_credential_store_save (Some st) (Some c) sequence s = ((result, e, q'), s')"
    by (metis prod.collapse)
  show ?thesis
    using credential_save_effect(1) [OF assms save] by (simp add: save credential_safe_def spares_def [abs_def] Let_def)
qed

theorem credential_save_is_atomic_witness:
  "case cn_credential_store_save (Some sample_credential_store) (Some sample_credentials) 0
      (directory_disk (str ''/cfg'') [Normal, Normal, Normal, Fail EEXIST, Normal, Short 3, Fail EINTR, Fail ENOSPC]) of
      ((result, error, sequence'), s') \<Rightarrow>
    bytes_at (fs s') (str ''/cfg/credentials'') = None \<or> result = CN_CREDENTIAL_OK \<or> result = CN_CREDENTIAL_DURABILITY_UNCERTAIN"
  using credential_save_is_atomic [of "directory_disk (str ''/cfg'')
      [Normal, Normal, Normal, Fail EEXIST, Normal, Short 3, Fail EINTR, Fail ENOSPC]" sample_credential_store sample_credentials 0]
  by (auto simp: Let_def sample_credential_paths bytes_at_def file_at_def split: prod.splits if_splits)

text \<open>C32. A load of the credentials that answers OK gives what the last save put in place.  The save may
  have met any faults, as long as it answered OK or that only the durability is uncertain, and so may the
  load, which changes no file and on every other answer delivers cleared credentials.\<close>

theorem credential_save_load_roundtrip:
  assumes "wf_os s" "cn_credential_store_save (Some st) (Some c) sequence s = ((saved, error, sequence'), s')"
    and "saved = CN_CREDENTIAL_OK \<or> saved = CN_CREDENTIAL_DURABILITY_UNCERTAIN"
    and "cn_credential_store_load (Some st) (Some old) (s'\<lparr>faults := schedule\<rparr>) = ((result, loaded, error'), s'')"
  shows "fs s'' = fs s' \<and> fds s'' = fds s' \<and>
    loaded = Some (if result = CN_CREDENTIAL_OK then plain_credentials c else cn_credentials_clear)"
proof -
  note e = credential_save_effect [OF assms(1,2)]
  have "wf_os s'" and at: "bytes_at (fs s') (credential_final_path st) = Some (credential_image c)"
    using e(1) assms(3) by (auto simp: credential_safe_def bytes_at_def)
  then have w: "wf_os (s'\<lparr>faults := schedule\<rparr>)" by (simp add: wf_os_def)
  show ?thesis
    using credential_load_effect [OF w, of st old] assms(4) at
      credential_image_inj [OF _ e(2) [OF assms(3)]]
    by (auto simp: credential_load_outcome_def calm_def split: if_splits)
qed

theorem credential_save_load_roundtrip_witness:
  "\<exists>s' s''. cn_credential_store_load (Some sample_credential_store) (Some cn_credentials_clear) s' =
     ((CN_CREDENTIAL_OK, Some (plain_credentials sample_credentials), None), s'') \<and> fs s'' = fs s'"
proof -
  define s where "s = directory_disk (str ''/cfg'') []"
  have place: "credential_place sample_credential_store 0 s" unfolding s_def by (rule sample_credential_place)
  then have wf: "wf_os s" and valid: "credential_store_valid (Some sample_credential_store)"
    by (simp_all add: credential_place_def)
  obtain s' where save: "cn_credential_store_save (Some sample_credential_store) (Some sample_credentials) 0 s =
      ((CN_CREDENTIAL_OK, None, 0 + 1), s')" "faults s' = []"
    using credential_save_clean [OF _ place sample_credentials_valid] by (auto simp: s_def)
  have safe: "credential_safe (str ''/cfg/credentials'') (credential_image sample_credentials) s CN_CREDENTIAL_OK s'"
    using credential_save_effect(1) [OF wf save(1)] by (simp add: sample_credential_paths)
  have "same_at (str ''/cfg'') (fs s) (fs s')" using safe by (simp add: credential_safe_def spares_def s_def)
  then have dir: "directory_at (fs s') (credential_home sample_credential_store)"
    using same_at_directory by (simp add: sample_credential_paths s_def)
  have at: "bytes_at (fs s') (credential_final_path sample_credential_store) = Some (credential_image sample_credentials)"
    using safe by (simp add: credential_safe_def sample_credential_paths bytes_at_def)
  obtain s'' where load: "cn_credential_store_load (Some sample_credential_store) (Some cn_credentials_clear) s' =
      ((CN_CREDENTIAL_OK, Some (plain_credentials sample_credentials), None), s'')"
    using credential_load_clean [OF save(2) valid dir at sample_credentials_valid] by blast
  have "s'\<lparr>faults := []\<rparr> = s'" using save(2) by (cases s') simp
  then have "fs s'' = fs s'"
    using credential_save_load_roundtrip [OF wf save(1) disjI1 [OF refl], of cn_credentials_clear "[]"] load by simp
  then show ?thesis using load by blast
qed

text \<open>C33. The parser of the credentials accepts exactly what the serializer writes, and no change of one
  byte of a stored file goes unnoticed.\<close>

theorem credential_file_is_exact:
  "(parse_credentials data = Inr c \<longleftrightarrow> plain_credentials c = c \<and> serialize_credentials (Some c) = Inr data) \<and>
   (serialize_credentials (Some c) = Inr (xs @ a # ys) \<and> b \<noteq> a \<longrightarrow> (\<exists>r. parse_credentials (xs @ b # ys) = Inl r))"
proof -
  have "\<exists>r. parse_credentials (xs @ b # ys) = Inl r" if "serialize_credentials (Some c) = Inr (xs @ a # ys)" "b \<noteq> a"
  proof (cases "parse_credentials (xs @ b # ys)")
    case (Inr c')
    have "credential_image c = xs @ a # ys" using that(1) by (simp add: serialize_credentials_image split: if_splits)
    then have False
      using parse_credentials_Inr(1) [OF Inr] settings_trailer.one_byte_apart that(2)
      by (metis credential_image_def)
    then show ?thesis ..
  qed simp
  then show ?thesis
    using parse_credentials_Inr [of data c] parse_credentials_image [of c]
    by (auto simp: serialize_credentials_image split: if_splits)
qed

theorem credential_file_is_exact_witness:
  "parse_credentials (credential_image sample_credentials) = Inr sample_credentials"
proof -
  have "plain_credentials sample_credentials = sample_credentials"
    by (simp add: plain_credentials_def sample_credentials_def cstr_def)
  then show ?thesis
    using credential_file_is_exact [of "credential_image sample_credentials" sample_credentials]
    by (simp add: serialize_credentials_image sample_credentials_valid)
qed

end
