(* ===== verification/Storage_Layout.thy ===== *)
theory Storage_Layout
  imports Posix
begin

text \<open>
  The storage layout, src/storage/storage_layout.c: a normalized root and the directories
  \<open>config\<close>, \<open>state\<close> and \<open>state/progress\<close> below it.

  The error number is the last component of an outcome, \<open>None\<close> for the value 0.  A character array is
  the list of its bytes up to the NUL.
\<close>

datatype cn_storage_location = CN_STORAGE_LOCATION_CONFIG | CN_STORAGE_LOCATION_PROGRESS

datatype cn_storage_result =
  CN_STORAGE_OK | CN_STORAGE_INVALID | CN_STORAGE_PATH_TOO_LONG | CN_STORAGE_BUFFER_TOO_SMALL
  | CN_STORAGE_NOT_FOUND | CN_STORAGE_NOT_DIRECTORY | CN_STORAGE_SYMLINK | CN_STORAGE_PERMISSION_DENIED
  | CN_STORAGE_READ_ONLY | CN_STORAGE_CREATE_FAILED | CN_STORAGE_IO_ERROR

record cn_storage_layout =
  root :: bytes
  root_length :: nat

definition storage_path_capacity :: nat where "storage_path_capacity = 4096"
definition storage_path_max_bytes :: nat where "storage_path_max_bytes = storage_path_capacity - 1"

definition config_suffix :: bytes where "config_suffix = str ''/config''"
definition state_suffix :: bytes where "state_suffix = str ''/state''"
definition progress_suffix :: bytes where "progress_suffix = str ''/state/progress''"

definition inspection_error :: "errno \<Rightarrow> cn_storage_result" where
  "inspection_error error = (case error of
     ENOENT \<Rightarrow> CN_STORAGE_NOT_FOUND
   | ENOTDIR \<Rightarrow> CN_STORAGE_NOT_DIRECTORY
   | EACCES \<Rightarrow> CN_STORAGE_PERMISSION_DENIED
   | EPERM \<Rightarrow> CN_STORAGE_PERMISSION_DENIED
   | ENAMETOOLONG \<Rightarrow> CN_STORAGE_PATH_TOO_LONG
   | _ \<Rightarrow> CN_STORAGE_IO_ERROR)"

definition creation_error :: "errno \<Rightarrow> cn_storage_result" where
  "creation_error error = (case error of
     ENOTDIR \<Rightarrow> CN_STORAGE_NOT_DIRECTORY
   | EACCES \<Rightarrow> CN_STORAGE_PERMISSION_DENIED
   | EPERM \<Rightarrow> CN_STORAGE_PERMISSION_DENIED
   | EROFS \<Rightarrow> CN_STORAGE_READ_ONLY
   | ENAMETOOLONG \<Rightarrow> CN_STORAGE_PATH_TOO_LONG
   | _ \<Rightarrow> CN_STORAGE_CREATE_FAILED)"

definition storage_bounded_length :: "bytes option \<Rightarrow> cn_storage_result + nat" where
  "storage_bounded_length text' = (case text' of None \<Rightarrow> Inl CN_STORAGE_INVALID
     | Some t \<Rightarrow> let n = scan_nul t storage_path_capacity
         in if n < storage_path_capacity then Inr n else Inl CN_STORAGE_PATH_TOO_LONG)"

definition is_dot_component :: "bytes \<Rightarrow> nat \<Rightarrow> nat \<Rightarrow> bool" where
  "is_dot_component root' begin' end' =
     (let length' = end' - begin'
      in length' = 1 \<and> char_at root' begin' = of_char CHR ''.'' \<or>
         length' = 2 \<and> char_at root' begin' = of_char CHR ''.'' \<and> char_at root' (begin' + 1) = of_char CHR ''.'')"

text \<open>The loop over the positions, with the start of the current component.\<close>

fun component_loop :: "bytes \<Rightarrow> nat \<Rightarrow> nat \<Rightarrow> nat list \<Rightarrow> bool" where
  "component_loop root' length' component [] = True"
| "component_loop root' length' component (i # is) =
     (if i = length' \<or> char_at root' i = of_char CHR ''/'' then
        (if i = component \<or> is_dot_component root' component i then False
         else component_loop root' length' (i + 1) is)
      else component_loop root' length' component is)"

definition validate_normalized_root :: "bytes option \<Rightarrow> nat \<Rightarrow> cn_storage_result" where
  "validate_normalized_root root' length' = (case root' of None \<Rightarrow> CN_STORAGE_INVALID
     | Some r \<Rightarrow>
         if length' \<le> 1 \<or> char_at r 0 \<noteq> of_char CHR ''/'' \<or> char_at r (length' - 1) = of_char CHR ''/''
         then CN_STORAGE_INVALID
         else if \<not> component_loop r length' 1 [1..<length' + 1] then CN_STORAGE_INVALID
         else if length' > storage_path_max_bytes - length progress_suffix then CN_STORAGE_PATH_TOO_LONG
         else CN_STORAGE_OK)"

definition layout_valid :: "cn_storage_layout option \<Rightarrow> bool" where
  "layout_valid layout = (case layout of None \<Rightarrow> False
     | Some l \<Rightarrow>
         if root_length l = 0 \<or> root_length l \<ge> storage_path_capacity \<or>
            storage_bounded_length (Some (root l)) \<noteq> Inr (root_length l)
         then False
         else validate_normalized_root (Some (root l)) (root_length l) = CN_STORAGE_OK)"

definition inspect_directory :: "bytes \<Rightarrow> bool \<Rightarrow> os \<Rightarrow> (cn_storage_result \<times> errno option) \<times> os" where
  "inspect_directory path missing_is_ok s = (case sys_lstat path s of (r, s) \<Rightarrow>
     (case r of
        Inl error \<Rightarrow>
          if missing_is_ok \<and> error = ENOENT then ((CN_STORAGE_NOT_FOUND, None), s)
          else ((inspection_error error, Some error), s)
      | Inr st \<Rightarrow>
          if (case st_node st of Link _ \<Rightarrow> True | _ \<Rightarrow> False) then ((CN_STORAGE_SYMLINK, None), s)
          else if st_node st \<noteq> Directory then ((CN_STORAGE_NOT_DIRECTORY, None), s)
          else ((CN_STORAGE_OK, None), s)))"

text \<open>The path, or the reason there is none; \<open>out\<close> tells whether the output is not NULL.\<close>

definition build_path :: "cn_storage_layout option \<Rightarrow> bytes \<Rightarrow> bool \<Rightarrow> nat \<Rightarrow> cn_storage_result + bytes" where
  "build_path layout suffix out capacity =
     (if \<not> layout_valid layout \<or> \<not> out then Inl CN_STORAGE_INVALID
      else let required = root_length (the layout) + length suffix + 1
      in if capacity < required then Inl CN_STORAGE_BUFFER_TOO_SMALL
         else Inr (take (root_length (the layout)) (root (the layout)) @ suffix))"

definition ensure_directory :: "cn_storage_layout option \<Rightarrow> bytes \<Rightarrow> os \<Rightarrow> (cn_storage_result \<times> errno option) \<times> os" where
  "ensure_directory layout suffix s =
     (case build_path layout suffix True storage_path_capacity of
        Inl result \<Rightarrow> ((result, None), s)
      | Inr path \<Rightarrow>
          (case inspect_directory path True s of ((result, error), s) \<Rightarrow>
           if result = CN_STORAGE_OK \<or> result \<noteq> CN_STORAGE_NOT_FOUND then ((result, error), s)
           else (case sys_mkdir path s of
               (Inr _, s) \<Rightarrow> ((CN_STORAGE_OK, error), s)
             | (Inl error, s) \<Rightarrow>
                 if error \<noteq> EEXIST then ((creation_error error, Some error), s)
                 else inspect_directory path False s)))"

text \<open>Trailing slashes go, but not the first.\<close>

function strip_root :: "bytes \<Rightarrow> bytes" where
  "strip_root path = (if length path > 1 \<and> last path = of_char CHR ''/'' then strip_root (butlast path) else path)"
  by pat_completeness auto
termination by (relation "measure length") auto

declare strip_root.simps [simp del]

definition cn_storage_layout_init ::
  "bool \<Rightarrow> bytes option \<Rightarrow> os \<Rightarrow> (cn_storage_result \<times> errno option \<times> cn_storage_layout) \<times> os" where
  "cn_storage_layout_init layout root' s =
     (let blank = \<lparr>root = [], root_length = 0\<rparr> in
      if \<not> layout then ((CN_STORAGE_INVALID, None, blank), s)
      else case storage_bounded_length root' of
        Inl result \<Rightarrow> ((result, None, blank), s)
      | Inr length' \<Rightarrow>
          if length' = 0 \<or> char_at (the root') 0 \<noteq> of_char CHR ''/'' then ((CN_STORAGE_INVALID, None, blank), s)
          else let path = strip_root (take length' (the root'));
                   result = validate_normalized_root (Some path) (length path)
          in if result \<noteq> CN_STORAGE_OK then ((result, None, blank), s)
             else let candidate = \<lparr>root = path, root_length = length path\<rparr>
             in case inspect_directory (cstr (root candidate)) False s of ((result, error), s) \<Rightarrow>
                ((result, error, if result \<noteq> CN_STORAGE_OK then blank else candidate), s))"

text \<open>The outcome is the result and what \<open>out\<close> holds, nothing if it is NULL or has no room.\<close>

definition cn_storage_layout_path ::
  "cn_storage_layout option \<Rightarrow> cn_storage_location option \<Rightarrow> bool \<Rightarrow> nat \<Rightarrow> cn_storage_result \<times> bytes option" where
  "cn_storage_layout_path layout location out capacity =
     (let empty = (if out \<and> capacity > 0 then Some [] else None) in
      if \<not> out then (CN_STORAGE_INVALID, empty)
      else case location of None \<Rightarrow> (CN_STORAGE_INVALID, empty)
      | Some l \<Rightarrow>
          (case build_path layout (if l = CN_STORAGE_LOCATION_CONFIG then config_suffix else progress_suffix) out capacity of
             Inl result \<Rightarrow> (result, empty)
           | Inr path \<Rightarrow> (CN_STORAGE_OK, Some path)))"

definition cn_storage_layout_prepare ::
  "cn_storage_layout option \<Rightarrow> os \<Rightarrow> (cn_storage_result \<times> errno option) \<times> os" where
  "cn_storage_layout_prepare layout s =
     (if \<not> layout_valid layout then ((CN_STORAGE_INVALID, None), s)
      else case ensure_directory layout state_suffix s of ((result, error), s) \<Rightarrow>
        if result \<noteq> CN_STORAGE_OK then ((result, error), s)
        else (case ensure_directory layout progress_suffix s of ((result, error), s) \<Rightarrow>
          if result \<noteq> CN_STORAGE_OK then ((result, error), s)
          else ensure_directory layout config_suffix s))"

section \<open>Normalized roots\<close>

text \<open>The components of a path, and which of them a normalized path may have.\<close>

fun split_from :: "bytes \<Rightarrow> bytes \<Rightarrow> bytes list" where
  "split_from acc [] = [acc]"
| "split_from acc (c # cs) = (if c = of_char CHR ''/'' then acc # split_from [] cs else split_from (acc @ [c]) cs)"

definition proper :: "bytes \<Rightarrow> bool" where
  "proper component \<longleftrightarrow> component \<noteq> [] \<and> component \<noteq> str ''.'' \<and> component \<noteq> str ''..''"

definition normalized :: "bytes \<Rightarrow> bool" where
  "normalized path \<longleftrightarrow> (\<exists>rest. path = of_char CHR ''/'' # rest \<and> list_all proper (split_from [] rest))"

lemma not_proper_Nil [simp]: "\<not> proper []"
  by (simp add: proper_def)

lemma dot_component:
  assumes "component \<le> i" "i \<le> length r"
  shows "\<not> (i = component \<or> is_dot_component r component i) \<longleftrightarrow> proper (take (i - component) (drop component r))"
proof -
  have one: "take 1 (drop component r) = [char_at r component]" if "component < length r"
    using that take_Suc_conv_app_nth [of 0 "drop component r"] by (simp add: char_at_def)
  have two: "take 2 (drop component r) = [char_at r component, char_at r (component + 1)]" if "component + 1 < length r"
    using that by (simp add: char_at_def numeral_2_eq_2 take_Suc_conv_app_nth)
  have len: "length (take (i - component) (drop component r)) = i - component" using assms by simp
  consider "i = component" | "i = component + 1" | "i = component + 2" | "i > component + 2" using assms(1) by linarith
  then show ?thesis
  proof cases
    case 2
    then show ?thesis using one assms(2) by (simp add: is_dot_component_def proper_def)
  next
    case 3
    then show ?thesis using two assms(2) by (simp add: is_dot_component_def proper_def)
  next
    case 4
    have "take (i - component) (drop component r) \<noteq> str w" if "length w \<le> 2" for w
    proof
      assume "take (i - component) (drop component r) = str w"
      then have "i - component = length w" using len by simp
      then show False using 4 that by simp
    qed
    from this [of "''.''"] this [of "''..''"] show ?thesis using 4 len by (auto simp: is_dot_component_def proper_def Let_def)
  qed (simp add: proper_def)
qed

lemma component_loop_spec:
  assumes "component \<le> i" "i \<le> length r"
  shows "component_loop r (length r) component [i..<length r + 1] \<longleftrightarrow>
    list_all proper (split_from (take (i - component) (drop component r)) (drop i r))"
  using assms
proof (induction "length r - i" arbitrary: i component)
  case 0
  then have i: "i = length r" by simp
  have "\<not> proper []" by (simp add: proper_def)
  then show ?case using dot_component [of component i r] 0 by (auto simp: i)
next
  case (Suc n)
  then have lt: "i < length r" by simp
  have u: "[i..<length r + 1] = i # [i + 1..<length r + 1]" using lt by (simp add: upt_conv_Cons)
  have d: "drop i r = char_at r i # drop (i + 1) r" using lt by (simp add: char_at_def Cons_nth_drop_Suc)
  have n: "n = length r - (i + 1)" using Suc(2) by simp
  show ?case
  proof (cases "char_at r i = of_char CHR ''/''")
    case True
    then show ?thesis
      unfolding u d using Suc(1) [OF n, of "i + 1"] dot_component [OF Suc(3,4)] lt not_proper_Nil
      by (cases "proper (take (i - component) (drop component r))") auto
  next
    case False
    have "take (i - component) (drop component r) @ [char_at r i] = take (i + 1 - component) (drop component r)"
      using lt Suc(3) by (simp add: char_at_def Suc_diff_le take_Suc_conv_app_nth)
    then show ?thesis
      unfolding u d using Suc(1) [OF n, of component] False lt Suc(3) by simp
  qed
qed


lemma root_head: "char_at r 0 = of_char CHR ''/'' \<longleftrightarrow> (\<exists>rest. r = of_char CHR ''/'' # rest)"
  by (cases r) (auto simp: char_at_def)

lemma split_from_append:
  "split_from acc (xs @ of_char CHR ''/'' # ys) = split_from acc xs @ split_from [] ys"
  by (induction acc xs rule: split_from.induct) auto

lemma split_from_last: "split_from acc (cs @ [of_char CHR ''/'']) = split_from acc cs @ [[]]"
  by (induction acc cs rule: split_from.induct) auto

lemma normalized_no_slash: "normalized path \<Longrightarrow> 1 < length path \<and> last path \<noteq> of_char CHR ''/''"
proof -
  assume "normalized path"
  then obtain rest where r: "path = of_char CHR ''/'' # rest" "list_all proper (split_from [] rest)"
    by (auto simp: normalized_def)
  have "rest \<noteq> []" using r(2) by (auto simp: proper_def)
  moreover have "last rest \<noteq> of_char CHR ''/''"
  proof
    assume "last rest = of_char CHR ''/''"
    then have "rest = butlast rest @ [of_char CHR ''/'']" using \<open>rest \<noteq> []\<close> by (metis append_butlast_last_id)
    then have "split_from [] rest = split_from [] (butlast rest) @ [[]]" by (metis split_from_last)
    then show False using r(2) by (simp add: proper_def)
  qed
  ultimately show ?thesis using r(1) by simp
qed

lemma validate_normalized:
  "validate_normalized_root (Some r) (length r) =
     (if \<not> normalized r then CN_STORAGE_INVALID
      else if length r > storage_path_max_bytes - length progress_suffix then CN_STORAGE_PATH_TOO_LONG
      else CN_STORAGE_OK)"
proof -
  have loop: "normalized r \<longleftrightarrow> char_at r 0 = of_char CHR ''/'' \<and> component_loop r (length r) 1 [1..<length r + 1]"
    if "1 < length r"
    using component_loop_spec [of 1 1 r] that by (cases r) (auto simp: normalized_def char_at_def)
  have last: "char_at r (length r - 1) = last r" if "1 < length r"
    using that by (cases "r = []") (auto simp: char_at_def last_conv_nth)
  show ?thesis
  proof (cases "1 < length r \<and> char_at r 0 = of_char CHR ''/'' \<and> last r \<noteq> of_char CHR ''/''")
    case True
    then show ?thesis using loop last by (simp add: validate_normalized_root_def)
  next
    case False
    then have "\<not> normalized r" using normalized_no_slash [of r] loop by auto
    then show ?thesis using False last by (cases "1 < length r") (auto simp: validate_normalized_root_def not_less)
  qed
qed

text \<open>A valid layout, and the paths under it.\<close>

lemma layout_valid_iff:
  assumes "terminated (root l)"
  shows "layout_valid (Some l) \<longleftrightarrow> root_length l = length (root l) \<and> normalized (root l) \<and>
     length (root l) \<le> storage_path_max_bytes - length progress_suffix"
proof -
  have "layout_valid (Some l) \<longleftrightarrow> root_length l = length (root l) \<and> 0 < length (root l) \<and>
      length (root l) < storage_path_capacity \<and> validate_normalized_root (Some (root l)) (length (root l)) = CN_STORAGE_OK"
    using assms by (auto simp: layout_valid_def storage_bounded_length_def scan_nul_terminated Let_def split: if_splits)
  then show ?thesis
    using normalized_no_slash [of "root l"]
    by (auto simp: validate_normalized storage_path_capacity_def storage_path_max_bytes_def)
qed

lemma build_path_valid:
  assumes "terminated (root l)" "layout_valid (Some l)"
  shows "build_path (Some l) suffix out capacity =
    (if \<not> out then Inl CN_STORAGE_INVALID
     else if capacity < length (root l) + length suffix + 1 then Inl CN_STORAGE_BUFFER_TOO_SMALL
     else Inr (root l @ suffix))"
  using assms layout_valid_iff [OF assms(1)] by (simp add: build_path_def)

section \<open>Creating directories\<close>

text \<open>
  Nothing that was there has changed, and what is new is a directory with one of the given names; the
  descriptors are as they were.
\<close>

definition grown :: "bytes set \<Rightarrow> os \<Rightarrow> os \<Rightarrow> bool" where
  "grown new s0 s \<longleftrightarrow> wf_os s \<and> fds s = fds s0 \<and>
     (\<forall>q i. names (fs s0) q = Some i \<longrightarrow> names (fs s) q = Some i \<and> inodes (fs s) i = inodes (fs s0) i) \<and>
     (\<forall>q. names (fs s0) q = None \<and> names (fs s) q \<noteq> None \<longrightarrow> q \<in> new \<and> directory_at (fs s) q)"

lemma grown_start: "wf_os s \<Longrightarrow> grown new s s"
  by (auto simp: grown_def)

lemma grown_quiet: "grown new s0 s \<Longrightarrow> quiet s s' \<Longrightarrow> grown new s0 s'"
  by (simp add: grown_def quiet_def)

lemma wf_mkdir:
  assumes "wf_os s" "names (fs s) path = None"
  shows "wf_os (s\<lparr>fs := \<lparr>names = (names (fs s))(path \<mapsto> next_inode s), inodes = (inodes (fs s))(next_inode s := Directory)\<rparr>,
    next_inode := Suc (next_inode s)\<rparr>)"
  using assms wf_fresh [OF assms(1)] by (auto simp: wf_os_def less_SucI split: if_splits)

lemma grown_mkdir:
  assumes "grown new s0 s" "sys_mkdir path s = (r, s')" "path \<in> new"
  shows "grown new s0 s'" and "r = Inr u \<Longrightarrow> directory_at (fs s') path" and "r = Inl EEXIST \<Longrightarrow> fs s' = fs s"
    and "directory_at (fs s) q \<Longrightarrow> directory_at (fs s') q"
proof -
  have wf: "wf_os s" using assms(1) by (simp add: grown_def)
  define t where "t = s\<lparr>fs := \<lparr>names = (names (fs s))(path \<mapsto> next_inode s),
    inodes = (inodes (fs s))(next_inode s := Directory)\<rparr>, next_inode := Suc (next_inode s)\<rparr>"
  have shape: "(\<exists>e. r = Inl e \<and> s' = leave s) \<or> (r = Inr () \<and> names (fs s) path = None \<and> s' = leave t)"
    using assms(2) unfolding sys_mkdir_def t_def by (cases rule: call_cases) (auto split: option.splits)
  have old: "i < next_inode s" if "names (fs s) p = Some i" for p i using wf that by (auto simp: wf_os_def)
  have "grown new s0 (leave t)" if "names (fs s) path = None"
    using assms(1,3) wf_mkdir [OF wf that] that old
    by (fastforce simp: grown_def t_def directory_at_def split: option.splits)
  then show "grown new s0 s'" using shape assms(1) wf by (auto simp: grown_def)
  show "r = Inr u \<Longrightarrow> directory_at (fs s') path" "r = Inl EEXIST \<Longrightarrow> fs s' = fs s"
    using shape by (auto simp: t_def directory_at_def)
  show "directory_at (fs s) q \<Longrightarrow> directory_at (fs s') q"
    using shape old by (fastforce simp: t_def directory_at_def split: option.splits)
qed

lemma inspect_directory_effect:
  assumes "inspect_directory path b s = ((result, error), s')"
  shows "quiet s s'" and "result = CN_STORAGE_OK \<Longrightarrow> directory_at (fs s) path"
    and "result = CN_STORAGE_NOT_FOUND \<Longrightarrow> True"
proof -
  obtain r t where l: "sys_lstat path s = (r, t)" by fastforce
  show "quiet s s'"
    using assms l sys_lstat_quiet [OF l] by (auto simp: inspect_directory_def split: sum.splits if_splits node.splits)
  have "\<exists>i. names (fs s) path = Some i \<and> st_node st = inodes (fs s) i" if "r = Inr st" for st
    using l that unfolding sys_lstat_def by (auto elim!: call_cases simp: make_stat_def split: option.splits)
  then show "result = CN_STORAGE_OK \<Longrightarrow> directory_at (fs s) path"
    using assms l
    by (cases r) (auto simp: inspect_directory_def inspection_error_def directory_at_def split: if_splits node.splits errno.splits)
qed simp

lemma ensure_directory_effect:
  assumes "ensure_directory (Some l) suffix s = ((result, error), s')" "grown new s0 s" "root l @ suffix \<in> new"
    and "terminated (root l)" "layout_valid (Some l)"
  shows "grown new s0 s'" and "result = CN_STORAGE_OK \<Longrightarrow> directory_at (fs s') (root l @ suffix)"
    and "directory_at (fs s) q \<Longrightarrow> directory_at (fs s') q"
proof -
  obtain r1 e1 s1 where i: "inspect_directory (root l @ suffix) True s = ((r1, e1), s1)" by (metis prod.collapse)
  obtain r2 s2 where m: "sys_mkdir (root l @ suffix) s1 = (r2, s2)" by fastforce
  obtain r3 e3 s3 where j: "inspect_directory (root l @ suffix) False s2 = ((r3, e3), s3)" by (metis prod.collapse)
  note i' = inspect_directory_effect [OF i]
  note j' = inspect_directory_effect [OF j]
  have f: "fs s1 = fs s" using i'(1) by (simp add: quiet_def)
  have g1: "grown new s0 s1" using grown_quiet [OF assms(2) i'(1)] .
  note m' = grown_mkdir [OF g1 m assms(3)]
  have g3: "grown new s0 s3" using grown_quiet [OF m'(1) j'(1)] .
  have f3: "fs s3 = fs s2" using j'(1) by (simp add: quiet_def)
  have create: "creation_error x \<noteq> CN_STORAGE_OK" for x by (simp add: creation_error_def split: errno.splits)
  have "result = CN_STORAGE_OK \<and> s' = s1 \<and> r1 = CN_STORAGE_OK \<or> result \<noteq> CN_STORAGE_OK \<and> (s' = s \<or> s' = s1 \<or> s' = s2) \<or>
    (\<exists>u. r2 = Inr u) \<and> s' = s2 \<or> s' = s3 \<and> result = r3"
    using assms(1) i m j create build_path_valid [OF assms(4,5), of suffix True]
    by (auto simp: ensure_directory_def split: if_splits sum.splits)
  then show "grown new s0 s'" "result = CN_STORAGE_OK \<Longrightarrow> directory_at (fs s') (root l @ suffix)"
    "directory_at (fs s) q \<Longrightarrow> directory_at (fs s') q"
    using assms(2) g1 m' g3 i'(2) j'(2) f f3 by auto
qed


definition layout_names :: "cn_storage_layout \<Rightarrow> bytes set" where
  "layout_names l = {root l @ state_suffix, root l @ progress_suffix, root l @ config_suffix}"

definition prepared :: "cn_storage_layout \<Rightarrow> os \<Rightarrow> bool" where
  "prepared l s \<longleftrightarrow> directory_at (fs s) (root l @ state_suffix) \<and> directory_at (fs s) (root l @ progress_suffix) \<and>
     directory_at (fs s) (root l @ config_suffix)"

lemma prepare_effect:
  assumes "cn_storage_layout_prepare (Some l) s = ((result, error), s')" "wf_os s" "terminated (root l)" "layout_valid (Some l)"
  shows "grown (layout_names l) s s' \<and> (result = CN_STORAGE_OK \<longrightarrow> prepared l s')"
proof -
  obtain r1 e1 s1 where 1: "ensure_directory (Some l) state_suffix s = ((r1, e1), s1)" by (metis prod.collapse)
  obtain r2 e2 s2 where 2: "ensure_directory (Some l) progress_suffix s1 = ((r2, e2), s2)" by (metis prod.collapse)
  obtain r3 e3 s3 where 3: "ensure_directory (Some l) config_suffix s2 = ((r3, e3), s3)" by (metis prod.collapse)
  note g1 = ensure_directory_effect [OF 1 grown_start [OF assms(2)] _ assms(3,4), of "layout_names l"]
  have n: "root l @ state_suffix \<in> layout_names l" "root l @ progress_suffix \<in> layout_names l"
    "root l @ config_suffix \<in> layout_names l" by (simp_all add: layout_names_def)
  note g1 = g1 [OF n(1)]
  note g2 = ensure_directory_effect [OF 2 g1(1) n(2) assms(3,4)]
  note g3 = ensure_directory_effect [OF 3 g2(1) n(3) assms(3,4)]
  have "result \<noteq> CN_STORAGE_OK \<and> (s' = s1 \<or> s' = s2) \<or> s' = s3 \<and> r1 = CN_STORAGE_OK \<and> r2 = CN_STORAGE_OK \<and> result = r3"
    using assms(1,4) 1 2 3 by (auto simp: cn_storage_layout_prepare_def split: if_splits)
  then show ?thesis using g1 g2 g3 by (auto simp: prepared_def)
qed

lemma inspect_clean:
  "faults s = [] \<Longrightarrow> directory_at (fs s) path \<Longrightarrow> inspect_directory path b s = ((CN_STORAGE_OK, None), leave s)"
  by (auto simp: inspect_directory_def sys_lstat_def call_clean directory_at_def make_stat_def split: option.splits)

lemma ensure_clean:
  assumes "faults s = []" "directory_at (fs s) (root l @ suffix)" "terminated (root l)" "layout_valid (Some l)"
    and "length suffix \<le> length progress_suffix"
  shows "ensure_directory (Some l) suffix s = ((CN_STORAGE_OK, None), leave s)"
proof -
  have "build_path (Some l) suffix True storage_path_capacity = Inr (root l @ suffix)"
    using build_path_valid [OF assms(3,4)] assms(5) layout_valid_iff [OF assms(3)] assms(4)
    by (simp add: storage_path_max_bytes_def storage_path_capacity_def progress_suffix_def)
  then show ?thesis using inspect_clean [OF assms(1,2)] by (simp add: ensure_directory_def)
qed

lemma prepare_clean:
  assumes "faults s = []" "prepared l s" "terminated (root l)" "layout_valid (Some l)"
  shows "cn_storage_layout_prepare (Some l) s = ((CN_STORAGE_OK, None), leave (leave (leave s)))"
proof -
  have "length state_suffix \<le> length progress_suffix" "length config_suffix \<le> length progress_suffix"
    by (simp_all add: state_suffix_def progress_suffix_def config_suffix_def)
  then show ?thesis
    using assms ensure_clean [of s l state_suffix] ensure_clean [of "leave s" l progress_suffix]
      ensure_clean [of "leave (leave s)" l config_suffix]
    by (simp add: cn_storage_layout_prepare_def prepared_def)
qed

section \<open>Properties\<close>

text \<open>C18. A root is accepted exactly when it is normalized: an absolute path with at least one component,
  none of them empty or made of one or two dots; and it must leave room for the longest of the paths.\<close>

theorem storage_root_validation_exact:
  "validate_normalized_root (Some r) (length r) =
     (if \<not> normalized r then CN_STORAGE_INVALID
      else if length r > storage_path_max_bytes - length progress_suffix then CN_STORAGE_PATH_TOO_LONG
      else CN_STORAGE_OK)"
  by (rule validate_normalized)

text \<open>C19. Preparing the layout is safe under every schedule of failures: all that was there stays as it
  was, every new name is one of the three directories, every descriptor is given back, and an answer OK
  means that the three directories exist.\<close>

theorem storage_prepare_only_adds:
  assumes "wf_os s" "terminated (root l)" "layout_valid (Some l)"
  shows "case cn_storage_layout_prepare (Some l) s of ((result, error), s') \<Rightarrow>
    grown (layout_names l) s s' \<and> (result \<noteq> CN_STORAGE_OK \<or> prepared l s')"
  using prepare_effect [OF _ assms] by (auto split: prod.splits)

definition sample_layout :: cn_storage_layout where
  "sample_layout = \<lparr>root = str ''/r'', root_length = 2\<rparr>"

lemma sample_layout_valid: "terminated (root sample_layout)" "layout_valid (Some sample_layout)"
proof -
  show t: "terminated (root sample_layout)" by (simp add: sample_layout_def)
  have "normalized (root sample_layout)" by (simp add: sample_layout_def normalized_def proper_def)
  then show "layout_valid (Some sample_layout)"
    unfolding layout_valid_iff [OF t]
    by (simp add: sample_layout_def storage_path_max_bytes_def storage_path_capacity_def progress_suffix_def)
qed

theorem storage_prepare_only_adds_witness:
  "grown (layout_names sample_layout) (directory_disk (str ''/r'') [Normal, Fail ENOSPC])
     (snd (cn_storage_layout_prepare (Some sample_layout) (directory_disk (str ''/r'') [Normal, Fail ENOSPC])))"
  using storage_prepare_only_adds [OF _ sample_layout_valid, of "directory_disk (str ''/r'') [Normal, Fail ENOSPC]"]
  by (auto split: prod.splits)

text \<open>Preparing is idempotent: a second preparation, run with no fault after one that answered OK,
  answers OK and leaves every file as it is.\<close>

theorem storage_prepare_idempotent:
  assumes "wf_os s" "terminated (root l)" "layout_valid (Some l)"
    and "cn_storage_layout_prepare (Some l) s = ((CN_STORAGE_OK, error), s')"
  shows "\<exists>s''. cn_storage_layout_prepare (Some l) (s'\<lparr>faults := []\<rparr>) = ((CN_STORAGE_OK, None), s'') \<and> fs s'' = fs s'"
proof -
  have "prepared l (s'\<lparr>faults := []\<rparr>)" using prepare_effect [OF assms(4,1,2,3)] by (simp add: prepared_def)
  then show ?thesis using prepare_clean [of "s'\<lparr>faults := []\<rparr>"] assms(2,3) by simp
qed

definition prepared_disk :: os where
  "prepared_disk = \<lparr>fs = \<lparr>names = [str ''/r/state'' \<mapsto> 0, str ''/r/state/progress'' \<mapsto> 1, str ''/r/config'' \<mapsto> 2],
     inodes = \<lambda>_. Directory\<rparr>, fds = \<lambda>_. None, next_inode = 3, next_fd = 3, pid = str ''42'', faults = [], history = []\<rparr>"

theorem storage_prepare_idempotent_witness:
  "\<exists>s' s''. cn_storage_layout_prepare (Some sample_layout) s' = ((CN_STORAGE_OK, None), s'') \<and> fs s'' = fs s'"
proof -
  have w: "wf_os prepared_disk" by (auto simp: prepared_disk_def wf_os_def split: if_splits)
  have p: "prepared sample_layout prepared_disk"
    by (simp add: prepared_def prepared_disk_def sample_layout_def directory_at_def state_suffix_def progress_suffix_def
        config_suffix_def)
  have f: "faults prepared_disk = []" by (simp add: prepared_disk_def)
  define s' where "s' = leave (leave (leave prepared_disk))"
  have "cn_storage_layout_prepare (Some sample_layout) prepared_disk = ((CN_STORAGE_OK, None), s')"
    unfolding s'_def by (rule prepare_clean [OF f p sample_layout_valid])
  from storage_prepare_idempotent [OF w sample_layout_valid this] show ?thesis
    by (elim exE conjE) (intro exI [of _ "s'\<lparr>faults := []\<rparr>"] exI conjI, assumption, simp)
qed



end
