(* ===== verification/Device_Identity.thy ===== *)
theory Device_Identity
  imports Storage_Layout Settings_Store Checked_File
begin

text \<open>
  The identity of the installation, src/identity/device_identity.c: sixteen random bytes, kept as a text
  file of three lines, the last of which is the CRC-32 of the others.  The file is made once, in place,
  under a name that must be free; it is never written again.

  The error number is the last component of an outcome, \<open>None\<close> for the value 0.  Where the code reports
  \<open>errno\<close> after calls that did not fail, its value is not determined; it is the parameter \<open>stale\<close>.
\<close>

section \<open>Types\<close>

datatype cn_device_identity_result =
  CN_DEVICE_ID_OK | CN_DEVICE_ID_CREATED | CN_DEVICE_ID_INVALID_ARGUMENT | CN_DEVICE_ID_BUFFER_TOO_SMALL
  | CN_DEVICE_ID_NOT_FOUND | CN_DEVICE_ID_MALFORMED | CN_DEVICE_ID_UNSUPPORTED_VERSION
  | CN_DEVICE_ID_BAD_CHECKSUM | CN_DEVICE_ID_ENTROPY_FAILED | CN_DEVICE_ID_PATH_TOO_LONG
  | CN_DEVICE_ID_NOT_DIRECTORY | CN_DEVICE_ID_SYMLINK | CN_DEVICE_ID_NON_REGULAR
  | CN_DEVICE_ID_PERMISSION_DENIED | CN_DEVICE_ID_READ_ONLY | CN_DEVICE_ID_NO_SPACE | CN_DEVICE_ID_IO_ERROR
  | CN_DEVICE_ID_DURABILITY_UNCERTAIN

text \<open>
  What /dev/urandom does: whether it opens, what its reads answer, and whether it closes.  A callback
  for entropy is the function from the number of bytes wanted to the bytes it wrote, or \<open>None\<close> where it
  returns another value than 0.
\<close>

record urandom =
  urandom_opens :: bool
  urandom_reads :: "(errno + bytes) list"
  urandom_closes :: bool

record cn_device_identity_store =
  identity_path :: bytes
  identity_path_length :: nat
  identity_entropy :: "(nat \<Rightarrow> bytes option) option"

definition device_id_bytes :: nat where "device_id_bytes = 16"
definition device_id_text_length :: nat where "device_id_text_length = 32"
definition device_id_text_capacity :: nat where "device_id_text_capacity = device_id_text_length + 1"
definition device_id_file_max_bytes :: nat where "device_id_file_max_bytes = 128"
definition device_id_file_suffix :: bytes where "device_id_file_suffix = str ''/device-id''"
definition device_id_version_line :: bytes where "device_id_version_line = str ''crossnook-device-identity=1'' @ [newline]"
definition device_id_id_prefix :: bytes where "device_id_id_prefix = str ''id=''"
definition device_id_crc_prefix :: bytes where "device_id_crc_prefix = str ''crc32=''"

definition identity_bounded_length :: "bytes \<Rightarrow> nat \<Rightarrow> nat option" where
  "identity_bounded_length text' capacity =
     (let n = scan_nul text' capacity in if n < capacity then Some n else None)"

definition identity_filesystem_error :: "errno \<Rightarrow> cn_device_identity_result" where
  "identity_filesystem_error error = (case error of
     ENOENT \<Rightarrow> CN_DEVICE_ID_NOT_FOUND
   | ENOTDIR \<Rightarrow> CN_DEVICE_ID_NOT_DIRECTORY
   | ELOOP \<Rightarrow> CN_DEVICE_ID_SYMLINK
   | EACCES \<Rightarrow> CN_DEVICE_ID_PERMISSION_DENIED
   | EPERM \<Rightarrow> CN_DEVICE_ID_PERMISSION_DENIED
   | EROFS \<Rightarrow> CN_DEVICE_ID_READ_ONLY
   | ENOSPC \<Rightarrow> CN_DEVICE_ID_NO_SPACE
   | EDQUOT \<Rightarrow> CN_DEVICE_ID_NO_SPACE
   | ENAMETOOLONG \<Rightarrow> CN_DEVICE_ID_PATH_TOO_LONG
   | _ \<Rightarrow> CN_DEVICE_ID_IO_ERROR)"

definition identity_store_valid :: "cn_device_identity_store option \<Rightarrow> bool" where
  "identity_store_valid store = (case store of None \<Rightarrow> False
     | Some st \<Rightarrow>
         identity_path_length st > 1 \<and> identity_path_length st < storage_path_capacity \<and>
         identity_bounded_length (identity_path st) storage_path_capacity = Some (identity_path_length st) \<and>
         char_at (identity_path st) 0 = of_char CHR ''/'' \<and>
         char_at (identity_path st) (identity_path_length st - 1) \<noteq> of_char CHR ''/'')"

definition inspect_config :: "bytes \<Rightarrow> os \<Rightarrow> (cn_device_identity_result \<times> errno option) \<times> os" where
  "inspect_config path s = (case sys_lstat path s of
     (Inl error, s) \<Rightarrow> ((identity_filesystem_error error, Some error), s)
   | (Inr info, s) \<Rightarrow>
       (case st_node info of
          Link _ \<Rightarrow> ((CN_DEVICE_ID_SYMLINK, None), s)
        | Directory \<Rightarrow> ((CN_DEVICE_ID_OK, None), s)
        | _ \<Rightarrow> ((CN_DEVICE_ID_NOT_DIRECTORY, None), s)))"

definition inspect_identity_file :: "bytes \<Rightarrow> os \<Rightarrow> (cn_device_identity_result \<times> errno option \<times> stat option) \<times> os" where
  "inspect_identity_file path s = (case sys_lstat path s of
     (Inl error, s) \<Rightarrow>
       if error = ENOENT then ((CN_DEVICE_ID_NOT_FOUND, None, None), s)
       else ((identity_filesystem_error error, Some error, None), s)
   | (Inr info, s) \<Rightarrow>
       (case st_node info of
          Link _ \<Rightarrow> ((CN_DEVICE_ID_SYMLINK, None, Some info), s)
        | Regular _ _ \<Rightarrow> ((CN_DEVICE_ID_OK, None, Some info), s)
        | _ \<Rightarrow> ((CN_DEVICE_ID_NON_REGULAR, None, Some info), s)))"

section \<open>The file format\<close>

definition identity_version_name :: bytes where
  "identity_version_name = str ''crossnook-device-identity=''"

definition parse_identity :: "bytes \<Rightarrow> cn_device_identity_result + bytes" where
  "parse_identity data =
     (if data = [] \<or> length data > device_id_file_max_bytes \<or> 0 \<in> set data then Inl CN_DEVICE_ID_MALFORMED
      else case more_lines 3 data of None \<Rightarrow> Inl CN_DEVICE_ID_MALFORMED
      | Some (lines, rest) \<Rightarrow>
     if rest \<noteq> [] \<or> length (lines ! 0) < length identity_version_name \<or>
        take (length identity_version_name) (lines ! 0) \<noteq> identity_version_name
     then Inl CN_DEVICE_ID_MALFORMED
     else if length (lines ! 0) \<noteq> length device_id_version_line - 1 \<or>
        lines ! 0 \<noteq> take (length device_id_version_line - 1) device_id_version_line
     then Inl CN_DEVICE_ID_UNSUPPORTED_VERSION
     else if length (lines ! 1) \<noteq> length device_id_id_prefix + device_id_text_length \<or>
        take (length device_id_id_prefix) (lines ! 1) \<noteq> device_id_id_prefix
     then Inl CN_DEVICE_ID_MALFORMED
     else let output = drop (length device_id_id_prefix) (lines ! 1) in
     if \<not> list_all lower_hex output then Inl CN_DEVICE_ID_MALFORMED
     else if length (lines ! 2) \<noteq> length device_id_crc_prefix + 8 \<or>
        take (length device_id_crc_prefix) (lines ! 2) \<noteq> device_id_crc_prefix
     then Inl CN_DEVICE_ID_MALFORMED
     else case crc_digits 0 (drop (length device_id_crc_prefix) (lines ! 2)) of
        None \<Rightarrow> Inl CN_DEVICE_ID_MALFORMED
      | Some expected \<Rightarrow>
     if expected = crc32 (take (length data - (length (lines ! 2) + 1)) data) then Inr output
     else Inl CN_DEVICE_ID_BAD_CHECKSUM)"

definition identity_hex :: "bytes \<Rightarrow> bytes" where
  "identity_hex random_bytes =
     concat (map (\<lambda>b. [hex_digit (unat (drop_bit 4 b)), hex_digit (unat (b AND 15))]) random_bytes)"

text \<open>The identity and the file, or \<open>None\<close> where the code returns the size 0.\<close>

definition serialize_identity :: "bytes \<Rightarrow> (bytes \<times> bytes) option" where
  "serialize_identity random_bytes =
     (let output = identity_hex random_bytes;
          body = device_id_version_line @ device_id_id_prefix @ output @ [newline]
      in if length body + (length device_id_crc_prefix + 1) + 8 \<ge> device_id_file_max_bytes then None
         else Some (output, body @ device_id_crc_prefix @ crc_hex (crc32 body) @ [newline]))"

section \<open>Reading\<close>

definition identity_refusal :: "refusal \<Rightarrow> cn_device_identity_result \<times> errno option" where
  "identity_refusal r = (case r of
     Refused error \<Rightarrow> (identity_filesystem_error error, Some error)
   | Not_regular \<Rightarrow> (CN_DEVICE_ID_IO_ERROR, None)
   | Other_file \<Rightarrow> (CN_DEVICE_ID_IO_ERROR, None)
   | _ \<Rightarrow> (CN_DEVICE_ID_MALFORMED, None))"

text \<open>The outcome: the result, the identity (empty unless it is OK) and the error number.\<close>

definition read_existing :: "cn_device_identity_store \<Rightarrow> os \<Rightarrow> (cn_device_identity_result \<times> bytes \<times> errno option) \<times> os" where
  "read_existing st s = (let path = cstr (identity_path st) in
     case inspect_identity_file path s of
       ((result, error, before), s) \<Rightarrow>
         if result \<noteq> CN_DEVICE_ID_OK then ((result, [], error), s)
         else if st_size (the before) = 0 \<or> st_size (the before) > device_id_file_max_bytes
         then ((CN_DEVICE_ID_MALFORMED, [], None), s)
         else (case sys_open_read True False path s of
           (Inl error, s) \<Rightarrow> ((identity_filesystem_error error, [], Some error), s)
         | (Inr fd, s) \<Rightarrow>
             (case read_checked fd (the before) device_id_file_max_bytes s of
                (Inl r, s) \<Rightarrow> (case identity_refusal r of (result, error) \<Rightarrow> ((result, [], error), snd (sys_close fd s)))
              | (Inr data, s) \<Rightarrow>
                  (case parse_identity data of
                     Inl result \<Rightarrow> ((result, [], None), snd (sys_close fd s))
                   | Inr output \<Rightarrow>
                       (case sys_close fd s of
                          (Inl error, s) \<Rightarrow> ((CN_DEVICE_ID_IO_ERROR, [], Some error), s)
                        | (Inr _, s) \<Rightarrow> ((CN_DEVICE_ID_OK, output, None), s))))))"

section \<open>Creating\<close>

fun urandom_loop :: "nat \<Rightarrow> bytes \<Rightarrow> (errno + bytes) list \<Rightarrow> bytes option" where
  "urandom_loop wanted output replies =
     (if length output < wanted then
        (case replies of
           [] \<Rightarrow> None
         | Inl error # replies \<Rightarrow> if error = EINTR then urandom_loop wanted output replies else None
         | Inr got # replies \<Rightarrow>
             if got = [] then None
             else urandom_loop wanted (output @ take (wanted - length output) got) replies)
      else Some output)"

declare urandom_loop.simps [simp del]

definition production_entropy :: "urandom \<Rightarrow> nat \<Rightarrow> bytes option" where
  "production_entropy device wanted =
     (if wanted \<noteq> device_id_bytes \<or> \<not> urandom_opens device then None
      else case urandom_loop wanted [] (urandom_reads device) of
        None \<Rightarrow> None
      | Some output \<Rightarrow> if \<not> urandom_closes device then None else Some output)"

text \<open>The directory of a path: what stands before its last slash.\<close>

definition directory_of :: "bytes \<Rightarrow> bytes option" where
  "directory_of path =
     (if of_char CHR ''/'' \<notin> set path then None
      else Some (rev (tl (dropWhile (\<lambda>c. c \<noteq> of_char CHR ''/'') (rev path)))))"

text \<open>\<open>saved\<close> is the error number so far, which a step that sets none leaves as it is.\<close>

definition sync_identity_directory :: "bytes \<Rightarrow> errno option \<Rightarrow> errno option \<Rightarrow> os \<Rightarrow>
    (cn_device_identity_result \<times> errno option) \<times> os" where
  "sync_identity_directory path stale saved s = (case directory_of path of
     None \<Rightarrow> ((CN_DEVICE_ID_DURABILITY_UNCERTAIN, saved), s)
   | Some directory' \<Rightarrow>
       if length directory' = 0 \<or> length directory' \<ge> storage_path_capacity
       then ((CN_DEVICE_ID_DURABILITY_UNCERTAIN, saved), s)
       else (case sys_lstat directory' s of
         (Inl error, s) \<Rightarrow> ((CN_DEVICE_ID_DURABILITY_UNCERTAIN, Some error), s)
       | (Inr before, s) \<Rightarrow>
           (case sync_checked directory' before s of
              (Synced, s) \<Rightarrow> ((CN_DEVICE_ID_CREATED, saved), s)
            | (Unsynced error, s) \<Rightarrow>
                ((CN_DEVICE_ID_DURABILITY_UNCERTAIN, if error = None then stale else error), s))))"

definition write_new :: "cn_device_identity_store \<Rightarrow> bytes \<Rightarrow> errno option \<Rightarrow> errno option \<Rightarrow> os \<Rightarrow>
    (cn_device_identity_result \<times> errno option) \<times> os" where
  "write_new st data stale saved s = (let path = cstr (identity_path st) in
     case sys_create path s of
       (Inl error, s) \<Rightarrow>
         ((if error = EEXIST then CN_DEVICE_ID_IO_ERROR else identity_filesystem_error error, Some error), s)
     | (Inr fd, s) \<Rightarrow>
         (case write_bytes fd data s of
            (Some error, s) \<Rightarrow>
              ((identity_filesystem_error error, Some error), snd (sys_unlink path (snd (sys_close fd s))))
          | (None, s) \<Rightarrow>
              (case sys_fsync fd s of
                 (Inl error, s) \<Rightarrow> ((CN_DEVICE_ID_DURABILITY_UNCERTAIN, Some error), snd (sys_close fd s))
               | (Inr _, s) \<Rightarrow>
                   (case sys_close fd s of
                      (Inl error, s) \<Rightarrow> ((CN_DEVICE_ID_DURABILITY_UNCERTAIN, Some error), s)
                    | (Inr _, s) \<Rightarrow> sync_identity_directory path stale saved s))))"

section \<open>Operations\<close>

definition cn_device_identity_store_init :: "bool \<Rightarrow> cn_storage_layout option \<Rightarrow> (nat \<Rightarrow> bytes option) option \<Rightarrow> os \<Rightarrow>
    (cn_device_identity_result \<times> cn_device_identity_store) \<times> os" where
  "cn_device_identity_store_init store layout entropy s =
     (let blank = \<lparr>identity_path = [], identity_path_length = 0, identity_entropy = None\<rparr> in
      if \<not> store \<or> layout = None then ((CN_DEVICE_ID_INVALID_ARGUMENT, blank), s)
      else case cn_storage_layout_path layout (Some CN_STORAGE_LOCATION_CONFIG) True storage_path_capacity of
        (storage_result, out) \<Rightarrow>
      if storage_result \<noteq> CN_STORAGE_OK
      then ((if storage_result = CN_STORAGE_BUFFER_TOO_SMALL then CN_DEVICE_ID_PATH_TOO_LONG
             else CN_DEVICE_ID_INVALID_ARGUMENT, blank), s)
      else (case inspect_config (cstr (the out)) s of
        ((result, _), s) \<Rightarrow>
      if result \<noteq> CN_DEVICE_ID_OK then ((result, blank), s)
      else (case identity_bounded_length (the out) storage_path_capacity of
        None \<Rightarrow> ((CN_DEVICE_ID_PATH_TOO_LONG, blank), s)
      | Some n \<Rightarrow>
          if n + (length device_id_file_suffix + 1) > storage_path_capacity
          then ((CN_DEVICE_ID_PATH_TOO_LONG, blank), s)
          else ((CN_DEVICE_ID_OK, \<lparr>identity_path = take n (the out) @ device_id_file_suffix,
            identity_path_length = n + length device_id_file_suffix, identity_entropy = entropy\<rparr>), s))))"

text \<open>The buffer for the random bytes holds zeros before the callback writes to it.\<close>

definition random_buffer :: "bytes \<Rightarrow> bytes" where
  "random_buffer written = take device_id_bytes (written @ replicate device_id_bytes 0)"

definition cn_device_identity_load_or_create ::
  "urandom \<Rightarrow> errno option \<Rightarrow> cn_device_identity_store option \<Rightarrow> bool \<Rightarrow> nat \<Rightarrow> os \<Rightarrow>
     (cn_device_identity_result \<times> bytes \<times> errno option) \<times> os" where
  "cn_device_identity_load_or_create device stale store output output_capacity s =
     (if store = None \<or> \<not> output then ((CN_DEVICE_ID_INVALID_ARGUMENT, [], None), s)
      else if output_capacity < device_id_text_capacity then ((CN_DEVICE_ID_BUFFER_TOO_SMALL, [], None), s)
      else if \<not> identity_store_valid store then ((CN_DEVICE_ID_INVALID_ARGUMENT, [], None), s)
      else let st = the store in
      case read_existing st s of ((result, text', error), s) \<Rightarrow>
      if result = CN_DEVICE_ID_OK then ((result, text', error), s)
      else if result \<noteq> CN_DEVICE_ID_NOT_FOUND then ((result, text', error), s)
      else case (case identity_entropy st of None \<Rightarrow> production_entropy device | Some callback \<Rightarrow> callback) device_id_bytes of
        None \<Rightarrow> ((CN_DEVICE_ID_ENTROPY_FAILED, [], error), s)
      | Some written \<Rightarrow>
      (case serialize_identity (random_buffer written) of
        None \<Rightarrow> ((CN_DEVICE_ID_IO_ERROR, [], error), s)
      | Some (id', file') \<Rightarrow>
      (case write_new st file' stale error s of ((result, error), s) \<Rightarrow>
      if result = CN_DEVICE_ID_IO_ERROR \<and> error = Some EEXIST then read_existing st s
      else if result \<noteq> CN_DEVICE_ID_CREATED then ((result, [], error), s)
      else ((result, id', error), s))))"

definition cn_device_identity_load :: "cn_device_identity_store option \<Rightarrow> bool \<Rightarrow> nat \<Rightarrow> os \<Rightarrow>
    (cn_device_identity_result \<times> bytes \<times> errno option) \<times> os" where
  "cn_device_identity_load store output output_capacity s =
     (if store = None \<or> \<not> output then ((CN_DEVICE_ID_INVALID_ARGUMENT, [], None), s)
      else if output_capacity < device_id_text_capacity then ((CN_DEVICE_ID_BUFFER_TOO_SMALL, [], None), s)
      else if \<not> identity_store_valid store then ((CN_DEVICE_ID_INVALID_ARGUMENT, [], None), s)
      else read_existing (the store) s)"


section \<open>Writing and parsing the file\<close>

definition identity_text :: "bytes \<Rightarrow> bool" where
  "identity_text id' \<longleftrightarrow> length id' = device_id_text_length \<and> list_all lower_hex id'"

definition identity_body :: "bytes \<Rightarrow> bytes" where
  "identity_body id' = str ''crossnook-device-identity=1'' @ newline # (str ''id='' @ id') @ [newline]"

definition identity_image :: "bytes \<Rightarrow> bytes" where
  "identity_image id' = (let body = identity_body id' in body @ crc_line (crc32 body))"

lemmas identity_constants = device_id_bytes_def device_id_text_length_def device_id_text_capacity_def
  device_id_file_max_bytes_def device_id_file_suffix_def device_id_version_line_def device_id_id_prefix_def
  device_id_crc_prefix_def identity_version_name_def

lemma identity_hex_text: "identity_text (identity_hex (random_buffer written))"
proof -
  let ?f = "\<lambda>b :: byte. [hex_digit (unat (drop_bit 4 b)), hex_digit (unat (b AND 15))]"
  have "length (concat (map ?f d)) = 2 * length d" for d by (induction d) simp_all
  moreover have "list_all lower_hex (concat (map ?f d))" for d
    by (auto simp: list_all_iff unat_drop_bit byte_and_low div_less_iff_less_mult intro!: lower_hex_digit)
  moreover have "length (random_buffer written) = 16" by (simp add: random_buffer_def identity_constants)
  ultimately show ?thesis by (simp add: identity_text_def identity_hex_def identity_constants)
qed

lemma serialize_identity_image:
  "identity_text (identity_hex r) \<Longrightarrow> serialize_identity r = Some (identity_hex r, identity_image (identity_hex r))"
  by (simp add: serialize_identity_def identity_text_def identity_constants identity_image_def identity_body_def
      crc_line_def Let_def)

lemma lower_hex_plain: "list_all lower_hex t \<Longrightarrow> newline \<notin> set t \<and> 0 \<notin> set t"
  by (induction t) (auto simp: lower_hex_def newline_def)

lemma identity_image_facts:
  assumes "identity_text id'"
  shows "identity_image id' \<noteq> []" and "length (identity_image id') \<le> device_id_file_max_bytes"
    and "0 \<notin> set (identity_image id')"
proof -
  show "identity_image id' \<noteq> []" "length (identity_image id') \<le> device_id_file_max_bytes"
    using assms by (simp_all add: identity_image_def identity_body_def Let_def identity_text_def identity_constants)
  have "terminated id'" using assms lower_hex_plain by (simp add: identity_text_def terminated_def)
  then have "terminated (identity_image id')"
    using crc_hex_plain(2) by (simp add: identity_image_def identity_body_def crc_line_def Let_def)
  then show "0 \<notin> set (identity_image id')" by (simp add: terminated_def)
qed

definition id_line :: "bytes \<Rightarrow> bytes" where "id_line id' = str ''id='' @ id'"

lemma identity_lines:
  "identity_body id' @ crc_line crc =
     str ''crossnook-device-identity=1'' @ newline # id_line id' @ newline # check_line crc @ newline # []"
  by (simp add: identity_body_def crc_line_def id_line_def check_line_def)

lemma identity_lines_split:
  assumes "newline \<notin> set id'"
  shows "more_lines 3 (identity_body id' @ crc_line crc) =
    Some ([str ''crossnook-device-identity=1'', id_line id', check_line crc], [])"
proof -
  have p: "newline \<notin> set (str ''crossnook-device-identity=1'')" "newline \<notin> set (id_line id')"
    "newline \<notin> set (check_line crc)"
    using assms crc_hex_plain(1) [of crc] by (simp_all add: newline_def id_line_def check_line_def)
  have three: "(3 :: nat) = Suc (Suc (Suc 0))" by simp
  show ?thesis
    unfolding three identity_lines
    using p by (simp only: more_lines_step option.case prod.case more_lines.simps(1) not_False_eq_True)
qed

lemma three_lines: "[a, b, x] ! 0 = a" "[a, b, x] ! 1 = b" "[a, b, x] ! 2 = (x :: bytes)"
  by simp_all

lemma parse_identity_image:
  assumes v: "identity_text id'"
  shows "parse_identity (identity_image id') = Inr id'"
proof -
  define crc where "crc = crc32 (identity_body id')"
  have img: "identity_image id' = identity_body id' @ crc_line crc"
    by (simp add: identity_image_def crc_def Let_def)
  have t: "length id' = 32" "list_all lower_hex id'" using v by (simp_all add: identity_text_def identity_constants)
  note more = identity_lines_split [OF conjunct1 [OF lower_hex_plain [OF t(2)]], of crc, folded img]
  have off: "take (length (identity_image id') - (length (check_line crc) + 1)) (identity_image id') = identity_body id'"
    by (simp add: img check_line_def)
  have lines: "length (id_line id') = length device_id_id_prefix + device_id_text_length"
    "take (length device_id_id_prefix) (id_line id') = device_id_id_prefix" "drop (length device_id_id_prefix) (id_line id') = id'"
    "take (length device_id_crc_prefix) (check_line crc) = device_id_crc_prefix"
    "drop (length device_id_crc_prefix) (check_line crc) = crc_hex crc"
    using t by (simp_all add: id_line_def check_line_def identity_constants)
  have version: "length (str ''crossnook-device-identity=1'') = length device_id_version_line - 1"
    "take (length device_id_version_line - 1) device_id_version_line = str ''crossnook-device-identity=1''"
    "length identity_version_name \<le> length (str ''crossnook-device-identity=1'')"
    "take (length identity_version_name) (str ''crossnook-device-identity=1'') = identity_version_name"
    by (simp_all add: identity_constants)
  have check: "length (check_line crc) = length device_id_crc_prefix + 8"
    by (simp add: check_line_def identity_constants)
  have digits: "crc_digits 0 (crc_hex crc) = Some crc" using parse_crc_hex [of crc] by (simp add: parse_crc_def)
  show ?thesis
    unfolding parse_identity_def more option.case prod.case three_lines off lines Let_def digits
    using identity_image_facts [OF v] t(2) version check by (simp only: crc_def [symmetric] not_less) simp
qed

lemma more_lines_three:
  assumes "more_lines 3 data = Some (ls, rest)"
  obtains a b c where "ls = [a, b, c]" "data = a @ newline # b @ newline # c @ newline # rest"
proof -
  have three: "(3 :: nat) = Suc (Suc (Suc 0))" by simp
  from more_lines_Suc [OF assms [unfolded three]] obtain a l1 m1 where
    1: "data = a @ newline # m1" "ls = a # l1" "more_lines (Suc (Suc 0)) m1 = Some (l1, rest)" by blast
  from more_lines_Suc [OF 1(3)] obtain b l2 m2 where
    2: "m1 = b @ newline # m2" "l1 = b # l2" "more_lines (Suc 0) m2 = Some (l2, rest)" by blast
  from more_lines_Suc [OF 2(3)] obtain c l3 m3 where
    3: "m2 = c @ newline # m3" "l2 = c # l3" "more_lines 0 m3 = Some (l3, rest)" by blast
  show ?thesis by (rule that [of a b c]) (use 1 2 3 in simp_all)
qed

lemma prefix_split: "take (length p) l = p \<Longrightarrow> l = p @ drop (length p) l"
  by (metis append_take_drop_id)

lemma if_InlE: "(if c then Inr y else Inl e) = Inr z \<Longrightarrow> (c \<Longrightarrow> y = z \<Longrightarrow> P) \<Longrightarrow> P"
  by (simp split: if_splits)

lemma parse_identity_Inr:
  assumes "parse_identity data = Inr id'"
  shows "data = identity_image id'" and "identity_text id'"
proof -
  from assms obtain ls where ls: "more_lines 3 data = Some (ls, [])"
    by (auto simp: parse_identity_def split: if_splits option.splits)
  from more_lines_three [OF ls] obtain l0 l1 l2 where
    m: "ls = [l0, l1, l2]" "data = l0 @ newline # l1 @ newline # l2 @ newline # []" by blast
  obtain crc where
    1: "l0 = take (length device_id_version_line - 1) device_id_version_line"
      "length l1 = length device_id_id_prefix + device_id_text_length"
      "take (length device_id_id_prefix) l1 = device_id_id_prefix" "list_all lower_hex (drop (length device_id_id_prefix) l1)"
      "length l2 = length device_id_crc_prefix + 8" "take (length device_id_crc_prefix) l2 = device_id_crc_prefix"
      "crc_digits 0 (drop (length device_id_crc_prefix) l2) = Some crc"
      "crc = crc32 (take (length data - (length l2 + 1)) data)" "id' = drop (length device_id_id_prefix) l1"
    using assms [unfolded parse_identity_def ls m(1) option.case prod.case three_lines Let_def]
    by (elim if_InrE option_InrE if_InlE) (rule that, (blast | simp only: de_Morgan_disj not_not)+)
  show v: "identity_text id'" using 1(2,4) by (simp add: identity_text_def 1(9))
  have l1: "l1 = str ''id='' @ id'" using prefix_split [OF 1(3)] by (simp add: 1(9) identity_constants)
  have "drop (length device_id_crc_prefix) l2 = crc_hex crc"
    using 1(5,7) by (intro parse_crc_Some) (simp add: parse_crc_def)
  then have l2: "l2 = str ''crc32='' @ crc_hex crc" using prefix_split [OF 1(6)] by (simp add: identity_constants)
  have l0: "l0 = str ''crossnook-device-identity=1''" using 1(1) by (simp add: identity_constants)
  have body: "data = identity_body id' @ crc_line crc"
    unfolding m(2) l0 l1 l2 by (simp add: identity_body_def crc_line_def)
  have "length l2 + 1 = length (crc_line crc)" by (simp add: l2)
  then have "take (length data - (length l2 + 1)) data = identity_body id'" by (simp add: body)
  then have crc: "crc = crc32 (identity_body id')" using 1(8) by (simp only:)
  show "data = identity_image id'" unfolding body crc by (simp add: identity_image_def Let_def)
qed

lemma identity_image_inj: "identity_image a = identity_image b \<Longrightarrow> identity_text a \<Longrightarrow> identity_text b \<Longrightarrow> a = b"
  by (metis parse_identity_image sum.inject(2))


section \<open>What the operations do\<close>

lemma identity_filesystem_error_simps [simp]:
  "identity_filesystem_error e \<noteq> CN_DEVICE_ID_OK" "identity_filesystem_error e \<noteq> CN_DEVICE_ID_CREATED"
  by (simp_all add: identity_filesystem_error_def split: errno.splits)

lemma identity_refusal_simps: "identity_refusal r = (x, e) \<Longrightarrow> x \<noteq> CN_DEVICE_ID_OK \<and> x \<noteq> CN_DEVICE_ID_CREATED"
  by (auto simp: identity_refusal_def split: refusal.splits)

lemma inspect_identity_quiet:
  "inspect_identity_file path s = ((r, e, i), s') \<Longrightarrow> quiet s s' \<and> r \<noteq> CN_DEVICE_ID_CREATED"
  using sys_lstat_quiet [of path s]
  by (auto simp: inspect_identity_file_def split: prod.splits sum.splits node.splits if_splits)

lemma parse_identity_Inl: "parse_identity d = Inl r \<Longrightarrow> r \<noteq> CN_DEVICE_ID_OK \<and> r \<noteq> CN_DEVICE_ID_CREATED"
  by (auto simp: parse_identity_def Let_def split: if_splits option.splits)

text \<open>Reading: the files stay, and an identity that is delivered is the one the file holds.\<close>

definition identity_read :: "bytes \<Rightarrow> os \<Rightarrow> (cn_device_identity_result \<times> bytes \<times> errno option) \<times> os \<Rightarrow> bool" where
  "identity_read path s0 x \<longleftrightarrow> calm s0 (snd x) \<and> fst (fst x) \<noteq> CN_DEVICE_ID_CREATED \<and>
     (if fst (fst x) = CN_DEVICE_ID_OK
      then identity_text (fst (snd (fst x))) \<and> bytes_at (fs s0) path = Some (identity_image (fst (snd (fst x))))
      else fst (snd (fst x)) = [])"

lemma read_existing_effect:
  assumes "calm s0 s"
  shows "identity_read (cstr (identity_path st)) s0 (read_existing st s)"
proof -
  let ?path = "cstr (identity_path st)"
  obtain r e i s1 where f: "inspect_identity_file ?path s = ((r, e, i), s1)" by (metis prod.collapse)
  note f' = inspect_identity_quiet [OF f]
  note c1 = calm_quiet [OF assms conjunct1 [OF f']]
  obtain a s2 where o: "sys_open_read True False ?path s1 = (a, s2)" by fastforce
  show ?thesis
  proof (cases a)
    case (Inl x)
    then show ?thesis
      using f f' c1 o calm_open_failed [OF c1, of True False ?path x s2]
      by (auto simp: read_existing_def identity_read_def Let_def)
  next
    case (Inr fd)
    note o' = o [unfolded Inr]
    from tracks_open [OF o'] obtain j where j: "names (fs s1) ?path = Some j" "fds s2 fd = Some (j, 0)" .
    obtain b s3 where l: "read_checked fd (the i) device_id_file_max_bytes s2 = (b, s3)" by fastforce
    note eff = read_checked_effect [OF calm_open [OF c1 o'] j(2) l]
    obtain z s4 where c: "sys_close fd s3 = (z, s4)" by fastforce
    note c4 = reading_close [OF eff(1) c]
    have at: "bytes_at (fs s0) ?path = Some d" if "b = Inr d" for d
      using eff(2) [OF that] j(1) c1 by (auto simp: calm_def bytes_at_def file_at_def)
    show ?thesis
    proof (cases b)
      case (Inl w)
      then show ?thesis
        using f f' c1 o' l c c4 identity_refusal_simps [of w]
        by (cases "identity_refusal w") (auto simp: read_existing_def identity_read_def Let_def)
    next
      case (Inr d)
      then show ?thesis
        using f f' c1 o' l c c4 at [OF Inr] parse_identity_Inl [of d] parse_identity_Inr [of d]
        by (cases "parse_identity d") (auto simp: read_existing_def identity_read_def Let_def split: sum.splits)
    qed
  qed
qed

lemma ready_keeps: "ready tmp d s0 s \<Longrightarrow> keeps s s' \<Longrightarrow> fds s' = fds s \<Longrightarrow> ready tmp d s0 s'"
  using idle_keeps [of tmp s0 s s'] same_at_synced [of tmp "fs s" "fs s'" d] by (auto simp: ready_def keeps_def)

lemma sync_identity_effect:
  assumes "ready path d s0 s" "sync_identity_directory path stale saved s = ((r, e), s')"
  shows "ready path d s0 s'" and "r = CN_DEVICE_ID_CREATED \<or> r = CN_DEVICE_ID_DURABILITY_UNCERTAIN"
proof -
  have w: "wf_os s" using idle_wf [OF ready_idle [OF assms(1)]] .
  have "ready path d s0 s' \<and> (r = CN_DEVICE_ID_CREATED \<or> r = CN_DEVICE_ID_DURABILITY_UNCERTAIN)"
  proof (cases "directory_of path")
    case None
    then show ?thesis using assms by (simp add: sync_identity_directory_def)
  next
    case (Some dir)
    obtain a s1 where l: "sys_lstat dir s = (a, s1)" by fastforce
    note q = sys_lstat_quiet [OF l]
    have r1: "ready path d s0 s1" using ready_keeps [OF assms(1) keeps_quiet [OF q w]] q by (simp add: quiet_def)
    have w1: "wf_os s1" using idle_wf [OF ready_idle [OF r1]] .
    obtain b s2 where y: "sync_checked dir (projr a) s1 = (b, s2)" by fastforce
    have r2: "ready path d s0 s2" using ready_keeps [OF r1 sync_checked_keeps [OF y w1]] .
    show ?thesis
      using assms Some l y r1 r2 by (auto simp: sync_identity_directory_def split: if_splits sum.splits directory_sync.splits)
  qed
  then show "ready path d s0 s'" "r = CN_DEVICE_ID_CREATED \<or> r = CN_DEVICE_ID_DURABILITY_UNCERTAIN" by auto
qed

text \<open>Creating: a name that is taken stays as it is; CREATED means that the whole file is there and synced.\<close>

definition identity_made :: "bytes \<Rightarrow> bytes \<Rightarrow> os \<Rightarrow> cn_device_identity_result \<Rightarrow> os \<Rightarrow> bool" where
  "identity_made path d s0 r s' \<longleftrightarrow> r \<noteq> CN_DEVICE_ID_OK \<and> idle path s0 s' \<and>
     (r = CN_DEVICE_ID_CREATED \<longrightarrow> file_at (fs s') path = Some (d, True)) \<and>
     (fs s' = fs s0 \<and> r \<noteq> CN_DEVICE_ID_CREATED \<or> names (fs s0) path = None)"

lemma write_new_effect:
  assumes "wf_os s" "write_new st d stale saved s = ((r, e), s')"
  shows "identity_made (cstr (identity_path st)) d s r s'"
    and "r = CN_DEVICE_ID_IO_ERROR \<Longrightarrow> e = Some EEXIST \<Longrightarrow> names (fs s) (cstr (identity_path st)) \<noteq> None \<Longrightarrow> fs s' = fs s"
proof -
  let ?path = "cstr (identity_path st)"
  note i0 = idle_start [OF assms(1), of ?path]
  obtain a s1 where c: "sys_create ?path s = (a, s1)" by fastforce
  show made: "identity_made ?path d s r s'"
  proof (cases a)
    case (Inl x)
    note q = sys_create_failed_quiet [OF c [unfolded Inl]]
    show ?thesis
      using assms(2) c Inl idle_quiet [OF i0 q] q
      by (auto simp: write_new_def identity_made_def Let_def quiet_def split: if_splits)
  next
    case (Inr fd)
    note fresh = sys_create_fresh [OF c [unfolded Inr]]
    note f1 = idle_create [OF i0 c [unfolded Inr]]
    obtain w s2 where w: "write_bytes fd d s1 = (w, s2)" by fastforce
    show ?thesis
    proof (cases w)
      case (Some x)
      have "idle ?path s (snd (sys_unlink ?path (snd (sys_close fd s2))))"
        using idle_discard [OF opened_give_up [OF write_bytes_opened [OF f1 w]]] .
      then show ?thesis
        using assms(2) c Inr w Some fresh by (auto simp: write_new_def identity_made_def Let_def)
    next
      case None
      note f2 = write_bytes_filled [OF f1 w [unfolded None]]
      obtain y s3 where y: "sys_fsync fd s2 = (y, s3)" by fastforce
      obtain z s4 where z: "sys_close fd s3 = (z, s4)" by fastforce
      show ?thesis
      proof (cases y)
        case (Inl x)
        have "idle ?path s s4" using opened_close [OF filled_fsync_failed [OF f2 y [unfolded Inl]] z] .
        then show ?thesis
          using assms(2) c Inr w None y Inl z fresh by (auto simp: write_new_def identity_made_def Let_def)
      next
        case y': (Inr u)
        note f4 = flushed_close [OF filled_fsync [OF f2 y [unfolded y']] z]
        have sync: "identity_made ?path d s x s5" if "sync_identity_directory ?path stale saved s4 = ((x, e'), s5)" for x e' s5
          using sync_identity_effect [OF f4 that] fresh by (auto simp: identity_made_def ready_def)
        show ?thesis
        proof (cases z)
          case z': (Inl x)
          then show ?thesis
            using assms(2) c Inr w None y y' z fresh ready_idle [OF f4] by (auto simp: write_new_def identity_made_def Let_def)
        next
          case z': (Inr v)
          then show ?thesis
            using assms(2) c Inr w None y y' z by (auto simp: write_new_def Let_def intro: sync)
        qed
      qed
    qed
  qed
  show "fs s' = fs s" if "names (fs s) ?path \<noteq> None" using made that by (auto simp: identity_made_def)
qed


text \<open>What the callback or the device has to say.\<close>

definition entropy_of :: "urandom \<Rightarrow> cn_device_identity_store \<Rightarrow> bytes option" where
  "entropy_of device st =
     (case identity_entropy st of None \<Rightarrow> production_entropy device | Some callback \<Rightarrow> callback) device_id_bytes"

text \<open>The outcome of a load or creation.\<close>

definition identity_outcome :: "bytes option \<Rightarrow> bytes \<Rightarrow> os \<Rightarrow> cn_device_identity_result \<Rightarrow> bytes \<Rightarrow> os \<Rightarrow> bool" where
  "identity_outcome entropy path s result id' s' \<longleftrightarrow>
     wf_os s' \<and> fds s' = fds s \<and> (\<forall>q. q \<noteq> path \<longrightarrow> same_at q (fs s) (fs s')) \<and>
     (names (fs s) path \<noteq> None \<longrightarrow> fs s' = fs s) \<and>
     (if result = CN_DEVICE_ID_OK
      then identity_text id' \<and> bytes_at (fs s') path = Some (identity_image id')
      else if result = CN_DEVICE_ID_CREATED
      then names (fs s) path = None \<and> file_at (fs s') path = Some (identity_image id', True) \<and> identity_text id' \<and>
        (\<exists>written. entropy = Some written \<and> id' = identity_hex (random_buffer written))
      else id' = [])"

lemma identity_outcome_calm:
  "calm s s' \<Longrightarrow> result \<noteq> CN_DEVICE_ID_CREATED \<Longrightarrow>
    (if result = CN_DEVICE_ID_OK then identity_text id' \<and> bytes_at (fs s) path = Some (identity_image id') else id' = []) \<Longrightarrow>
    identity_outcome entropy path s result id' s'"
  by (auto simp: identity_outcome_def calm_def)

lemma identity_outcome_read:
  "identity_read path s ((result, id', e), s') \<Longrightarrow> identity_outcome entropy path s result id' s'"
  by (rule identity_outcome_calm) (auto simp: identity_read_def)

lemma identity_outcome_failed:
  "calm s s' \<Longrightarrow> result \<noteq> CN_DEVICE_ID_CREATED \<Longrightarrow> result \<noteq> CN_DEVICE_ID_OK \<Longrightarrow> identity_outcome entropy path s result [] s'"
  by (rule identity_outcome_calm) auto

lemma identity_read_again:
  assumes "calm s0 s" "identity_made path d s r s'" "identity_read path s' ((result, id', e), s'')"
  shows "identity_outcome entropy path s0 result id' s''"
proof -
  have f: "fs s = fs s0" "fds s = fds s0" using assms(1) by (simp_all add: calm_def)
  have m: "fds s' = fds s0" "\<forall>q. q \<noteq> path \<longrightarrow> same_at q (fs s0) (fs s')" "names (fs s0) path \<noteq> None \<Longrightarrow> fs s' = fs s0"
    using assms(2) f by (auto simp: identity_made_def idle_def outside_def)
  have r: "fs s'' = fs s'" "fds s'' = fds s'" "wf_os s''" "result \<noteq> CN_DEVICE_ID_CREATED"
    "result = CN_DEVICE_ID_OK \<Longrightarrow> identity_text id' \<and> bytes_at (fs s') path = Some (identity_image id')"
    "result \<noteq> CN_DEVICE_ID_OK \<Longrightarrow> id' = []"
    using assms(3) by (auto simp: identity_read_def calm_def split: if_splits)
  show ?thesis unfolding identity_outcome_def r(1,2) using m r(3-6) by auto
qed

lemma identity_made_outcome:
  assumes "calm s0 s" "identity_made path (identity_image id') s r s'" "id' = identity_hex (random_buffer written)"
    and "text' = (if r = CN_DEVICE_ID_CREATED then id' else [])"
  shows "identity_outcome (Some written) path s0 r text' s'"
proof -
  have f: "fs s = fs s0" "fds s = fds s0" using assms(1) by (simp_all add: calm_def)
  have m: "r \<noteq> CN_DEVICE_ID_OK" "idle path s s'" "r = CN_DEVICE_ID_CREATED \<Longrightarrow> file_at (fs s') path = Some (identity_image id', True)"
    "fs s' = fs s \<and> r \<noteq> CN_DEVICE_ID_CREATED \<or> names (fs s) path = None"
    using assms(2) by (auto simp: identity_made_def)
  have "wf_os s'" "fds s' = fds s0" "\<forall>q. q \<noteq> path \<longrightarrow> same_at q (fs s0) (fs s')"
    using m(2) f by (simp_all add: idle_def outside_def)
  then show ?thesis
    using m f assms(3,4) identity_hex_text [of written] by (auto simp: identity_outcome_def)
qed

lemma load_or_create_effect:
  assumes "wf_os s" "cn_device_identity_load_or_create device stale (Some st) output cap s = ((result, id', e), s')"
  shows "identity_outcome (entropy_of device st) (cstr (identity_path st)) s result id' s'"
proof -
  let ?path = "cstr (identity_path st)"
  note c0 = calm_start [OF assms(1)]
  obtain r1 t1 e1 s1 where rd: "read_existing st s = ((r1, t1, e1), s1)" by (metis prod.collapse)
  have i1: "identity_read ?path s ((r1, t1, e1), s1)" using read_existing_effect [OF c0, of st] by (simp add: rd)
  then have c1: "calm s s1" and t1: "r1 \<noteq> CN_DEVICE_ID_OK \<Longrightarrow> t1 = []" by (simp_all add: identity_read_def)
  have w1: "wf_os s1" using c1 by (simp add: calm_def)
  have run: "cn_device_identity_load_or_create device stale (Some st) output cap s =
    (if \<not> output then ((CN_DEVICE_ID_INVALID_ARGUMENT, [], None), s)
      else if cap < device_id_text_capacity then ((CN_DEVICE_ID_BUFFER_TOO_SMALL, [], None), s)
      else if \<not> identity_store_valid (Some st) then ((CN_DEVICE_ID_INVALID_ARGUMENT, [], None), s)
      else if r1 \<noteq> CN_DEVICE_ID_NOT_FOUND then ((r1, t1, e1), s1)
      else case entropy_of device st of None \<Rightarrow> ((CN_DEVICE_ID_ENTROPY_FAILED, [], e1), s1)
      | Some written \<Rightarrow> (case write_new st (identity_image (identity_hex (random_buffer written))) stale e1 s1 of
          ((result, error), s) \<Rightarrow>
            if result = CN_DEVICE_ID_IO_ERROR \<and> error = Some EEXIST then read_existing st s
            else if result \<noteq> CN_DEVICE_ID_CREATED then ((result, [], error), s)
            else ((result, identity_hex (random_buffer written), error), s)))"
    by (simp add: cn_device_identity_load_or_create_def rd entropy_of_def serialize_identity_image
        identity_hex_text Let_def split: option.splits)
  show ?thesis
  proof (cases "output \<and> \<not> cap < device_id_text_capacity \<and> identity_store_valid (Some st) \<and> r1 = CN_DEVICE_ID_NOT_FOUND")
    case False
    then show ?thesis
      using assms(2) [unfolded run] identity_outcome_read [OF i1] identity_outcome_failed [OF c0]
      by (auto split: if_splits)
  next
    case True
    show ?thesis
    proof (cases "entropy_of device st")
      case None
      then show ?thesis using assms(2) [unfolded run] True identity_outcome_failed [OF c1] by auto
    next
      case (Some written)
      let ?id = "identity_hex (random_buffer written)"
      obtain r2 e2 s2 where w: "write_new st (identity_image ?id) stale e1 s1 = ((r2, e2), s2)" by (metis prod.collapse)
      note made = write_new_effect(1) [OF w1 w]
      show ?thesis
      proof (cases "r2 = CN_DEVICE_ID_IO_ERROR \<and> e2 = Some EEXIST")
        case False
        then show ?thesis
          using assms(2) [unfolded run] True Some w identity_made_outcome [OF c1 made refl] by (auto split: if_splits)
      next
        case again: True
        have c2: "calm s2 s2" using made idle_wf by (auto simp: identity_made_def calm_def)
        have rd2: "read_existing st s2 = ((result, id', e), s')" using assms(2) [unfolded run] True Some w again by simp
        have i2: "identity_read ?path s2 ((result, id', e), s')" using read_existing_effect [OF c2, of st] by (simp add: rd2)
        show ?thesis by (rule identity_read_again [OF c1 made i2])
      qed
    qed
  qed
qed


section \<open>A schedule with no faults\<close>

lemma write_new_clean:
  assumes "faults s = []" "wf_os s" "names (fs s) (cstr (identity_path st)) = None"
    and "directory_of (cstr (identity_path st)) = Some dir" "dir \<noteq> []" "length dir < storage_path_capacity"
    and "names (fs s) dir = Some i" "inodes (fs s) i = Directory"
  shows "\<exists>s'. write_new st d stale saved s = ((CN_DEVICE_ID_CREATED, saved), s') \<and> faults s' = []"
proof -
  let ?path = "cstr (identity_path st)"
  obtain fd s1 where c: "sys_create ?path s = (Inr fd, s1)" "faults s1 = []"
    using assms(1,3) by (auto simp: sys_create_def call_clean allocate_fd_def)
  note f1 = idle_create [OF idle_start [OF assms(2)] c(1)]
  obtain s2 where w: "write_bytes fd d s1 = (None, s2)" "faults s2 = []"
    using write_bytes_clean [OF c(2), of ?path fd "[]" d] f1 by (auto simp: filled_def writes_bytes_def split: prod.splits)
  note f2 = write_bytes_filled [OF f1 w(1)]
  obtain s3 where y: "sys_fsync fd s2 = (Inr (), s3)" "faults s3 = []"
    using fsync_clean [OF w(2), of ?path fd d] f2 by (auto simp: filled_def)
  note f3 = filled_fsync [OF f2 y(1)]
  have "fds s3 fd \<noteq> None"
    using sys_fsync_spec(3) [OF y(1) opened_wf [OF filled_opened [OF f2]], of ?path d] f2 by (auto simp: filled_def writing_def)
  then obtain s4 where z: "sys_close fd s3 = (Inr (), s4)" "faults s4 = []" using close_clean [OF y(2), of fd] y(2) by fastforce
  note f4 = flushed_close [OF f3 z(1)]
  have "dir \<noteq> ?path" using assms(3,7) by auto
  then have "same_at dir (fs s) (fs s4)" using f4 by (simp add: ready_def idle_def outside_def)
  then have d: "names (fs s4) dir = Some i" "inodes (fs s4) i = Directory" using assms(7,8) by (auto simp: same_at_def settles_def)
  have l: "sys_lstat dir s4 = (Inr (make_stat (fs s4) i), leave s4)" using z(2) d by (simp add: sys_lstat_def call_clean)
  have "faults (leave s4) = []" "names (fs (leave s4)) dir = Some i" "inodes (fs (leave s4)) i = Directory"
    "st_ino (make_stat (fs s4) i) = i" using z(2) d by (simp_all add: make_stat_def)
  then obtain s5 where "sync_checked dir (make_stat (fs s4) i) (leave s4) = (Synced, s5)" "faults s5 = []"
    using sync_checked_clean by blast
  then show ?thesis
    using c w y z l assms(4-6) by (auto simp: write_new_def sync_identity_directory_def Let_def)
qed

lemma read_existing_clean:
  assumes "faults s = []" "bytes_at (fs s) (cstr (identity_path st)) = Some (identity_image id')" "identity_text id'"
  shows "\<exists>s'. read_existing st s = ((CN_DEVICE_ID_OK, id', None), s')"
proof -
  let ?path = "cstr (identity_path st)"
  obtain i b where i: "names (fs s) ?path = Some i" "inodes (fs s) i = Regular (identity_image id') b"
    using assms(2) by (auto simp: bytes_at_def file_at_def split: option.splits node.splits)
  have f: "inspect_identity_file ?path s = ((CN_DEVICE_ID_OK, None, Some (make_stat (fs s) i)), leave s)"
    using i assms(1) by (simp add: inspect_identity_file_def sys_lstat_def call_clean make_stat_def)
  define s3 where "s3 = snd (sys_open_read True False ?path (leave s))"
  have o: "sys_open_read True False ?path (leave s) = (Inr (next_fd s), s3)"
    and t: "tracks (next_fd s) i (identity_image id') 0 s3" "faults s3 = []"
    using i assms(1) by (simp_all add: sys_open_read_def call_clean allocate_fd_def s3_def tracks_def)
  note img = identity_image_facts [OF assms(3)]
  have "st_ino (make_stat (fs s) i) = i" by (simp add: make_stat_def)
  then obtain s4 where r: "read_checked (next_fd s) (make_stat (fs s) i) device_id_file_max_bytes s3 = (Inr (identity_image id'), s4)"
      "faults s4 = []" "fds s4 (next_fd s) \<noteq> None"
    using read_checked_clean [OF t(2,1) _ img(1,2)] by blast
  then obtain s5 where cl: "sys_close (next_fd s) s4 = (Inr (), s5)" using close_clean [of s4 "next_fd s"] by fastforce
  have sz: "st_size (make_stat (fs s) i) = length (identity_image id')" using i by (simp add: make_stat_def)
  show ?thesis
    using f o r cl sz img(1,2) parse_identity_image [OF assms(3)] by (simp add: read_existing_def Let_def)
qed

section \<open>Properties\<close>

text \<open>The concrete inputs of the witnesses.\<close>

definition sample_urandom :: urandom where
  "sample_urandom = \<lparr>urandom_opens = True, urandom_reads = [Inr (replicate 10 0xa5), Inl EINTR, Inr (replicate 9 0x3c)],
     urandom_closes = True\<rparr>"

definition sample_identity_store :: cn_device_identity_store where
  "sample_identity_store = \<lparr>identity_path = str ''/cfg/device-id'', identity_path_length = 14, identity_entropy = None\<rparr>"

lemma sample_identity_facts:
  "identity_store_valid (Some sample_identity_store)" "cstr (identity_path sample_identity_store) = str ''/cfg/device-id''"
  "directory_of (str ''/cfg/device-id'') = Some (str ''/cfg'')"
  by (simp_all add: identity_store_valid_def sample_identity_store_def identity_bounded_length_def scan_nul_eq
      strlen_def cstr_def storage_path_capacity_def char_at_def directory_of_def)

lemma sample_entropy: "\<exists>written. entropy_of sample_urandom sample_identity_store = Some written"
  by (simp add: entropy_of_def sample_identity_store_def production_entropy_def sample_urandom_def device_id_bytes_def
      urandom_loop.simps eval_nat_numeral)

text \<open>C34. The identity of the device is stable.  Whatever calls fail, are cut short or are interrupted, a
  load or creation gives every descriptor back, changes no other file, and changes nothing at all when the
  identity file is already there.  It answers OK only with the identity that the file holds, and CREATED
  only if there was no file, the file now holds the complete synced record, and the identity is the text
  of the random bytes; every other answer leaves the output empty.\<close>

theorem device_identity_is_stable:
  assumes "wf_os s"
  shows "case cn_device_identity_load_or_create device stale (Some st) output capacity s of ((result, id', error), s') \<Rightarrow>
    (let path = cstr (identity_path st) in
       wf_os s' \<and> fds s' = fds s \<and> (\<forall>q. q \<noteq> path \<longrightarrow> same_at q (fs s) (fs s')) \<and>
       (names (fs s) path \<noteq> None \<longrightarrow> fs s' = fs s) \<and>
       (if result = CN_DEVICE_ID_OK
        then identity_text id' \<and> bytes_at (fs s') path = Some (identity_image id')
        else if result = CN_DEVICE_ID_CREATED
        then names (fs s) path = None \<and> file_at (fs s') path = Some (identity_image id', True) \<and> identity_text id' \<and>
          (\<exists>written. entropy_of device st = Some written \<and> id' = identity_hex (random_buffer written))
        else id' = []))"
proof -
  obtain result id' e s' where run:
    "cn_device_identity_load_or_create device stale (Some st) output capacity s = ((result, id', e), s')" by (metis prod.collapse)
  show ?thesis using load_or_create_effect [OF assms run] by (simp add: run identity_outcome_def Let_def)
qed

theorem device_identity_is_stable_witness:
  "case cn_device_identity_load_or_create sample_urandom None (Some sample_identity_store) True 33
      (directory_disk (str ''/cfg'') [Normal, Normal, Short 7, Fail EINTR, Fail ENOSPC]) of ((result, id', error), s') \<Rightarrow>
    result = CN_DEVICE_ID_OK \<or> result = CN_DEVICE_ID_CREATED \<or> id' = []"
  using device_identity_is_stable [of "directory_disk (str ''/cfg'') [Normal, Normal, Short 7, Fail EINTR, Fail ENOSPC]"
      sample_identity_store sample_urandom None True 33]
  by (auto simp: Let_def split: prod.splits if_splits)



end
