(* ===== verification/Sync_Profile.thy ===== *)
theory Sync_Profile
  imports Settings_Store Credential_Store Device_Identity Storage_Layout
begin

text \<open>
  The account as it is stored, src/sync/persisted_sync_profile.c: the settings, the credentials and the
  identity of the device, loaded one after the other and put together, or the reason why not.
\<close>

record cn_persisted_sync_profile =
  profile_base_url :: bytes
  profile_username :: bytes
  profile_userkey :: bytes
  profile_device_id :: bytes
  profile_device_name :: bytes

datatype cn_persisted_sync_profile_status =
  CN_PERSISTED_SYNC_PROFILE_INVALID_ARGUMENT | CN_PERSISTED_SYNC_PROFILE_DISABLED
  | CN_PERSISTED_SYNC_PROFILE_READY | CN_PERSISTED_SYNC_PROFILE_SETTINGS_FAILED
  | CN_PERSISTED_SYNC_PROFILE_CREDENTIALS_FAILED | CN_PERSISTED_SYNC_PROFILE_IDENTITY_FAILED
  | CN_PERSISTED_SYNC_PROFILE_VALIDATION_FAILED

record cn_persisted_sync_profile_report =
  profile_status :: cn_persisted_sync_profile_status
  profile_settings_result :: cn_settings_result
  profile_credential_result :: cn_credential_result
  profile_identity_result :: cn_device_identity_result
  settings_attempted :: bool
  credentials_attempted :: bool
  identity_attempted :: bool
  profile_errno :: "errno option"

definition initial_report :: cn_persisted_sync_profile_report where
  "initial_report = \<lparr>profile_status = CN_PERSISTED_SYNC_PROFILE_INVALID_ARGUMENT,
     profile_settings_result = CN_SETTINGS_INVALID_ARGUMENT, profile_credential_result = CN_CREDENTIAL_INVALID,
     profile_identity_result = CN_DEVICE_ID_INVALID_ARGUMENT, settings_attempted = False,
     credentials_attempted = False, identity_attempted = False, profile_errno = None\<rparr>"

definition bounded_text :: "bytes \<Rightarrow> nat \<Rightarrow> bool \<Rightarrow> bool" where
  "bounded_text text' capacity require_value =
     (let n = scan_nul text' capacity in if n < capacity then \<not> require_value \<or> n \<noteq> 0 else False)"

definition state_path :: "cn_storage_layout \<Rightarrow> nat \<Rightarrow> bytes option" where
  "state_path layout capacity =
     (let written = cstr (root layout) @ str ''/state''
      in if length written > 0 \<and> length written < capacity then Some written else None)"

definition cn_persisted_sync_profile_clear :: cn_persisted_sync_profile where
  "cn_persisted_sync_profile_clear = \<lparr>profile_base_url = [], profile_username = [], profile_userkey = [],
     profile_device_id = [], profile_device_name = []\<rparr>"

definition profile_texts_ok :: "cn_persisted_sync_profile \<Rightarrow> bool" where
  "profile_texts_ok p \<longleftrightarrow> bounded_text (profile_base_url p) settings_url_capacity True \<and>
     bounded_text (profile_username p) (credential_username_max + 1) True \<and>
     bounded_text (profile_userkey p) (credential_userkey_max + 1) True \<and>
     bounded_text (profile_device_id p) device_id_text_capacity True \<and>
     bounded_text (profile_device_name p) settings_device_name_capacity True"

definition zero_settings :: cn_settings where
  "zero_settings = \<lparr>kosync_enabled = 0, kosync_base_url = [], kosync_device_name = []\<rparr>"

text \<open>The three parts; each ends the load with a report or hands on what it has read.\<close>

definition profile_settings :: "cn_storage_layout \<Rightarrow> cn_persisted_sync_profile_report \<Rightarrow> os \<Rightarrow>
    (cn_persisted_sync_profile_report + cn_persisted_sync_profile_report \<times> cn_settings) \<times> os" where
  "profile_settings layout report s =
     (let report = report\<lparr>settings_attempted := True\<rparr>;
          failed = (\<lambda>report. report\<lparr>profile_status := CN_PERSISTED_SYNC_PROFILE_SETTINGS_FAILED\<rparr>) in
      case cn_storage_layout_path (Some layout) (Some CN_STORAGE_LOCATION_CONFIG) True storage_path_capacity of
        (path_result, config_path) \<Rightarrow>
      if path_result \<noteq> CN_STORAGE_OK
      then (Inl (failed (report\<lparr>profile_settings_result := CN_SETTINGS_INVALID_ARGUMENT\<rparr>)), s)
      else case cn_settings_store_init True config_path s of ((result, error, store), s) \<Rightarrow>
      let report = report\<lparr>profile_settings_result := result, profile_errno := error\<rparr> in
      if result \<noteq> CN_SETTINGS_OK then (Inl (failed report), s)
      else case cn_settings_load (Some store) (Some zero_settings) s of ((result, settings, error), s) \<Rightarrow>
      let report = report\<lparr>profile_settings_result := result, profile_errno := error\<rparr> in
      if result = CN_SETTINGS_MISSING \<or> (result = CN_SETTINGS_OK \<and> kosync_enabled (the settings) = 0)
      then (Inl (report\<lparr>profile_status := CN_PERSISTED_SYNC_PROFILE_DISABLED\<rparr>), s)
      else if result \<noteq> CN_SETTINGS_OK then (Inl (failed report), s)
      else (Inr (report, the settings), s))"

definition profile_credentials :: "cn_storage_layout \<Rightarrow> cn_persisted_sync_profile_report \<Rightarrow> os \<Rightarrow>
    (cn_persisted_sync_profile_report + cn_persisted_sync_profile_report \<times> cn_credentials) \<times> os" where
  "profile_credentials layout report s =
     (let report = report\<lparr>credentials_attempted := True\<rparr>;
          failed = (\<lambda>report. report\<lparr>profile_status := CN_PERSISTED_SYNC_PROFILE_CREDENTIALS_FAILED\<rparr>) in
      case state_path layout storage_path_capacity of
        None \<Rightarrow> (Inl (failed (report\<lparr>profile_credential_result := CN_CREDENTIAL_PATH_TOO_LONG\<rparr>)), s)
      | Some path \<Rightarrow>
      (case cn_credential_store_init True (Some path) s of ((result, error, store), s) \<Rightarrow>
      let report = report\<lparr>profile_credential_result := result, profile_errno := error\<rparr> in
      if result \<noteq> CN_CREDENTIAL_OK then (Inl (failed report), s)
      else case cn_credential_store_load (Some store) (Some cn_credentials_clear) s of ((result, credentials, error), s) \<Rightarrow>
      let report = report\<lparr>profile_credential_result := result, profile_errno := error\<rparr> in
      if result \<noteq> CN_CREDENTIAL_OK then (Inl (failed report), s)
      else (Inr (report, the credentials), s)))"

definition profile_identity :: "cn_storage_layout \<Rightarrow> cn_persisted_sync_profile_report \<Rightarrow> os \<Rightarrow>
    (cn_persisted_sync_profile_report + cn_persisted_sync_profile_report \<times> bytes) \<times> os" where
  "profile_identity layout report s =
     (let report = report\<lparr>identity_attempted := True\<rparr>;
          failed = (\<lambda>report. report\<lparr>profile_status := CN_PERSISTED_SYNC_PROFILE_IDENTITY_FAILED\<rparr>) in
      case cn_device_identity_store_init True (Some layout) None s of ((result, store), s) \<Rightarrow>
      let report = report\<lparr>profile_identity_result := result\<rparr> in
      if result \<noteq> CN_DEVICE_ID_OK then (Inl (failed report), s)
      else case cn_device_identity_load (Some store) True device_id_text_capacity s of ((result, id', error), s) \<Rightarrow>
      let report = report\<lparr>profile_identity_result := result, profile_errno := error\<rparr> in
      if result \<noteq> CN_DEVICE_ID_OK then (Inl (failed report), s)
      else (Inr (report, id'), s))"

definition cn_persisted_sync_profile_load :: "cn_storage_layout option \<Rightarrow> bool \<Rightarrow> os \<Rightarrow>
    (cn_persisted_sync_profile_report \<times> cn_persisted_sync_profile) \<times> os" where
  "cn_persisted_sync_profile_load prepared_layout out s =
     (let cleared = cn_persisted_sync_profile_clear in
      if prepared_layout = None \<or> \<not> out then ((initial_report, cleared), s)
      else let layout = the prepared_layout in
      case profile_settings layout initial_report s of
        (Inl report, s) \<Rightarrow> ((report, cleared), s)
      | (Inr (report, settings), s) \<Rightarrow>
      (case profile_credentials layout report s of
        (Inl report, s) \<Rightarrow> ((report, cleared), s)
      | (Inr (report, credentials), s) \<Rightarrow>
      (case profile_identity layout report s of
        (Inl report, s) \<Rightarrow> ((report, cleared), s)
      | (Inr (report, id'), s) \<Rightarrow>
          let profile = \<lparr>profile_base_url = kosync_base_url settings, profile_username = credential_username credentials,
                profile_userkey = credential_userkey credentials, profile_device_id = id',
                profile_device_name = kosync_device_name settings\<rparr>
          in if \<not> profile_texts_ok profile
             then ((report\<lparr>profile_status := CN_PERSISTED_SYNC_PROFILE_VALIDATION_FAILED\<rparr>, cleared), s)
             else ((report\<lparr>profile_status := CN_PERSISTED_SYNC_PROFILE_READY\<rparr>, profile), s))))"

section \<open>What a load does\<close>

text \<open>Where the three files are.\<close>

definition settings_file_of :: "cn_storage_layout \<Rightarrow> bytes" where
  "settings_file_of layout = cstr (root layout) @ str ''/config/settings.conf''"

definition credential_file_of :: "cn_storage_layout \<Rightarrow> bytes" where
  "credential_file_of layout = cstr (root layout) @ str ''/state/credentials''"

definition identity_file_of :: "cn_storage_layout \<Rightarrow> bytes" where
  "identity_file_of layout = cstr (root layout) @ str ''/config/device-id''"

lemma strip_slashes_id: "p \<noteq> [] \<Longrightarrow> last p \<noteq> of_char CHR ''/'' \<Longrightarrow> strip_slashes p = p"
  by (subst strip_slashes.simps) auto

lemma scan_whole: "terminated p \<Longrightarrow> \<not> scan_nul p n \<ge> n \<Longrightarrow> scan_nul p n = length p"
  by (simp add: scan_nul_terminated min_def split: if_splits)

lemma settings_init_effect:
  assumes "cn_settings_store_init True (Some p) s = ((r, e, st), s')" "calm s0 s" "terminated p" "last p \<noteq> of_char CHR ''/''" "length p > 1"
  shows "calm s0 s'" and "r = CN_SETTINGS_OK \<Longrightarrow> st = \<lparr>config_directory = p, config_directory_length = length p\<rparr>"
proof -
  have n: "p \<noteq> []" using assms(5) by auto
  have "calm s0 s' \<and> (r = CN_SETTINGS_OK \<longrightarrow> st = \<lparr>config_directory = p, config_directory_length = length p\<rparr>)"
  proof (cases "settings_bounded_length (Some p) settings_path_capacity \<ge> settings_path_capacity")
    case True
    then show ?thesis using assms(1,2) by (auto simp: cn_settings_store_init_def Let_def split: if_splits)
  next
    case False
    then have l: "settings_bounded_length (Some p) settings_path_capacity = length p"
      using scan_whole [OF assms(3)] by (simp add: settings_bounded_length_def)
    have d: "strip_slashes (take (length p) p) = p" using strip_slashes_id [OF n assms(4)] by simp
    define st0 where "st0 = \<lparr>config_directory = p, config_directory_length = length p\<rparr>"
    obtain r1 e1 s1 where i: "inspect_config_directory st0 s = ((r1, e1), s1)" by (metis prod.collapse)
    have "calm s0 s1"
      using i calm_quiet [OF assms(2) sys_lstat_quiet]
      by (auto simp: inspect_config_directory_def split: prod.splits sum.splits if_splits node.splits)
    moreover have "build_paths (Some st0) s \<noteq> Inl CN_SETTINGS_OK" by (auto simp: build_paths_def Let_def)
    ultimately show ?thesis
      using assms(1,2) i unfolding cn_settings_store_init_def Let_def l option.sel d st0_def [symmetric]
      by (auto split: if_splits sum.splits)
  qed
  then show "calm s0 s'" "r = CN_SETTINGS_OK \<Longrightarrow> st = \<lparr>config_directory = p, config_directory_length = length p\<rparr>" by auto
qed

lemma credential_init_effect:
  assumes "cn_credential_store_init True (Some p) s = ((r, e, st), s')" "calm s0 s" "terminated p" "last p \<noteq> of_char CHR ''/''" "length p > 1"
  shows "calm s0 s'" and "r = CN_CREDENTIAL_OK \<Longrightarrow> st = \<lparr>credential_directory = p, credential_directory_length = length p\<rparr>"
proof -
  have n: "p \<noteq> []" using assms(5) by auto
  have "calm s0 s' \<and> (r = CN_CREDENTIAL_OK \<longrightarrow> st = \<lparr>credential_directory = p, credential_directory_length = length p\<rparr>)"
  proof (cases "credential_bounded_length (Some p) credential_path_capacity \<ge> credential_path_capacity - 48")
    case True
    then show ?thesis using assms(1,2) by (auto simp: cn_credential_store_init_def Let_def split: if_splits)
  next
    case False
    then have "scan_nul p credential_path_capacity = length p"
      using scan_whole [OF assms(3)] by (simp add: credential_bounded_length_def credential_path_capacity_def)
    then have l: "credential_bounded_length (Some p) credential_path_capacity = length p"
      by (simp add: credential_bounded_length_def)
    have d: "strip_slashes (take (length p) p) = p" using strip_slashes_id [OF n assms(4)] by simp
    obtain r1 e1 s1 where i: "credential_inspect_directory p s = ((r1, e1), s1)" by (metis prod.collapse)
    have "calm s0 s1" using calm_quiet [OF assms(2) conjunct1 [OF credential_inspect_directory_quiet [OF i]]] .
    then show ?thesis
      using assms(1,2) i unfolding cn_credential_store_init_def Let_def l option.sel d by (auto split: if_splits)
  qed
  then show "calm s0 s'" "r = CN_CREDENTIAL_OK \<Longrightarrow> st = \<lparr>credential_directory = p, credential_directory_length = length p\<rparr>" by auto
qed

lemma config_path_of:
  assumes "cn_storage_layout_path (Some layout) (Some CN_STORAGE_LOCATION_CONFIG) True capacity = (CN_STORAGE_OK, out)"
  shows "out = Some (cstr (root layout) @ str ''/config'')"
proof -
  have v: "layout_valid (Some layout)"
    using assms by (auto simp: cn_storage_layout_path_def build_path_def split: if_splits sum.splits)
  then have "root_length layout = strlen (root layout)"
    by (auto simp: layout_valid_def storage_bounded_length_def scan_nul_eq Let_def split: if_splits)
  then show ?thesis
    using assms by (auto simp: cn_storage_layout_path_def build_path_def config_suffix_def take_strlen Let_def split: if_splits)
qed

text \<open>What a part ends with: nothing has changed, and what it hands on is what its file holds.\<close>

definition profile_part :: "os \<Rightarrow> ('a \<Rightarrow> bool) \<Rightarrow> (cn_persisted_sync_profile_report + cn_persisted_sync_profile_report \<times> 'a) \<times> os \<Rightarrow> bool" where
  "profile_part s0 P x \<longleftrightarrow> calm s0 (snd x) \<and>
     (case fst x of
        Inl report \<Rightarrow> profile_status report \<noteq> CN_PERSISTED_SYNC_PROFILE_READY \<and>
          profile_status report \<noteq> CN_PERSISTED_SYNC_PROFILE_VALIDATION_FAILED
      | Inr (report, v) \<Rightarrow> P v)"

definition settings_stored :: "cn_storage_layout \<Rightarrow> filesystem \<Rightarrow> cn_settings \<Rightarrow> bool" where
  "settings_stored layout f settings \<longleftrightarrow> bytes_at f (settings_file_of layout) = Some (settings_image settings) \<and>
     cn_settings_validate (Some settings) = CN_SETTINGS_OK \<and> canonical settings = settings \<and> kosync_enabled settings = 1"

definition credentials_stored :: "cn_storage_layout \<Rightarrow> filesystem \<Rightarrow> cn_credentials \<Rightarrow> bool" where
  "credentials_stored layout f c \<longleftrightarrow> bytes_at f (credential_file_of layout) = Some (credential_image c) \<and>
     credentials_valid c \<and> plain_credentials c = c"

definition identity_stored :: "cn_storage_layout \<Rightarrow> filesystem \<Rightarrow> bytes \<Rightarrow> bool" where
  "identity_stored layout f id' \<longleftrightarrow> bytes_at f (identity_file_of layout) = Some (identity_image id') \<and> identity_text id'"

lemma profile_settings_part:
  assumes "calm s0 s"
  shows "profile_part s0 (settings_stored layout (fs s0)) (profile_settings layout report s)"
proof -
  obtain pr out where p: "cn_storage_layout_path (Some layout) (Some CN_STORAGE_LOCATION_CONFIG) True storage_path_capacity = (pr, out)"
    by fastforce
  show ?thesis
  proof (cases "pr = CN_STORAGE_OK")
    case False
    then show ?thesis using assms p by (simp add: profile_settings_def profile_part_def Let_def)
  next
    case True
    define dir where "dir = cstr (root layout) @ str ''/config''"
    have out: "out = Some dir" using config_path_of p True by (simp add: dir_def)
    have d: "terminated dir" "last dir \<noteq> of_char CHR ''/''" "length dir > 1" by (simp_all add: dir_def)
    obtain r1 e1 st s1 where i: "cn_settings_store_init True (Some dir) s = ((r1, e1, st), s1)" by (metis prod.collapse)
    note c1 = settings_init_effect [OF i assms d]
    obtain r2 v2 e2 s2 where l: "cn_settings_load (Some st) (Some zero_settings) s1 = ((r2, v2, e2), s2)" by (metis prod.collapse)
    have w1: "wf_os s1" using c1(1) by (simp add: calm_def)
    have eff: "settings_load_outcome (settings_path st) s1 ((r2, v2, e2), s2)"
      using settings_load_effect [OF w1, of st zero_settings] by (simp add: l ends_def)
    have c2: "calm s0 s2" using eff c1(1) by (simp add: settings_load_outcome_def calm_def)
    have stored: "settings_stored layout (fs s0) v" if "r1 = CN_SETTINGS_OK" "r2 = CN_SETTINGS_OK" "v2 = Some v" "kosync_enabled v \<noteq> 0" for v
    proof -
      have "settings_path st = settings_file_of layout"
        using c1(2) [OF that(1)] d by (simp add: settings_path_def settings_file_of_def dir_def settings_file_name_def)
      moreover have "kosync_enabled v = 1"
        using eff that(2-4) settings_valid_facts(1) [of v] by (auto simp: settings_load_outcome_def)
      ultimately show ?thesis
        using eff c1(1) that(2,3) by (auto simp: settings_load_outcome_def settings_stored_def calm_def)
    qed
    have some: "\<exists>v. v2 = Some v" using eff by (auto simp: settings_load_outcome_def split: if_splits)
    show ?thesis
      using p True out i l c1(1) c2 stored some
      by (auto simp: profile_settings_def profile_part_def Let_def split: if_splits)
  qed
qed

lemma profile_credentials_part:
  assumes "calm s0 s"
  shows "profile_part s0 (credentials_stored layout (fs s0)) (profile_credentials layout report s)"
proof (cases "state_path layout storage_path_capacity")
  case None
  then show ?thesis using assms by (simp add: profile_credentials_def profile_part_def Let_def)
next
  case (Some dir)
  have dir: "dir = cstr (root layout) @ str ''/state''" using Some by (auto simp: state_path_def Let_def split: if_splits)
  have d: "terminated dir" "last dir \<noteq> of_char CHR ''/''" "length dir > 1" by (simp_all add: dir)
  obtain r1 e1 st s1 where i: "cn_credential_store_init True (Some dir) s = ((r1, e1, st), s1)" by (metis prod.collapse)
  note c1 = credential_init_effect [OF i assms d]
  obtain r2 v2 e2 s2 where l: "cn_credential_store_load (Some st) (Some cn_credentials_clear) s1 = ((r2, v2, e2), s2)" by (metis prod.collapse)
  have w1: "wf_os s1" using c1(1) by (simp add: calm_def)
  have eff: "credential_load_outcome (credential_final_path st) s1 ((r2, v2, e2), s2)"
    using credential_load_effect [OF w1, of st cn_credentials_clear] by (simp add: l)
  have c2: "calm s0 s2" using eff c1(1) by (simp add: credential_load_outcome_def calm_def)
  have stored: "credentials_stored layout (fs s0) (the v2)" if "r1 = CN_CREDENTIAL_OK" "r2 = CN_CREDENTIAL_OK"
  proof -
    have "credential_final_path st = credential_file_of layout"
      using c1(2) [OF that(1)] by (simp add: credential_final_path_def credential_home_def credential_file_of_def dir credential_file_name_def)
    then show ?thesis using eff c1(1) that(2) by (auto simp: credential_load_outcome_def credentials_stored_def calm_def)
  qed
  show ?thesis
    using Some i l c1(1) c2 stored by (auto simp: profile_credentials_def profile_part_def Let_def)
qed

lemma profile_identity_part:
  assumes "calm s0 s"
  shows "profile_part s0 (identity_stored layout (fs s0)) (profile_identity layout report s)"
proof -
  obtain r1 st s1 where i: "cn_device_identity_store_init True (Some layout) None s = ((r1, st), s1)" by (metis prod.collapse)
  obtain pr out where p: "cn_storage_layout_path (Some layout) (Some CN_STORAGE_LOCATION_CONFIG) True storage_path_capacity = (pr, out)"
    by fastforce
  have out: "pr = CN_STORAGE_OK \<Longrightarrow> out = Some (cstr (root layout) @ str ''/config'')" using config_path_of p by simp
  have quiet: "inspect_config path s = ((r, e), t) \<Longrightarrow> quiet s t" for path r e t
    using sys_lstat_quiet [of path s] by (auto simp: inspect_config_def split: prod.splits sum.splits node.splits)
  have c1: "calm s0 s1"
    using i p assms calm_quiet [OF assms quiet]
    by (auto simp: cn_device_identity_store_init_def Let_def split: if_splits prod.splits option.splits)
  have path: "cstr (identity_path st) = identity_file_of layout" if ok: "r1 = CN_DEVICE_ID_OK"
  proof -
    have "pr = CN_STORAGE_OK" using i p ok by (auto simp: cn_device_identity_store_init_def Let_def split: if_splits)
    then obtain n where n: "identity_bounded_length (cstr (root layout) @ str ''/config'') storage_path_capacity = Some n"
      "identity_path st = take n (cstr (root layout) @ str ''/config'') @ device_id_file_suffix"
      using i p out ok by (auto simp: cn_device_identity_store_init_def Let_def split: if_splits prod.splits option.splits)
    have "terminated (cstr (root layout) @ str ''/config'')" by simp
    then have "n = length (cstr (root layout) @ str ''/config'')"
      using n(1) scan_whole [of "cstr (root layout) @ str ''/config''" storage_path_capacity]
      by (auto simp: identity_bounded_length_def Let_def simp del: str_simps split: if_splits)
    then have "identity_path st = identity_file_of layout"
      using n(2) by (simp add: identity_file_of_def device_id_file_suffix_def)
    moreover have "terminated (identity_file_of layout)" by (simp add: identity_file_of_def)
    ultimately show ?thesis by simp
  qed
  obtain r2 v2 e2 s2 where l: "cn_device_identity_load (Some st) True device_id_text_capacity s1 = ((r2, v2, e2), s2)"
    by (metis prod.collapse)
  have w1: "wf_os s1" using c1 by (simp add: calm_def)
  have "((r2, v2, e2), s2) = ((CN_DEVICE_ID_INVALID_ARGUMENT, [], None), s1) \<or> read_existing st s1 = ((r2, v2, e2), s2)"
    using l by (auto simp: cn_device_identity_load_def split: if_splits)
  then have eff: "identity_read (cstr (identity_path st)) s0 ((r2, v2, e2), s2)"
    using read_existing_effect [OF c1, of st] c1 by (elim disjE) (auto simp: identity_read_def split: if_splits)
  show ?thesis
    using i l c1 eff path by (auto simp: profile_identity_def profile_part_def identity_stored_def identity_read_def Let_def)
qed


lemma settings_texts_ok:
  assumes "cn_settings_validate (Some v) = CN_SETTINGS_OK" "kosync_enabled v = 1"
  shows "bounded_text (kosync_base_url v) settings_url_capacity True"
    and "bounded_text (kosync_device_name v) settings_device_name_capacity True"
proof -
  note f = settings_valid_facts [OF assms(1)]
  have "cstr (kosync_base_url v) \<noteq> []" "cstr (kosync_device_name v) \<noteq> []" using f(5,7) assms(2) by auto
  then have "strlen (kosync_base_url v) \<noteq> 0" "strlen (kosync_device_name v) \<noteq> 0" by (simp_all add: strlen_def)
  then show "bounded_text (kosync_base_url v) settings_url_capacity True"
    "bounded_text (kosync_device_name v) settings_device_name_capacity True"
    using f(2,3) by (simp_all add: bounded_text_def scan_nul_eq settings_url_capacity_def settings_device_name_capacity_def Let_def)
qed

lemma credential_texts_ok: "credential_valid_text t n \<Longrightarrow> bounded_text t (n + 1) True"
  by (auto simp: credential_valid_text_iff bounded_text_def scan_nul_eq strlen_def Let_def)

lemma identity_text_ok: "identity_text id' \<Longrightarrow> bounded_text id' device_id_text_capacity True"
proof -
  assume "identity_text id'"
  then have "terminated id'" "length id' = 32"
    using lower_hex_plain by (auto simp: identity_text_def device_id_text_length_def terminated_def)
  then show ?thesis
    by (simp add: bounded_text_def scan_nul_terminated device_id_text_capacity_def device_id_text_length_def)
qed

lemma profile_load_effect:
  assumes "wf_os s" "cn_persisted_sync_profile_load (Some layout) out s = ((report, profile), s')"
  shows "calm s s'" and "profile_status report \<noteq> CN_PERSISTED_SYNC_PROFILE_VALIDATION_FAILED"
    and "if profile_status report = CN_PERSISTED_SYNC_PROFILE_READY
      then \<exists>v c. settings_stored layout (fs s) v \<and> credentials_stored layout (fs s) c \<and>
        identity_stored layout (fs s) (profile_device_id profile) \<and> profile = \<lparr>profile_base_url = kosync_base_url v,
          profile_username = credential_username c, profile_userkey = credential_userkey c,
          profile_device_id = profile_device_id profile, profile_device_name = kosync_device_name v\<rparr>
      else profile = cn_persisted_sync_profile_clear"
proof -
  note c0 = calm_start [OF assms(1)]
  obtain x1 s1 where 1: "profile_settings layout initial_report s = (x1, s1)" by fastforce
  have p1: "profile_part s (settings_stored layout (fs s)) (x1, s1)"
    using profile_settings_part [OF c0, of layout initial_report] by (simp add: 1)
  have c1: "calm s s1" using p1 by (simp add: profile_part_def)
  obtain x2 s2 where 2: "profile_credentials layout (fst (projr x1)) s1 = (x2, s2)" by fastforce
  have p2: "profile_part s (credentials_stored layout (fs s)) (x2, s2)"
    using profile_credentials_part [OF c1, of layout "fst (projr x1)"] by (simp add: 2)
  have c2: "calm s s2" using p2 by (simp add: profile_part_def)
  obtain x3 s3 where 3: "profile_identity layout (fst (projr x2)) s2 = (x3, s3)" by fastforce
  have p3: "profile_part s (identity_stored layout (fs s)) (x3, s3)"
    using profile_identity_part [OF c2, of layout "fst (projr x2)"] by (simp add: 3)
  have c3: "calm s s3" using p3 by (simp add: profile_part_def)
  have ok: "profile_texts_ok \<lparr>profile_base_url = kosync_base_url v, profile_username = credential_username c,
      profile_userkey = credential_userkey c, profile_device_id = i, profile_device_name = kosync_device_name v\<rparr>"
    if "settings_stored layout (fs s) v" "credentials_stored layout (fs s) c" "identity_stored layout (fs s) i" for v c i
    using that settings_texts_ok [of v] credential_texts_ok [of "credential_username c" credential_username_max]
      credential_texts_ok [of "credential_userkey c" credential_userkey_max] identity_text_ok [of i]
    by (simp add: profile_texts_ok_def settings_stored_def credentials_stored_def identity_stored_def credentials_valid_def)
  have bad: "initial_report \<lparr>profile_status := CN_PERSISTED_SYNC_PROFILE_INVALID_ARGUMENT\<rparr> = initial_report"
    by (simp add: initial_report_def)
  let ?good = "\<lambda>report profile s'. calm s s' \<and> profile_status report \<noteq> CN_PERSISTED_SYNC_PROFILE_VALIDATION_FAILED \<and>
    (if profile_status report = CN_PERSISTED_SYNC_PROFILE_READY
      then \<exists>v c. settings_stored layout (fs s) v \<and> credentials_stored layout (fs s) c \<and>
        identity_stored layout (fs s) (profile_device_id profile) \<and> profile = \<lparr>profile_base_url = kosync_base_url v,
          profile_username = credential_username c, profile_userkey = credential_userkey c,
          profile_device_id = profile_device_id profile, profile_device_name = kosync_device_name v\<rparr>
      else profile = cn_persisted_sync_profile_clear)"
  have "?good report profile s'"
  proof (cases out)
    case False
    then show ?thesis using assms(2) c0 by (auto simp: cn_persisted_sync_profile_load_def initial_report_def)
  next
    case out: True
    note run = assms(2) [unfolded cn_persisted_sync_profile_load_def Let_def option.sel 1 prod.case]
    show ?thesis
    proof (cases x1)
      case (Inl r)
      then show ?thesis using run out p1 by (auto simp: profile_part_def)
    next
      case x1: (Inr a)
      obtain r1 v where a: "a = (r1, v)" by (cases a)
      have v: "settings_stored layout (fs s) v" using p1 by (simp add: profile_part_def x1 a)
      have 2: "profile_credentials layout r1 s1 = (x2, s2)" using 2 by (simp add: x1 a)
      show ?thesis
      proof (cases x2)
        case (Inl r)
        then show ?thesis using run out x1 a 2 p2 by (auto simp: profile_part_def)
      next
        case x2: (Inr b)
        obtain r2 c where b: "b = (r2, c)" by (cases b)
        have c: "credentials_stored layout (fs s) c" using p2 by (simp add: profile_part_def x2 b)
        have 3: "profile_identity layout r2 s2 = (x3, s3)" using 3 by (simp add: x2 b)
        show ?thesis
        proof (cases x3)
          case (Inl r)
          then show ?thesis using run out x1 a 2 x2 b 3 p3 by (auto simp: profile_part_def)
        next
          case x3: (Inr d)
          obtain r3 i where d: "d = (r3, i)" by (cases d)
          have i: "identity_stored layout (fs s) i" using p3 by (simp add: profile_part_def x3 d)
          show ?thesis
            using run out x1 a 2 x2 b 3 x3 d c3 ok [OF v c i] v c i
            by (auto intro!: exI [of _ v] exI [of _ c])
        qed
      qed
    qed
  qed
  then show "calm s s'" "profile_status report \<noteq> CN_PERSISTED_SYNC_PROFILE_VALIDATION_FAILED"
    "if profile_status report = CN_PERSISTED_SYNC_PROFILE_READY
      then \<exists>v c. settings_stored layout (fs s) v \<and> credentials_stored layout (fs s) c \<and>
        identity_stored layout (fs s) (profile_device_id profile) \<and> profile = \<lparr>profile_base_url = kosync_base_url v,
          profile_username = credential_username c, profile_userkey = credential_userkey c,
          profile_device_id = profile_device_id profile, profile_device_name = kosync_device_name v\<rparr>
      else profile = cn_persisted_sync_profile_clear" by blast+
qed


section \<open>Properties\<close>

text \<open>The account of the witness: a disk on which everything is stored.\<close>

definition sample_enabled :: cn_settings where
  "sample_enabled = \<lparr>kosync_enabled = 1, kosync_base_url = str ''https://k.example'', kosync_device_name = str ''Nook''\<rparr>"

definition sample_id :: bytes where "sample_id = replicate 32 (of_char CHR ''a'')"

definition account_disk :: "fault list \<Rightarrow> os" where
  "account_disk schedule = \<lparr>fs = \<lparr>names = [str ''/r/config'' \<mapsto> 0, str ''/r/state'' \<mapsto> 1, str ''/r/config/settings.conf'' \<mapsto> 2,
       str ''/r/state/credentials'' \<mapsto> 3, str ''/r/config/device-id'' \<mapsto> 4],
     inodes = (\<lambda>i. if i = 2 then Regular (settings_image sample_enabled) True
       else if i = 3 then Regular (credential_image sample_credentials) True
       else if i = 4 then Regular (identity_image sample_id) True else Directory)\<rparr>,
     fds = \<lambda>_. None, next_inode = 5, next_fd = 3, pid = str ''42'', faults = schedule, history = []\<rparr>"

lemma sample_enabled_valid: "cn_settings_validate (Some sample_enabled) = CN_SETTINGS_OK" "canonical sample_enabled = sample_enabled"
proof -
  have u: "base_url_valid (str ''https://k.example'')"
    by (simp add: base_url_valid_def url_byte_def Let_def)
  have n: "utf8_device_name_valid (str ''Nook'')"
    by (simp add: utf8_device_name_valid.simps settings_lead_def codepoint_refused_def)
  show "cn_settings_validate (Some sample_enabled) = CN_SETTINGS_OK" "canonical sample_enabled = sample_enabled"
    using u n by (simp_all add: cn_settings_validate_def sample_enabled_def settings_bounded_length_def scan_nul_eq strlen_def
        cstr_def settings_url_capacity_def settings_device_name_capacity_def Let_def canonical_def)
qed

lemma sample_id_text: "identity_text sample_id"
  by (simp add: identity_text_def sample_id_def device_id_text_length_def lower_hex_def list_all_iff)

lemma account_disk_facts:
  "wf_os (account_disk schedule)"
  "directory_at (fs (account_disk schedule)) (str ''/r/config'')" "directory_at (fs (account_disk schedule)) (str ''/r/state'')"
  "bytes_at (fs (account_disk schedule)) (str ''/r/config/settings.conf'') = Some (settings_image sample_enabled)"
  "bytes_at (fs (account_disk schedule)) (str ''/r/state/credentials'') = Some (credential_image sample_credentials)"
  "bytes_at (fs (account_disk schedule)) (str ''/r/config/device-id'') = Some (identity_image sample_id)"
  by (auto simp: account_disk_def wf_os_def directory_at_def bytes_at_def file_at_def split: if_splits)

lemma sample_config_path:
  "cn_storage_layout_path (Some sample_layout) (Some CN_STORAGE_LOCATION_CONFIG) True storage_path_capacity =
     (CN_STORAGE_OK, Some (str ''/r/config''))"
  using sample_layout_valid
  by (simp add: cn_storage_layout_path_def build_path_def sample_layout_def config_suffix_def storage_path_capacity_def)


lemma sample_stores:
  "settings_path \<lparr>config_directory = str ''/r/config'', config_directory_length = 9\<rparr> = str ''/r/config/settings.conf''"
  "credential_home \<lparr>credential_directory = str ''/r/state'', credential_directory_length = 8\<rparr> = str ''/r/state''"
  "credential_final_path \<lparr>credential_directory = str ''/r/state'', credential_directory_length = 8\<rparr> = str ''/r/state/credentials''"
  "cstr (str ''/r/config'') = str ''/r/config''" "cstr (str ''/r/config/device-id'') = str ''/r/config/device-id''"
  by (simp_all add: settings_path_def settings_file_name_def cstr_def credential_home_def credential_final_path_def
      credential_file_name_def)

definition sample_settings_store :: cn_settings_store where
  "sample_settings_store = \<lparr>config_directory = str ''/r/config'', config_directory_length = 9\<rparr>"

definition sample_credential_store :: cn_credential_store where
  "sample_credential_store = \<lparr>credential_directory = str ''/r/state'', credential_directory_length = 8\<rparr>"

lemma sample_settings_home:
  assumes "fs s = fs (account_disk [])" "pid s = str ''42''"
  shows "settings_home sample_settings_store s" "build_paths (Some sample_settings_store) s =
    Inr (settings_path sample_settings_store, settings_temporary sample_settings_store s)"
    "directory_at (fs s) (cstr (config_directory sample_settings_store))"
proof -
  show dir: "directory_at (fs s) (cstr (config_directory sample_settings_store))"
    using account_disk_facts(2) [of "[]"] assms(1) by (simp add: sample_settings_store_def cstr_def)
  have "store_valid (Some sample_settings_store)"
    by (simp add: store_valid_def sample_settings_store_def settings_bounded_length_def scan_nul_eq strlen_def cstr_def
        settings_path_capacity_def char_at_def)
  moreover show p: "build_paths (Some sample_settings_store) s =
      Inr (settings_path sample_settings_store, settings_temporary sample_settings_store s)"
    using assms(2) by (simp add: build_paths_def store_valid_def sample_settings_store_def settings_bounded_length_def scan_nul_eq
        strlen_def cstr_def settings_path_capacity_def settings_file_name_def char_at_def settings_path_def settings_temporary_def)
  ultimately show "settings_home sample_settings_store s" using dir by (simp add: settings_home_def)
qed

lemma sample_settings_load:
  assumes "faults s = []" "fs s = fs (account_disk [])" "pid s = str ''42''"
  shows "\<exists>s' e. cn_settings_load (Some sample_settings_store) (Some zero_settings) s = ((CN_SETTINGS_OK, Some sample_enabled, e), s') \<and>
    faults s' = []"
proof -
  have "bytes_at (fs s) (settings_path sample_settings_store) = Some (settings_image sample_enabled)"
    using account_disk_facts(4) [of "[]"] assms(2) unfolding sample_settings_store_def sample_stores by simp
  from settings_load_clean [OF assms(1) sample_settings_home(1) [OF assms(2,3)] this sample_enabled_valid(1)]
  show ?thesis unfolding sample_enabled_valid(2) by blast
qed

lemma profile_settings_clean:
  assumes "faults s = []" "fs s = fs (account_disk [])" "pid s = str ''42''"
  shows "\<exists>r s'. profile_settings sample_layout report s = (Inr (r, sample_enabled), s') \<and> faults s' = []"
proof -
  note home = sample_settings_home [OF assms(2,3)]
  have strip: "strip_slashes (str ''/r/config'') = str ''/r/config''" by (rule strip_slashes_id) simp_all
  have len: "settings_bounded_length (Some (str ''/r/config'')) settings_path_capacity = 9"
    by (simp add: settings_bounded_length_def scan_nul_eq strlen_def cstr_def settings_path_capacity_def)
  have tk: "take 9 (str ''/r/config'') = str ''/r/config''" "length (str ''/r/config'') = 9" "char_at (str ''/r/config'') 0 = of_char CHR ''/''"
    by (simp_all add: char_at_def)
  have init: "cn_settings_store_init True (Some (str ''/r/config'')) s = ((CN_SETTINGS_OK, None, sample_settings_store), leave s)"
    using home(2) inspect_directory_clean [OF assms(1) home(3)]
    unfolding cn_settings_store_init_def Let_def len option.sel tk strip sample_settings_store_def [symmetric]
    by (simp add: settings_path_capacity_def)
  obtain s' e where load: "cn_settings_load (Some sample_settings_store) (Some zero_settings) (leave s) =
      ((CN_SETTINGS_OK, Some sample_enabled, e), s')" "faults s' = []"
    using sample_settings_load [of "leave s"] assms by auto
  have "kosync_enabled sample_enabled = 1" by (simp add: sample_enabled_def)
  then show ?thesis
    using load init unfolding profile_settings_def sample_config_path by (simp add: Let_def)
qed

lemma sample_credential_load:
  assumes "faults s = []" "fs s = fs (account_disk [])"
  shows "\<exists>s'. cn_credential_store_load (Some sample_credential_store) (Some cn_credentials_clear) s =
      ((CN_CREDENTIAL_OK, Some sample_credentials, None), s') \<and> faults s' = []"
proof -
  have valid: "credential_store_valid (Some sample_credential_store)"
    by (simp add: credential_store_valid_def sample_credential_store_def credential_bounded_length_def scan_nul_eq strlen_def cstr_def
        credential_path_capacity_def char_at_def)
  have "directory_at (fs s) (credential_home sample_credential_store)"
    using account_disk_facts(3) [of "[]"] assms(2) unfolding sample_credential_store_def sample_stores by simp
  moreover have "bytes_at (fs s) (credential_final_path sample_credential_store) = Some (credential_image sample_credentials)"
    using account_disk_facts(5) [of "[]"] assms(2) unfolding sample_credential_store_def sample_stores by simp
  moreover have "plain_credentials sample_credentials = sample_credentials"
    by (simp add: plain_credentials_def sample_credentials_def cstr_def)
  ultimately show ?thesis using credential_load_clean [OF assms(1) valid _ _ sample_credentials_valid] by simp
qed

lemma profile_credentials_clean:
  assumes "faults s = []" "fs s = fs (account_disk [])"
  shows "\<exists>r s'. profile_credentials sample_layout report s = (Inr (r, sample_credentials), s') \<and> faults s' = []"
proof -
  have dir: "directory_at (fs s) (str ''/r/state'')" using account_disk_facts(3) [of "[]"] assms(2) by simp
  have strip: "strip_slashes (str ''/r/state'') = str ''/r/state''" by (rule strip_slashes_id) simp_all
  have len: "credential_bounded_length (Some (str ''/r/state'')) credential_path_capacity = 8"
    by (simp add: credential_bounded_length_def scan_nul_eq strlen_def cstr_def credential_path_capacity_def)
  have tk: "take 8 (str ''/r/state'') = str ''/r/state''" "length (str ''/r/state'') = 8" "char_at (str ''/r/state'') 0 = of_char CHR ''/''"
    "components_good [] (drop 1 (str ''/r/state''))"
    by (simp_all add: char_at_def bad_component_def)
  have path: "state_path sample_layout storage_path_capacity = Some (str ''/r/state'')"
    by (simp add: state_path_def sample_layout_def cstr_def storage_path_capacity_def)
  have init: "cn_credential_store_init True (Some (str ''/r/state'')) s = ((CN_CREDENTIAL_OK, None, sample_credential_store), leave s)"
    using credential_inspect_directory_clean [OF assms(1) dir] tk(4)
    unfolding cn_credential_store_init_def Let_def len option.sel tk(1-3) strip sample_credential_store_def [symmetric]
    by (simp add: credential_path_capacity_def)
  obtain s' where load: "cn_credential_store_load (Some sample_credential_store) (Some cn_credentials_clear) (leave s) =
      ((CN_CREDENTIAL_OK, Some sample_credentials, None), s')" "faults s' = []"
    using sample_credential_load [of "leave s"] assms by auto
  then show ?thesis using init path by (simp add: profile_credentials_def Let_def)
qed

lemma profile_identity_clean:
  assumes "faults s = []" "fs s = fs (account_disk [])"
  shows "\<exists>r s'. profile_identity sample_layout report s = (Inr (r, sample_id), s')"
proof -
  define st where "st = \<lparr>identity_path = str ''/r/config/device-id'', identity_path_length = 19, identity_entropy = None\<rparr>"
  have dir: "directory_at (fs s) (str ''/r/config'')" using account_disk_facts(2) [of "[]"] assms(2) by simp
  then have c: "inspect_config (str ''/r/config'') s = ((CN_DEVICE_ID_OK, None), leave s)"
    using assms(1) by (auto simp: inspect_config_def sys_lstat_def call_clean directory_at_def make_stat_def split: option.splits)
  have len: "identity_bounded_length (str ''/r/config'') storage_path_capacity = Some 9"
    by (simp add: identity_bounded_length_def scan_nul_eq strlen_def cstr_def storage_path_capacity_def)
  have tk: "take 9 (str ''/r/config'') @ device_id_file_suffix = str ''/r/config/device-id''" "length device_id_file_suffix = 10"
    by (simp_all add: device_id_file_suffix_def)
  have init: "cn_device_identity_store_init True (Some sample_layout) None s = ((CN_DEVICE_ID_OK, st), leave s)"
    unfolding cn_device_identity_store_init_def sample_config_path Let_def
    using c len tk by (simp add: sample_stores(4) st_def storage_path_capacity_def del: str_simps)
  have valid: "identity_store_valid (Some st)"
    by (simp add: identity_store_valid_def st_def identity_bounded_length_def scan_nul_eq strlen_def cstr_def
        storage_path_capacity_def char_at_def)
  have "faults (leave s) = []" "bytes_at (fs (leave s)) (cstr (identity_path st)) = Some (identity_image sample_id)"
    using assms account_disk_facts(6) [of "[]"] sample_stores(5) by (simp_all add: st_def del: str_simps)
  then obtain s' where "read_existing st (leave s) = ((CN_DEVICE_ID_OK, sample_id, None), s')"
    using read_existing_clean [OF _ _ sample_id_text] by blast
  then show ?thesis using init valid by (simp add: profile_identity_def cn_device_identity_load_def Let_def)
qed

lemma sample_profile_run:
  "\<exists>report profile s'. cn_persisted_sync_profile_load (Some sample_layout) True (account_disk []) = ((report, profile), s') \<and>
     profile_status report = CN_PERSISTED_SYNC_PROFILE_READY \<and> profile_device_id profile = sample_id"
proof -
  let ?s = "account_disk []"
  have clean: "faults ?s = []" "pid ?s = str ''42''" by (simp_all add: account_disk_def)
  obtain r1 s1 where 1: "profile_settings sample_layout initial_report ?s = (Inr (r1, sample_enabled), s1)" "faults s1 = []"
    using profile_settings_clean [OF clean(1) refl clean(2)] by blast
  have c1: "calm ?s s1"
    using profile_settings_part [OF calm_start [OF account_disk_facts(1)], of "[]" sample_layout initial_report] 1(1)
    by (simp add: profile_part_def)
  obtain r2 s2 where 2: "profile_credentials sample_layout r1 s1 = (Inr (r2, sample_credentials), s2)" "faults s2 = []"
    using profile_credentials_clean [OF 1(2), of r1] c1 by (auto simp: calm_def)
  have c2: "calm ?s s2" using profile_credentials_part [OF c1, of sample_layout r1] 2(1) by (simp add: profile_part_def)
  obtain r3 s3 where 3: "profile_identity sample_layout r2 s2 = (Inr (r3, sample_id), s3)"
    using profile_identity_clean [OF 2(2), of r2] c2 by (auto simp: calm_def)
  obtain report profile s' where run: "cn_persisted_sync_profile_load (Some sample_layout) True ?s = ((report, profile), s')"
    by (metis prod.collapse)
  then have ready: "profile_status report = CN_PERSISTED_SYNC_PROFILE_READY \<or>
      profile_status report = CN_PERSISTED_SYNC_PROFILE_VALIDATION_FAILED"
    "profile_status report = CN_PERSISTED_SYNC_PROFILE_READY \<Longrightarrow> profile_device_id profile = sample_id"
    using 1 2 3 by (auto simp: cn_persisted_sync_profile_load_def Let_def split: if_splits)
  from profile_load_effect(2) [OF account_disk_facts(1) run] ready run show ?thesis by auto
qed

text \<open>C36. A profile is what is stored.  Loading it changes no file and gives every descriptor back, whatever
  calls fail.  READY means that synchronisation is enabled in valid settings, that the credentials are
  valid, and that the three files hold exactly the images of what the profile contains; every other
  answer comes with a cleared profile.  The last check of the loaded texts never fails.\<close>

theorem profile_is_what_is_stored:
  assumes "wf_os s" "cn_persisted_sync_profile_load (Some layout) out s = ((report, profile), s')"
  shows "fs s' = fs s \<and> fds s' = fds s \<and> profile_status report \<noteq> CN_PERSISTED_SYNC_PROFILE_VALIDATION_FAILED \<and>
    (if profile_status report = CN_PERSISTED_SYNC_PROFILE_READY
     then \<exists>settings credentials. settings_stored layout (fs s) settings \<and> credentials_stored layout (fs s) credentials \<and>
       identity_stored layout (fs s) (profile_device_id profile) \<and>
       profile = \<lparr>profile_base_url = kosync_base_url settings, profile_username = credential_username credentials,
         profile_userkey = credential_userkey credentials, profile_device_id = profile_device_id profile,
         profile_device_name = kosync_device_name settings\<rparr>
     else profile = cn_persisted_sync_profile_clear)"
  using profile_load_effect [OF assms] by (simp add: calm_def)

theorem profile_is_what_is_stored_witness:
  "\<exists>report profile s'. cn_persisted_sync_profile_load (Some sample_layout) True (account_disk []) = ((report, profile), s') \<and>
     profile_status report = CN_PERSISTED_SYNC_PROFILE_READY \<and> profile_device_id profile = sample_id \<and> fs s' = fs (account_disk [])"
proof -
  obtain report profile s' where run: "cn_persisted_sync_profile_load (Some sample_layout) True (account_disk []) = ((report, profile), s')"
    "profile_status report = CN_PERSISTED_SYNC_PROFILE_READY" "profile_device_id profile = sample_id"
    using sample_profile_run by blast
  from profile_is_what_is_stored [OF account_disk_facts(1) run(1)] run show ?thesis by auto
qed

end
