(* ===== verification/Sync_Controllers.thy ===== *)
theory Sync_Controllers
  imports Sync_Evidence Sync_Profile
begin

text \<open>
  The controllers that run one synchronisation, pull or push of the current book: src/sync/sync_controller.c,
  sync_pull_controller.c and sync_push_controller.c with the account read from the stores, and
  profile_sync_controller.c with an account that was loaded before.  They check the inputs, make the client
  for the server, run the operation of Kosync_Sync and tell the caller what became of the two sides.

  A pointer that the code compares with NULL is an option.  Secrets that the code clears at the end are not
  kept.
\<close>

section \<open>Types\<close>

datatype cn_sync_controller_stage =
  CN_SYNC_CONTROLLER_INVALID | CN_SYNC_CONTROLLER_DISABLED | CN_SYNC_CONTROLLER_SETTINGS_FAILED
  | CN_SYNC_CONTROLLER_CREDENTIALS_FAILED | CN_SYNC_CONTROLLER_CONFIG_FAILED
  | CN_SYNC_CONTROLLER_INTEGRATION | CN_SYNC_CONTROLLER_CLASSIFICATION_FAILED

record cn_sync_controller_config =
  ctl_settings_store :: "cn_settings_store option"
  ctl_credential_store :: "cn_credential_store option"
  ctl_progress_store :: "cn_progress_store option"
  ctl_document_path :: "bytes option"
  ctl_device_id :: "bytes option"
  ctl_dns :: "cn_dns_config option"
  ctl_tls :: "cn_tls_config option"
  ctl_time_policy :: "cn_kosync_sync_time_policy enum_value"
  ctl_time :: "cn_time_config option"

record cn_sync_controller_result =
  ctl_stage :: cn_sync_controller_stage
  ctl_product :: cn_kosync_product_result
  ctl_settings_result :: cn_settings_result
  ctl_credential_result :: cn_credential_result
  ctl_sync_status :: "cn_kosync_sync_status enum_value"
  ctl_decision :: "cn_kosync_sync_decision enum_value"
  ctl_local_load_result :: cn_progress_result
  ctl_local_save_result :: cn_progress_result
  ctl_time_result :: "cn_time_result enum_value"
  ctl_dns_result :: "cn_dns_result enum_value"
  ctl_kosync_result :: "cn_kosync_result enum_value"
  ctl_transport_result :: "cn_netsimple_result enum_value"
  ctl_local_save_attempted :: int
  ctl_remote_put_attempted :: int
  ctl_local_saved :: int
  ctl_remote_uploaded :: int
  ctl_evidence_conservative :: bool

datatype cn_sync_pull_stage =
  CN_SYNC_PULL_INVALID | CN_SYNC_PULL_DISABLED | CN_SYNC_PULL_SETTINGS_FAILED
  | CN_SYNC_PULL_CREDENTIALS_FAILED | CN_SYNC_PULL_CONFIG_FAILED | CN_SYNC_PULL_EXECUTED

datatype cn_sync_pull_outcome =
  CN_SYNC_PULL_INTERNAL_FAILURE | CN_SYNC_PULL_DISABLED_OUTCOME | CN_SYNC_PULL_REMOTE_MISSING_OUTCOME
  | CN_SYNC_PULL_PERSISTED_OUTCOME | CN_SYNC_PULL_AUTH_REQUIRED | CN_SYNC_PULL_TRUSTED_TIME_UNAVAILABLE
  | CN_SYNC_PULL_CONNECTIVITY_FAILURE | CN_SYNC_PULL_SECURITY_FAILURE | CN_SYNC_PULL_SERVICE_FAILURE
  | CN_SYNC_PULL_LOCAL_FAILURE | CN_SYNC_PULL_CONFIGURATION_FAILURE

record cn_sync_pull_result =
  spull_stage :: cn_sync_pull_stage
  spull_outcome :: cn_sync_pull_outcome
  spull_settings_result :: cn_settings_result
  spull_credential_result :: cn_credential_result
  spull_pull :: cn_kosync_pull_result
  spull_local_mutation :: cn_kosync_mutation_state
  spull_remote_mutation :: cn_kosync_mutation_state

datatype cn_sync_push_stage =
  CN_SYNC_PUSH_INVALID | CN_SYNC_PUSH_DISABLED | CN_SYNC_PUSH_SETTINGS_FAILED
  | CN_SYNC_PUSH_CREDENTIALS_FAILED | CN_SYNC_PUSH_CONFIG_FAILED | CN_SYNC_PUSH_EXECUTED

datatype cn_sync_push_outcome =
  CN_SYNC_PUSH_INTERNAL_FAILURE | CN_SYNC_PUSH_DISABLED_OUTCOME | CN_SYNC_PUSH_UPLOADED_OUTCOME
  | CN_SYNC_PUSH_LOCAL_MISSING_OUTCOME | CN_SYNC_PUSH_LOCAL_UNSUPPORTED_OUTCOME | CN_SYNC_PUSH_LOCAL_FAILURE
  | CN_SYNC_PUSH_AUTH_REQUIRED | CN_SYNC_PUSH_TRUSTED_TIME_UNAVAILABLE | CN_SYNC_PUSH_CONNECTIVITY_FAILURE
  | CN_SYNC_PUSH_SECURITY_FAILURE | CN_SYNC_PUSH_SERVICE_FAILURE | CN_SYNC_PUSH_CONFIGURATION_FAILURE

record cn_sync_push_result =
  spush_stage :: cn_sync_push_stage
  spush_outcome :: cn_sync_push_outcome
  spush_settings_result :: cn_settings_result
  spush_credential_result :: cn_credential_result
  spush_push :: cn_kosync_push_result
  spush_local_mutation :: cn_kosync_mutation_state
  spush_remote_mutation :: cn_kosync_mutation_state

record cn_sync_resolved_config =
  rs_base_url :: bytes
  rs_device_name :: bytes
  rs_username :: bytes
  rs_userkey :: bytes
  rs_device_id :: "bytes option"
  rs_progress_store :: "cn_progress_store option"
  rs_document_path :: "bytes option"
  rs_dns :: "cn_dns_config option"
  rs_tls :: "cn_tls_config option"
  rs_time_policy :: "cn_kosync_sync_time_policy enum_value"
  rs_time :: "cn_time_config option"

section \<open>What the controllers have in common\<close>

text \<open>The check of the resolved inputs that all three make.\<close>

definition resolved_inputs_ok :: "cn_sync_resolved_config \<Rightarrow> bool" where
  "resolved_inputs_ok c \<longleftrightarrow> \<not> (rs_progress_store c = None \<or> rs_document_path c = None \<or>
     char_at (the (rs_document_path c)) 0 = 0 \<or> rs_dns c = None \<or> rs_tls c = None \<or> ca_path (the (rs_tls c)) = None \<or>
     (rs_time_policy c \<noteq> Known CN_KOSYNC_SYNC_TIME_ESTABLISH \<and>
      rs_time_policy c \<noteq> Known CN_KOSYNC_SYNC_TIME_CALLER_ESTABLISHED) \<or>
     (rs_time_policy c = Known CN_KOSYNC_SYNC_TIME_ESTABLISH \<and> (rs_time c = None \<or> own_clock (the (rs_tls c)))))"

text \<open>The client, \<open>None\<close> where it cannot be made or would not use TLS.\<close>

definition resolved_client :: "cn_sync_resolved_config \<Rightarrow> cn_kosync_client option" where
  "resolved_client c = (case cn_kosync_client_init (Some blank_client) (Some (rs_base_url c)) (Some (rs_username c))
       (Some (rs_userkey c)) of
     (k, client) \<Rightarrow> if k \<noteq> CN_KOSYNC_OK \<or> \<not> use_tls (the client) then None else client)"

definition pull_config_of :: "cn_sync_resolved_config \<Rightarrow> cn_kosync_client \<Rightarrow> cn_kosync_pull_config" where
  "pull_config_of c client = \<lparr>cfg_document_path = rs_document_path c, cfg_progress_store = rs_progress_store c,
     cfg_time_policy = rs_time_policy c, cfg_time = rs_time c, cfg_dns = rs_dns c, cfg_tls = rs_tls c, cfg_client = Some client\<rparr>"

definition sync_config_of :: "cn_sync_resolved_config \<Rightarrow> cn_kosync_client \<Rightarrow> cn_kosync_sync_config" where
  "sync_config_of c client = cn_kosync_pull_config.extend (pull_config_of c client)
     (cn_kosync_sync_config.fields (Some (rs_device_name c)) (rs_device_id c))"

text \<open>The account from the stores: how far reading it came.\<close>

datatype account = Settings_unusable cn_settings_result | Sync_disabled cn_settings_result
  | No_credentials cn_settings_result | Credentials_unusable cn_settings_result cn_credential_result
  | Settings_refused cn_settings_result cn_credential_result
  | Account cn_settings_result cn_credential_result cn_settings cn_credentials

definition load_account :: "cn_sync_controller_config \<Rightarrow> os \<Rightarrow> account \<times> os" where
  "load_account config s =
     (case cn_settings_load (ctl_settings_store config) (Some zero_settings) s of ((r, settings, _), s) \<Rightarrow>
      if r \<noteq> CN_SETTINGS_OK \<and> r \<noteq> CN_SETTINGS_MISSING then (Settings_unusable r, s)
      else if r = CN_SETTINGS_MISSING \<or> kosync_enabled (the settings) = 0 then (Sync_disabled r, s)
      else if ctl_credential_store config = None then (No_credentials r, s)
      else case cn_credential_store_load (ctl_credential_store config) (Some cn_credentials_clear) s of
        ((c, credentials, _), s) \<Rightarrow>
      if c \<noteq> CN_CREDENTIAL_OK then (Credentials_unusable r c, s)
      else if cn_settings_validate settings \<noteq> CN_SETTINGS_OK then (Settings_refused r c, s)
      else (Account r c (the settings) (the credentials), s))"

definition resolved_from_stores :: "cn_sync_controller_config \<Rightarrow> cn_settings \<Rightarrow> cn_credentials \<Rightarrow> cn_sync_resolved_config" where
  "resolved_from_stores config settings credentials = \<lparr>rs_base_url = kosync_base_url settings,
     rs_device_name = kosync_device_name settings, rs_username = credential_username credentials,
     rs_userkey = credential_userkey credentials, rs_device_id = ctl_device_id config,
     rs_progress_store = ctl_progress_store config, rs_document_path = ctl_document_path config, rs_dns = ctl_dns config,
     rs_tls = ctl_tls config, rs_time_policy = ctl_time_policy config, rs_time = ctl_time config\<rparr>"

section \<open>Synchronisation\<close>

definition cn_sync_controller_result_init_internal :: cn_sync_controller_result where
  "cn_sync_controller_result_init_internal = \<lparr>ctl_stage = CN_SYNC_CONTROLLER_INVALID,
     ctl_product = \<lparr>outcome = CN_KOSYNC_PRODUCT_INTERNAL_FAILURE, retry = CN_KOSYNC_RETRY_EXPLICIT_ACTION,
       local_mutation = CN_KOSYNC_MUTATION_NONE, remote_mutation = CN_KOSYNC_MUTATION_NONE\<rparr>,
     ctl_settings_result = CN_SETTINGS_INVALID_ARGUMENT, ctl_credential_result = CN_CREDENTIAL_INVALID,
     ctl_sync_status = Known CN_KOSYNC_SYNC_STATUS_INVALID, ctl_decision = Known CN_KOSYNC_SYNC_DECISION_NONE,
     ctl_local_load_result = CN_PROGRESS_INVALID, ctl_local_save_result = CN_PROGRESS_INVALID,
     ctl_time_result = Known CN_TIME_INVALID, ctl_dns_result = Known CN_DNS_INVALID,
     ctl_kosync_result = Known CN_KOSYNC_INVALID, ctl_transport_result = Known CN_NETSIMPLE_INVALID,
     ctl_local_save_attempted = 0, ctl_remote_put_attempted = 0, ctl_local_saved = 0, ctl_remote_uploaded = 0,
     ctl_evidence_conservative = False\<rparr>"

definition preflight_failure :: "cn_sync_controller_stage \<Rightarrow> cn_kosync_product_outcome \<Rightarrow> cn_sync_controller_result \<Rightarrow>
    cn_sync_controller_result" where
  "preflight_failure stage outcome' result = result\<lparr>ctl_stage := stage,
     ctl_product := (ctl_product result)\<lparr>outcome := outcome', retry := CN_KOSYNC_RETRY_EXPLICIT_ACTION\<rparr>\<rparr>"

text \<open>The mutations that are reported where the policy refuses the evidence.\<close>

definition conservative_state :: "int \<Rightarrow> int \<Rightarrow> cn_kosync_mutation_state" where
  "conservative_state happened attempted =
     (if happened \<noteq> 0 \<and> attempted \<noteq> 0 then CN_KOSYNC_MUTATION_CONFIRMED
      else if happened \<noteq> 0 \<or> attempted \<noteq> 0 then CN_KOSYNC_MUTATION_POSSIBLE else CN_KOSYNC_MUTATION_NONE)"

definition report_sync :: "cn_kosync_sync_result \<Rightarrow> cn_sync_controller_result \<Rightarrow> cn_sync_controller_result" where
  "report_sync sync output' =
     (let output' = output'\<lparr>ctl_stage := CN_SYNC_CONTROLLER_INTEGRATION, ctl_sync_status := sync_status sync,
            ctl_decision := decision sync, ctl_local_load_result := local_load_result sync,
            ctl_local_save_result := local_save_result sync, ctl_time_result := time_result sync,
            ctl_dns_result := dns_result sync, ctl_kosync_result := kosync_result sync,
            ctl_transport_result := transport_result (kosync_outcome sync),
            ctl_local_save_attempted := local_save_attempted sync, ctl_remote_put_attempted := remote_put_attempted sync,
            ctl_local_saved := local_saved sync, ctl_remote_uploaded := remote_uploaded sync\<rparr> in
      case cn_kosync_policy_classify 1 (Some sync) (Some (ctl_product output')) of (classified, product) \<Rightarrow>
      let output' = output'\<lparr>ctl_product := the product\<rparr> in
      if classified \<noteq> 0
      then output'\<lparr>ctl_stage := CN_SYNC_CONTROLLER_CLASSIFICATION_FAILED,
        ctl_product := \<lparr>outcome = CN_KOSYNC_PRODUCT_INTERNAL_FAILURE, retry = CN_KOSYNC_RETRY_EXPLICIT_ACTION,
          local_mutation = conservative_state (local_saved sync) (local_save_attempted sync),
          remote_mutation = conservative_state (remote_uploaded sync) (remote_put_attempted sync)\<rparr>,
        ctl_evidence_conservative := True\<rparr>
      else output')"

definition cn_sync_current_book_resolved :: "(bytes \<Rightarrow> stdio_file option) \<Rightarrow> (rat \<Rightarrow> bool) \<Rightarrow> cn_sync_resolved_config option \<Rightarrow>
    cn_sync_controller_result \<Rightarrow> os \<Rightarrow> network \<Rightarrow> cn_sync_controller_result \<times> os \<times> network" where
  "cn_sync_current_book_resolved files underflow config output' s n =
     (let failed = preflight_failure CN_SYNC_CONTROLLER_CONFIG_FAILED CN_KOSYNC_PRODUCT_CONFIGURATION_FAILURE output' in
      if config = None \<or> \<not> resolved_inputs_ok (the config) \<or> \<not> cn_sync_valid_device_id_internal (rs_device_id (the config))
      then (failed, s, n)
      else case resolved_client (the config) of None \<Rightarrow> (failed, s, n)
      | Some client \<Rightarrow>
          (case cn_kosync_sync_once files underflow (Some (sync_config_of (the config) client)) (Some sync_blank) s n of
             (sync, s, n) \<Rightarrow> (report_sync (the sync) output', s, n)))"

text \<open>The outcome for credentials that cannot be used.\<close>

definition credentials_outcome :: "cn_credential_result \<Rightarrow> 'a \<Rightarrow> 'a \<Rightarrow> 'a \<Rightarrow> 'a" where
  "credentials_outcome result missing configuration other =
     (if result = CN_CREDENTIAL_MISSING then missing
      else if result = CN_CREDENTIAL_CORRUPT \<or> result = CN_CREDENTIAL_UNSUPPORTED_VERSION \<or> result = CN_CREDENTIAL_INVALID
      then configuration else other)"

definition cn_sync_current_book :: "(bytes \<Rightarrow> stdio_file option) \<Rightarrow> (rat \<Rightarrow> bool) \<Rightarrow> cn_sync_controller_config option \<Rightarrow>
    os \<Rightarrow> network \<Rightarrow> cn_sync_controller_result \<times> os \<times> network" where
  "cn_sync_current_book files underflow config s n =
     (let result = cn_sync_controller_result_init_internal in
      if config = None \<or> ctl_settings_store (the config) = None then (result, s, n)
      else case load_account (the config) s of (account, s) \<Rightarrow> (case account of
        Settings_unusable r \<Rightarrow>
          (preflight_failure CN_SYNC_CONTROLLER_SETTINGS_FAILED CN_KOSYNC_PRODUCT_CONFIGURATION_FAILURE
             (result\<lparr>ctl_settings_result := r\<rparr>), s, n)
      | Sync_disabled r \<Rightarrow>
          (case cn_kosync_policy_classify 0 None (Some (ctl_product result)) of (code, product) \<Rightarrow>
             (result\<lparr>ctl_settings_result := r, ctl_product := the product,
                ctl_stage := if code \<noteq> 0 then CN_SYNC_CONTROLLER_CLASSIFICATION_FAILED else CN_SYNC_CONTROLLER_DISABLED\<rparr>, s, n))
      | No_credentials r \<Rightarrow>
          (preflight_failure CN_SYNC_CONTROLLER_CONFIG_FAILED CN_KOSYNC_PRODUCT_CONFIGURATION_FAILURE
             (result\<lparr>ctl_settings_result := r\<rparr>), s, n)
      | Credentials_unusable r c \<Rightarrow>
          (preflight_failure CN_SYNC_CONTROLLER_CREDENTIALS_FAILED
             (credentials_outcome c CN_KOSYNC_PRODUCT_AUTH_REQUIRED CN_KOSYNC_PRODUCT_CONFIGURATION_FAILURE CN_KOSYNC_PRODUCT_LOCAL_FAILURE)
             (result\<lparr>ctl_settings_result := r, ctl_credential_result := c\<rparr>), s, n)
      | Settings_refused r c \<Rightarrow>
          (preflight_failure CN_SYNC_CONTROLLER_CONFIG_FAILED CN_KOSYNC_PRODUCT_CONFIGURATION_FAILURE
             (result\<lparr>ctl_settings_result := r, ctl_credential_result := c\<rparr>), s, n)
      | Account r c settings credentials \<Rightarrow>
          cn_sync_current_book_resolved files underflow (Some (resolved_from_stores (the config) settings credentials))
            (result\<lparr>ctl_settings_result := r, ctl_credential_result := c\<rparr>) s n))"

section \<open>Pull\<close>

definition cn_sync_pull_result_init_internal :: cn_sync_pull_result where
  "cn_sync_pull_result_init_internal = \<lparr>spull_stage = CN_SYNC_PULL_INVALID, spull_outcome = CN_SYNC_PULL_INTERNAL_FAILURE,
     spull_settings_result = CN_SETTINGS_INVALID_ARGUMENT, spull_credential_result = CN_CREDENTIAL_INVALID,
     spull_pull = pull_blank, spull_local_mutation = CN_KOSYNC_MUTATION_NONE, spull_remote_mutation = CN_KOSYNC_MUTATION_NONE\<rparr>"

definition pull_dns_failure :: "cn_dns_result \<Rightarrow> cn_sync_pull_outcome" where
  "pull_dns_failure code = (case code of
       CN_DNS_SOCKET_FAILED \<Rightarrow> CN_SYNC_PULL_CONNECTIVITY_FAILURE
     | CN_DNS_NETWORK_FAILED \<Rightarrow> CN_SYNC_PULL_CONNECTIVITY_FAILURE
     | CN_DNS_TIMEOUT \<Rightarrow> CN_SYNC_PULL_CONNECTIVITY_FAILURE
     | CN_DNS_SERVER_FAILURE \<Rightarrow> CN_SYNC_PULL_CONNECTIVITY_FAILURE
     | CN_DNS_INVALID \<Rightarrow> CN_SYNC_PULL_CONFIGURATION_FAILURE
     | CN_DNS_INVALID_HOSTNAME \<Rightarrow> CN_SYNC_PULL_CONFIGURATION_FAILURE
     | CN_DNS_ENTROPY_FAILED \<Rightarrow> CN_SYNC_PULL_INTERNAL_FAILURE
     | _ \<Rightarrow> CN_SYNC_PULL_SERVICE_FAILURE)"

text \<open>The classes of transport failures, which pull and push share.\<close>

definition connectivity_failures :: "cn_netsimple_result list" where
  "connectivity_failures = [CN_NETSIMPLE_RESOLVE_ERROR, CN_NETSIMPLE_CONNECT_REFUSED, CN_NETSIMPLE_NETWORK_UNREACHABLE,
     CN_NETSIMPLE_HOST_UNREACHABLE, CN_NETSIMPLE_CONNECT_TIMEOUT, CN_NETSIMPLE_CONNECT_ERROR, CN_NETSIMPLE_SEND_ERROR,
     CN_NETSIMPLE_RECV_ERROR, CN_NETSIMPLE_RECV_TIMEOUT, CN_NETSIMPLE_SEND_TIMEOUT, CN_NETSIMPLE_TLS_HANDSHAKE_TIMEOUT,
     CN_NETSIMPLE_TLS_RECV_TIMEOUT]"

definition security_failures :: "cn_netsimple_result list" where
  "security_failures = [CN_NETSIMPLE_TLS_INVALID_CA, CN_NETSIMPLE_TLS_TRUST_FAILED, CN_NETSIMPLE_TLS_HOSTNAME_MISMATCH,
     CN_NETSIMPLE_TLS_CERT_TIME_FAILED, CN_NETSIMPLE_TLS_CERT_INVALID]"

definition pull_transport_failure :: "cn_netsimple_result enum_value \<Rightarrow> cn_sync_pull_outcome" where
  "pull_transport_failure code = (case code of
       Known c \<Rightarrow>
         if c \<in> set connectivity_failures then CN_SYNC_PULL_CONNECTIVITY_FAILURE
         else if c \<in> set security_failures then CN_SYNC_PULL_SECURITY_FAILURE
         else if c = CN_NETSIMPLE_INVALID then CN_SYNC_PULL_CONFIGURATION_FAILURE
         else if c = CN_NETSIMPLE_TLS_ENTROPY_FAILED \<or> c = CN_NETSIMPLE_TLS_INTERNAL then CN_SYNC_PULL_INTERNAL_FAILURE
         else CN_SYNC_PULL_SERVICE_FAILURE
     | Unknown _ \<Rightarrow> CN_SYNC_PULL_SERVICE_FAILURE)"

definition classify_pull :: "cn_kosync_pull_result \<Rightarrow> cn_sync_pull_outcome" where
  "classify_pull pull = (case pull_status pull of
       CN_KOSYNC_PULL_REMOTE_MISSING \<Rightarrow> CN_SYNC_PULL_REMOTE_MISSING_OUTCOME
     | CN_KOSYNC_PULL_PERSISTED \<Rightarrow> CN_SYNC_PULL_PERSISTED_OUTCOME
     | CN_KOSYNC_PULL_AUTH_FAILED \<Rightarrow> CN_SYNC_PULL_AUTH_REQUIRED
     | CN_KOSYNC_PULL_TRUSTED_TIME_FAILED \<Rightarrow> CN_SYNC_PULL_TRUSTED_TIME_UNAVAILABLE
     | CN_KOSYNC_PULL_DNS_FAILED \<Rightarrow> pull_dns_failure (pull_dns_result pull)
     | CN_KOSYNC_PULL_HTTPS_FAILED \<Rightarrow> pull_transport_failure (transport_result (pull_outcome pull))
     | CN_KOSYNC_PULL_PROTOCOL_FAILED \<Rightarrow> CN_SYNC_PULL_SERVICE_FAILURE
     | CN_KOSYNC_PULL_LOCAL_FAILED \<Rightarrow> CN_SYNC_PULL_LOCAL_FAILURE
     | CN_KOSYNC_PULL_IDENTITY_FAILED \<Rightarrow> CN_SYNC_PULL_LOCAL_FAILURE
     | CN_KOSYNC_PULL_INVALID \<Rightarrow> CN_SYNC_PULL_CONFIGURATION_FAILURE
     | _ \<Rightarrow> CN_SYNC_PULL_INTERNAL_FAILURE)"

definition pull_preflight :: "cn_sync_pull_stage \<Rightarrow> cn_sync_pull_outcome \<Rightarrow> cn_sync_pull_result \<Rightarrow> cn_sync_pull_result" where
  "pull_preflight stage outcome' result = result\<lparr>spull_stage := stage, spull_outcome := outcome'\<rparr>"

definition report_pull :: "cn_kosync_pull_result \<Rightarrow> cn_sync_pull_result \<Rightarrow> cn_sync_pull_result" where
  "report_pull pull output' = output'\<lparr>spull_pull := pull, spull_stage := CN_SYNC_PULL_EXECUTED,
     spull_outcome := classify_pull pull,
     spull_local_mutation := (if pull_saved pull then CN_KOSYNC_MUTATION_CONFIRMED
       else if pull_save_attempted pull then CN_KOSYNC_MUTATION_POSSIBLE else CN_KOSYNC_MUTATION_NONE)\<rparr>"

definition cn_sync_pull_remote_current_book_resolved :: "(bytes \<Rightarrow> stdio_file option) \<Rightarrow> (rat \<Rightarrow> bool) \<Rightarrow>
    cn_sync_resolved_config option \<Rightarrow> cn_sync_pull_result \<Rightarrow> os \<Rightarrow> network \<Rightarrow> cn_sync_pull_result \<times> os \<times> network" where
  "cn_sync_pull_remote_current_book_resolved files underflow config output' s n =
     (let failed = pull_preflight CN_SYNC_PULL_CONFIG_FAILED CN_SYNC_PULL_CONFIGURATION_FAILURE output' in
      if config = None \<or> \<not> resolved_inputs_ok (the config) then (failed, s, n)
      else case resolved_client (the config) of None \<Rightarrow> (failed, s, n)
      | Some client \<Rightarrow>
          (case cn_kosync_pull_remote_once files underflow (Some (pull_config_of (the config) client)) (Some (spull_pull output')) s n of
             (pull, s, n) \<Rightarrow> (report_pull (the pull) output', s, n)))"

definition cn_sync_pull_remote_current_book :: "(bytes \<Rightarrow> stdio_file option) \<Rightarrow> (rat \<Rightarrow> bool) \<Rightarrow> cn_sync_controller_config option \<Rightarrow>
    os \<Rightarrow> network \<Rightarrow> cn_sync_pull_result \<times> os \<times> network" where
  "cn_sync_pull_remote_current_book files underflow config s n =
     (let result = cn_sync_pull_result_init_internal in
      if config = None \<or> ctl_settings_store (the config) = None then (result, s, n)
      else case load_account (the config) s of (account, s) \<Rightarrow> (case account of
        Settings_unusable r \<Rightarrow>
          (pull_preflight CN_SYNC_PULL_SETTINGS_FAILED CN_SYNC_PULL_CONFIGURATION_FAILURE (result\<lparr>spull_settings_result := r\<rparr>), s, n)
      | Sync_disabled r \<Rightarrow>
          (pull_preflight CN_SYNC_PULL_DISABLED CN_SYNC_PULL_DISABLED_OUTCOME (result\<lparr>spull_settings_result := r\<rparr>), s, n)
      | No_credentials r \<Rightarrow>
          (pull_preflight CN_SYNC_PULL_CONFIG_FAILED CN_SYNC_PULL_CONFIGURATION_FAILURE (result\<lparr>spull_settings_result := r\<rparr>), s, n)
      | Credentials_unusable r c \<Rightarrow>
          (pull_preflight CN_SYNC_PULL_CREDENTIALS_FAILED
             (credentials_outcome c CN_SYNC_PULL_AUTH_REQUIRED CN_SYNC_PULL_CONFIGURATION_FAILURE CN_SYNC_PULL_LOCAL_FAILURE)
             (result\<lparr>spull_settings_result := r, spull_credential_result := c\<rparr>), s, n)
      | Settings_refused r c \<Rightarrow>
          (pull_preflight CN_SYNC_PULL_CONFIG_FAILED CN_SYNC_PULL_CONFIGURATION_FAILURE
             (result\<lparr>spull_settings_result := r, spull_credential_result := c\<rparr>), s, n)
      | Account r c settings credentials \<Rightarrow>
          cn_sync_pull_remote_current_book_resolved files underflow (Some (resolved_from_stores (the config) settings credentials))
            (result\<lparr>spull_settings_result := r, spull_credential_result := c\<rparr>) s n))"

section \<open>Push\<close>

definition cn_sync_push_result_init_internal :: cn_sync_push_result where
  "cn_sync_push_result_init_internal = \<lparr>spush_stage = CN_SYNC_PUSH_INVALID, spush_outcome = CN_SYNC_PUSH_INTERNAL_FAILURE,
     spush_settings_result = CN_SETTINGS_INVALID_ARGUMENT, spush_credential_result = CN_CREDENTIAL_INVALID,
     spush_push = push_blank, spush_local_mutation = CN_KOSYNC_MUTATION_NONE, spush_remote_mutation = CN_KOSYNC_MUTATION_NONE\<rparr>"

definition push_dns_failure :: "cn_dns_result \<Rightarrow> cn_sync_push_outcome" where
  "push_dns_failure code = (case code of
       CN_DNS_SOCKET_FAILED \<Rightarrow> CN_SYNC_PUSH_CONNECTIVITY_FAILURE
     | CN_DNS_NETWORK_FAILED \<Rightarrow> CN_SYNC_PUSH_CONNECTIVITY_FAILURE
     | CN_DNS_TIMEOUT \<Rightarrow> CN_SYNC_PUSH_CONNECTIVITY_FAILURE
     | CN_DNS_SERVER_FAILURE \<Rightarrow> CN_SYNC_PUSH_CONNECTIVITY_FAILURE
     | CN_DNS_INVALID \<Rightarrow> CN_SYNC_PUSH_CONFIGURATION_FAILURE
     | CN_DNS_INVALID_HOSTNAME \<Rightarrow> CN_SYNC_PUSH_CONFIGURATION_FAILURE
     | CN_DNS_ENTROPY_FAILED \<Rightarrow> CN_SYNC_PUSH_INTERNAL_FAILURE
     | _ \<Rightarrow> CN_SYNC_PUSH_SERVICE_FAILURE)"

definition push_transport_failure :: "cn_netsimple_result enum_value \<Rightarrow> cn_sync_push_outcome" where
  "push_transport_failure code = (case code of
       Known c \<Rightarrow>
         if c \<in> set connectivity_failures then CN_SYNC_PUSH_CONNECTIVITY_FAILURE
         else if c \<in> set security_failures then CN_SYNC_PUSH_SECURITY_FAILURE
         else if c = CN_NETSIMPLE_INVALID then CN_SYNC_PUSH_CONFIGURATION_FAILURE
         else if c = CN_NETSIMPLE_TLS_ENTROPY_FAILED \<or> c = CN_NETSIMPLE_TLS_INTERNAL then CN_SYNC_PUSH_INTERNAL_FAILURE
         else CN_SYNC_PUSH_SERVICE_FAILURE
     | Unknown _ \<Rightarrow> CN_SYNC_PUSH_SERVICE_FAILURE)"

definition classify_push :: "cn_kosync_push_result \<Rightarrow> cn_sync_push_outcome" where
  "classify_push push = (case push_status push of
       CN_KOSYNC_PUSH_UPLOADED \<Rightarrow> CN_SYNC_PUSH_UPLOADED_OUTCOME
     | CN_KOSYNC_PUSH_LOCAL_MISSING \<Rightarrow> CN_SYNC_PUSH_LOCAL_MISSING_OUTCOME
     | CN_KOSYNC_PUSH_LOCAL_UNSUPPORTED \<Rightarrow> CN_SYNC_PUSH_LOCAL_UNSUPPORTED_OUTCOME
     | CN_KOSYNC_PUSH_LOCAL_FAILED \<Rightarrow> CN_SYNC_PUSH_LOCAL_FAILURE
     | CN_KOSYNC_PUSH_IDENTITY_FAILED \<Rightarrow> CN_SYNC_PUSH_LOCAL_FAILURE
     | CN_KOSYNC_PUSH_AUTH_FAILED \<Rightarrow> CN_SYNC_PUSH_AUTH_REQUIRED
     | CN_KOSYNC_PUSH_TRUSTED_TIME_FAILED \<Rightarrow> CN_SYNC_PUSH_TRUSTED_TIME_UNAVAILABLE
     | CN_KOSYNC_PUSH_DNS_FAILED \<Rightarrow> push_dns_failure (push_dns_result push)
     | CN_KOSYNC_PUSH_HTTPS_FAILED \<Rightarrow> push_transport_failure (transport_result (push_outcome push))
     | CN_KOSYNC_PUSH_PROTOCOL_FAILED \<Rightarrow> CN_SYNC_PUSH_SERVICE_FAILURE
     | CN_KOSYNC_PUSH_INVALID \<Rightarrow> CN_SYNC_PUSH_CONFIGURATION_FAILURE
     | _ \<Rightarrow> CN_SYNC_PUSH_INTERNAL_FAILURE)"

definition push_preflight :: "cn_sync_push_stage \<Rightarrow> cn_sync_push_outcome \<Rightarrow> cn_sync_push_result \<Rightarrow> cn_sync_push_result" where
  "push_preflight stage outcome' result = result\<lparr>spush_stage := stage, spush_outcome := outcome'\<rparr>"

definition report_push :: "cn_kosync_push_result \<Rightarrow> cn_sync_push_result \<Rightarrow> cn_sync_push_result" where
  "report_push push output' = output'\<lparr>spush_push := push, spush_stage := CN_SYNC_PUSH_EXECUTED,
     spush_outcome := classify_push push, spush_remote_mutation := push_remote_mutation push\<rparr>"

definition cn_sync_push_local_current_book_resolved :: "(bytes \<Rightarrow> stdio_file option) \<Rightarrow> (rat \<Rightarrow> bool) \<Rightarrow>
    cn_sync_resolved_config option \<Rightarrow> cn_sync_push_result \<Rightarrow> os \<Rightarrow> network \<Rightarrow> cn_sync_push_result \<times> os \<times> network" where
  "cn_sync_push_local_current_book_resolved files underflow config output' s n =
     (let failed = push_preflight CN_SYNC_PUSH_CONFIG_FAILED CN_SYNC_PUSH_CONFIGURATION_FAILURE output' in
      if config = None \<or> \<not> resolved_inputs_ok (the config) \<or> rs_device_id (the config) = None then (failed, s, n)
      else case resolved_client (the config) of None \<Rightarrow> (failed, s, n)
      | Some client \<Rightarrow>
          (case cn_kosync_push_local_once files underflow (Some (sync_config_of (the config) client)) (Some (spush_push output')) s n of
             (push, s, n) \<Rightarrow> (report_push (the push) output', s, n)))"

definition cn_sync_push_local_current_book :: "(bytes \<Rightarrow> stdio_file option) \<Rightarrow> (rat \<Rightarrow> bool) \<Rightarrow> cn_sync_controller_config option \<Rightarrow>
    os \<Rightarrow> network \<Rightarrow> cn_sync_push_result \<times> os \<times> network" where
  "cn_sync_push_local_current_book files underflow config s n =
     (let result = cn_sync_push_result_init_internal in
      if config = None \<or> ctl_settings_store (the config) = None then (result, s, n)
      else case load_account (the config) s of (account, s) \<Rightarrow> (case account of
        Settings_unusable r \<Rightarrow>
          (push_preflight CN_SYNC_PUSH_SETTINGS_FAILED CN_SYNC_PUSH_CONFIGURATION_FAILURE (result\<lparr>spush_settings_result := r\<rparr>), s, n)
      | Sync_disabled r \<Rightarrow>
          (push_preflight CN_SYNC_PUSH_DISABLED CN_SYNC_PUSH_DISABLED_OUTCOME (result\<lparr>spush_settings_result := r\<rparr>), s, n)
      | No_credentials r \<Rightarrow>
          (push_preflight CN_SYNC_PUSH_CONFIG_FAILED CN_SYNC_PUSH_CONFIGURATION_FAILURE (result\<lparr>spush_settings_result := r\<rparr>), s, n)
      | Credentials_unusable r c \<Rightarrow>
          (push_preflight CN_SYNC_PUSH_CREDENTIALS_FAILED
             (credentials_outcome c CN_SYNC_PUSH_AUTH_REQUIRED CN_SYNC_PUSH_CONFIGURATION_FAILURE CN_SYNC_PUSH_LOCAL_FAILURE)
             (result\<lparr>spush_settings_result := r, spush_credential_result := c\<rparr>), s, n)
      | Settings_refused r c \<Rightarrow>
          (push_preflight CN_SYNC_PUSH_CONFIG_FAILED CN_SYNC_PUSH_CONFIGURATION_FAILURE
             (result\<lparr>spush_settings_result := r, spush_credential_result := c\<rparr>), s, n)
      | Account r c settings credentials \<Rightarrow>
          cn_sync_push_local_current_book_resolved files underflow (Some (resolved_from_stores (the config) settings credentials))
            (result\<lparr>spush_settings_result := r, spush_credential_result := c\<rparr>) s n))"

section \<open>With a profile\<close>

record cn_sync_runtime_inputs =
  run_dns :: "cn_dns_config option"
  run_tls :: "cn_tls_config option"
  run_time_policy :: "cn_kosync_sync_time_policy enum_value"
  run_time :: "cn_time_config option"

definition nonempty_bounded :: "bytes \<Rightarrow> nat \<Rightarrow> bool" where
  "nonempty_bounded text' capacity = (let n = scan_nul text' capacity in n > 0 \<and> n < capacity)"

text \<open>The check of the device name is the one of settings_store.c, repeated.\<close>

definition valid_device_name :: "bytes \<Rightarrow> bool" where
  "valid_device_name text' =
     (let n = scan_nul text' settings_device_name_capacity in
      if n = 0 \<or> n \<ge> settings_device_name_capacity then False else utf8_device_name_valid (take n text'))"

definition valid_profile :: "cn_persisted_sync_profile option \<Rightarrow> bool" where
  "valid_profile profile = (case profile of None \<Rightarrow> False
     | Some p \<Rightarrow> nonempty_bounded (profile_base_url p) settings_url_capacity \<and>
         nonempty_bounded (profile_username p) (credential_username_max + 1) \<and>
         nonempty_bounded (profile_userkey p) (credential_userkey_max + 1) \<and>
         nonempty_bounded (profile_device_id p) device_id_text_capacity \<and> valid_device_name (profile_device_name p))"

definition valid_runtime :: "cn_sync_runtime_inputs option \<Rightarrow> bool" where
  "valid_runtime runtime = (case runtime of None \<Rightarrow> False
     | Some r \<Rightarrow>
         if run_dns r = None \<or> run_tls r = None \<or> ca_path (the (run_tls r)) = None \<or>
            char_at (the (ca_path (the (run_tls r)))) 0 = 0 \<or> dns_server_count (the (run_dns r)) = 0 \<or>
            dns_server_count (the (run_dns r)) > dns_max_servers then False
         else if \<not> list_all (\<lambda>server. server \<noteq> None \<and> char_at (the server) 0 \<noteq> 0)
            (take (dns_server_count (the (run_dns r))) (dns_servers (the (run_dns r)))) then False
         else if run_time_policy r \<noteq> Known CN_KOSYNC_SYNC_TIME_ESTABLISH \<and>
            run_time_policy r \<noteq> Known CN_KOSYNC_SYNC_TIME_CALLER_ESTABLISHED then False
         else \<not> (run_time_policy r = Known CN_KOSYNC_SYNC_TIME_ESTABLISH \<and>
            (run_time r = None \<or> own_clock (the (run_tls r)))))"

definition valid_operation_inputs :: "cn_sync_runtime_inputs option \<Rightarrow> cn_progress_store option \<Rightarrow> bytes option \<Rightarrow> bool" where
  "valid_operation_inputs runtime progress_store document_path \<longleftrightarrow> valid_runtime runtime \<and> progress_store \<noteq> None \<and>
     document_path \<noteq> None \<and> char_at (the document_path) 0 \<noteq> 0"

definition resolved_from_profile :: "cn_persisted_sync_profile \<Rightarrow> cn_sync_runtime_inputs \<Rightarrow> cn_progress_store option \<Rightarrow>
    bytes option \<Rightarrow> cn_sync_resolved_config" where
  "resolved_from_profile profile runtime progress_store document_path = \<lparr>rs_base_url = profile_base_url profile,
     rs_device_name = profile_device_name profile, rs_username = profile_username profile,
     rs_userkey = profile_userkey profile, rs_device_id = Some (profile_device_id profile),
     rs_progress_store = progress_store, rs_document_path = document_path, rs_dns = run_dns runtime,
     rs_tls = run_tls runtime, rs_time_policy = run_time_policy runtime, rs_time = run_time runtime\<rparr>"

definition cn_sync_current_book_with_profile :: "(bytes \<Rightarrow> stdio_file option) \<Rightarrow> (rat \<Rightarrow> bool) \<Rightarrow>
    cn_persisted_sync_profile option \<Rightarrow> cn_sync_runtime_inputs option \<Rightarrow> cn_progress_store option \<Rightarrow> bytes option \<Rightarrow>
    os \<Rightarrow> network \<Rightarrow> cn_sync_controller_result \<times> os \<times> network" where
  "cn_sync_current_book_with_profile files underflow profile runtime progress_store document_path s n =
     (let result = cn_sync_controller_result_init_internal in
      if \<not> valid_profile profile \<or> \<not> valid_device_name (profile_device_name (the profile)) \<or>
         \<not> cn_sync_valid_device_id_internal (Some (profile_device_id (the profile))) \<or>
         \<not> valid_operation_inputs runtime progress_store document_path
      then (preflight_failure CN_SYNC_CONTROLLER_CONFIG_FAILED CN_KOSYNC_PRODUCT_CONFIGURATION_FAILURE result, s, n)
      else cn_sync_current_book_resolved files underflow
        (Some (resolved_from_profile (the profile) (the runtime) progress_store document_path)) result s n)"

definition cn_sync_push_local_current_book_with_profile :: "(bytes \<Rightarrow> stdio_file option) \<Rightarrow> (rat \<Rightarrow> bool) \<Rightarrow>
    cn_persisted_sync_profile option \<Rightarrow> cn_sync_runtime_inputs option \<Rightarrow> cn_progress_store option \<Rightarrow> bytes option \<Rightarrow>
    os \<Rightarrow> network \<Rightarrow> cn_sync_push_result \<times> os \<times> network" where
  "cn_sync_push_local_current_book_with_profile files underflow profile runtime progress_store document_path s n =
     (let result = cn_sync_push_result_init_internal in
      if \<not> valid_profile profile \<or> \<not> cn_sync_valid_device_id_internal (Some (profile_device_id (the profile))) \<or>
         \<not> valid_operation_inputs runtime progress_store document_path
      then (push_preflight CN_SYNC_PUSH_CONFIG_FAILED CN_SYNC_PUSH_CONFIGURATION_FAILURE result, s, n)
      else cn_sync_push_local_current_book_resolved files underflow
        (Some (resolved_from_profile (the profile) (the runtime) progress_store document_path)) result s n)"

definition cn_sync_pull_remote_current_book_with_profile :: "(bytes \<Rightarrow> stdio_file option) \<Rightarrow> (rat \<Rightarrow> bool) \<Rightarrow>
    cn_persisted_sync_profile option \<Rightarrow> cn_sync_runtime_inputs option \<Rightarrow> cn_progress_store option \<Rightarrow> bytes option \<Rightarrow>
    os \<Rightarrow> network \<Rightarrow> cn_sync_pull_result \<times> os \<times> network" where
  "cn_sync_pull_remote_current_book_with_profile files underflow profile runtime progress_store document_path s n =
     (let result = cn_sync_pull_result_init_internal in
      if \<not> valid_profile profile \<or> \<not> valid_operation_inputs runtime progress_store document_path
      then (pull_preflight CN_SYNC_PULL_CONFIG_FAILED CN_SYNC_PULL_CONFIGURATION_FAILURE result, s, n)
      else cn_sync_pull_remote_current_book_resolved files underflow
        (Some (resolved_from_profile (the profile) (the runtime) progress_store document_path)) result s n)"

section \<open>Reading the account\<close>

text \<open>Both files hold exactly the images of a usable account with synchronisation switched on.\<close>

definition account_stored :: "cn_sync_controller_config \<Rightarrow> filesystem \<Rightarrow> cn_settings \<Rightarrow> cn_credentials \<Rightarrow> bool" where
  "account_stored config f settings credentials \<longleftrightarrow> kosync_enabled settings \<noteq> 0 \<and>
     cn_settings_validate (Some settings) = CN_SETTINGS_OK \<and> credentials_valid credentials \<and>
     bytes_at f (settings_path (the (ctl_settings_store config))) = Some (settings_image settings) \<and>
     bytes_at f (credential_final_path (the (ctl_credential_store config))) = Some (credential_image credentials)"

lemma load_account_effect:
  assumes "load_account config s = (account, s')" "wf_os s" "ctl_settings_store config = Some st"
  shows "calm s s'" "account = Account r c v k \<Longrightarrow> account_stored config (fs s) v k"
proof -
  obtain r1 settings e s1 where l: "cn_settings_load (Some st) (Some zero_settings) s = ((r1, settings, e), s1)" by (metis prod.collapse)
  have L: "calm s s1" "r1 = CN_SETTINGS_OK \<Longrightarrow> \<exists>v. settings = Some v \<and> bytes_at (fs s) (settings_path st) = Some (settings_image v) \<and>
      cn_settings_validate (Some v) = CN_SETTINGS_OK"
    using settings_load_effect [OF assms(2), of st zero_settings] l by (auto simp: ends_def settings_load_outcome_def)
  have "calm s s' \<and> (\<forall>r c v k. account = Account r c v k \<longrightarrow> account_stored config (fs s) v k)"
  proof (cases "r1 = CN_SETTINGS_OK \<and> kosync_enabled (the settings) \<noteq> 0 \<and> ctl_credential_store config \<noteq> None")
    case False
    then show ?thesis using assms(1,3) l L(1) by (auto simp: load_account_def split: if_splits)
  next
    case True
    then obtain cs where cs: "ctl_credential_store config = Some cs" by blast
    obtain v where v: "settings = Some v" "bytes_at (fs s) (settings_path st) = Some (settings_image v)"
      "cn_settings_validate (Some v) = CN_SETTINGS_OK" using L(2) True by blast
    obtain c1 cred e2 s2 where k: "cn_credential_store_load (Some cs) (Some cn_credentials_clear) s1 = ((c1, cred, e2), s2)"
      by (metis prod.collapse)
    have K: "calm s1 s2" "c1 = CN_CREDENTIAL_OK \<Longrightarrow> \<exists>c. cred = Some c \<and> bytes_at (fs s1) (credential_final_path cs) = Some (credential_image c) \<and>
        credentials_valid c"
      using credential_load_effect [of s1 cs cn_credentials_clear] k L(1) by (auto simp: credential_load_outcome_def calm_def)
    have "account = (if c1 = CN_CREDENTIAL_OK then Account r1 c1 v (the cred) else Credentials_unusable r1 c1)" "s' = s2"
      using assms(1,3) l k cs v True by (auto simp: load_account_def split: if_splits)
    then show ?thesis using K v True L(1) cs assms(3) calm_trans [OF L(1) K(1)]
      by (auto simp: account_stored_def calm_def)
  qed
  then show "calm s s'" "account = Account r c v k \<Longrightarrow> account_stored config (fs s) v k" by blast+
qed

section \<open>The resolved runs\<close>

lemma once_answers:
  "\<exists>r s' n'. cn_kosync_sync_once files u c (Some sync) s n = (Some r, s', n')"
  "\<exists>r s' n'. cn_kosync_pull_remote_once files u d (Some pull) s n = (Some r, s', n')"
  "\<exists>r s' n'. cn_kosync_push_local_once files u c (Some push) s n = (Some r, s', n')"
  by (auto simp: cn_kosync_sync_once_def cn_kosync_sync_result_clear_def cn_kosync_sync_result_init_def
      cn_kosync_pull_remote_once_def cn_kosync_pull_result_init_def cn_kosync_push_local_once_def cn_kosync_push_result_init_def
      Let_def map_prod_def split: prod.splits)

text \<open>The policy takes every result that the controller shows it.\<close>

lemma report_sync_classified:
  assumes "cn_kosync_sync_once files u (Some c) (Some old) s n = (Some sync, s', n')" "wf_os s" "wf_net n"
  shows "\<exists>p. cn_kosync_policy_classify 1 (Some sync) (Some (ctl_product output')) = (0, Some p) \<and>
    ctl_product (report_sync sync output') = p \<and> ctl_stage (report_sync sync output') = CN_SYNC_CONTROLLER_INTEGRATION \<and>
    ctl_sync_status (report_sync sync output') = sync_status sync \<and>
    ctl_evidence_conservative (report_sync sync output') = ctl_evidence_conservative output'"
proof -
  obtain p where "cn_kosync_policy_classify 1 (Some sync) (Some (ctl_product output')) = (0, Some p)"
    using sync_result_is_classified [OF assms, of "ctl_product output'"] by blast
  then show ?thesis by (simp add: report_sync_def Let_def)
qed

text \<open>With inputs that pass the check and a client the operation runs.\<close>

lemma resolved_runs:
  assumes "resolved_inputs_ok c" "resolved_client c = Some client"
  shows "cn_sync_valid_device_id_internal (rs_device_id c) \<Longrightarrow>
      \<exists>sync s' n'. cn_kosync_sync_once files u (Some (sync_config_of c client)) (Some sync_blank) s n = (Some sync, s', n') \<and>
        cn_sync_current_book_resolved files u (Some c) out1 s n = (report_sync sync out1, s', n')"
    "\<exists>pull s' n'. cn_kosync_pull_remote_once files u (Some (pull_config_of c client)) (Some (spull_pull out2)) s n = (Some pull, s', n') \<and>
      cn_sync_pull_remote_current_book_resolved files u (Some c) out2 s n = (report_pull pull out2, s', n')"
    "rs_device_id c \<noteq> None \<Longrightarrow>
      \<exists>push s' n'. cn_kosync_push_local_once files u (Some (sync_config_of c client)) (Some (spush_push out3)) s n = (Some push, s', n') \<and>
        cn_sync_push_local_current_book_resolved files u (Some c) out3 s n = (report_push push out3, s', n')"
proof -
  obtain r1 s1 n1 r2 s2 n2 r3 s3 n3 where
    "cn_kosync_sync_once files u (Some (sync_config_of c client)) (Some sync_blank) s n = (Some r1, s1, n1)"
    "cn_kosync_pull_remote_once files u (Some (pull_config_of c client)) (Some (spull_pull out2)) s n = (Some r2, s2, n2)"
    "cn_kosync_push_local_once files u (Some (sync_config_of c client)) (Some (spush_push out3)) s n = (Some r3, s3, n3)"
    using once_answers by metis
  then show "cn_sync_valid_device_id_internal (rs_device_id c) \<Longrightarrow>
      \<exists>sync s' n'. cn_kosync_sync_once files u (Some (sync_config_of c client)) (Some sync_blank) s n = (Some sync, s', n') \<and>
        cn_sync_current_book_resolved files u (Some c) out1 s n = (report_sync sync out1, s', n')"
    "\<exists>pull s' n'. cn_kosync_pull_remote_once files u (Some (pull_config_of c client)) (Some (spull_pull out2)) s n = (Some pull, s', n') \<and>
      cn_sync_pull_remote_current_book_resolved files u (Some c) out2 s n = (report_pull pull out2, s', n')"
    "rs_device_id c \<noteq> None \<Longrightarrow>
      \<exists>push s' n'. cn_kosync_push_local_once files u (Some (sync_config_of c client)) (Some (spush_push out3)) s n = (Some push, s', n') \<and>
        cn_sync_push_local_current_book_resolved files u (Some c) out3 s n = (report_push push out3, s', n')"
    using assms by (auto simp: cn_sync_current_book_resolved_def cn_sync_pull_remote_current_book_resolved_def
      cn_sync_push_local_current_book_resolved_def Let_def)
qed

lemma resolved_sync_cases:
  assumes "cn_sync_current_book_resolved files u (Some c) output' s n = (r, s', n')"
  obtains (refused) "s' = s" "n' = n"
      "r = preflight_failure CN_SYNC_CONTROLLER_CONFIG_FAILED CN_KOSYNC_PRODUCT_CONFIGURATION_FAILURE output'"
  | (ran) client sync where "resolved_client c = Some client" "r = report_sync sync output'"
      "cn_kosync_sync_once files u (Some (sync_config_of c client)) (Some sync_blank) s n = (Some sync, s', n')"
proof (cases "resolved_inputs_ok c \<and> cn_sync_valid_device_id_internal (rs_device_id c) \<and> resolved_client c \<noteq> None")
  case False
  then show ?thesis using refused assms by (auto simp: cn_sync_current_book_resolved_def Let_def split: if_splits option.splits)
next
  case True
  then obtain client where client: "resolved_client c = Some client" by blast
  show ?thesis using resolved_runs(1) [OF _ client, of files u s n output'] True assms ran [OF client] by auto
qed

text \<open>Before a run the result says that nothing happened.\<close>

definition nothing_done :: "cn_sync_controller_result \<Rightarrow> bool" where
  "nothing_done r \<longleftrightarrow> local_mutation (ctl_product r) = CN_KOSYNC_MUTATION_NONE \<and>
     remote_mutation (ctl_product r) = CN_KOSYNC_MUTATION_NONE \<and> outcome (ctl_product r) \<notin> synced_outcomes \<and>
     ctl_stage r \<notin> {CN_SYNC_CONTROLLER_INTEGRATION, CN_SYNC_CONTROLLER_CLASSIFICATION_FAILED} \<and> \<not> ctl_evidence_conservative r"

lemma nothing_done_init:
  "nothing_done cn_sync_controller_result_init_internal" "nothing_done (r\<lparr>ctl_settings_result := a\<rparr>) = nothing_done r"
  "nothing_done (r\<lparr>ctl_credential_result := b\<rparr>) = nothing_done r"
  by (auto simp: nothing_done_def cn_sync_controller_result_init_internal_def synced_outcomes_def)

lemma nothing_done_preflight:
  "nothing_done r \<Longrightarrow> stage \<notin> {CN_SYNC_CONTROLLER_INTEGRATION, CN_SYNC_CONTROLLER_CLASSIFICATION_FAILED} \<Longrightarrow> x \<notin> synced_outcomes \<Longrightarrow>
    nothing_done (preflight_failure stage x r)"
  by (auto simp: nothing_done_def preflight_failure_def)

lemma resolved_sync_report:
  assumes "cn_sync_current_book_resolved files u (Some c) output' s n = (r, s', n')" "wf_os s" "wf_net n" "nothing_done output'"
  shows "nothing_done r \<and> s' = s \<and> n' = n \<or>
    ctl_stage r = CN_SYNC_CONTROLLER_INTEGRATION \<and> \<not> ctl_evidence_conservative r \<and> (\<exists>client sync. resolved_client c = Some client \<and>
      cn_kosync_sync_once files u (Some (sync_config_of c client)) (Some sync_blank) s n = (Some sync, s', n') \<and>
      (outcome (ctl_product r) \<in> synced_outcomes \<longleftrightarrow> sync_status sync = Known CN_KOSYNC_SYNC_STATUS_OK) \<and>
      sides_as_reported files (sync_config_of c client) (ctl_product r) (sync_status sync = Known CN_KOSYNC_SYNC_STATUS_AUTH_FAILED)
        (remote_progress sync) (s, n) (s', n'))"
  using assms(1)
proof (cases rule: resolved_sync_cases)
  case refused
  then show ?thesis using nothing_done_preflight [OF assms(4)] by (simp add: synced_outcomes_def)
next
  case (ran client sync)
  from report_sync_classified [OF ran(3) assms(2,3), of output']
  obtain p where p: "cn_kosync_policy_classify 1 (Some sync) (Some (ctl_product output')) = (0, Some p)"
    "ctl_product r = p" "ctl_stage r = CN_SYNC_CONTROLLER_INTEGRATION" "ctl_evidence_conservative r = ctl_evidence_conservative output'"
    unfolding ran(2) by blast
  have "outcome p \<in> synced_outcomes \<longleftrightarrow> sync_status sync = Known CN_KOSYNC_SYNC_STATUS_OK"
    using sync_result_is_classified [OF ran(3) assms(2,3), of "ctl_product output'"] p(1) by auto
  then show ?thesis
    using p ran(1,3) sync_sides [OF ran(3) assms(2,3) p(1)] assms(4) by (auto simp: nothing_done_def)
qed

text \<open>The same for pull and push.\<close>

lemma resolved_pull_cases:
  assumes "cn_sync_pull_remote_current_book_resolved files u (Some c) output' s n = (r, s', n')"
  obtains (refused) "s' = s" "n' = n" "r = pull_preflight CN_SYNC_PULL_CONFIG_FAILED CN_SYNC_PULL_CONFIGURATION_FAILURE output'"
  | (ran) client pull where "resolved_client c = Some client" "r = report_pull pull output'"
      "cn_kosync_pull_remote_once files u (Some (pull_config_of c client)) (Some (spull_pull output')) s n = (Some pull, s', n')"
proof (cases "resolved_inputs_ok c \<and> resolved_client c \<noteq> None")
  case False
  then show ?thesis using refused assms by (auto simp: cn_sync_pull_remote_current_book_resolved_def Let_def split: if_splits option.splits)
next
  case True
  then obtain client where client: "resolved_client c = Some client" by blast
  show ?thesis using resolved_runs(2) [OF _ client, of files u output' s n] True assms ran [OF client] by auto
qed

lemma resolved_push_cases:
  assumes "cn_sync_push_local_current_book_resolved files u (Some c) output' s n = (r, s', n')"
  obtains (refused) "s' = s" "n' = n" "r = push_preflight CN_SYNC_PUSH_CONFIG_FAILED CN_SYNC_PUSH_CONFIGURATION_FAILURE output'"
  | (ran) client push where "resolved_client c = Some client" "r = report_push push output'"
      "cn_kosync_push_local_once files u (Some (sync_config_of c client)) (Some (spush_push output')) s n = (Some push, s', n')"
proof (cases "resolved_inputs_ok c \<and> rs_device_id c \<noteq> None \<and> resolved_client c \<noteq> None")
  case False
  then show ?thesis using refused assms by (auto simp: cn_sync_push_local_current_book_resolved_def Let_def split: if_splits option.splits)
next
  case True
  then obtain client where client: "resolved_client c = Some client" by blast
  show ?thesis using resolved_runs(3) [OF _ client, of files u output' s n] True assms ran [OF client] by auto
qed

lemma classify_pull_persisted: "classify_pull p = CN_SYNC_PULL_PERSISTED_OUTCOME \<longleftrightarrow> pull_status p = CN_KOSYNC_PULL_PERSISTED"
  by (auto simp: classify_pull_def pull_dns_failure_def pull_transport_failure_def split: cn_kosync_pull_status.splits
      cn_dns_result.splits enum_value.splits)

lemma classify_push_uploaded: "classify_push p = CN_SYNC_PUSH_UPLOADED_OUTCOME \<longleftrightarrow> push_status p = CN_KOSYNC_PUSH_UPLOADED"
  by (auto simp: classify_push_def push_dns_failure_def push_transport_failure_def split: cn_kosync_push_status.splits
      cn_dns_result.splits enum_value.splits)

text \<open>What a pull did, by the result that the controller gives.\<close>

definition pull_sides :: "(bytes \<Rightarrow> stdio_file option) \<Rightarrow> cn_kosync_pull_config \<Rightarrow> cn_sync_pull_result \<Rightarrow> os \<times> network \<Rightarrow> os \<times> network \<Rightarrow> bool" where
  "pull_sides files c r w w' \<longleftrightarrow> sockets (snd w') = sockets (snd w) \<and>
     (\<exists>h j. outgoing (snd w') = outgoing (snd w) @ take j (get_wire (wire_client c h) (book_document files c))) \<and>
     (case spull_local_mutation r of
        CN_KOSYNC_MUTATION_NONE \<Rightarrow> fs (fst w') = fs (fst w)
      | CN_KOSYNC_MUTATION_CONFIRMED \<Rightarrow> \<exists>remote. document_id remote = cstr (book_document files c) \<and>
          file_at (fs (fst w')) (book_file c) = Some (progress_image (fst (local_identity c)) (record_of_remote remote), True)
      | CN_KOSYNC_MUTATION_POSSIBLE \<Rightarrow> bytes_at (fs (fst w')) (book_file c) = bytes_at (fs (fst w)) (book_file c))"

definition nothing_pulled :: "cn_sync_pull_result \<Rightarrow> bool" where
  "nothing_pulled r \<longleftrightarrow> spull_stage r \<noteq> CN_SYNC_PULL_EXECUTED \<and> spull_local_mutation r = CN_KOSYNC_MUTATION_NONE \<and>
     spull_remote_mutation r = CN_KOSYNC_MUTATION_NONE \<and>
     spull_outcome r \<notin> {CN_SYNC_PULL_PERSISTED_OUTCOME, CN_SYNC_PULL_REMOTE_MISSING_OUTCOME}"

lemma resolved_pull_report:
  assumes "cn_sync_pull_remote_current_book_resolved files u (Some c) output' s n = (r, s', n')" "wf_os s" "wf_net n" "nothing_pulled output'"
  shows "nothing_pulled r \<and> s' = s \<and> n' = n \<or>
    spull_stage r = CN_SYNC_PULL_EXECUTED \<and> spull_remote_mutation r = CN_KOSYNC_MUTATION_NONE \<and>
    (spull_outcome r = CN_SYNC_PULL_PERSISTED_OUTCOME \<longleftrightarrow> spull_local_mutation r = CN_KOSYNC_MUTATION_CONFIRMED) \<and>
    (\<exists>client. resolved_client c = Some client \<and> pull_sides files (pull_config_of c client) r (s, n) (s', n'))"
  using assms(1)
proof (cases rule: resolved_pull_cases)
  case refused
  then show ?thesis using assms(4) by (simp add: nothing_pulled_def pull_preflight_def)
next
  case (ran client pull)
  note P = pull_report_final [OF ran(3) assms(2,3), unfolded pull_report_def talks_def]
  then have "pull_sides files (pull_config_of c client) r (s, n) (s', n')"
    unfolding ran(2) pull_sides_def fst_conv snd_conv by (auto simp: report_pull_def)
  then show ?thesis using ran(1,2) P assms(4) by (simp add: report_pull_def classify_pull_persisted nothing_pulled_def)
qed

definition push_sides :: "(bytes \<Rightarrow> stdio_file option) \<Rightarrow> cn_kosync_push_config \<Rightarrow> cn_sync_push_result \<Rightarrow> os \<times> network \<Rightarrow> os \<times> network \<Rightarrow> bool" where
  "push_sides files c r w w' \<longleftrightarrow> sockets (snd w') = sockets (snd w) \<and> fs (fst w') = fs (fst w) \<and>
     (\<exists>h k. let put = put_wire (wire_client c h) (Some (upload_of c (book_document files c) (book_position c (fst w)))) in
        outgoing (snd w') = outgoing (snd w) @ take k put \<and>
        (case spush_remote_mutation r of CN_KOSYNC_MUTATION_NONE \<Rightarrow> outgoing (snd w') = outgoing (snd w)
         | CN_KOSYNC_MUTATION_CONFIRMED \<Rightarrow> outgoing (snd w') = outgoing (snd w) @ put | CN_KOSYNC_MUTATION_POSSIBLE \<Rightarrow> True))"

lemma push_sides_files: "push_sides files c r w w' \<Longrightarrow> fs (fst w') = fs (fst w)"
  by (simp add: push_sides_def)

definition nothing_pushed :: "cn_sync_push_result \<Rightarrow> bool" where
  "nothing_pushed r \<longleftrightarrow> spush_stage r \<noteq> CN_SYNC_PUSH_EXECUTED \<and> spush_local_mutation r = CN_KOSYNC_MUTATION_NONE \<and>
     spush_remote_mutation r = CN_KOSYNC_MUTATION_NONE \<and> spush_outcome r \<noteq> CN_SYNC_PUSH_UPLOADED_OUTCOME"

lemma resolved_push_report:
  assumes "cn_sync_push_local_current_book_resolved files u (Some c) output' s n = (r, s', n')" "wf_os s" "wf_net n" "nothing_pushed output'"
  shows "nothing_pushed r \<and> s' = s \<and> n' = n \<or>
    spush_stage r = CN_SYNC_PUSH_EXECUTED \<and> spush_local_mutation r = CN_KOSYNC_MUTATION_NONE \<and>
    (spush_outcome r = CN_SYNC_PUSH_UPLOADED_OUTCOME \<longleftrightarrow> spush_remote_mutation r = CN_KOSYNC_MUTATION_CONFIRMED) \<and>
    (\<exists>client. resolved_client c = Some client \<and> push_sides files (sync_config_of c client) r (s, n) (s', n'))"
  using assms(1)
proof (cases rule: resolved_push_cases)
  case refused
  then show ?thesis using assms(4) by (simp add: nothing_pushed_def push_preflight_def)
next
  case (ran client push)
  note P = push_report_final [OF ran(3) assms(2,3), unfolded push_report_def]
  let ?put = "\<lambda>h. put_wire (wire_client (sync_config_of c client) h) (Some (upload_of (sync_config_of c client)
    (book_document files (sync_config_of c client)) (book_position (sync_config_of c client) s)))"
  obtain h k where k: "outgoing n' = outgoing n @ take k (?put h)"
    "push_remote_mutation push = CN_KOSYNC_MUTATION_NONE \<longrightarrow> k = 0"
    "push_remote_mutation push = CN_KOSYNC_MUTATION_CONFIRMED \<longrightarrow> outgoing n' = outgoing n @ ?put h" using P by blast
  have "push_sides files (sync_config_of c client) r (s, n) (s', n')"
    unfolding ran(2) push_sides_def fst_conv snd_conv using k P
    by (intro conjI exI [of _ h] exI [of _ k]) (auto simp: report_push_def Let_def split: cn_kosync_mutation_state.split)
  then show ?thesis using ran(1,2) P assms(4) by (simp add: report_push_def classify_push_uploaded nothing_pushed_def)
qed

section \<open>The controllers\<close>

lemma sync_controller_report:
  assumes "cn_sync_current_book files u (Some config) s n = (r, s', n')" "wf_os s" "wf_net n"
  shows "nothing_done r \<and> fs s' = fs s \<and> n' = n \<or>
    ctl_stage r = CN_SYNC_CONTROLLER_INTEGRATION \<and> \<not> ctl_evidence_conservative r \<and> (\<exists>settings credentials client sync s1.
      account_stored config (fs s) settings credentials \<and> fs s1 = fs s \<and> resolved_client (resolved_from_stores config settings credentials) = Some client \<and>
      cn_kosync_sync_once files u (Some (sync_config_of (resolved_from_stores config settings credentials) client)) (Some sync_blank) s1 n =
        (Some sync, s', n') \<and>
      (outcome (ctl_product r) \<in> synced_outcomes \<longleftrightarrow> sync_status sync = Known CN_KOSYNC_SYNC_STATUS_OK) \<and>
      sides_as_reported files (sync_config_of (resolved_from_stores config settings credentials) client) (ctl_product r)
        (sync_status sync = Known CN_KOSYNC_SYNC_STATUS_AUTH_FAILED) (remote_progress sync) (s1, n) (s', n'))"
proof (cases "ctl_settings_store config")
  case None
  then show ?thesis using assms(1) nothing_done_init(1) by (simp add: cn_sync_current_book_def)
next
  case (Some st)
  obtain a s1 where l: "load_account config s = (a, s1)" by (cases "load_account config s")
  note L = load_account_effect [OF l assms(2) Some]
  show ?thesis
  proof (cases "\<exists>r1 c1 v k. a = Account r1 c1 v k")
    case True
    then obtain r1 c1 v k where a: "a = Account r1 c1 v k" by blast
    have run: "cn_sync_current_book_resolved files u (Some (resolved_from_stores config v k))
        (cn_sync_controller_result_init_internal\<lparr>ctl_settings_result := r1, ctl_credential_result := c1\<rparr>) s1 n = (r, s', n')"
      using assms(1) Some l a by (simp add: cn_sync_current_book_def)
    have start: "nothing_done (cn_sync_controller_result_init_internal\<lparr>ctl_settings_result := r1, ctl_credential_result := c1\<rparr>)"
      "wf_os s1" "fs s1 = fs s" using L(1) by (simp_all add: nothing_done_init calm_def)
    from resolved_sync_report [OF run start(2) assms(3) start(1)] start(3) L(2) [OF a] show ?thesis by blast
  next
    case False
    then have "nothing_done r \<and> s' = s1 \<and> n' = n"
      using assms(1) Some l nothing_done_init
      by (cases a) (auto simp: cn_sync_current_book_def nothing_done_preflight credentials_outcome_def synced_outcomes_def
          policy_cases closed_result_def nothing_done_def cn_sync_controller_result_init_internal_def preflight_failure_def split: if_splits)
    then show ?thesis using L(1) by (simp add: calm_def)
  qed
qed

lemma pull_controller_report:
  assumes "cn_sync_pull_remote_current_book files u (Some config) s n = (r, s', n')" "wf_os s" "wf_net n"
  shows "nothing_pulled r \<and> fs s' = fs s \<and> n' = n \<or>
    spull_stage r = CN_SYNC_PULL_EXECUTED \<and> spull_remote_mutation r = CN_KOSYNC_MUTATION_NONE \<and>
    (spull_outcome r = CN_SYNC_PULL_PERSISTED_OUTCOME \<longleftrightarrow> spull_local_mutation r = CN_KOSYNC_MUTATION_CONFIRMED) \<and>
    (\<exists>settings credentials client s1. account_stored config (fs s) settings credentials \<and> fs s1 = fs s \<and>
      resolved_client (resolved_from_stores config settings credentials) = Some client \<and>
      pull_sides files (pull_config_of (resolved_from_stores config settings credentials) client) r (s1, n) (s', n'))"
proof (cases "ctl_settings_store config")
  case None
  then show ?thesis using assms(1) by (auto simp: cn_sync_pull_remote_current_book_def nothing_pulled_def cn_sync_pull_result_init_internal_def)
next
  case (Some st)
  obtain a s1 where l: "load_account config s = (a, s1)" by (cases "load_account config s")
  note L = load_account_effect [OF l assms(2) Some]
  show ?thesis
  proof (cases "\<exists>r1 c1 v k. a = Account r1 c1 v k")
    case True
    then obtain r1 c1 v k where a: "a = Account r1 c1 v k" by blast
    have run: "cn_sync_pull_remote_current_book_resolved files u (Some (resolved_from_stores config v k))
        (cn_sync_pull_result_init_internal\<lparr>spull_settings_result := r1, spull_credential_result := c1\<rparr>) s1 n = (r, s', n')"
      using assms(1) Some l a by (simp add: cn_sync_pull_remote_current_book_def)
    have start: "nothing_pulled (cn_sync_pull_result_init_internal\<lparr>spull_settings_result := r1, spull_credential_result := c1\<rparr>)"
      "wf_os s1" "fs s1 = fs s" using L(1) by (simp_all add: nothing_pulled_def cn_sync_pull_result_init_internal_def calm_def)
    from resolved_pull_report [OF run start(2) assms(3) start(1)] start(3) L(2) [OF a] show ?thesis by blast
  next
    case False
    then have "nothing_pulled r \<and> s' = s1 \<and> n' = n"
      using assms(1) Some l by (cases a) (auto simp: cn_sync_pull_remote_current_book_def credentials_outcome_def pull_preflight_def
          nothing_pulled_def cn_sync_pull_result_init_internal_def split: if_splits)
    then show ?thesis using L(1) by (simp add: calm_def)
  qed
qed

lemma push_controller_report:
  assumes "cn_sync_push_local_current_book files u (Some config) s n = (r, s', n')" "wf_os s" "wf_net n"
  shows "nothing_pushed r \<and> fs s' = fs s \<and> n' = n \<or>
    spush_stage r = CN_SYNC_PUSH_EXECUTED \<and> spush_local_mutation r = CN_KOSYNC_MUTATION_NONE \<and>
    (spush_outcome r = CN_SYNC_PUSH_UPLOADED_OUTCOME \<longleftrightarrow> spush_remote_mutation r = CN_KOSYNC_MUTATION_CONFIRMED) \<and>
    (\<exists>settings credentials client s1. account_stored config (fs s) settings credentials \<and> fs s1 = fs s \<and>
      resolved_client (resolved_from_stores config settings credentials) = Some client \<and>
      push_sides files (sync_config_of (resolved_from_stores config settings credentials) client) r (s1, n) (s', n'))"
proof (cases "ctl_settings_store config")
  case None
  then show ?thesis using assms(1) by (auto simp: cn_sync_push_local_current_book_def nothing_pushed_def cn_sync_push_result_init_internal_def)
next
  case (Some st)
  obtain a s1 where l: "load_account config s = (a, s1)" by (cases "load_account config s")
  note L = load_account_effect [OF l assms(2) Some]
  show ?thesis
  proof (cases "\<exists>r1 c1 v k. a = Account r1 c1 v k")
    case True
    then obtain r1 c1 v k where a: "a = Account r1 c1 v k" by blast
    have run: "cn_sync_push_local_current_book_resolved files u (Some (resolved_from_stores config v k))
        (cn_sync_push_result_init_internal\<lparr>spush_settings_result := r1, spush_credential_result := c1\<rparr>) s1 n = (r, s', n')"
      using assms(1) Some l a by (simp add: cn_sync_push_local_current_book_def)
    have start: "nothing_pushed (cn_sync_push_result_init_internal\<lparr>spush_settings_result := r1, spush_credential_result := c1\<rparr>)"
      "wf_os s1" "fs s1 = fs s" using L(1) by (simp_all add: nothing_pushed_def cn_sync_push_result_init_internal_def calm_def)
    from resolved_push_report [OF run start(2) assms(3) start(1)] start(3) L(2) [OF a] show ?thesis by blast
  next
    case False
    then have "nothing_pushed r \<and> s' = s1 \<and> n' = n"
      using assms(1) Some l by (cases a) (auto simp: cn_sync_push_local_current_book_def credentials_outcome_def push_preflight_def
          nothing_pushed_def cn_sync_push_result_init_internal_def split: if_splits)
    then show ?thesis using L(1) by (simp add: calm_def)
  qed
qed

section \<open>A loaded profile\<close>

lemma bounded_nonempty: "bounded_text t m True \<Longrightarrow> nonempty_bounded t m"
  by (auto simp: bounded_text_def nonempty_bounded_def Let_def split: if_splits)

lemma stored_device_name: "cn_settings_validate (Some v) = CN_SETTINGS_OK \<Longrightarrow> valid_device_name (kosync_device_name v)"
  by (auto simp: cn_settings_validate_def settings_bounded_length_def Let_def valid_device_name_def split: if_splits)

lemma identity_text_preflight:
  assumes "identity_text t"
  shows "cn_sync_valid_device_id_internal (Some t)"
proof -
  have t: "terminated t" "length t = 32" "list_all lower_hex t"
    using assms lower_hex_plain by (auto simp: identity_text_def device_id_text_length_def terminated_def)
  have "list_all (\<lambda>c. printable c \<and> c \<noteq> 0 \<and> c < 0x80) t"
    using t(3) by (rule list.pred_mono_strong) (auto simp: lower_hex_def printable_def word_le_nat_alt word_less_nat_alt unat_eq_zero)
  then have "list_all printable t" "kosync_utf8_valid t" by (auto simp: list_all_iff intro!: ascii_utf8)
  then show ?thesis using t by (simp add: device_id_preflight strlen_def)
qed

text \<open>The inputs of a profile as those of a controller that reads the stores.\<close>

definition controller_of_profile :: "cn_persisted_sync_profile \<Rightarrow> cn_sync_runtime_inputs \<Rightarrow> cn_progress_store option \<Rightarrow>
    bytes option \<Rightarrow> cn_settings_store \<Rightarrow> cn_credential_store \<Rightarrow> cn_sync_controller_config" where
  "controller_of_profile p runtime progress_store document_path settings_store credential_store =
     \<lparr>ctl_settings_store = Some settings_store, ctl_credential_store = Some credential_store, ctl_progress_store = progress_store,
       ctl_document_path = document_path, ctl_device_id = Some (profile_device_id p), ctl_dns = run_dns runtime,
       ctl_tls = run_tls runtime, ctl_time_policy = run_time_policy runtime, ctl_time = run_time runtime\<rparr>"

lemma ready_profile:
  assumes "wf_os s" "cn_persisted_sync_profile_load (Some layout) out s = ((report, p), s')"
    and "profile_status report = CN_PERSISTED_SYNC_PROFILE_READY"
  obtains v k where "settings_stored layout (fs s) v" "credentials_stored layout (fs s) k" "valid_profile (Some p)"
    "cn_sync_valid_device_id_internal (Some (profile_device_id p))"
    "\<And>runtime store path' ss cs. resolved_from_profile p runtime store path' =
       resolved_from_stores (controller_of_profile p runtime store path' ss cs) v k"
proof -
  obtain v k where s: "settings_stored layout (fs s) v" "credentials_stored layout (fs s) k"
    "identity_stored layout (fs s) (profile_device_id p)" and p: "p = \<lparr>profile_base_url = kosync_base_url v,
      profile_username = credential_username k, profile_userkey = credential_userkey k,
      profile_device_id = profile_device_id p, profile_device_name = kosync_device_name v\<rparr>"
    using profile_load_effect(3) [OF assms(1,2)] assms(3) by auto
  have parts: "profile_base_url p = kosync_base_url v" "profile_username p = credential_username k"
    "profile_userkey p = credential_userkey k" "profile_device_name p = kosync_device_name v"
    by (subst p, simp)+
  have "valid_profile (Some p)"
    using s settings_texts_ok [of v] credential_texts_ok identity_text_ok stored_device_name [of v]
    by (simp add: valid_profile_def parts bounded_nonempty settings_stored_def credentials_stored_def identity_stored_def credentials_valid_def)
  moreover have "cn_sync_valid_device_id_internal (Some (profile_device_id p))"
    using s(3) identity_text_preflight by (simp add: identity_stored_def)
  moreover have "resolved_from_profile p runtime store path' =
       resolved_from_stores (controller_of_profile p runtime store path' ss cs) v k" for runtime store path' ss cs
    by (simp add: resolved_from_profile_def resolved_from_stores_def controller_of_profile_def parts)
  ultimately show ?thesis using that s(1,2) by blast
qed

section \<open>A sample run\<close>

text \<open>The account of Sync_Profile on a device whose network never answers.\<close>

definition sample_controller :: cn_sync_controller_config where
  "sample_controller = \<lparr>ctl_settings_store = Some sample_settings_store, ctl_credential_store = Some sample_credential_store,
     ctl_progress_store = Some sample_store, ctl_document_path = Some (str ''/books/a.epub''), ctl_device_id = Some sample_id,
     ctl_dns = Some sample_dns_config, ctl_tls = Some \<lparr>ca_path = Some (str ''/ca''), own_clock = False\<rparr>,
     ctl_time_policy = Known CN_KOSYNC_SYNC_TIME_CALLER_ESTABLISHED, ctl_time = None\<rparr>"

definition sample_runtime :: cn_sync_runtime_inputs where
  "sample_runtime = \<lparr>run_dns = Some sample_dns_config, run_tls = Some \<lparr>ca_path = Some (str ''/ca''), own_clock = False\<rparr>,
     run_time_policy = Known CN_KOSYNC_SYNC_TIME_CALLER_ESTABLISHED, run_time = None\<rparr>"

definition sample_account :: cn_sync_resolved_config where
  "sample_account = resolved_from_stores sample_controller sample_enabled sample_credentials"

lemma sample_account_loads:
  "\<exists>s. load_account sample_controller (account_disk []) = (Account CN_SETTINGS_OK CN_CREDENTIAL_OK sample_enabled sample_credentials, s)"
proof -
  let ?s = "account_disk []"
  have clean: "faults ?s = []" "pid ?s = str ''42''" by (simp_all add: account_disk_def)
  obtain s1 e where 1: "cn_settings_load (Some sample_settings_store) (Some zero_settings) ?s = ((CN_SETTINGS_OK, Some sample_enabled, e), s1)"
    "faults s1 = []" using sample_settings_load [OF clean(1) refl clean(2)] by blast
  have "fs s1 = fs ?s" using settings_load_effect [OF account_disk_facts(1) [of "[]"], of sample_settings_store zero_settings] 1(1)
    by (simp add: ends_def settings_load_outcome_def calm_def)
  then obtain s2 where 2: "cn_credential_store_load (Some sample_credential_store) (Some cn_credentials_clear) s1 =
      ((CN_CREDENTIAL_OK, Some sample_credentials, None), s2)" using sample_credential_load [OF 1(2)] by blast
  have "kosync_enabled sample_enabled = 1" by (simp add: sample_enabled_def)
  then show ?thesis using 1 2 sample_enabled_valid(1) by (simp add: load_account_def sample_controller_def)
qed

lemma sample_account_client: "\<exists>client. resolved_client sample_account = Some client"
proof -
  have "\<exists>c. cn_kosync_client_init (Some blank_client) (Some (str ''https://k.example'')) (Some (str ''reader'')) (Some (str ''0f'')) =
      (CN_KOSYNC_OK, Some c) \<and> use_tls c"
    by (simp add: cn_kosync_client_init_def header_text_ok_def kosync_bounded_length_def kosync_username_max_def kosync_userkey_max_def
        scan_nul_terminated url_scheme_def client_authority_def copy_url_part_def blank_client_def cn_netsimple_parse_port_def
        decimal_byte_def decimal_value_def netsimple_port_max_text_def netsimple_host_max_def client_path_def strip_path.simps
        kosync_base_path_max_def cn_netsimple_validate_def host_text_ok_def request_path_def char_at_def netsimple_path_max_def Let_def)
  then show ?thesis
    by (auto simp: resolved_client_def sample_account_def resolved_from_stores_def sample_enabled_def sample_credentials_def simp del: str_simps)
qed

lemma sample_account_ok: "resolved_inputs_ok sample_account" "cn_sync_valid_device_id_internal (rs_device_id sample_account)"
  "rs_device_id sample_account \<noteq> None"
  using identity_text_preflight [OF sample_id_text]
  by (simp_all add: resolved_inputs_ok_def sample_account_def resolved_from_stores_def sample_controller_def char_at_def)

lemma sample_store_run:
  "\<exists>s1. cn_sync_current_book files u (Some sample_controller) (account_disk []) n = cn_sync_current_book_resolved files u
     (Some sample_account) (cn_sync_controller_result_init_internal\<lparr>ctl_settings_result := CN_SETTINGS_OK,
       ctl_credential_result := CN_CREDENTIAL_OK\<rparr>) s1 n \<and>
   cn_sync_pull_remote_current_book files u (Some sample_controller) (account_disk []) n = cn_sync_pull_remote_current_book_resolved files u
     (Some sample_account) (cn_sync_pull_result_init_internal\<lparr>spull_settings_result := CN_SETTINGS_OK,
       spull_credential_result := CN_CREDENTIAL_OK\<rparr>) s1 n \<and>
   cn_sync_push_local_current_book files u (Some sample_controller) (account_disk []) n = cn_sync_push_local_current_book_resolved files u
     (Some sample_account) (cn_sync_push_result_init_internal\<lparr>spush_settings_result := CN_SETTINGS_OK,
       spush_credential_result := CN_CREDENTIAL_OK\<rparr>) s1 n \<and> wf_os s1"
proof -
  obtain s1 where l: "load_account sample_controller (account_disk []) = (Account CN_SETTINGS_OK CN_CREDENTIAL_OK sample_enabled sample_credentials, s1)"
    using sample_account_loads by blast
  have st: "ctl_settings_store sample_controller = Some sample_settings_store" by (simp add: sample_controller_def)
  have "wf_os s1" using load_account_effect(1) [OF l account_disk_facts(1) st] by (simp add: calm_def)
  then show ?thesis using l st
    by (auto simp: cn_sync_current_book_def cn_sync_pull_remote_current_book_def cn_sync_push_local_current_book_def sample_account_def)
qed

section \<open>Properties\<close>

text \<open>C37. The synchronisation controller tells the truth about both sides.  Whatever files, memory and network do, its result is
  always one that the policy classified, never a guess.  Unless it came to the run, no file changed, nothing was sent
  and no success is claimed.  A run is made only with the account that both stores hold; success is
  claimed exactly when it ended OK, and its mutations say what happened to the record file and on the wire.\<close>

theorem sync_controller_reports_what_happened:
  assumes "cn_sync_current_book files u (Some config) s n = (r, s', n')" "wf_os s" "wf_net n"
  shows "ctl_stage r \<noteq> CN_SYNC_CONTROLLER_CLASSIFICATION_FAILED \<and> \<not> ctl_evidence_conservative r \<and>
    (if ctl_stage r = CN_SYNC_CONTROLLER_INTEGRATION
     then \<exists>settings credentials client sync s1. let account = resolved_from_stores config settings credentials in
       account_stored config (fs s) settings credentials \<and> resolved_client account = Some client \<and> fs s1 = fs s \<and>
       cn_kosync_sync_once files u (Some (sync_config_of account client)) (Some sync_blank) s1 n = (Some sync, s', n') \<and>
       (outcome (ctl_product r) \<in> synced_outcomes \<longleftrightarrow> sync_status sync = Known CN_KOSYNC_SYNC_STATUS_OK) \<and>
       sides_as_reported files (sync_config_of account client) (ctl_product r)
         (sync_status sync = Known CN_KOSYNC_SYNC_STATUS_AUTH_FAILED) (remote_progress sync) (s1, n) (s', n')
     else fs s' = fs s \<and> n' = n \<and> outcome (ctl_product r) \<notin> synced_outcomes \<and>
       local_mutation (ctl_product r) = CN_KOSYNC_MUTATION_NONE \<and> remote_mutation (ctl_product r) = CN_KOSYNC_MUTATION_NONE)"
  using sync_controller_report [OF assms] unfolding Let_def
proof (elim disjE, goal_cases)
  case 1
  then show ?case by (auto simp: nothing_done_def)
next
  case 2
  then have stage: "ctl_stage r = CN_SYNC_CONTROLLER_INTEGRATION" by blast
  then have "ctl_stage r \<noteq> CN_SYNC_CONTROLLER_CLASSIFICATION_FAILED" by simp
  then show ?case unfolding if_P [OF stage] using 2 by blast
qed

text \<open>C38. The pull controller only reads the server: it sends at most one GET, reports no remote change, and says PERSISTED exactly when
  the record file was confirmed to be the synced image of a record for this document.  A local change that it calls
  possible left the old bytes, NONE left every file, and without the stored account nothing happens at all.\<close>

theorem pull_controller_reports_what_happened:
  assumes "cn_sync_pull_remote_current_book files u (Some config) s n = (r, s', n')" "wf_os s" "wf_net n"
  shows "spull_remote_mutation r = CN_KOSYNC_MUTATION_NONE \<and>
    (spull_outcome r = CN_SYNC_PULL_PERSISTED_OUTCOME \<longleftrightarrow> spull_local_mutation r = CN_KOSYNC_MUTATION_CONFIRMED) \<and>
    (if spull_stage r = CN_SYNC_PULL_EXECUTED
     then \<exists>settings credentials client s1. let account = resolved_from_stores config settings credentials in
       account_stored config (fs s) settings credentials \<and> resolved_client account = Some client \<and> fs s1 = fs s \<and>
       pull_sides files (pull_config_of account client) r (s1, n) (s', n')
     else fs s' = fs s \<and> n' = n)"
  using pull_controller_report [OF assms] unfolding Let_def nothing_pulled_def by auto

text \<open>C39. The push controller never changes a file.  It says UPLOADED exactly when it confirms the remote change, and then the whole
  PUT was sent; where it reports no remote change not a byte was sent; and without the stored account
  nothing happens at all.\<close>

theorem push_controller_reports_what_happened:
  assumes "cn_sync_push_local_current_book files u (Some config) s n = (r, s', n')" "wf_os s" "wf_net n"
  shows "fs s' = fs s \<and> spush_local_mutation r = CN_KOSYNC_MUTATION_NONE \<and>
    (spush_outcome r = CN_SYNC_PUSH_UPLOADED_OUTCOME \<longleftrightarrow> spush_remote_mutation r = CN_KOSYNC_MUTATION_CONFIRMED) \<and>
    (if spush_stage r = CN_SYNC_PUSH_EXECUTED
     then \<exists>settings credentials client s1. let account = resolved_from_stores config settings credentials in
       account_stored config (fs s) settings credentials \<and> resolved_client account = Some client \<and> fs s1 = fs s \<and>
       push_sides files (sync_config_of account client) r (s1, n) (s', n')
     else n' = n)"
  using push_controller_report [OF assms] unfolding Let_def
proof (elim disjE, goal_cases)
  case 1
  then show ?case by (auto simp: nothing_pushed_def)
next
  case 2
  then have stage: "spush_stage r = CN_SYNC_PUSH_EXECUTED" by blast
  have "fs s' = fs s" using 2 push_sides_files by (metis fst_conv)
  then show ?case unfolding if_P [OF stage] using 2 by blast
qed

text \<open>C40. A loaded profile always passes the controllers' own checks, and running with it is running with the stores: each of
  the three entry points is the resolved run on the account that the stores hold.\<close>

theorem profile_run_is_the_store_run:
  assumes "wf_os s" "cn_persisted_sync_profile_load (Some layout) out s = ((report, p), s')"
    and "profile_status report = CN_PERSISTED_SYNC_PROFILE_READY" "valid_operation_inputs (Some runtime) store path'"
  shows "\<exists>v k. settings_stored layout (fs s) v \<and> credentials_stored layout (fs s) k \<and>
    (let account = resolved_from_stores (controller_of_profile p runtime store path' settings_store credential_store) v k in
      cn_sync_current_book_with_profile files u (Some p) (Some runtime) store path' t n =
        cn_sync_current_book_resolved files u (Some account) cn_sync_controller_result_init_internal t n \<and>
      cn_sync_pull_remote_current_book_with_profile files u (Some p) (Some runtime) store path' t n =
        cn_sync_pull_remote_current_book_resolved files u (Some account) cn_sync_pull_result_init_internal t n \<and>
      cn_sync_push_local_current_book_with_profile files u (Some p) (Some runtime) store path' t n =
        cn_sync_push_local_current_book_resolved files u (Some account) cn_sync_push_result_init_internal t n)"
proof -
  obtain v k where r: "settings_stored layout (fs s) v" "credentials_stored layout (fs s) k" "valid_profile (Some p)"
    "cn_sync_valid_device_id_internal (Some (profile_device_id p))"
    "resolved_from_profile p runtime store path' =
       resolved_from_stores (controller_of_profile p runtime store path' settings_store credential_store) v k"
    using ready_profile [OF assms(1-3)] by metis
  have "valid_device_name (profile_device_name p)" using r(3) by (simp add: valid_profile_def)
  then show ?thesis
    using r assms(4) by (intro exI [of _ v] exI [of _ k]) (simp add: cn_sync_current_book_with_profile_def
      cn_sync_pull_remote_current_book_with_profile_def cn_sync_push_local_current_book_with_profile_def Let_def)
qed

theorem sync_controller_reports_what_happened_witness:
  "\<exists>r s' n'. cn_sync_current_book sample_book (\<lambda>_. False) (Some sample_controller) (account_disk []) (idle_network []) = (r, s', n') \<and>
     ctl_stage r = CN_SYNC_CONTROLLER_INTEGRATION \<and> sockets n' = {}"
proof -
  obtain r s' n' where run: "cn_sync_current_book sample_book (\<lambda>_. False) (Some sample_controller) (account_disk []) (idle_network []) = (r, s', n')"
    by (metis prod_cases3)
  obtain s1 out where s1: "cn_sync_current_book_resolved sample_book (\<lambda>_. False) (Some sample_account) out s1 (idle_network []) = (r, s', n')"
    "wf_os s1" using sample_store_run [of sample_book "\<lambda>_. False" "idle_network []"] run by auto
  obtain client where client: "resolved_client sample_account = Some client" using sample_account_client by blast
  obtain sync where "r = report_sync sync out" "cn_kosync_sync_once sample_book (\<lambda>_. False) (Some (sync_config_of sample_account client))
      (Some sync_blank) s1 (idle_network []) = (Some sync, s', n')"
    using resolved_runs(1) [OF sample_account_ok(1) client sample_account_ok(2), of sample_book "\<lambda>_. False" s1 "idle_network []" out] s1(1) by auto
  then have "ctl_stage r = CN_SYNC_CONTROLLER_INTEGRATION"
    using report_sync_classified [OF _ s1(2) idle_network_wf] by blast
  then show ?thesis using sync_controller_reports_what_happened [OF run account_disk_facts(1) idle_network_wf] run
    by (auto simp: Let_def sides_as_reported_def idle_network_def)
qed

theorem pull_controller_reports_what_happened_witness:
  "\<exists>r s' n'. cn_sync_pull_remote_current_book sample_book (\<lambda>_. False) (Some sample_controller) (account_disk []) (idle_network []) = (r, s', n') \<and>
     spull_stage r = CN_SYNC_PULL_EXECUTED \<and> spull_remote_mutation r = CN_KOSYNC_MUTATION_NONE \<and> sockets n' = {}"
proof -
  obtain r s' n' where run: "cn_sync_pull_remote_current_book sample_book (\<lambda>_. False) (Some sample_controller) (account_disk []) (idle_network []) = (r, s', n')"
    by (metis prod_cases3)
  obtain s1 out where s1: "cn_sync_pull_remote_current_book_resolved sample_book (\<lambda>_. False) (Some sample_account) out s1 (idle_network []) = (r, s', n')"
    using sample_store_run [of sample_book "\<lambda>_. False" "idle_network []"] run by auto
  obtain client where client: "resolved_client sample_account = Some client" using sample_account_client by blast
  have "spull_stage r = CN_SYNC_PULL_EXECUTED"
    using resolved_runs(2) [OF sample_account_ok(1) client, of sample_book "\<lambda>_. False" out s1 "idle_network []"] s1
    by (auto simp: report_pull_def)
  then show ?thesis using pull_controller_reports_what_happened [OF run account_disk_facts(1) idle_network_wf] run
    by (auto simp: Let_def pull_sides_def idle_network_def)
qed

theorem push_controller_reports_what_happened_witness:
  "\<exists>r s' n'. cn_sync_push_local_current_book sample_book (\<lambda>_. False) (Some sample_controller) (account_disk []) (idle_network []) = (r, s', n') \<and>
     spush_stage r = CN_SYNC_PUSH_EXECUTED \<and> fs s' = fs (account_disk []) \<and> sockets n' = {}"
proof -
  obtain r s' n' where run: "cn_sync_push_local_current_book sample_book (\<lambda>_. False) (Some sample_controller) (account_disk []) (idle_network []) = (r, s', n')"
    by (metis prod_cases3)
  obtain s1 out where s1: "cn_sync_push_local_current_book_resolved sample_book (\<lambda>_. False) (Some sample_account) out s1 (idle_network []) = (r, s', n')"
    using sample_store_run [of sample_book "\<lambda>_. False" "idle_network []"] run by auto
  obtain client where client: "resolved_client sample_account = Some client" using sample_account_client by blast
  have "spush_stage r = CN_SYNC_PUSH_EXECUTED"
    using resolved_runs(3) [OF sample_account_ok(1) client sample_account_ok(3), of sample_book "\<lambda>_. False" out s1 "idle_network []"] s1
    by (auto simp: report_push_def)
  then show ?thesis using push_controller_reports_what_happened [OF run account_disk_facts(1) idle_network_wf] run
    by (auto simp: Let_def push_sides_def idle_network_def)
qed

theorem profile_run_is_the_store_run_witness:
  "\<exists>report p s' account. cn_persisted_sync_profile_load (Some sample_layout) True (account_disk []) = ((report, p), s') \<and>
     cn_sync_current_book_with_profile sample_book (\<lambda>_. False) (Some p) (Some sample_runtime) (Some sample_store) (Some (str ''/books/a.epub''))
       s' (idle_network []) = cn_sync_current_book_resolved sample_book (\<lambda>_. False) (Some account) cn_sync_controller_result_init_internal
       s' (idle_network [])"
proof -
  obtain report p s' where run: "cn_persisted_sync_profile_load (Some sample_layout) True (account_disk []) = ((report, p), s')"
    "profile_status report = CN_PERSISTED_SYNC_PROFILE_READY" using sample_profile_run by blast
  have "valid_operation_inputs (Some sample_runtime) (Some sample_store) (Some (str ''/books/a.epub''))"
    by (simp add: valid_operation_inputs_def valid_runtime_def sample_runtime_def sample_dns_config_def dns_max_servers_def char_at_def)
  from profile_run_is_the_store_run [OF account_disk_facts(1) run this, of sample_settings_store sample_credential_store sample_book
      "\<lambda>_. False" s' "idle_network []"] run(1) show ?thesis unfolding Let_def by blast
qed

end
