(* ===== verification/Spec2Isabelle.thy ===== *)
theory Spec2Isabelle
  imports Text_Input Sync_Controllers
begin

text \<open>
  A verification development for CrossNook, the firmware of an e-book reader (src/src, C).

  The program keeps, for every book, a record of the reading position; it can synchronise that position
  with a KOSync server.  A book is known locally by a key made from its path (progress/book_identity.c)
  and at the server by the MD5 of samples of the file (book/md5.c, book/koreader_identity.c).  Positions
  are kept by progress/progress_store.c, the account settings by settings/settings_store.c, both with the
  same protocol: an image with a checksum is written to a scratch file, synchronised, renamed over the old
  file, and the directory is synchronised.  storage/storage_layout.c makes the directories they lie in.
  sync/kosync.c speaks the protocol of the server, JSON over HTTP (net/netsimple.c), and
  sync/kosync_policy.c turns the evidence of one synchronisation into what the user is told.
  ui/account_text_input.c is the text field in which an account is entered.

  The theories, and the code they model:
  \<^item> Prelude: bytes, C strings, 32-bit big-endian words and hexadecimal digits, shared by all.
  \<^item> Posix: the file system calls the stores use, as functions on a record \<open>os\<close>.  A schedule of faults
    makes any call fail, be short or be interrupted; the history of file systems records every moment at
    which power could fail.  The locale \<open>clean_writer\<close> gathers what a routine must do to replace a file.
  \<^item> Crc32, Md5, Utf8: the checksum, the digest, and the four validators of text, which are written
    differently in the code and are proved to agree.
  \<^item> Koreader_Identity, Book_Identity: the two names of a book.
  \<^item> Progress_Store, Settings_Store, Storage_Layout: the stores and the directories.
  \<^item> Sync_Types: the enumerations and records that the layers of synchronisation pass to each other.
  \<^item> Binary64: the doubles of the target, rationals with rounding to 53 bits.
  \<^item> Kosync_Json: records of progress, the bounded JSON writer and the JSON reader of sync/kosync.c.
  \<^item> Kosync_Policy: the classification of a synchronisation.
  \<^item> Text_Input: the text field and its on-screen keyboard.

  A function of the code is a definition of its name; where a name is taken the definition has the name of
  its file as a prefix.  A pointer is an \<open>option\<close>, \<open>None\<close> for NULL; an output argument is part of the
  result; an enumeration is a datatype, under \<open>enum_value\<close> where the code tests for other values.  Loops
  are recursive functions that are proved to terminate; none has fuel.  A loop that repeats an interrupted
  call ends because a schedule of faults is finite.

  The properties: a save is atomic under every schedule of faults and a load after it gives what was
  saved; a damaged file is not loaded; the validators, parsers and writers accept and produce exactly the
  languages they document; a progress record survives its JSON text, through decimal and double
  arithmetic; the policy claims only what the evidence proves and fails closed; the text field stays
  well-formed and refines a text with a cursor.

  Not modelled: the sockets, TLS, DNS and time clients and the controllers that run them, the credential
  and device stores and the account screens, which are planned; the user interface, drawing, fonts and
  input devices, which act on hardware; the CREngine and BearSSL libraries, whose code is not in the
  repository; the test programs.
\<close>

end
